(* ===== verification/Prelude.thy ===== *)
theory Prelude
  imports Main "HOL-Library.Multiset" "HOL-Library.Word" "HOL-Library.Char_ord" "HOL-Library.List_Lexorder"
begin

text \<open>
  Shared vocabulary of the development: the collections of facts the component theories add
  to, the type names of the model, and the generic lemmas on lists, options, maps and words
  that more than one component uses. Nothing here models code.
\<close>

section \<open>Collections\<close>

named_theorems go_simps \<open>defining equations of the modelled Go library routines\<close>
named_theorems path_simps \<open>facts about path components and cleaned paths\<close>
named_theorems resp_simps \<open>facts about response writers\<close>

section \<open>Types\<close>

text \<open>
  A Go \<open>string\<close> or \<open>[]byte\<close> is a list of bytes, Isabelle's \<open>char\<close> being one byte.
  Times and durations are nanoseconds. Go's \<open>(T, error)\<close> results are sums with the
  error on the left.
\<close>

type_synonym bytes = "char list"
type_synonym headers = "string \<Rightarrow> string option"
type_synonym time = int
type_synonym duration = int
type_synonym u64 = "64 word"
type_synonym u32 = "32 word"

abbreviation second :: duration where "second \<equiv> 1000000000"
abbreviation minute :: duration where "minute \<equiv> 60 * second"
abbreviation hour :: duration where "hour \<equiv> 60 * minute"

section \<open>Lists\<close>

lemma takeWhile_hd_dropWhile:
  "dropWhile P xs = y # ys \<Longrightarrow> \<not> P y"
  by (metis hd_dropWhile list.distinct(1) list.sel(1))

lemma takeWhile_all: "\<forall>x \<in> set (takeWhile P xs). P x"
  by (auto dest: set_takeWhileD)

lemma takeWhile_append_stop:
  "\<forall>x \<in> set xs. P x \<Longrightarrow> \<not> P y \<Longrightarrow> takeWhile P (xs @ y # ys) = xs"
  by (induction xs) auto

lemma dropWhile_append_stop:
  "\<forall>x \<in> set xs. P x \<Longrightarrow> \<not> P y \<Longrightarrow> dropWhile P (xs @ y # ys) = y # ys"
  by (induction xs) auto

lemma sum_list_filter_le:
  fixes f :: "'a \<Rightarrow> nat"
  shows "sum_list (map f (filter P xs)) \<le> sum_list (map f xs)"
  by (induction xs) auto

lemma sum_list_nonneg_map:
  fixes f :: "'a \<Rightarrow> int"
  shows "(\<And>x. x \<in> set xs \<Longrightarrow> 0 \<le> f x) \<Longrightarrow> 0 \<le> sum_list (map f xs)"
  by (induction xs) (auto simp: add_nonneg_nonneg)

section \<open>Maps\<close>

lemma map_upd_SomeD: "(m(k \<mapsto> v)) k' = Some w \<Longrightarrow> (k' = k \<and> w = v) \<or> (k' \<noteq> k \<and> m k' = Some w)"
  by (auto split: if_splits)

lemma map_upd_delete_SomeD: "(m(k := None)) k' = Some w \<Longrightarrow> k' \<noteq> k \<and> m k' = Some w"
  by (auto split: if_splits)

section \<open>Sorting by a key\<close>

text \<open>
  \<open>sort.Slice\<close> is not stable, so a client of the model never relies on the order of equal
  elements: it works for every list that \<open>is_sorted_perm\<close> relates to the input.
\<close>

definition is_sorted_perm :: "('a \<Rightarrow> 'b::linorder) \<Rightarrow> 'a list \<Rightarrow> 'a list \<Rightarrow> bool" where
  "is_sorted_perm f xs ys \<longleftrightarrow> mset ys = mset xs \<and> sorted (map f ys)"

lemma is_sorted_perm_sort_key: "is_sorted_perm f xs (sort_key f xs)"
  by (simp add: is_sorted_perm_def)

lemma is_sorted_perm_set: "is_sorted_perm f xs ys \<Longrightarrow> set ys = set xs"
  unfolding is_sorted_perm_def by (metis set_mset_mset)

lemma is_sorted_perm_length: "is_sorted_perm f xs ys \<Longrightarrow> length ys = length xs"
  unfolding is_sorted_perm_def by (metis size_mset)

lemma is_sorted_perm_sum:
  fixes g :: "'a \<Rightarrow> 'c::comm_monoid_add"
  assumes "is_sorted_perm f xs ys"
  shows "sum_list (map g ys) = sum_list (map g xs)"
proof -
  have "mset (map g ys) = mset (map g xs)"
    using assms by (simp add: is_sorted_perm_def)
  then show ?thesis by (metis sum_mset_sum_list)
qed

end
