(* ===== verification/GoFacts.thy ===== *)
theory GoFacts
  imports GoLib
begin

text \<open>
  Facts about the library routines of GoLib that the component theories share: splitting and
  joining on a separator are inverse, a cleaned rooted path has only plain components, and
  joining a root with plain components cannot leave the root.
\<close>

section \<open>Prefixes and suffixes\<close>

lemma has_prefix_append [simp]: "has_prefix (p @ s) p"
  by (simp add: has_prefix_def)

lemma has_prefix_iff: "has_prefix s p \<longleftrightarrow> (\<exists>r. s = p @ r)"
  unfolding has_prefix_def by (metis append_take_drop_id append_eq_conv_conj)

lemma has_suffix_append [simp]: "has_suffix (s @ p) p"
  by (simp add: has_suffix_def)

lemma has_suffix_iff: "has_suffix s p \<longleftrightarrow> (\<exists>r. s = r @ p)"
  unfolding has_suffix_def
  by (metis add_diff_cancel_right' append_eq_conv_conj append_take_drop_id length_append
      le_add2)

lemma cut_prefix_append [simp]: "cut_prefix (p @ s) p = Some s"
  by (simp add: cut_prefix_def)

lemma cut_prefix_Some: "cut_prefix s p = Some r \<longleftrightarrow> s = p @ r"
  by (auto simp: cut_prefix_def has_prefix_iff)

lemma cut_prefix_None: "cut_prefix s p = None \<longleftrightarrow> \<not> has_prefix s p"
  by (simp add: cut_prefix_def)

lemma cut_suffix_append [simp]: "cut_suffix (s @ p) p = Some s"
  by (simp add: cut_suffix_def)

lemma cut_suffix_Some: "cut_suffix s p = Some r \<longleftrightarrow> s = r @ p"
  by (auto simp: cut_suffix_def has_suffix_iff)

lemma trim_suffix_append [simp]: "trim_suffix (s @ p) p = s"
  by (simp add: trim_suffix_def)

lemma trim_prefix_append [simp]: "trim_prefix (p @ s) p = s"
  by (simp add: trim_prefix_def)

section \<open>Cutting and splitting\<close>

lemma cut_found: "c \<notin> set a \<Longrightarrow> cut (a @ c # b) c = (a, b, True)"
proof -
  assume "c \<notin> set a"
  then have "\<forall>x \<in> set a. x \<noteq> c" by auto
  then show ?thesis
    by (simp add: cut_def dropWhile_append_stop takeWhile_append_stop)
qed

lemma cut_not_found: "c \<notin> set s \<Longrightarrow> cut s c = (s, [], False)"
proof -
  assume "c \<notin> set s"
  then have dw: "dropWhile (\<lambda>x. x \<noteq> c) s = []" by (induction s) auto
  show ?thesis unfolding cut_def dw by simp
qed

lemma cut_TrueD:
  assumes "cut s c = (a, b, True)"
  shows "s = a @ c # b \<and> c \<notin> set a"
proof (cases "dropWhile (\<lambda>x. x \<noteq> c) s")
  case Nil
  with assms show ?thesis by (simp add: cut_def)
next
  case (Cons x r)
  with assms have ab: "a = takeWhile (\<lambda>x. x \<noteq> c) s" "b = r" by (simp_all add: cut_def)
  have "x = c" using takeWhile_hd_dropWhile [OF Cons] by simp
  moreover have "s = takeWhile (\<lambda>x. x \<noteq> c) s @ dropWhile (\<lambda>x. x \<noteq> c) s" by simp
  moreover have "c \<notin> set (takeWhile (\<lambda>x. x \<noteq> c) s)" by (auto dest: set_takeWhileD)
  ultimately show ?thesis using ab Cons by simp
qed

lemma cut_FalseD: "cut s c = (a, b, False) \<Longrightarrow> c \<notin> set s \<and> a = s \<and> b = []"
  unfolding cut_def by (auto split: list.splits)

lemma split_on_not_Nil [simp]: "split_on c s \<noteq> []"
  by (induction s) (auto split: list.splits)

lemma split_on_free: "p \<in> set (split_on c s) \<Longrightarrow> c \<notin> set p"
  by (induction s arbitrary: p) (auto split: if_splits list.splits)

lemma split_on_id: "c \<notin> set s \<Longrightarrow> split_on c s = [s]"
  by (induction s) auto

lemma split_on_sep: "c \<notin> set p \<Longrightarrow> split_on c (p @ c # s) = p # split_on c s"
  by (induction p) auto

lemma join_with_Cons: "ss \<noteq> [] \<Longrightarrow> join_with sep (s # ss) = s @ sep @ join_with sep ss"
  by (cases ss) auto

lemma split_on_join:
  "ps \<noteq> [] \<Longrightarrow> (\<And>p. p \<in> set ps \<Longrightarrow> c \<notin> set p) \<Longrightarrow> split_on c (join_with [c] ps) = ps"
proof (induction ps)
  case (Cons p ps)
  show ?case
  proof (cases ps)
    case Nil
    with Cons.prems show ?thesis by (simp add: split_on_id)
  next
    case (Cons q qs)
    with Cons.prems Cons.IH show ?thesis
      by (simp add: join_with_Cons split_on_sep)
  qed
qed simp

lemma join_split_on: "join_with [c] (split_on c s) = s"
proof (induction s)
  case (Cons x xs)
  obtain p ps where "split_on c xs = p # ps"
    by (metis neq_Nil_conv split_on_not_Nil)
  with Cons show ?case by (cases ps) auto
qed simp

section \<open>Plain components and cleaned paths\<close>

definition plain :: "string \<Rightarrow> bool" where
  "plain p \<longleftrightarrow> p \<noteq> [] \<and> p \<noteq> ''.'' \<and> p \<noteq> ''..'' \<and> slash \<notin> set p"

lemma plainD: "plain p \<Longrightarrow> p \<noteq> []" "plain p \<Longrightarrow> p \<noteq> ''.''" "plain p \<Longrightarrow> p \<noteq> ''..''"
  "plain p \<Longrightarrow> slash \<notin> set p"
  by (auto simp: plain_def)

lemma clean_parts_plain:
  "list_all plain ps \<Longrightarrow> clean_parts r ps acc = rev acc @ ps"
  by (induction ps arbitrary: acc) (auto simp: plain_def)

lemma clean_parts_rooted_plain:
  "list_all plain acc \<Longrightarrow> (\<And>p. p \<in> set ps \<Longrightarrow> slash \<notin> set p) \<Longrightarrow>
   list_all plain (clean_parts True ps acc)"
proof (induction "True" ps acc rule: clean_parts.induct)
  case (2 p ps acc)
  then show ?case
    by (cases acc) (auto simp: plain_def)
qed (simp add: list_all_iff)

lemma clean_comps_plain: "is_abs p \<Longrightarrow> list_all plain (clean_comps p)"
  unfolding clean_comps_def
  by (simp add: clean_parts_rooted_plain split_on_free)

lemma is_abs_Cons [simp]: "is_abs (c # s) \<longleftrightarrow> c = slash"
  by (simp add: is_abs_def has_prefix_def)

lemma is_abs_Nil [simp]: "\<not> is_abs []"
  by (simp add: is_abs_def has_prefix_def)

lemma clean_abs: "is_abs p \<Longrightarrow> clean p = slash # join_with ''/'' (clean_comps p)"
  by (simp add: clean_def)

lemma is_abs_clean [simp]: "is_abs p \<Longrightarrow> is_abs (clean p)"
  by (simp add: clean_abs)

lemma comps_of_abs_plain:
  assumes "list_all plain ps"
  shows "clean_comps (slash # join_with ''/'' ps) = ps"
proof (cases ps)
  case Nil
  then show ?thesis by (simp add: clean_comps_def)
next
  case (Cons q qs)
  have "split_on slash (join_with ''/'' ps) = ps"
    using assms Cons by (intro split_on_join) (auto simp: list_all_iff plain_def)
  with assms show ?thesis
    by (simp add: clean_comps_def clean_parts_plain)
qed

lemma clean_comps_clean: "is_abs p \<Longrightarrow> clean_comps (clean p) = clean_comps p"
  by (simp add: clean_abs comps_of_abs_plain clean_comps_plain)

lemma clean_idem_abs: "is_abs p \<Longrightarrow> clean (clean p) = clean p"
  by (metis clean_abs clean_comps_clean is_abs_clean)

lemma clean_abs_eq_iff:
  assumes "is_abs p" "is_abs q"
  shows "clean p = clean q \<longleftrightarrow> clean_comps p = clean_comps q"
  by (metis assms clean_abs clean_comps_clean)

lemma clean_parts_append_plain:
  "list_all plain qs \<Longrightarrow> clean_parts r (ps @ qs) acc = clean_parts r ps acc @ qs"
proof (induction r ps acc rule: clean_parts.induct)
  case (1 rooted acc)
  then show ?case by (simp add: clean_parts_plain)
next
  case (2 rooted p ps acc)
  then show ?case by (auto split: list.splits)
qed

lemma split_on_append_join:
  assumes "qs \<noteq> []" and "\<And>q. q \<in> set qs \<Longrightarrow> c \<notin> set q"
  shows "split_on c (s @ c # join_with [c] qs) = split_on c s @ qs"
  using assms(2)
proof (induction s)
  case Nil
  then show ?case using assms split_on_join by simp
next
  case (Cons x xs)
  then have IH: "split_on c (xs @ c # join_with [c] qs) = split_on c xs @ qs" by simp
  obtain p ps where "split_on c xs = p # ps"
    by (metis neq_Nil_conv split_on_not_Nil)
  with IH show ?case by auto
qed

text \<open>Joining a rooted directory with plain components appends exactly those components.\<close>

lemma path_join_comps:
  assumes "is_abs d" "list_all plain qs" "qs \<noteq> []"
  shows "clean_comps (path_join (d # qs)) = clean_comps d @ qs"
    and "is_abs (path_join (d # qs))"
proof -
  have free: "\<And>q. q \<in> set qs \<Longrightarrow> slash \<notin> set q"
    using assms(2) by (auto simp: list_all_iff plain_def)
  have d: "d \<noteq> []" using assms(1) by auto
  have j: "join_with ''/'' (d # qs) = d @ slash # join_with ''/'' qs"
    using assms(3) by (simp add: join_with_Cons)
  have a: "is_abs (join_with ''/'' (d # qs))"
    using assms(1) d j by (cases d) auto
  have pj: "path_join (d # qs) = clean (join_with ''/'' (d # qs))"
    using d by (simp add: path_join_def)
  show "is_abs (path_join (d # qs))" using a pj by simp
  have "clean_comps (path_join (d # qs)) = clean_comps (join_with ''/'' (d # qs))"
    using a pj by (simp add: clean_comps_clean)
  also have "\<dots> = clean_parts True (split_on slash d @ qs) []"
    using a j assms(3) free by (simp add: clean_comps_def split_on_append_join)
  also have "\<dots> = clean_comps d @ qs"
    using assms(1,2) by (simp add: clean_comps_def clean_parts_append_plain)
  finally show "clean_comps (path_join (d # qs)) = clean_comps d @ qs" .
qed

section \<open>Decimal numerals and escaping\<close>

lemma html_escape_Nil [simp]: "html_escape [] = []"
  by (simp add: html_escape_def)

lemma html_escape_Cons: "html_escape (c # s) = html_escape_char c @ html_escape s"
  by (simp add: html_escape_def)

lemma html_escape_char_safe:
  "CHR ''<'' \<notin> set (html_escape_char c)" "CHR ''>'' \<notin> set (html_escape_char c)"
  "CHR 0x22 \<notin> set (html_escape_char c)" "CHR 0x27 \<notin> set (html_escape_char c)"
  by (simp_all add: html_escape_char_def)

lemma html_escape_safe:
  "CHR ''<'' \<notin> set (html_escape s)" "CHR ''>'' \<notin> set (html_escape s)"
  "CHR 0x22 \<notin> set (html_escape s)" "CHR 0x27 \<notin> set (html_escape s)"
  using html_escape_char_safe by (auto simp: html_escape_def)

text \<open>Where a character occurs once is where both searches find it.\<close>

lemma str_index_found: "c \<notin> set a \<Longrightarrow> str_index (a @ c # b) c = int (length a)"
proof -
  assume "c \<notin> set a"
  then have "\<forall>x \<in> set a. x \<noteq> c" by auto
  then have "takeWhile (\<lambda>x. x \<noteq> c) (a @ c # b) = a" by (intro takeWhile_append_stop) simp_all
  then show ?thesis by (simp add: str_index_def)
qed

lemma str_last_index_found: "c \<notin> set b \<Longrightarrow> str_last_index (a @ c # b) c = int (length a)"
proof -
  assume "c \<notin> set b"
  then have "\<forall>x \<in> set (rev b). x \<noteq> c" by auto
  then have "takeWhile (\<lambda>x. x \<noteq> c) (rev b @ c # rev a) = rev b"
    by (intro takeWhile_append_stop) simp_all
  then show ?thesis by (simp add: str_last_index_def)
qed

lemma str_index_absent: "c \<notin> set s \<Longrightarrow> str_index s c = - 1"
  by (simp add: str_index_def)

end
