(* ===== verification/FileSys.thy ===== *)
theory FileSys
  imports GoFacts "HOL-Library.Sublist"
begin

text \<open>
  The part of a Unix file system that the \<open>os\<close> package shows the modelled services: a
  finite table from cleaned paths (lists of components) to directories and regular files.
  Failures that depend on the machine (permissions, a full disk) are decided by the callers'
  environment; here are the failures the tree itself causes.
\<close>

section \<open>Nodes and paths\<close>

datatype fsnode = Dir (mtime: time) | Reg (content: bytes) (mtime: time)

type_synonym path = "string list"
type_synonym fs = "(path \<times> fsnode) list"

definition fs_get :: "fs \<Rightarrow> path \<Rightarrow> fsnode option" where
  "fs_get f p = map_of f p"

fun is_dir :: "fsnode option \<Rightarrow> bool" where
  "is_dir (Some (Dir _)) = True"
| "is_dir _ = False"

definition fs_put :: "fs \<Rightarrow> path \<Rightarrow> fsnode \<Rightarrow> fs" where
  "fs_put f p n = (p, n) # filter (\<lambda>e. fst e \<noteq> p) f"

section \<open>Operations of the os package\<close>

definition fs_stat :: "fs \<Rightarrow> path \<Rightarrow> bool" where
  "fs_stat f p \<longleftrightarrow> fs_get f p \<noteq> None"

text \<open>\<open>os.ReadDir\<close>: the entries of a directory sorted by name, an error when it is not one.\<close>

definition fs_readdir :: "fs \<Rightarrow> path \<Rightarrow> string list option" where
  "fs_readdir f d = (if is_dir (fs_get f d)
     then Some (sort (remdups (map (\<lambda>e. last (fst e))
            (filter (\<lambda>e. fst e \<noteq> [] \<and> butlast (fst e) = d) f))))
     else None)"

fun mkdirs :: "time \<Rightarrow> path \<Rightarrow> path \<Rightarrow> fs \<Rightarrow> fs option" where
  "mkdirs now d [] f = (if is_dir (fs_get f d) then Some f else None)"
| "mkdirs now d (c # cs) f =
     (if \<not> is_dir (fs_get f d) then None
      else mkdirs now (d @ [c]) cs
        (if fs_get f (d @ [c]) = None then fs_put f (d @ [c]) (Dir now) else f))"

definition fs_mkdir_all :: "time \<Rightarrow> path \<Rightarrow> fs \<Rightarrow> fs option" where
  "fs_mkdir_all now p f = mkdirs now [] p f"

text \<open>\<open>os.Create\<close>, \<open>os.WriteFile\<close>: the parent must be a directory and the name not one.\<close>

definition fs_write :: "time \<Rightarrow> path \<Rightarrow> bytes \<Rightarrow> fs \<Rightarrow> fs option" where
  "fs_write now p b f =
     (if p = [] \<or> \<not> is_dir (fs_get f (butlast p)) \<or> is_dir (fs_get f p) then None
      else Some (fs_put f p (Reg b now)))"

definition fs_remove_all :: "path \<Rightarrow> fs \<Rightarrow> fs" where
  "fs_remove_all p f = filter (\<lambda>e. \<not> prefix p (fst e)) f"

definition fs_move :: "path \<Rightarrow> path \<Rightarrow> fs \<Rightarrow> fs" where
  "fs_move a b f = map (\<lambda>e. if prefix a (fst e) then (b @ drop (length a) (fst e), snd e) else e)
     (fs_remove_all b f)"

text \<open>
  \<open>os.Rename\<close>: Go refuses a target that is a directory (\<open>EEXIST\<close>) before it asks the kernel,
  which refuses a directory moved below itself or over a file.
\<close>

definition fs_rename :: "path \<Rightarrow> path \<Rightarrow> fs \<Rightarrow> fs option" where
  "fs_rename a b f =
     (if fs_get f a = None \<or> b = [] \<or> is_dir (fs_get f b) \<or> \<not> is_dir (fs_get f (butlast b))
         \<or> prefix a b \<or> (is_dir (fs_get f a) \<and> fs_get f b \<noteq> None) then None
      else Some (fs_move a b f))"

section \<open>Facts\<close>

lemma fs_get_put: "fs_get (fs_put f p n) q = (if q = p then Some n else fs_get f q)"
proof -
  have "map_of (filter (\<lambda>e. fst e \<noteq> p) f) q = (if q = p then None else map_of f q)"
    by (induction f) auto
  then show ?thesis by (auto simp: fs_get_def fs_put_def)
qed

lemma fs_get_remove_all: "fs_get (fs_remove_all p f) q = (if prefix p q then None else fs_get f q)"
  unfolding fs_get_def fs_remove_all_def by (induction f) auto

lemma fs_get_move:
  assumes "\<not> prefix b a" "\<not> prefix a b"
  shows "fs_get (fs_move a b f) p =
    (if prefix b p then fs_get f (a @ drop (length b) p)
     else if prefix a p then None else fs_get f p)"
proof -
  have excl: "\<not> (prefix a q \<and> prefix b q)" for q
    using assms by (metis prefix_same_cases)
  define g where "g = (\<lambda>e::path \<times> fsnode. if prefix a (fst e) then (b @ drop (length a) (fst e), snd e) else e)"
  have "map_of (map g (filter (\<lambda>e. \<not> prefix b (fst e)) f)) p =
    (if prefix b p then map_of f (a @ drop (length b) p)
     else if prefix a p then None else map_of f p)"
  proof (induction f)
    case (Cons e f)
    obtain q n where e: "e = (q, n)" by (cases e)
    consider (a) r where "q = a @ r" | (b) r where "q = b @ r" | (n) "\<not> prefix a q" "\<not> prefix b q"
      by (metis prefix_def)
    then show ?case
    proof cases
      case a
      with excl have nb: "\<not> prefix b q" by (metis prefixI)
      with a e Cons show ?thesis
        by (auto simp: g_def prefix_def)
    next
      case b
      then have bq: "prefix b q" by simp
      with excl have "a @ x \<noteq> q" for x by (metis prefixI)
      moreover have "\<not> prefix b p \<Longrightarrow> p \<noteq> q" using bq by auto
      ultimately show ?thesis using Cons e bq by auto
    next
      case n
      with e Cons show ?thesis by (auto simp: g_def prefix_def)
    qed
  qed simp
  then show ?thesis by (simp add: fs_get_def fs_move_def fs_remove_all_def g_def)
qed

definition fs_ok :: "fs \<Rightarrow> bool" where
  "fs_ok f \<longleftrightarrow> is_dir (fs_get f []) \<and>
     (\<forall>p n. p \<noteq> [] \<longrightarrow> fs_get f p = Some n \<longrightarrow> is_dir (fs_get f (butlast p)))"

lemma fs_ok_parent: "fs_ok f \<Longrightarrow> fs_get f (p @ [x]) \<noteq> None \<Longrightarrow> is_dir (fs_get f p)"
  unfolding fs_ok_def by (metis append_is_Nil_conv butlast_snoc not_None_eq not_Cons_self2)

lemma fs_ok_below:
  assumes "fs_ok f" "fs_get f (p @ qs) \<noteq> None" "qs \<noteq> []"
  shows "is_dir (fs_get f p)"
  using assms(2,3)
proof (induction qs rule: rev_induct)
  case (snoc x xs)
  have up: "is_dir (fs_get f (p @ xs))"
    using fs_ok_parent [OF assms(1), of "p @ xs" x] snoc.prems by simp
  show ?case
  proof (cases xs)
    case Nil
    with up show ?thesis by simp
  next
    case Cons
    have "fs_get f (p @ xs) \<noteq> None" using up by (metis is_dir.simps(2))
    with snoc.IH Cons show ?thesis by simp
  qed
qed simp

lemma fs_ok_absent_below: "fs_ok f \<Longrightarrow> fs_get f p = None \<Longrightarrow> fs_get f (p @ qs) = None"
  by (cases "qs = []") (auto dest: fs_ok_below)

lemma fs_readdir_names:
  "fs_readdir f d = Some ns \<Longrightarrow> ns = sort (remdups (map (\<lambda>e. last (fst e))
      (filter (\<lambda>e. fst e \<noteq> [] \<and> butlast (fst e) = d) f)))"
  unfolding fs_readdir_def by (cases "is_dir (fs_get f d)") simp_all

lemma fs_readdir_set:
  "fs_readdir f d = Some ns \<Longrightarrow> n \<in> set ns \<longleftrightarrow> fs_get f (d @ [n]) \<noteq> None"
proof -
  assume "fs_readdir f d = Some ns"
  note names = fs_readdir_names [OF this]
  have ns: "set ns = (\<lambda>e. last (fst e)) ` {e \<in> set f. fst e \<noteq> [] \<and> butlast (fst e) = d}"
    unfolding names by simp
  have "(n \<in> (\<lambda>e. last (fst e)) ` {e \<in> set f. fst e \<noteq> [] \<and> butlast (fst e) = d})
      \<longleftrightarrow> (d @ [n]) \<in> fst ` set f"
  proof
    assume "n \<in> (\<lambda>e. last (fst e)) ` {e \<in> set f. fst e \<noteq> [] \<and> butlast (fst e) = d}"
    then obtain e where "e \<in> set f" "fst e \<noteq> []" "butlast (fst e) = d" "n = last (fst e)" by auto
    then have "fst e = d @ [n]" by (metis append_butlast_last_id)
    with \<open>e \<in> set f\<close> show "(d @ [n]) \<in> fst ` set f" by force
  next
    assume "(d @ [n]) \<in> fst ` set f"
    then obtain e where "e \<in> set f" "fst e = d @ [n]" by auto
    then show "n \<in> (\<lambda>e. last (fst e)) ` {e \<in> set f. fst e \<noteq> [] \<and> butlast (fst e) = d}"
      by (intro image_eqI [of _ _ e]) auto
  qed
  with ns show ?thesis by (simp add: fs_get_def map_of_eq_None_iff)
qed

lemma fs_write_get:
  "fs_write now p b f = Some g \<Longrightarrow> fs_get g q = (if q = p then Some (Reg b now) else fs_get f q)"
  by (auto simp: fs_write_def fs_get_put split: if_splits)

lemma fs_write_parent: "fs_write now p b f = Some g \<Longrightarrow> p \<noteq> [] \<and> is_dir (fs_get f (butlast p))"
  by (auto simp: fs_write_def split: if_splits)

lemma mkdirs_get:
  "mkdirs now d cs f = Some g \<Longrightarrow> fs_get g q = fs_get f q \<or>
     (fs_get f q = None \<and> fs_get g q = Some (Dir now) \<and> (\<exists>k. q = d @ take k cs))"
proof (induction cs arbitrary: d f)
  case (Cons c cs)
  define h where "h = (if fs_get f (d @ [c]) = None then fs_put f (d @ [c]) (Dir now) else f)"
  from Cons.prems have m: "mkdirs now (d @ [c]) cs h = Some g"
    unfolding h_def by (auto split: if_splits simp del: not_None_eq)
  have h: "fs_get h q = fs_get f q \<or>
      (fs_get f q = None \<and> fs_get h q = Some (Dir now) \<and> q = d @ [c])"
    by (auto simp: h_def fs_get_put)
  from Cons.IH [OF m] show ?case
  proof
    assume eq: "fs_get g q = fs_get h q"
    from h show ?thesis
    proof
      assume "fs_get f q = None \<and> fs_get h q = Some (Dir now) \<and> q = d @ [c]"
      then have "q = d @ take 1 (c # cs)" by simp
      with eq h show ?thesis by metis
    qed (use eq in simp)
  next
    assume *: "fs_get h q = None \<and> fs_get g q = Some (Dir now) \<and> (\<exists>k. q = (d @ [c]) @ take k cs)"
    then obtain k where "q = d @ take (Suc k) (c # cs)" by auto
    with * h show ?thesis by (metis option.distinct(1))
  qed
qed (auto split: if_splits)

lemma mkdirs_ok: "fs_ok f \<Longrightarrow> mkdirs now d cs f = Some g \<Longrightarrow> fs_ok g"
proof (induction cs arbitrary: d f)
  case (Cons c cs)
  define h where "h = (if fs_get f (d @ [c]) = None then fs_put f (d @ [c]) (Dir now) else f)"
  from Cons.prems(2) have d: "is_dir (fs_get f d)" and m: "mkdirs now (d @ [c]) cs h = Some g"
    unfolding h_def by (auto split: if_splits simp del: not_None_eq)
  have "fs_ok h"
    using Cons.prems(1) d unfolding fs_ok_def h_def
    by (auto simp: fs_get_put butlast_append)
  from Cons.IH [OF this m] show ?case .
qed (auto split: if_splits)

lemma fs_write_ok: "fs_ok f \<Longrightarrow> fs_write now p b f = Some g \<Longrightarrow> fs_ok g"
  unfolding fs_ok_def fs_write_def
  by (auto simp: fs_get_put split: if_splits)

lemma fs_remove_all_ok: "fs_ok f \<Longrightarrow> p \<noteq> [] \<Longrightarrow> fs_ok (fs_remove_all p f)"
  unfolding fs_ok_def
  by (auto simp: fs_get_remove_all) (metis append_butlast_last_id prefix_append)

lemma fs_rename_get:
  assumes "fs_ok f" "fs_rename a b f = Some g"
  shows "\<not> prefix a b" "\<not> prefix b a" "fs_get f a \<noteq> None" "is_dir (fs_get f (butlast b))" "b \<noteq> []"
    "fs_get g p = (if prefix b p then fs_get f (a @ drop (length b) p)
       else if prefix a p then None else fs_get f p)"
proof -
  show 1: "\<not> prefix a b" and 3: "fs_get f a \<noteq> None" and "is_dir (fs_get f (butlast b))" "b \<noteq> []"
    using assms(2) by (auto simp: fs_rename_def split: if_splits)
  have nd: "\<not> is_dir (fs_get f b)" and g: "g = fs_move a b f"
    using assms(2) by (auto simp: fs_rename_def split: if_splits)
  show 2: "\<not> prefix b a"
  proof
    assume "prefix b a"
    then obtain r where "a = b @ r" by (auto simp: prefix_def)
    with 1 3 fs_ok_below [OF assms(1), of b r] nd show False by (cases "r = []") auto
  qed
  show "fs_get g p = (if prefix b p then fs_get f (a @ drop (length b) p)
       else if prefix a p then None else fs_get f p)"
    using fs_get_move [OF 2 1] g by simp
qed

lemma fs_rename_ok:
  assumes ok: "fs_ok f" and r: "fs_rename a b f = Some g"
  shows "fs_ok g"
  unfolding fs_ok_def
proof (intro conjI allI impI)
  note get = fs_rename_get(6) [OF ok r] and facts = fs_rename_get(1-5) [OF ok r]
  have "a \<noteq> []" using facts(1) by auto
  then show "is_dir (fs_get g [])" using get [of "[]"] facts(5) ok by (auto simp: fs_ok_def)
  fix p n assume p: "p \<noteq> []" and n: "fs_get g p = Some n"
  show "is_dir (fs_get g (butlast p))"
  proof (cases "prefix b p")
    case True
    then obtain q where q: "p = b @ q" by (auto simp: prefix_def)
    show ?thesis
    proof (cases "q = []")
      case True
      have "\<not> prefix b (butlast b)"
        using facts(5) by (metis append_butlast_last_id append_self_conv not_Cons_self2 prefix_def prefix_order.antisym)
      moreover have "\<not> prefix a (butlast b)"
        using facts(1) by (metis append_butlast_last_id facts(5) prefix_prefix)
      ultimately show ?thesis using True q facts(4) get by simp
    next
      case False
      with q n get [of p] have "fs_get f (a @ q) = Some n" by simp
      then have "is_dir (fs_get f (a @ butlast q))"
        using ok False unfolding fs_ok_def by (metis append_is_Nil_conv butlast_append)
      with q False get show ?thesis by (simp add: butlast_append)
    qed
  next
    case False
    with n get [of p] have fp: "\<not> prefix a p" "fs_get f p = Some n" by (auto split: if_splits)
    from False have "\<not> prefix b (butlast p)" by (metis append_butlast_last_id p prefix_prefix)
    moreover from fp have "\<not> prefix a (butlast p)" by (metis append_butlast_last_id p prefix_prefix)
    ultimately show ?thesis using ok fp p get unfolding fs_ok_def by metis
  qed
qed

end
