(* ===== verification/DebUnpack.thy ===== *)
theory DebUnpack
  imports FileSys
begin

text \<open>
  \<open>cmd/deb-unpack\<close>: the service that turns a Debian source package into an unpacked tree on a
  shared volume. \<open>unpack\<close> is modelled one system call per step (\<open>unpack_step\<close>), so that a
  process can be killed, or another request can run, between any two of them. What the network
  answers, what \<open>dpkg-source\<close> writes and whether the machine refuses a call are the environment
  of a step.
\<close>

section \<open>Names\<close>

definition doneMarker :: string where "doneMarker = ''.unpack-complete''"

definition staleUnpackAge :: duration where "staleUnpackAge = 2 * hour"

definition rePackage :: "string \<Rightarrow> bool" where
  "rePackage s = (case s of [] \<Rightarrow> False
     | c # cs \<Rightarrow> (is_lower c \<or> is_digit c) \<and> 1 \<le> length cs \<and> length cs \<le> 63 \<and>
         list_all (\<lambda>x. is_lower x \<or> is_digit x \<or> x \<in> set ''+.-'') cs)"

definition reVersion :: "string \<Rightarrow> bool" where
  "reVersion s = (case s of [] \<Rightarrow> False
     | c # cs \<Rightarrow> (is_upper c \<or> is_lower c \<or> is_digit c) \<and> length cs \<le> 63 \<and>
         list_all (\<lambda>x. is_upper x \<or> is_lower x \<or> is_digit x \<or> x \<in> set ''.+~-'') cs)"

definition reComp :: "string \<Rightarrow> bool" where
  "reComp s \<longleftrightarrow> s \<in> set [''main'', ''contrib'', ''non-free'', ''non-free-firmware'']"

definition safeKey :: "string \<Rightarrow> string \<Rightarrow> bool" where
  "safeKey component name \<longleftrightarrow>
     reComp component \<and> name \<noteq> [] \<and> name = path_base name \<and> hd name \<noteq> CHR ''.''"

text \<open>\<open>source[:4]\<close> and \<open>source[:1]\<close> panic on a shorter string: \<open>None\<close>.\<close>

definition poolDir :: "string \<Rightarrow> string option" where
  "poolDir source = (if has_prefix source ''lib'' \<and> length source > 3 then Some (take 4 source)
     else if source = [] then None else Some (take 1 source))"

definition lastLines :: "string \<Rightarrow> nat \<Rightarrow> string" where
  "lastLines s n =
     (let ls = split_on (CHR 0x0A) (trim_right_char (CHR 0x0A) s) in
      join_with ''; '' (if length ls > n then drop (length ls - n) ls else ls))"

section \<open>Requests\<close>

record unpackRequest =
  rq_source :: string
  rq_version :: string
  rq_component :: string

record unpackResponse =
  rs_path :: string
  rs_files :: nat
  rs_bytes :: nat
  rs_took :: string
  rs_cached :: bool

record server =
  sv_root :: string
  sv_mirror :: string
  sv_fields :: "string \<Rightarrow> string list"

datatype dsc_error = SuspiciousName string | NoFiles

datatype unpack_error = EMkdir | EMkdirTemp | EFetchDsc string | EReadDsc | EDsc dsc_error
  | EFetch string | EDpkg string | EMarker | ERename | EPanic

definition valid_request :: "unpackRequest \<Rightarrow> bool" where
  "valid_request rq \<longleftrightarrow> rePackage (rq_source rq) \<and> reVersion (rq_version rq) \<and> reComp (rq_component rq)"

definition final_path :: "server \<Rightarrow> unpackRequest \<Rightarrow> string" where
  "final_path s rq = path_join [sv_root s, rq_component rq, rq_source rq @ ''_'' @ rq_version rq]"

section \<open>The .dsc\<close>

fun dsc_lines :: "(string \<Rightarrow> string list) \<Rightarrow> bool \<Rightarrow> string list \<Rightarrow> string list \<Rightarrow> dsc_error + string list" where
  "dsc_lines uf inFiles [] out = Inr out"
| "dsc_lines uf inFiles (line # ls) out =
     (if \<not> has_prefix line '' '' then dsc_lines uf (has_prefix line ''Files:'') ls out
      else if \<not> inFiles then dsc_lines uf inFiles ls out
      else
        let fields = str_fields uf line in
        if length fields \<noteq> 3 then dsc_lines uf inFiles ls out
        else
          let name = fields ! 2 in
          if name \<noteq> path_base name \<or> has_prefix name ''.'' then Inl (SuspiciousName name)
          else dsc_lines uf inFiles ls (out @ [name]))"

definition filesFromDsc :: "(string \<Rightarrow> string list) \<Rightarrow> bytes \<Rightarrow> dsc_error + string list" where
  "filesFromDsc uf raw =
     (case dsc_lines uf False (split_on (CHR 0x0A) raw) [] of
        Inl e \<Rightarrow> Inl e
      | Inr out \<Rightarrow> if out = [] then Inl NoFiles else Inr out)"

section \<open>unpack, one system call at a time\<close>

definition is_reg :: "fsnode \<Rightarrow> bool" where
  "is_reg n = (case n of Reg _ _ \<Rightarrow> True | Dir _ \<Rightarrow> False)"

definition measure_tree :: "fs \<Rightarrow> path \<Rightarrow> nat \<times> nat" where
  "measure_tree f root =
     (let es = filter (\<lambda>e. prefix root (fst e) \<and> is_reg (snd e)) f in
      (length es, sum_list (map (\<lambda>e. length (content (snd e))) es)))"

datatype fetched = NoAnswer | Broken bytes | Whole bytes

datatype dpkg_result = DpkgOk fs | DpkgFailed fs string

text \<open>
  The environment of one step: the time, the suffix \<open>os.MkdirTemp\<close> picks, whether the machine
  lets the call succeed, the answer to each URL, and the entries \<open>dpkg-source -x dsc out\<close>
  leaves below \<open>out\<close> (paths relative to it).
\<close>

record uenv =
  en_now :: time
  en_random :: string
  en_io_ok :: bool
  en_fetch :: "string \<Rightarrow> fetched"
  en_dpkg :: "fs \<Rightarrow> path \<Rightarrow> dpkg_result"

datatype upc = UCheck | UMkdir | UTemp | UFetchDsc string | UParse string
  | UFetch string "string list" | UExtract string | UMark string | URename string | UMeasure string
  | UCleanup string "unpack_error + unpackResponse" | UDone "unpack_error + unpackResponse"

definition download :: "uenv \<Rightarrow> string \<Rightarrow> path \<Rightarrow> fs \<Rightarrow> bool \<times> fs" where
  "download env url dst f = (case en_fetch env url of
     NoAnswer \<Rightarrow> (False, f)
   | Broken b \<Rightarrow> (False, case fs_write (en_now env) dst b f of None \<Rightarrow> f | Some g \<Rightarrow> g)
   | Whole b \<Rightarrow> (case fs_write (en_now env) dst b f of None \<Rightarrow> (False, f) | Some g \<Rightarrow> (True, g)))"

definition fs_graft :: "path \<Rightarrow> fs \<Rightarrow> fs \<Rightarrow> fs" where
  "fs_graft d es f = map (\<lambda>e. (d @ fst e, snd e)) es @ f"

text \<open>\<open>dpkg-source -x\<close> refuses a target that exists, and can write nothing below a directory
  that is not there.\<close>

definition run_dpkg :: "uenv \<Rightarrow> path \<Rightarrow> path \<Rightarrow> fs \<Rightarrow> (string option) \<times> fs" where
  "run_dpkg env dsc out f =
     (if fs_get f out \<noteq> None \<or> \<not> is_dir (fs_get f (butlast out)) then (Some ''unpack target'', f)
      else (case en_dpkg env f dsc of
          DpkgOk es \<Rightarrow> (None, fs_graft out es f)
        | DpkgFailed es msg \<Rightarrow> (Some msg, fs_graft out es f)))"

definition dsc_name :: "unpackRequest \<Rightarrow> string" where
  "dsc_name rq = rq_source rq @ ''_'' @ rq_version rq @ ''.dsc''"

definition base_url :: "server \<Rightarrow> unpackRequest \<Rightarrow> string option" where
  "base_url s rq = (case poolDir (rq_source rq) of None \<Rightarrow> None
     | Some d \<Rightarrow> Some (sv_mirror s @ ''/pool/'' @ rq_component rq @ ''/'' @ d @ ''/'' @ rq_source rq))"

definition marker_path :: "server \<Rightarrow> unpackRequest \<Rightarrow> path" where
  "marker_path s rq = clean_comps (path_join [final_path s rq, doneMarker])"

definition response :: "server \<Rightarrow> unpackRequest \<Rightarrow> fs \<Rightarrow> bool \<Rightarrow> unpackResponse" where
  "response s rq f cached =
     (case measure_tree f (clean_comps (final_path s rq)) of (n, sz) \<Rightarrow>
        \<lparr>rs_path = final_path s rq, rs_files = n, rs_bytes = sz, rs_took = [], rs_cached = cached\<rparr>)"

definition out_dir :: "string \<Rightarrow> path" where
  "out_dir work = clean_comps (path_join [work, ''tree''])"

definition unpack_step :: "server \<Rightarrow> uenv \<Rightarrow> unpackRequest \<Rightarrow> upc \<Rightarrow> fs \<Rightarrow> upc \<times> fs" where
  "unpack_step s env rq pc f = (case pc of
     UCheck \<Rightarrow> (if fs_stat f (marker_path s rq) then UDone (Inr (response s rq f True)) else UMkdir, f)
   | UMkdir \<Rightarrow> (case fs_mkdir_all (en_now env) (clean_comps (path_dir (final_path s rq))) f of
        Some g \<Rightarrow> if en_io_ok env then (UTemp, g) else (UDone (Inl EMkdir), f)
      | None \<Rightarrow> (UDone (Inl EMkdir), f))
   | UTemp \<Rightarrow>
       (let work = path_join [path_dir (final_path s rq), ''.tmp-'' @ rq_source rq @ ''-'' @ en_random env];
            p = clean_comps work
        in if en_io_ok env \<and> fs_get f p = None \<and> is_dir (fs_get f (butlast p))
           then (UFetchDsc work, fs_put f p (Dir (en_now env))) else (UDone (Inl EMkdirTemp), f))
   | UFetchDsc work \<Rightarrow> (case base_url s rq of
        None \<Rightarrow> (UCleanup work (Inl EPanic), f)
      | Some base \<Rightarrow>
          (case download env (base @ ''/'' @ dsc_name rq) (clean_comps (path_join [work, dsc_name rq])) f of
             (ok, g) \<Rightarrow> (if ok then UParse work else UCleanup work (Inl (EFetchDsc (dsc_name rq))), g)))
   | UParse work \<Rightarrow> (case fs_get f (clean_comps (path_join [work, dsc_name rq])) of
        Some (Reg raw t) \<Rightarrow> (case filesFromDsc (sv_fields s) raw of
            Inl e \<Rightarrow> (UCleanup work (Inl (EDsc e)), f)
          | Inr files \<Rightarrow> (UFetch work files, f))
      | _ \<Rightarrow> (UCleanup work (Inl EReadDsc), f))
   | UFetch work [] \<Rightarrow> (UExtract work, f)
   | UFetch work (x # xs) \<Rightarrow> (case base_url s rq of
        None \<Rightarrow> (UCleanup work (Inl EPanic), f)
      | Some base \<Rightarrow>
          (case download env (base @ ''/'' @ x) (clean_comps (path_join [work, x])) f of
             (ok, g) \<Rightarrow> (if ok then UFetch work xs else UCleanup work (Inl (EFetch x)), g)))
   | UExtract work \<Rightarrow>
       (case run_dpkg env (clean_comps (path_join [work, dsc_name rq])) (out_dir work) f of
          (None, g) \<Rightarrow> (UMark work, g)
        | (Some msg, g) \<Rightarrow> (UCleanup work (Inl (EDpkg (lastLines msg 3))), g))
   | UMark work \<Rightarrow> (case fs_write (en_now env) (clean_comps (path_join [path_join [work, ''tree''], doneMarker])) [] f of
        Some g \<Rightarrow> if en_io_ok env then (URename work, g) else (UCleanup work (Inl EMarker), f)
      | None \<Rightarrow> (UCleanup work (Inl EMarker), f))
   | URename work \<Rightarrow> (case fs_rename (out_dir work) (clean_comps (final_path s rq)) f of
        Some g \<Rightarrow> if en_io_ok env then (UMeasure work, g)
                  else (if fs_stat f (marker_path s rq) then UMeasure work else UCleanup work (Inl ERename), f)
      | None \<Rightarrow> (if fs_stat f (marker_path s rq) then UMeasure work else UCleanup work (Inl ERename), f))
   | UMeasure work \<Rightarrow> (UCleanup work (Inr (response s rq f False)), f)
   | UCleanup work res \<Rightarrow> (UDone res, fs_remove_all (clean_comps work) f)
   | UDone res \<Rightarrow> (UDone res, f))"

text \<open>A request that runs alone: at most as many steps as the \<open>.dsc\<close> lists files, and eleven.\<close>

fun run_unpack :: "nat \<Rightarrow> server \<Rightarrow> uenv \<Rightarrow> unpackRequest \<Rightarrow> upc \<Rightarrow> fs
    \<Rightarrow> ((unpack_error + unpackResponse) option) \<times> fs" where
  "run_unpack n s env rq (UDone res) f = (Some res, f)"
| "run_unpack 0 s env rq pc f = (None, f)"
| "run_unpack (Suc n) s env rq pc f =
     (case unpack_step s env rq pc f of (pc', g) \<Rightarrow> run_unpack n s env rq pc' g)"

section \<open>Handlers\<close>

text \<open>The HTTP answer of a handler: a status and, for \<open>/unpack\<close>, the response.\<close>

datatype 'a answer = Answer nat "'a option"

text \<open>\<open>handleUnpack\<close>: \<open>body\<close> is the decoded request, \<open>None\<close> when it is not JSON of that shape.\<close>

definition handleUnpack :: "server \<Rightarrow> uenv \<Rightarrow> nat \<Rightarrow> string \<Rightarrow> unpackRequest option \<Rightarrow> fs
    \<Rightarrow> unpackResponse answer \<times> fs" where
  "handleUnpack s env fuel took body f = (case body of
     None \<Rightarrow> (Answer 400 None, f)
   | Some rq0 \<Rightarrow>
      (let rq = (if rq_component rq0 = [] then rq0\<lparr>rq_component := ''main''\<rparr> else rq0) in
       if \<not> valid_request rq then (Answer 400 None, f)
       else (case run_unpack fuel s env rq UCheck f of
           (Some (Inr out), g) \<Rightarrow> (Answer 200 (Some (out\<lparr>rs_took := took\<rparr>)), g)
         | (_, g) \<Rightarrow> (Answer 502 None, g))))"

record tree =
  t_key :: string
  t_path :: string
  t_bytes :: nat
  t_files :: nat
  t_modified :: time

definition entry_mtime :: "fs \<Rightarrow> path \<Rightarrow> time" where
  "entry_mtime f p = (case fs_get f p of None \<Rightarrow> 0 | Some n \<Rightarrow> mtime n)"

definition listed_tree :: "server \<Rightarrow> fs \<Rightarrow> string \<Rightarrow> string \<Rightarrow> tree list" where
  "listed_tree s f c e =
     (if \<not> is_dir (fs_get f (clean_comps (path_join [sv_root s, c]) @ [e])) \<or> e = [] \<or> hd e = CHR ''.'' then []
      else
        let p = path_join [sv_root s, c, e] in
        if \<not> fs_stat f (clean_comps (path_join [p, doneMarker])) then []
        else (case measure_tree f (clean_comps p) of (n, b) \<Rightarrow>
          [\<lparr>t_key = c @ ''/'' @ e, t_path = p, t_bytes = b, t_files = n,
            t_modified = entry_mtime f (clean_comps (path_join [sv_root s, c]) @ [e])\<rparr>]))"

definition listed_trees :: "server \<Rightarrow> fs \<Rightarrow> string \<Rightarrow> tree list" where
  "listed_trees s f c =
     (if \<not> is_dir (fs_get f (clean_comps (sv_root s) @ [c])) then []
      else (case fs_readdir f (clean_comps (path_join [sv_root s, c])) of
          None \<Rightarrow> []
        | Some entries \<Rightarrow> concat (map (listed_tree s f c) entries)))"

definition handleTrees :: "server \<Rightarrow> fs \<Rightarrow> (tree list) answer" where
  "handleTrees s f = (case fs_readdir f (clean_comps (sv_root s)) of
     None \<Rightarrow> Answer 500 None
   | Some components \<Rightarrow> Answer 200 (Some (concat (map (listed_trees s f) components))))"

text \<open>\<open>handleDelete\<close>: the rename, then \<open>RemoveAll\<close>; \<open>removed\<close> says whether the removal, which
  can stop half way, finished (what it leaves is reclaimed by \<open>sweepStale\<close>).\<close>

definition delete_rename :: "server \<Rightarrow> string \<Rightarrow> string \<Rightarrow> fs \<Rightarrow> fs option" where
  "delete_rename s component name f =
     (let p = path_join [sv_root s, component, name] in
      fs_rename (clean_comps p) (clean_comps (p @ ''.deleting'')) f)"

definition handleDelete :: "server \<Rightarrow> bool \<Rightarrow> string \<Rightarrow> string \<Rightarrow> fs \<Rightarrow> unit answer \<times> fs" where
  "handleDelete s removed component name f =
     (if \<not> safeKey component name then (Answer 400 None, f)
      else
        let p = path_join [sv_root s, component, name] in
        if \<not> fs_stat f (clean_comps p) then (Answer 204 None, f)
        else (case delete_rename s component name f of
            None \<Rightarrow> (Answer 500 None, f)
          | Some g \<Rightarrow> (Answer 204 None,
              if removed then fs_remove_all (clean_comps (p @ ''.deleting'')) g else g)))"

definition sweep_entry :: "time \<Rightarrow> duration \<Rightarrow> path \<Rightarrow> string \<Rightarrow> fs \<Rightarrow> fs" where
  "sweep_entry now stale dir name f =
     (if \<not> is_dir (fs_get f (dir @ [name])) then f
      else if hd name \<noteq> CHR ''.'' \<and> \<not> has_suffix name ''.deleting'' then f
      else if now - entry_mtime f (dir @ [name]) < stale then f
      else fs_remove_all (dir @ [name]) f)"

definition sweep_component :: "server \<Rightarrow> time \<Rightarrow> duration \<Rightarrow> string \<Rightarrow> fs \<Rightarrow> fs" where
  "sweep_component s now stale c f =
     (let dir = clean_comps (path_join [sv_root s, c]) in
      case fs_readdir f dir of None \<Rightarrow> f
      | Some entries \<Rightarrow> fold (sweep_entry now stale dir) entries f)"

definition sweepStale :: "server \<Rightarrow> time \<Rightarrow> duration \<Rightarrow> fs \<Rightarrow> fs" where
  "sweepStale s now stale f = (case fs_readdir f (clean_comps (sv_root s)) of
     None \<Rightarrow> f
   | Some components \<Rightarrow> fold (sweep_component s now stale) components f)"

end
