(* ===== verification/DebVolume.thy ===== *)
theory DebVolume
  imports DebUnpack
begin

text \<open>
  What the volume of \<open>cmd/deb-unpack\<close> keeps under every interleaving of requests, kills,
  deletions and sweeps: a directory under a package's final name is the complete output of a
  successful \<open>dpkg-source\<close> run, with the completion marker in it.
\<close>

section \<open>Where the paths of a request are\<close>

lemma path_chars_plain:
  assumes "s \<noteq> []" "hd s \<noteq> CHR ''.''" "slash \<notin> set s"
  shows "plain s"
  using assms by (auto simp: plain_def)

lemma char_class_plain [simp]:
  "\<not> is_lower slash" "\<not> is_digit slash" "\<not> is_upper slash"
  "\<not> is_lower (CHR ''.'')" "\<not> is_digit (CHR ''.'')" "\<not> is_upper (CHR ''.'')"
  by (simp_all add: is_lower_def is_digit_def is_upper_def)

lemma rePackage_chars: "rePackage s \<Longrightarrow> s \<noteq> [] \<and> hd s \<noteq> CHR ''.'' \<and> slash \<notin> set s"
proof (cases s)
  case (Cons c cs)
  assume "rePackage s"
  with Cons have c: "is_lower c \<or> is_digit c"
    and cs: "\<And>x. x \<in> set cs \<Longrightarrow> is_lower x \<or> is_digit x \<or> x \<in> set ''+.-''"
    by (auto simp: rePackage_def list_all_iff)
  have "slash \<notin> set cs" using cs [of slash] by auto
  with Cons c show ?thesis by auto
qed (simp add: rePackage_def)

lemma reVersion_chars: "reVersion s \<Longrightarrow> s \<noteq> [] \<and> slash \<notin> set s"
proof (cases s)
  case (Cons c cs)
  assume "reVersion s"
  with Cons have c: "is_upper c \<or> is_lower c \<or> is_digit c"
    and cs: "\<And>x. x \<in> set cs \<Longrightarrow> is_upper x \<or> is_lower x \<or> is_digit x \<or> x \<in> set ''+.~-''"
    by (auto simp: reVersion_def list_all_iff)
  have "slash \<notin> set cs" using cs [of slash] by auto
  with Cons c show ?thesis by auto
qed (simp add: reVersion_def)

lemma reComp_plain: "reComp c \<Longrightarrow> plain c"
  by (auto simp: reComp_def plain_def)

definition pkg_dir :: "unpackRequest \<Rightarrow> string" where
  "pkg_dir rq = rq_source rq @ ''_'' @ rq_version rq"

lemma valid_plain:
  assumes "valid_request rq"
  shows "plain (rq_component rq)" "plain (pkg_dir rq)" "hd (pkg_dir rq) \<noteq> CHR ''.''" "plain (dsc_name rq)"
  using assms rePackage_chars [of "rq_source rq"] reVersion_chars [of "rq_version rq"]
  by (auto simp: valid_request_def pkg_dir_def dsc_name_def reComp_plain intro!: path_chars_plain)

lemma plain_names: "plain ''tree''" "plain doneMarker" "slash \<notin> set r \<Longrightarrow> plain (''.tmp-'' @ r)"
  by (simp_all add: plain_def doneMarker_def)

lemma path_join_plain2:
  assumes "is_abs r" "plain a" "plain b"
  shows "clean_comps (path_join [r, a, b]) = clean_comps r @ [a, b]" "is_abs (path_join [r, a, b])"
  using path_join_comps [of r "[a, b]"] assms by auto

lemma path_join_plain1:
  assumes "is_abs r" "plain a"
  shows "clean_comps (path_join [r, a]) = clean_comps r @ [a]" "is_abs (path_join [r, a])"
  using path_join_comps [of r "[a]"] assms by auto

lemma path_join_is_clean: "is_abs r \<Longrightarrow> clean (path_join (r # es)) = path_join (r # es)"
proof -
  assume r: "is_abs r"
  then have "r \<noteq> []" by auto
  then have j: "path_join (r # es) = clean (join_with ''/'' (r # es))" by (simp add: path_join_def)
  have "is_abs (join_with ''/'' (r # es))" using r by (cases r; cases es) auto
  then show ?thesis unfolding j by (rule clean_idem_abs)
qed

lemma clean_parts_snoc_Nil: "clean_parts r (ps @ [[]]) acc = clean_parts r ps acc"
  by (induction r ps acc rule: clean_parts.induct) (auto split: list.splits)

lemma clean_comps_slash: "s \<noteq> [] \<Longrightarrow> clean_comps (s @ ''/'') = clean_comps s"
proof -
  assume "s \<noteq> []"
  then have "is_abs (s @ ''/'') = is_abs s" by (cases s) auto
  moreover have "split_on slash (s @ slash # join_with [slash] [[]]) = split_on slash s @ [[]]"
    by (rule split_on_append_join) auto
  ultimately show ?thesis by (simp add: clean_comps_def clean_parts_snoc_Nil)
qed

lemma path_dir_comps:
  assumes "is_abs p" "clean p = p" "clean_comps p = ps @ [x]"
  shows "clean_comps (path_dir p) = ps" "is_abs (path_dir p)"
proof -
  have pl: "list_all plain ps" "plain x" using clean_comps_plain [OF assms(1)] assms(3) by auto
  then have x: "slash \<notin> set x" by (simp add: plain_def)
  define pre where "pre = (if ps = [] then [] else slash # join_with ''/'' ps)"
  have p: "p = pre @ slash # x"
  proof -
    have "join_with ''/'' (ps @ [x]) = (if ps = [] then x else join_with ''/'' ps @ slash # x)"
      by (induction ps) (auto simp: join_with_Cons)
    then show ?thesis using clean_abs [OF assms(1)] assms(2,3) by (auto simp: pre_def)
  qed
  have "\<forall>y \<in> set (rev x). y \<noteq> slash" using x by auto
  then have "dropWhile (\<lambda>y. y \<noteq> slash) (rev x @ slash # rev pre) = slash # rev pre"
    by (intro dropWhile_append_stop) auto
  then have d: "path_dir p = clean (pre @ ''/'')" by (simp add: path_dir_def p)
  have abs: "is_abs (pre @ ''/'')" by (simp add: pre_def)
  have "clean_comps (pre @ ''/'') = ps"
  proof (cases "ps = []")
    case True
    then show ?thesis by (simp add: pre_def clean_comps_def)
  next
    case False
    then show ?thesis
      using clean_comps_slash [of pre] comps_of_abs_plain [OF pl(1)] by (simp add: pre_def)
  qed
  with abs d show "clean_comps (path_dir p) = ps" "is_abs (path_dir p)"
    by (simp_all add: clean_comps_clean)
qed

lemma final_comps:
  assumes "is_abs (sv_root s)" "valid_request rq"
  shows "clean_comps (final_path s rq) = clean_comps (sv_root s) @ [rq_component rq, pkg_dir rq]"
    "is_abs (final_path s rq)"
    "clean_comps (path_dir (final_path s rq)) = clean_comps (sv_root s) @ [rq_component rq]"
    "is_abs (path_dir (final_path s rq))"
    "marker_path s rq = clean_comps (sv_root s) @ [rq_component rq, pkg_dir rq, doneMarker]"
proof -
  have f: "final_path s rq = path_join [sv_root s, rq_component rq, pkg_dir rq]"
    by (simp add: final_path_def pkg_dir_def)
  note j = path_join_plain2 [OF assms(1) valid_plain(1,2) [OF assms(2)]]
  show c: "clean_comps (final_path s rq) = clean_comps (sv_root s) @ [rq_component rq, pkg_dir rq]"
    and a: "is_abs (final_path s rq)" using j f by auto
  have cl: "clean (final_path s rq) = final_path s rq"
    unfolding f by (rule path_join_is_clean [OF assms(1)])
  from path_dir_comps [OF a cl, of "clean_comps (sv_root s) @ [rq_component rq]" "pkg_dir rq"] c
  show "clean_comps (path_dir (final_path s rq)) = clean_comps (sv_root s) @ [rq_component rq]"
    "is_abs (path_dir (final_path s rq))" by simp_all
  show "marker_path s rq = clean_comps (sv_root s) @ [rq_component rq, pkg_dir rq, doneMarker]"
    using path_join_plain1 [OF a plain_names(2)] c by (simp add: marker_path_def)
qed

text \<open>A name \<open>filepath.Base\<close> leaves as it is, not starting with a dot, is one component or \<open>/\<close>.\<close>

lemma path_base_fix:
  assumes "x = path_base x" "\<not> has_prefix x ''.''"
  shows "plain x \<or> x = ''/''"
proof -
  have ne: "x \<noteq> []" using assms(1) by (auto simp: path_base_def)
  have dot: "hd x \<noteq> CHR ''.''" using assms(2) ne by (cases x) (auto simp: has_prefix_def)
  show ?thesis
  proof (cases "trim_right_char slash x = []")
    case True
    with assms(1) ne show ?thesis by (simp add: path_base_def)
  next
    case False
    then have "x = rev (takeWhile (\<lambda>y. y \<noteq> slash) (rev (trim_right_char slash x)))"
      using assms(1) ne by (simp add: path_base_def Let_def)
    moreover have "slash \<notin> set (rev (takeWhile (\<lambda>y. y \<noteq> slash) (rev (trim_right_char slash x))))"
      by (auto dest: set_takeWhileD)
    ultimately have "slash \<notin> set x" by metis
    with ne dot show ?thesis using path_chars_plain by blast
  qed
qed

lemma join_base:
  assumes "is_abs w" "x = path_base x" "\<not> has_prefix x ''.''"
  shows "clean_comps (path_join [w, x]) = clean_comps w \<or>
    (plain x \<and> clean_comps (path_join [w, x]) = clean_comps w @ [x])"
proof -
  from path_base_fix [OF assms(2,3)] show ?thesis
  proof
    assume "plain x"
    then show ?thesis using path_join_plain1 [OF assms(1)] by simp
  next
    assume x: "x = ''/''"
    have w: "w \<noteq> []" using assms(1) by auto
    have abs: "is_abs (w @ ''/'' @ ''/'')" using assms(1) w by (cases w) auto
    have "clean_comps (w @ ''/'' @ ''/'') = clean_comps w"
      using clean_comps_slash [OF w] clean_comps_slash [of "w @ ''/''"] w by simp
    then show ?thesis using w abs x by (simp add: path_join_def clean_comps_clean)
  qed
qed

section \<open>The volume as a transition system\<close>

record vol =
  v_fs :: fs
  v_procs :: "nat \<Rightarrow> (unpackRequest \<times> upc) option"
  v_extracted :: "(path \<Rightarrow> fsnode option) set"

definition subtree :: "fs \<Rightarrow> path \<Rightarrow> path \<Rightarrow> fsnode option" where
  "subtree f p = (\<lambda>r. fs_get f (p @ r))"

fun work_of :: "upc \<Rightarrow> string option" where
  "work_of (UFetchDsc w) = Some w" | "work_of (UParse w) = Some w" | "work_of (UFetch w _) = Some w"
| "work_of (UExtract w) = Some w" | "work_of (UMark w) = Some w" | "work_of (URename w) = Some w"
| "work_of (UMeasure w) = Some w" | "work_of (UCleanup w _) = Some w"
| "work_of UCheck = None" | "work_of UMkdir = None" | "work_of UTemp = None" | "work_of (UDone _) = None"

definition live_works :: "vol \<Rightarrow> nat \<Rightarrow> path set" where
  "live_works v i = {clean_comps w | j rq pc w. j \<noteq> i \<and> v_procs v j = Some (rq, pc) \<and> work_of pc = Some w}"

definition final_name :: "string \<Rightarrow> bool" where
  "final_name n \<longleftrightarrow> n \<noteq> [] \<and> hd n \<noteq> CHR ''.'' \<and> \<not> has_suffix n ''.deleting''"

definition final_places :: "server \<Rightarrow> path set" where
  "final_places s = {clean_comps (sv_root s) @ [c, n] | c n. reComp c \<and> final_name n}"

text \<open>What \<open>dpkg-source\<close> is relied on for: it leaves a directory tree.\<close>

definition env_ok :: "uenv \<Rightarrow> bool" where
  "env_ok env \<longleftrightarrow> slash \<notin> set (en_random env) \<and>
     (\<forall>f d. case en_dpkg env f d of DpkgOk es \<Rightarrow> fs_ok es | DpkgFailed es _ \<Rightarrow> es = [] \<or> fs_ok es)"

text \<open>
  The steps of the volume: a request starts; a request makes its next system call; a process
  dies (or a finished one is forgotten); \<open>handleDelete\<close> renames a tree; some \<open>RemoveAll\<close> (of a
  cleanup, a deletion or a sweep) removes one entry that is neither under a final name nor in
  the staging directory of a live request, which is what \<open>staleUnpackAge\<close> is there for.
\<close>

inductive vol_step :: "server \<Rightarrow> vol \<Rightarrow> vol \<Rightarrow> bool" for s where
  start: "v_procs v i = None \<Longrightarrow> valid_request rq \<Longrightarrow>
     vol_step s v (v\<lparr>v_procs := (v_procs v)(i \<mapsto> (rq, UCheck))\<rparr>)"
| run: "v_procs v i = Some (rq, pc) \<Longrightarrow> env_ok env \<Longrightarrow>
     unpack_step s env rq pc (v_fs v) = (pc', g) \<Longrightarrow>
     (\<And>w. pc' = UFetchDsc w \<Longrightarrow> clean_comps w \<notin> live_works v i) \<Longrightarrow>
     vol_step s v (v\<lparr>v_fs := g, v_procs := (v_procs v)(i \<mapsto> (rq, pc')),
       v_extracted := (case pc' of UMark w \<Rightarrow> insert (subtree g (out_dir w)) (v_extracted v)
                                 | _ \<Rightarrow> v_extracted v)\<rparr>)"
| crash: "vol_step s v (v\<lparr>v_procs := (v_procs v)(i := None)\<rparr>)"
| delete: "safeKey c n \<Longrightarrow> delete_rename s c n (v_fs v) = Some g \<Longrightarrow> vol_step s v (v\<lparr>v_fs := g\<rparr>)"
| remove: "q \<noteq> [] \<Longrightarrow> (\<And>x. fs_get (v_fs v) (q @ [x]) = None) \<Longrightarrow>
     (\<And>p. p \<in> final_places s \<Longrightarrow> \<not> prefix p q) \<Longrightarrow>
     (\<And>i rq pc w. v_procs v i = Some (rq, pc) \<Longrightarrow> work_of pc = Some w \<Longrightarrow> \<not> prefix (clean_comps w) q) \<Longrightarrow>
     vol_step s v (v\<lparr>v_fs := fs_remove_all q (v_fs v)\<rparr>)"

definition vol_reach :: "server \<Rightarrow> vol \<Rightarrow> vol \<Rightarrow> bool" where
  "vol_reach s = (vol_step s)\<^sup>*\<^sup>*"

section \<open>The invariant\<close>

definition complete_at :: "(path \<Rightarrow> fsnode option) set \<Rightarrow> fs \<Rightarrow> path \<Rightarrow> bool" where
  "complete_at ex f p \<longleftrightarrow> (\<exists>T \<in> ex. \<exists>t. subtree f p = T([doneMarker] \<mapsto> Reg [] t))"

definition work_ok :: "server \<Rightarrow> unpackRequest \<Rightarrow> string \<Rightarrow> bool" where
  "work_ok s rq w \<longleftrightarrow> is_abs w \<and>
     (\<exists>n. slash \<notin> set n \<and> clean_comps w = clean_comps (sv_root s) @ [rq_component rq, ''.tmp-'' @ n])"

definition pc_ok :: "(path \<Rightarrow> fsnode option) set \<Rightarrow> fs \<Rightarrow> upc \<Rightarrow> bool" where
  "pc_ok ex f pc \<longleftrightarrow> (case pc of
     UFetch w xs \<Rightarrow> \<forall>x \<in> set xs. x = path_base x \<and> \<not> has_prefix x ''.''
   | UMark w \<Rightarrow> fs_get f (out_dir w) = None \<or> subtree f (out_dir w) \<in> ex
   | URename w \<Rightarrow> fs_get f (out_dir w) = None \<or> complete_at ex f (out_dir w)
   | _ \<Rightarrow> True)"

definition proc_ok :: "server \<Rightarrow> vol \<Rightarrow> unpackRequest \<times> upc \<Rightarrow> bool" where
  "proc_ok s v p \<longleftrightarrow> valid_request (fst p) \<and> pc_ok (v_extracted v) (v_fs v) (snd p) \<and>
     (\<forall>w. work_of (snd p) = Some w \<longrightarrow> work_ok s (fst p) w)"

definition vol_ok :: "server \<Rightarrow> vol \<Rightarrow> bool" where
  "vol_ok s v \<longleftrightarrow> fs_ok (v_fs v) \<and>
     (\<forall>p \<in> final_places s. fs_get (v_fs v) p \<noteq> None \<longrightarrow> complete_at (v_extracted v) (v_fs v) p) \<and>
     (\<forall>i p. v_procs v i = Some p \<longrightarrow> proc_ok s v p \<and>
        (\<forall>w. work_of (snd p) = Some w \<longrightarrow> clean_comps w \<notin> live_works v i))"

text \<open>A place is kept by a step when its subtree is unchanged or gone altogether.\<close>

definition kept :: "fs \<Rightarrow> fs \<Rightarrow> path \<Rightarrow> bool" where
  "kept f g p \<longleftrightarrow> subtree g p = subtree f p \<or> subtree g p = (\<lambda>_. None)"

lemma subtree_Nil: "fs_get f p = subtree f p []"
  by (simp add: subtree_def)

lemma subtree_append: "subtree f (p @ q) = (\<lambda>r. subtree f p (q @ r))"
  by (simp add: subtree_def)

lemma kept_append: "kept f g p \<Longrightarrow> kept f g (p @ q)"
  by (auto simp: kept_def subtree_append)

lemma kept_complete:
  "kept f g p \<Longrightarrow> (fs_get f p \<noteq> None \<longrightarrow> complete_at ex f p) \<Longrightarrow> ex \<subseteq> ex' \<Longrightarrow>
   fs_get g p \<noteq> None \<longrightarrow> complete_at ex' g p"
  unfolding kept_def complete_at_def subtree_Nil [of g] subtree_Nil [of f]
  by (elim disjE) (auto dest: subsetD)

lemma out_dir_comps: "work_ok s rq w \<Longrightarrow> out_dir w = clean_comps w @ [''tree'']"
  unfolding out_dir_def work_ok_def using path_join_plain1 [of w "''tree''"] plain_names by auto

lemma kept_pc_ok:
  assumes "kept f g (clean_comps w)" "work_of pc = Some w" "work_ok s rq w" "ex \<subseteq> ex'"
    "pc_ok ex f pc"
  shows "pc_ok ex' g pc"
proof -
  have k: "kept f g (out_dir w)"
    using kept_append [OF assms(1)] out_dir_comps [OF assms(3)] by simp
  have "pc = UMark w \<Longrightarrow> ?thesis"
    using k assms(4,5) unfolding kept_def pc_ok_def subtree_Nil [of g] subtree_Nil [of f]
    by (elim disjE) (auto dest: subsetD)
  moreover have "pc = URename w \<Longrightarrow> ?thesis"
    using kept_complete [OF k _ assms(4)] assms(5) unfolding pc_ok_def by auto
  ultimately have "(\<exists>x. pc = UMark x) \<or> (\<exists>x. pc = URename x) \<Longrightarrow> ?thesis"
    using assms(2) by auto
  moreover have "\<not> ((\<exists>x. pc = UMark x) \<or> (\<exists>x. pc = URename x)) \<Longrightarrow> ?thesis"
    using assms(5) by (cases pc) (auto simp: pc_ok_def)
  ultimately show ?thesis by blast
qed

lemma work_place: "work_ok s rq w \<Longrightarrow> clean_comps w \<notin> final_places s"
  by (auto simp: work_ok_def final_places_def final_name_def)

section \<open>Every step preserves it\<close>

definition local_change :: "fs \<Rightarrow> fs \<Rightarrow> path \<Rightarrow> bool" where
  "local_change f g W \<longleftrightarrow> fs_ok g \<and> (\<forall>q. \<not> prefix W q \<longrightarrow> fs_get g q = fs_get f q)"

lemma prefix_same_length: "length p = length W \<Longrightarrow> prefix W (p @ r) \<longleftrightarrow> W = p"
  by (auto simp: prefix_def append_eq_append_conv)

lemma local_subtree: "local_change f g W \<Longrightarrow> length p = length W \<Longrightarrow> p \<noteq> W \<Longrightarrow> subtree g p = subtree f p"
  unfolding subtree_def local_change_def by (rule ext) (metis prefix_same_length)

lemma local_refl: "fs_ok f \<Longrightarrow> local_change f f W"
  by (simp add: local_change_def)

lemma local_write: "fs_ok f \<Longrightarrow> fs_write now p b f = Some g \<Longrightarrow> prefix W p \<Longrightarrow> local_change f g W"
  unfolding local_change_def using fs_write_ok fs_write_get by metis

lemma local_download:
  "fs_ok f \<Longrightarrow> prefix W dst \<Longrightarrow> download env url dst f = (ok, g) \<Longrightarrow> local_change f g W"
  unfolding download_def
  by (auto simp: local_refl split: fetched.splits option.splits intro: local_write)

lemma local_remove: "fs_ok f \<Longrightarrow> W \<noteq> [] \<Longrightarrow> local_change f (fs_remove_all W f) W"
  by (simp add: local_change_def fs_remove_all_ok fs_get_remove_all)

lemma fs_get_graft:
  "fs_get (fs_graft d es f) q =
    (if prefix d q \<and> fs_get es (drop (length d) q) \<noteq> None then fs_get es (drop (length d) q)
     else fs_get f q)"
  unfolding fs_get_def fs_graft_def
  by (induction es) (auto simp: prefix_def split: if_splits)

lemma fs_graft_ok:
  assumes f: "fs_ok f" and es: "es = [] \<or> fs_ok es" and d: "fs_get f d = None" "is_dir (fs_get f (butlast d))"
  shows "fs_ok (fs_graft d es f)"
proof (cases "es = []")
  case True
  with f show ?thesis by (simp add: fs_graft_def)
next
  case False
  with es have e: "fs_ok es" by simp
  have dn: "d \<noteq> []" using f d(1) by (auto simp: fs_ok_def)
  show ?thesis
    unfolding fs_ok_def
  proof (intro conjI allI impI)
    show "is_dir (fs_get (fs_graft d es f) [])" using f dn by (simp add: fs_get_graft fs_ok_def)
    fix p n assume p: "p \<noteq> []" and n: "fs_get (fs_graft d es f) p = Some n"
    show "is_dir (fs_get (fs_graft d es f) (butlast p))"
    proof (cases "prefix d p")
      case True
      then obtain q where q: "p = d @ q" by (auto simp: prefix_def)
      show ?thesis
      proof (cases "q = []")
        case True
        have "\<not> prefix d (butlast d)" using dn
          by (metis append_butlast_last_id append_self_conv not_Cons_self2 prefix_def prefix_order.antisym)
        with True q d(2) show ?thesis by (simp add: fs_get_graft)
      next
        case False
        have "fs_get f (d @ q) = None" using fs_ok_absent_below [OF f d(1)] .
        with n q have "fs_get es q \<noteq> None" by (auto simp: fs_get_graft split: if_splits)
        with e False have "is_dir (fs_get es (butlast q))" by (auto simp: fs_ok_def)
        moreover have "fs_get es (butlast q) \<noteq> None" using calculation by (metis is_dir.simps(2))
        ultimately show ?thesis using q False by (simp add: fs_get_graft butlast_append)
      qed
    next
      case False
      then have np: "\<not> prefix d (butlast p)" by (metis append_butlast_last_id p prefix_prefix)
      from n False have "fs_get f p = Some n" by (simp add: fs_get_graft)
      with f p have "is_dir (fs_get f (butlast p))" by (simp add: fs_ok_def)
      with np show ?thesis by (simp add: fs_get_graft)
    qed
  qed
qed

lemma local_dpkg:
  assumes "fs_ok f" "env_ok env" "prefix W out" "run_dpkg env dsc out f = (r, g)"
  shows "local_change f g W"
proof -
  have es: "case en_dpkg env f dsc of DpkgOk es \<Rightarrow> fs_ok es | DpkgFailed es _ \<Rightarrow> es = [] \<or> fs_ok es"
    using assms(2) by (simp add: env_ok_def)
  have gr: "es = [] \<or> fs_ok es \<Longrightarrow> fs_get f out = None \<Longrightarrow> is_dir (fs_get f (butlast out)) \<Longrightarrow>
      local_change f (fs_graft out es f) W" for es
    using fs_graft_ok [OF assms(1)] assms(3)
    by (auto simp: local_change_def fs_get_graft)
  show ?thesis
    using assms(1,4) es gr by (auto simp: run_dpkg_def local_refl split: if_splits dpkg_result.splits)
qed

lemma vol_ok_frame:
  assumes "vol_ok s v" "fs_ok g"
    and "\<And>p. p \<in> final_places s \<Longrightarrow> kept (v_fs v) g p"
    and "\<And>i rq pc w. v_procs v i = Some (rq, pc) \<Longrightarrow> work_of pc = Some w \<Longrightarrow> work_ok s rq w \<Longrightarrow>
      kept (v_fs v) g (clean_comps w)"
  shows "vol_ok s (v\<lparr>v_fs := g\<rparr>)"
proof -
  have l: "live_works (v\<lparr>v_fs := g\<rparr>) = live_works v" by (rule ext) (simp add: live_works_def)
  have "proc_ok s (v\<lparr>v_fs := g\<rparr>) p" if "v_procs v i = Some p" for i p
  proof -
    obtain rq pc where p: "p = (rq, pc)" by (cases p)
    have ok: "proc_ok s v (rq, pc)" using assms(1) that p by (auto simp: vol_ok_def)
    show ?thesis
    proof (cases "work_of pc")
      case None
      with ok p show ?thesis by (cases pc) (auto simp: proc_ok_def pc_ok_def)
    next
      case (Some w)
      with ok have w: "work_ok s rq w" by (auto simp: proc_ok_def)
      from kept_pc_ok [OF assms(4) [OF that [unfolded p] Some w] Some w subset_refl] ok p
      show ?thesis by (auto simp: proc_ok_def)
    qed
  qed
  moreover have "\<forall>p \<in> final_places s. fs_get g p \<noteq> None \<longrightarrow> complete_at (v_extracted v) g p"
    using assms(1) kept_complete [OF assms(3) _ subset_refl] unfolding vol_ok_def by blast
  ultimately show ?thesis using assms(1,2) by (simp add: vol_ok_def l)
qed

lemma vol_ok_run:
  assumes v: "vol_ok s v" and i: "v_procs v i = Some (rq, pc)" and "fs_ok g" and ex: "v_extracted v \<subseteq> ex'"
    and fin: "\<And>p. p \<in> final_places s \<Longrightarrow> kept (v_fs v) g p \<or> complete_at ex' g p"
    and oth: "\<And>W. W \<in> live_works v i \<Longrightarrow> kept (v_fs v) g W"
    and pc': "pc_ok ex' g pc'"
    and w': "\<And>w. work_of pc' = Some w \<Longrightarrow> work_ok s rq w \<and> clean_comps w \<notin> live_works v i"
  shows "vol_ok s (v\<lparr>v_fs := g, v_procs := (v_procs v)(i \<mapsto> (rq, pc')), v_extracted := ex'\<rparr>)"
    (is "vol_ok s ?v")
proof -
  have procs: "proc_ok s ?v p \<and> (\<forall>w. work_of (snd p) = Some w \<longrightarrow> clean_comps w \<notin> live_works ?v j)"
    if j: "v_procs ?v j = Some p" for j p
  proof (cases "j = i")
    case True
    have "live_works ?v i = live_works v i" by (auto simp: live_works_def)
    moreover have "valid_request rq" using v i by (auto simp: vol_ok_def proc_ok_def)
    ultimately show ?thesis using True j pc' w' by (auto simp: proc_ok_def)
  next
    case False
    obtain rq2 pc2 where p: "p = (rq2, pc2)" by (cases p)
    have j2: "v_procs v j = Some (rq2, pc2)" using False j p by simp
    then have ok: "proc_ok s v (rq2, pc2)" and
      d: "\<And>w. work_of pc2 = Some w \<Longrightarrow> clean_comps w \<notin> live_works v j"
      using v by (auto simp: vol_ok_def)
    show ?thesis
    proof (cases "work_of pc2")
      case None
      with ok p show ?thesis by (cases pc2) (auto simp: proc_ok_def pc_ok_def)
    next
      case (Some w)
      with ok have w: "work_ok s rq2 w" by (auto simp: proc_ok_def)
      have lw: "clean_comps w \<in> live_works v i" using False j2 Some by (auto simp: live_works_def)
      have "clean_comps w \<notin> live_works ?v j"
      proof
        assume "clean_comps w \<in> live_works ?v j"
        then obtain k r c w2 where k: "k \<noteq> j" "v_procs ?v k = Some (r, c)" "work_of c = Some w2"
          "clean_comps w = clean_comps w2" by (auto simp: live_works_def)
        show False
        proof (cases "k = i")
          case True
          with k w' lw show False by auto
        next
          case False
          with k d [OF Some] show False by (auto simp: live_works_def)
        qed
      qed
      with kept_pc_ok [OF oth [OF lw] Some w ex] ok p Some w show ?thesis by (auto simp: proc_ok_def)
    qed
  qed
  have "\<forall>p \<in> final_places s. fs_get g p \<noteq> None \<longrightarrow> complete_at ex' g p"
    using v fin kept_complete [OF _ _ ex] unfolding vol_ok_def by blast
  with procs assms(3) show ?thesis by (simp add: vol_ok_def)
qed

lemma live_work_ok:
  assumes "vol_ok s v" "W \<in> live_works v i"
  shows "length W = Suc (Suc (length (clean_comps (sv_root s))))"
    "\<exists>c n. W = clean_comps (sv_root s) @ [c, ''.tmp-'' @ n]"
  using assms by (auto simp: live_works_def vol_ok_def proc_ok_def work_ok_def) fastforce+

lemma final_place_length:
  "p \<in> final_places s \<Longrightarrow> length p = Suc (Suc (length (clean_comps (sv_root s))))"
  by (auto simp: final_places_def)

lemma vol_ok_local:
  assumes v: "vol_ok s v" and i: "v_procs v i = Some (rq, pc)" and ex: "v_extracted v \<subseteq> ex'"
    and w: "work_ok s rq w" "clean_comps w \<notin> live_works v i"
    and l: "local_change (v_fs v) g (clean_comps w)"
    and pc': "pc_ok ex' g pc'" "work_of pc' = None \<or> work_of pc' = Some w"
  shows "vol_ok s (v\<lparr>v_fs := g, v_procs := (v_procs v)(i \<mapsto> (rq, pc')), v_extracted := ex'\<rparr>)"
proof (rule vol_ok_run [OF v i _ ex])
  have len: "length (clean_comps w) = Suc (Suc (length (clean_comps (sv_root s))))"
    using w(1) by (auto simp: work_ok_def)
  show "fs_ok g" using l by (simp add: local_change_def)
  show "kept (v_fs v) g p \<or> complete_at ex' g p" if "p \<in> final_places s" for p
    using local_subtree [OF l, of p] that work_place [OF w(1)] final_place_length [OF that] len
    by (auto simp: kept_def)
  show "kept (v_fs v) g W" if "W \<in> live_works v i" for W
    using local_subtree [OF l, of W] that w(2) live_work_ok(1) [OF v that] len
    by (auto simp: kept_def)
qed (use pc' w in auto)

definition own_work :: "server \<Rightarrow> vol \<Rightarrow> nat \<Rightarrow> unpackRequest \<Rightarrow> string \<Rightarrow> bool" where
  "own_work s v i rq w \<longleftrightarrow> work_ok s rq w \<and> clean_comps w \<notin> live_works v i"

lemma own_workI:
  "vol_ok s v \<Longrightarrow> v_procs v i = Some (rq, pc) \<Longrightarrow> work_of pc = Some w \<Longrightarrow> own_work s v i rq w"
  unfolding vol_ok_def proc_ok_def own_work_def by fastforce

lemma work_join:
  assumes "work_ok s rq w" "plain x"
  shows "prefix (clean_comps w) (clean_comps (path_join [w, x]))"
  using path_join_plain1 [of w x] assms by (auto simp: work_ok_def)

lemma work_join_base:
  assumes "work_ok s rq w" "x = path_base x" "\<not> has_prefix x ''.''"
  shows "prefix (clean_comps w) (clean_comps (path_join [w, x]))"
  using join_base [of w x] assms by (auto simp: work_ok_def)

lemma filesFromDsc_names:
  assumes "filesFromDsc uf raw = Inr files"
  shows "files \<noteq> [] \<and> (\<forall>x \<in> set files. x = path_base x \<and> \<not> has_prefix x ''.'')"
proof -
  have "dsc_lines uf b ls out = Inr fs \<Longrightarrow> \<forall>x \<in> set out. x = path_base x \<and> \<not> has_prefix x ''.'' \<Longrightarrow>
      \<forall>x \<in> set fs. x = path_base x \<and> \<not> has_prefix x ''.''" for b ls out fs
    by (induction uf b ls out rule: dsc_lines.induct) (auto simp: Let_def split: if_splits)
  from this [of False _ "[]"] assms show ?thesis
    by (auto simp: filesFromDsc_def split: sum.splits if_splits)
qed

text \<open>The steps that only touch the request's own staging directory.\<close>

lemma run_local:
  assumes v: "vol_ok s v" and root: "is_abs (sv_root s)" and env: "env_ok env"
    and i: "v_procs v i = Some (rq, pc)" and w: "work_of pc = Some w" "pc \<noteq> URename w"
    and st: "unpack_step s env rq pc (v_fs v) = (pc', g)"
  shows "local_change (v_fs v) g (clean_comps w)" "work_of pc' = None \<or> work_of pc' = Some w"
proof -
  have f: "fs_ok (v_fs v)" and rq: "valid_request rq" and pc: "pc_ok (v_extracted v) (v_fs v) pc"
    using v i by (auto simp: vol_ok_def proc_ok_def)
  have wk: "work_ok s rq w" using own_workI [OF v i w(1)] by (simp add: own_work_def)
  have ne: "clean_comps w \<noteq> []" using wk by (auto simp: work_ok_def)
  note dsc = work_join [OF wk valid_plain(4) [OF rq]] and base = work_join_base [OF wk]
  have tree: "prefix (clean_comps w) (out_dir w)" using out_dir_comps [OF wk] by simp
  have "is_abs (path_join [w, ''tree''])"
    using path_join_plain1(2) wk plain_names(1) by (auto simp: work_ok_def)
  then have mark: "prefix (clean_comps w) (clean_comps (path_join [path_join [w, ''tree''], doneMarker]))"
    using path_join_plain1(1) [of "path_join [w, ''tree'']" doneMarker] plain_names(2) tree
    by (simp add: out_dir_def)
  show "local_change (v_fs v) g (clean_comps w)" "work_of pc' = None \<or> work_of pc' = Some w"
    using st w pc ne
    by (cases pc; force simp: unpack_step_def pc_ok_def local_refl [OF f]
          intro: local_download [OF f dsc] local_download [OF f base] local_dpkg [OF f env tree]
            local_write [OF f _ mark] local_remove [OF f]
          split: option.splits prod.splits if_splits list.splits fsnode.splits sum.splits)+
qed

definition next_extracted :: "fs \<Rightarrow> upc \<Rightarrow> (path \<Rightarrow> fsnode option) set \<Rightarrow> (path \<Rightarrow> fsnode option) set" where
  "next_extracted g pc' ex = (case pc' of UMark w \<Rightarrow> insert (subtree g (out_dir w)) ex | _ \<Rightarrow> ex)"

lemma next_extracted_mono: "ex \<subseteq> next_extracted g pc' ex"
  by (cases pc') (auto simp: next_extracted_def)

lemma run_next_pc:
  assumes v: "vol_ok s v" and root: "is_abs (sv_root s)"
    and i: "v_procs v i = Some (rq, pc)" and w: "work_of pc = Some w" "pc \<noteq> URename w"
    and st: "unpack_step s env rq pc (v_fs v) = (pc', g)"
  shows "pc_ok (next_extracted g pc' (v_extracted v)) g pc'"
proof -
  have f: "fs_ok (v_fs v)" and pc: "pc_ok (v_extracted v) (v_fs v) pc"
    using v i by (auto simp: vol_ok_def proc_ok_def)
  have wk: "work_ok s rq w" using own_workI [OF v i w(1)] by (simp add: own_work_def)
  consider (mark) "pc = UMark w" "pc' = URename w" | (fetch) x where "pc' = UFetch w x"
    | (ext) "pc' = UMark w" | (other) "\<And>w x. pc' \<noteq> UFetch w x" "\<And>w. pc' \<noteq> UMark w" "\<And>w. pc' \<noteq> URename w"
    using st w
    by (cases pc; force simp: unpack_step_def
        split: option.splits prod.splits if_splits list.splits fsnode.splits sum.splits)
  then show ?thesis
  proof cases
    case mark
    let ?m = "clean_comps (path_join [path_join [w, ''tree''], doneMarker])"
    have m: "?m = out_dir w @ [doneMarker]"
      using path_join_plain1 [of w "''tree''"] path_join_plain1 [of "path_join [w, ''tree'']" doneMarker]
        plain_names wk by (simp add: out_dir_def work_ok_def)
    from mark st have g: "fs_write (en_now env) ?m [] (v_fs v) = Some g"
      by (auto simp: unpack_step_def split: option.splits if_splits)
    then have "fs_get (v_fs v) (out_dir w) \<noteq> None"
      using fs_write_parent [OF g] m by (cases "fs_get (v_fs v) (out_dir w)") auto
    with pc mark have T: "subtree (v_fs v) (out_dir w) \<in> v_extracted v" by (simp add: pc_ok_def)
    have "subtree g (out_dir w) = (subtree (v_fs v) (out_dir w))([doneMarker] \<mapsto> Reg [] (en_now env))"
      unfolding subtree_def using fs_write_get [OF g] m by auto
    with T mark show ?thesis by (auto simp: pc_ok_def complete_at_def next_extracted_def)
  next
    case fetch
    with st w pc show ?thesis
      by (cases pc; force simp: unpack_step_def pc_ok_def dest: filesFromDsc_names
          split: option.splits prod.splits if_splits list.splits fsnode.splits sum.splits)
  next
    case ext
    then show ?thesis by (simp add: pc_ok_def next_extracted_def)
  next
    case other
    then show ?thesis by (cases pc') (auto simp: pc_ok_def)
  qed
qed

lemma run_rename_frame:
  assumes v: "vol_ok s v" and root: "is_abs (sv_root s)" and i: "v_procs v i = Some (rq, URename w)"
    and st: "unpack_step s env rq (URename w) (v_fs v) = (pc', g)" and moved: "g \<noteq> v_fs v"
  defines "P \<equiv> clean_comps (sv_root s) @ [rq_component rq, pkg_dir rq]"
  shows "fs_ok g" "complete_at (v_extracted v) g P" "fs_get (v_fs v) P = None"
    "\<And>p. length p = Suc (Suc (length (clean_comps (sv_root s)))) \<Longrightarrow> p \<noteq> P \<Longrightarrow> p \<noteq> clean_comps w \<Longrightarrow>
      subtree g p = subtree (v_fs v) p"
proof -
  let ?f = "v_fs v" and ?R = "clean_comps (sv_root s)"
  have f: "fs_ok ?f" and rq: "valid_request rq" and pc: "pc_ok (v_extracted v) ?f (URename w)"
    using v i by (auto simp: vol_ok_def proc_ok_def)
  have own: "work_ok s rq w" using own_workI [OF v i] by (auto simp: own_work_def)
  have P: "clean_comps (final_path s rq) = P" using final_comps(1) [OF root rq] by (simp add: P_def)
  from moved st have r: "fs_rename (out_dir w) P ?f = Some g"
    by (auto simp: unpack_step_def P split: option.splits if_splits)
  note get = fs_rename_get [OF f r]
  have out: "out_dir w = clean_comps w @ [''tree'']" by (rule out_dir_comps [OF own])
  have len: "length (clean_comps w) = Suc (Suc (length ?R))" "length P = Suc (Suc (length ?R))"
    using own by (auto simp: work_ok_def P_def)
  have cO: "complete_at (v_extracted v) ?f (out_dir w)" using get(3) pc by (auto simp: pc_ok_def)
  then obtain t where "fs_get ?f (out_dir w @ [doneMarker]) = Some (Reg [] t)"
    by (auto simp: complete_at_def subtree_def fun_eq_iff)
  with f have "is_dir (fs_get ?f (out_dir w))" unfolding fs_ok_def by (metis append_is_Nil_conv butlast_snoc not_Cons_self2)
  with r show "fs_get ?f P = None" by (auto simp: fs_rename_def split: if_splits)
  show "fs_ok g" by (rule fs_rename_ok [OF f r])
  show "complete_at (v_extracted v) g P" using cO get(6) by (simp add: complete_at_def subtree_def)
  show "subtree g p = subtree ?f p" if "length p = Suc (Suc (length ?R))" "p \<noteq> P" "p \<noteq> clean_comps w" for p
  proof (rule ext)
    fix x
    have "\<not> prefix P (p @ x)" using that len(2) by (simp add: prefix_same_length)
    moreover have "\<not> prefix (out_dir w) (p @ x)"
      using that len(1) prefix_same_length [of p "clean_comps w" x] append_prefixD [of "clean_comps w"]
      unfolding out by metis
    ultimately show "subtree g p x = subtree ?f p x" using get(6) by (simp add: subtree_def)
  qed
qed

lemma run_rename:
  assumes v: "vol_ok s v" and root: "is_abs (sv_root s)" and i: "v_procs v i = Some (rq, URename w)"
    and st: "unpack_step s env rq (URename w) (v_fs v) = (pc', g)"
  shows "vol_ok s (v\<lparr>v_fs := g, v_procs := (v_procs v)(i \<mapsto> (rq, pc'))\<rparr>)"
proof -
  let ?f = "v_fs v" and ?R = "clean_comps (sv_root s)"
  have f: "fs_ok ?f" and rq: "valid_request rq" and pc: "pc_ok (v_extracted v) ?f (URename w)"
    using v i by (auto simp: vol_ok_def proc_ok_def)
  have own: "work_ok s rq w" "clean_comps w \<notin> live_works v i"
    using own_workI [OF v i] by (auto simp: own_work_def)
  have next': "pc' = UMeasure w \<or> pc' = UCleanup w (Inl ERename)"
    using st by (auto simp: unpack_step_def split: option.splits if_splits)
  have pc'_ok: "pc_ok (v_extracted v) g pc'" "work_of pc' = Some w"
    using next' by (auto simp: pc_ok_def)
  show ?thesis
  proof (cases "g = ?f")
    case True
    have "local_change ?f g (clean_comps w)" using True f by (simp add: local_refl)
    from vol_ok_local [OF v i subset_refl own this pc'_ok(1)] pc'_ok(2) show ?thesis by simp
  next
    case False
    define P where "P = ?R @ [rq_component rq, pkg_dir rq]"
    note fr = run_rename_frame [OF v root i st False, folded P_def]
    note same = fr(4) and cP = fr(2)
    have "vol_ok s (v\<lparr>v_fs := g, v_procs := (v_procs v)(i \<mapsto> (rq, pc')), v_extracted := v_extracted v\<rparr>)"
    proof (rule vol_ok_run [OF v i fr(1) subset_refl])
      show "kept ?f g p \<or> complete_at (v_extracted v) g p" if "p \<in> final_places s" for p
        using same [of p] cP final_place_length [OF that] work_place [OF own(1)] that
        by (auto simp: kept_def)
      show "kept ?f g W" if "W \<in> live_works v i" for W
      proof -
        from live_work_ok(2) [OF v that]
        obtain c n where W: "W = ?R @ [c, ''.tmp-'' @ n]" by blast
        have "W \<noteq> P"
        proof
          assume "W = P"
          then have "pkg_dir rq = ''.tmp-'' @ n" using W by (simp add: P_def)
          with valid_plain(3) [OF rq] show False by simp
        qed
        with same [of W] live_work_ok(1) [OF v that] own(2) that show ?thesis by (auto simp: kept_def)
      qed
    qed (use pc'_ok own in auto)
    then show ?thesis by simp
  qed
qed

lemma run_mkdir_temp_frame:
  assumes v: "vol_ok s v" and root: "is_abs (sv_root s)" and env: "env_ok env"
    and i: "v_procs v i = Some (rq, pc)" and pc: "work_of pc = None"
    and st: "unpack_step s env rq pc (v_fs v) = (pc', g)"
  shows "fs_ok g \<and> (\<forall>p. length p = Suc (Suc (length (clean_comps (sv_root s)))) \<longrightarrow>
      \<not> (\<exists>w. pc' = UFetchDsc w \<and> clean_comps w = p) \<longrightarrow> subtree g p = subtree (v_fs v) p) \<and>
    (work_of pc' = None \<or> (\<exists>w. pc' = UFetchDsc w \<and> work_ok s rq w))"
proof -
  let ?f = "v_fs v" and ?R = "clean_comps (sv_root s)"
  have f: "fs_ok ?f" and rq: "valid_request rq" using v i by (auto simp: vol_ok_def proc_ok_def)
  note fin = final_comps [OF root rq]
  show ?thesis
    using pc
  proof (cases pc)
    case UMkdir
    show ?thesis
    proof (cases "fs_mkdir_all (en_now env) (clean_comps (path_dir (final_path s rq))) ?f")
      case None
      with UMkdir st f show ?thesis by (auto simp: unpack_step_def)
    next
      case (Some h)
      then have m: "mkdirs (en_now env) [] (?R @ [rq_component rq]) ?f = Some h"
        using fin(3) by (simp add: fs_mkdir_all_def)
      have "subtree h p = subtree ?f p" if "length p = Suc (Suc (length ?R))" for p
      proof (rule ext)
        fix x
        have "p @ x \<noteq> [] @ take k (?R @ [rq_component rq])" for k
        proof
          assume "p @ x = [] @ take k (?R @ [rq_component rq])"
          then have "length (p @ x) \<le> length (?R @ [rq_component rq])" by simp
          with that show False by simp
        qed
        with mkdirs_get [OF m, of "p @ x"] show "subtree h p x = subtree ?f p x"
          by (auto simp: subtree_def)
      qed
      with Some UMkdir st f mkdirs_ok [OF f m] show ?thesis
        by (auto simp: unpack_step_def split: if_splits)
    qed
  next
    case UTemp
    define work where "work = path_join [path_dir (final_path s rq), ''.tmp-'' @ rq_source rq @ ''-'' @ en_random env]"
    have "slash \<notin> set (rq_source rq @ ''-'' @ en_random env)"
      using rq env rePackage_chars by (auto simp: valid_request_def env_ok_def)
    then have wc: "clean_comps work = ?R @ [rq_component rq, ''.tmp-'' @ rq_source rq @ ''-'' @ en_random env]"
      "is_abs work" "work_ok s rq work"
      using path_join_plain1 [OF fin(4) plain_names(3)] fin(3)
      by (fastforce simp: work_def work_ok_def)+
    have ok: "is_dir (fs_get ?f (butlast (clean_comps work))) \<Longrightarrow>
        fs_get ?f (clean_comps work) = None \<Longrightarrow> fs_ok (fs_put ?f (clean_comps work) (Dir (en_now env)))"
      using f wc(1) unfolding fs_ok_def by (auto simp: fs_get_put)
    have "subtree (fs_put ?f (clean_comps work) (Dir (en_now env))) p = subtree ?f p"
      if "length p = Suc (Suc (length ?R))" "clean_comps work \<noteq> p" for p
    proof (rule ext)
      fix x
      have "p @ x \<noteq> clean_comps work"
      proof
        assume eq: "p @ x = clean_comps work"
        then have "length (p @ x) = Suc (Suc (length ?R))" using wc(1) by simp
        with that(1) have "x = []" by simp
        with eq that(2) show False by simp
      qed
      then show "subtree (fs_put ?f (clean_comps work) (Dir (en_now env))) p x = subtree ?f p x"
        by (simp add: subtree_def fs_get_put)
    qed
    note sub = this
    have "(pc', g) = (if en_io_ok env \<and> fs_get ?f (clean_comps work) = None \<and> is_dir (fs_get ?f (butlast (clean_comps work)))
        then (UFetchDsc work, fs_put ?f (clean_comps work) (Dir (en_now env))) else (UDone (Inl EMkdirTemp), ?f))"
      using UTemp st by (auto simp: unpack_step_def Let_def work_def split: if_splits)
    with sub f ok wc(3) show ?thesis by (auto split: if_splits)
  qed (use st f in \<open>auto simp: unpack_step_def split: if_splits\<close>)
qed

lemma run_mkdir_temp:
  assumes v: "vol_ok s v" and root: "is_abs (sv_root s)" and env: "env_ok env"
    and i: "v_procs v i = Some (rq, pc)" and pc: "work_of pc = None"
    and st: "unpack_step s env rq pc (v_fs v) = (pc', g)"
    and fresh: "\<And>w. pc' = UFetchDsc w \<Longrightarrow> clean_comps w \<notin> live_works v i"
  shows "vol_ok s (v\<lparr>v_fs := g, v_procs := (v_procs v)(i \<mapsto> (rq, pc'))\<rparr>)"
proof -
  let ?f = "v_fs v" and ?R = "clean_comps (sv_root s)"
  note * = run_mkdir_temp_frame [OF v root env i pc st]
  have "vol_ok s (v\<lparr>v_fs := g, v_procs := (v_procs v)(i \<mapsto> (rq, pc')), v_extracted := v_extracted v\<rparr>)"
  proof (rule vol_ok_run [OF v i _ subset_refl])
    show "kept ?f g p \<or> complete_at (v_extracted v) g p" if "p \<in> final_places s" for p
      using * final_place_length [OF that] that work_place by (fastforce simp: kept_def)
    show "kept ?f g W" if "W \<in> live_works v i" for W
      using * live_work_ok(1) [OF v that] that fresh by (fastforce simp: kept_def)
    show "pc_ok (v_extracted v) g pc'" using * by (cases pc') (auto simp: pc_ok_def)
    show "work_ok s rq w \<and> clean_comps w \<notin> live_works v i" if "work_of pc' = Some w" for w
      using * that fresh by auto
  qed (use * in blast)
  then show ?thesis by simp
qed

lemma vol_step_run:
  assumes v: "vol_ok s v" and root: "is_abs (sv_root s)" and i: "v_procs v i = Some (rq, pc)"
    and env: "env_ok env" and st: "unpack_step s env rq pc (v_fs v) = (pc', g)"
    and fresh: "\<And>w. pc' = UFetchDsc w \<Longrightarrow> clean_comps w \<notin> live_works v i"
  shows "vol_ok s (v\<lparr>v_fs := g, v_procs := (v_procs v)(i \<mapsto> (rq, pc')),
      v_extracted := next_extracted g pc' (v_extracted v)\<rparr>)"
proof (cases "work_of pc")
  case None
  have "\<And>w. pc' \<noteq> UMark w"
    using None st by (cases pc) (auto simp: unpack_step_def Let_def split: if_splits option.splits)
  then have "next_extracted g pc' (v_extracted v) = v_extracted v"
    by (cases pc') (auto simp: next_extracted_def)
  with run_mkdir_temp [OF v root env i None st fresh] show ?thesis by simp
next
  case (Some w)
  show ?thesis
  proof (cases "pc = URename w")
    case True
    have "\<And>x. pc' \<noteq> UMark x"
      using True st by (auto simp: unpack_step_def split: if_splits option.splits)
    then have "next_extracted g pc' (v_extracted v) = v_extracted v"
      by (cases pc') (auto simp: next_extracted_def)
    with run_rename [OF v root i [unfolded True] st [unfolded True]] show ?thesis by simp
  next
    case False
    have own: "work_ok s rq w" "clean_comps w \<notin> live_works v i"
      using own_workI [OF v i Some] by (auto simp: own_work_def)
    from vol_ok_local [OF v i next_extracted_mono own run_local(1) [OF v root env i Some False st]
        run_next_pc [OF v root i Some False st] run_local(2) [OF v root env i Some False st]]
    show ?thesis .
  qed
qed

lemma delete_paths:
  assumes root: "is_abs (sv_root s)" and safe: "safeKey c n"
  shows "(plain n \<and> hd n \<noteq> CHR ''.'' \<and>
      clean_comps (path_join [sv_root s, c, n]) = clean_comps (sv_root s) @ [c, n] \<and>
      clean_comps (path_join [sv_root s, c, n] @ ''.deleting'') = clean_comps (sv_root s) @ [c, n @ ''.deleting'']) \<or>
    (clean_comps (path_join [sv_root s, c, n]) = clean_comps (sv_root s) @ [c] \<and>
      clean_comps (path_join [sv_root s, c, n] @ ''.deleting'') = clean_comps (sv_root s) @ [c @ ''.deleting''])"
proof -
  have c: "plain c" and n: "n \<noteq> []" "n = path_base n" "hd n \<noteq> CHR ''.''"
    using safe reComp_plain by (auto simp: safeKey_def)
  then have nd: "\<not> has_prefix n ''.''" by (cases n) (auto simp: has_prefix_def)
  have suf: "clean_comps (p @ ''.deleting'') = ps @ [x @ ''.deleting'']"
    if p: "is_abs p" "clean p = p" "clean_comps p = ps @ [x]" for p ps x
  proof -
    have pl: "list_all plain (ps @ [x])" using clean_comps_plain [OF p(1)] p(3) by simp
    then have pl2: "list_all plain (ps @ [x @ ''.deleting''])" by (auto simp: plain_def)
    have "join_with ''/'' (ps @ [x]) @ ''.deleting'' = join_with ''/'' (ps @ [x @ ''.deleting''])"
      by (induction ps) (auto simp: join_with_Cons)
    then have "p @ ''.deleting'' = slash # join_with ''/'' (ps @ [x @ ''.deleting''])"
      using clean_abs [OF p(1)] p(2,3) by (metis append_Cons)
    with comps_of_abs_plain [OF pl2] show ?thesis by metis
  qed
  note cl = path_join_is_clean [OF root, of "[c, n]"]
  from path_base_fix [OF n(2) nd] show ?thesis
  proof
    assume pn: "plain n"
    note j = path_join_plain2 [OF root c pn]
    from suf [OF j(2) cl, of "clean_comps (sv_root s) @ [c]" n] j(1) pn n(3) show ?thesis by simp
  next
    assume x: "n = ''/''"
    have ne: "sv_root s \<noteq> []" "c \<noteq> []" using root c by (auto simp: plain_def)
    define rc where "rc = sv_root s @ ''/'' @ c"
    have abs: "is_abs rc" using root ne by (cases "sv_root s") (auto simp: rc_def)
    have j: "path_join [sv_root s, c] = clean rc" using ne by (simp add: path_join_def rc_def)
    have jn: "path_join [sv_root s, c, n] = clean (rc @ ''/'' @ ''/'')"
      using ne x by (simp add: path_join_def rc_def)
    have abs2: "is_abs (rc @ ''/'' @ ''/'')" using abs by (cases rc) auto
    have "clean_comps (rc @ ''/'' @ ''/'') = clean_comps rc"
      using clean_comps_slash [of rc] clean_comps_slash [of "rc @ ''/''"] ne by (simp add: rc_def)
    then have e: "clean_comps (path_join [sv_root s, c, n]) = clean_comps (sv_root s) @ [c]"
      using jn j abs abs2 path_join_plain1 [OF root c] by (simp add: clean_comps_clean)
    have "is_abs (path_join [sv_root s, c, n])" using jn abs2 by simp
    from suf [OF this cl e] e show ?thesis by blast
  qed
qed

lemma vol_step_delete:
  assumes v: "vol_ok s v" and root: "is_abs (sv_root s)" and safe: "safeKey c n"
    and del: "delete_rename s c n (v_fs v) = Some g"
  shows "vol_ok s (v\<lparr>v_fs := g\<rparr>)"
proof -
  let ?R = "clean_comps (sv_root s)" and ?f = "v_fs v"
  define a where "a = clean_comps (path_join [sv_root s, c, n])"
  define b where "b = clean_comps (path_join [sv_root s, c, n] @ ''.deleting'')"
  have f: "fs_ok ?f" using v by (simp add: vol_ok_def)
  have r: "fs_rename a b ?f = Some g" using del by (simp add: delete_rename_def a_def b_def Let_def)
  note get = fs_rename_get [OF f r] and ok = fs_rename_ok [OF f r]
  have kept: "kept ?f g (?R @ [c', m])" if c': "reComp c'" and
    m: "m \<noteq> []" "hd m = CHR ''.'' \<or> final_name m" for c' m
  proof -
    from delete_paths [OF root safe] show ?thesis
    proof
      assume "plain n \<and> hd n \<noteq> CHR ''.'' \<and> clean_comps (path_join [sv_root s, c, n]) = ?R @ [c, n] \<and>
        clean_comps (path_join [sv_root s, c, n] @ ''.deleting'') = ?R @ [c, n @ ''.deleting'']"
      then have n: "n \<noteq> []" "hd n \<noteq> CHR ''.''" and ab: "a = ?R @ [c, n]" "b = ?R @ [c, n @ ''.deleting'']"
        by (auto simp: a_def b_def plain_def)
      have "m \<noteq> n @ ''.deleting''"
        using m(2) n by (auto simp: final_name_def)
      then have "\<not> prefix b ((?R @ [c', m]) @ x)" for x by (simp add: ab)
      then show ?thesis
        using get(6) by (cases "c' = c \<and> m = n") (auto simp: kept_def subtree_def ab fun_eq_iff)
    next
      assume "clean_comps (path_join [sv_root s, c, n]) = ?R @ [c] \<and>
        clean_comps (path_join [sv_root s, c, n] @ ''.deleting'') = ?R @ [c @ ''.deleting'']"
      then have ab: "a = ?R @ [c]" "b = ?R @ [c @ ''.deleting'']" by (auto simp: a_def b_def)
      have "c' \<noteq> c @ ''.deleting''" using c' safe by (auto simp: safeKey_def reComp_def)
      then have "\<not> prefix b ((?R @ [c', m]) @ x)" for x by (simp add: ab)
      then show ?thesis
        using get(6) by (cases "c' = c") (auto simp: kept_def subtree_def ab fun_eq_iff)
    qed
  qed
  show ?thesis
  proof (rule vol_ok_frame [OF v ok])
    show "kept ?f g p" if "p \<in> final_places s" for p
      using that kept by (auto simp: final_places_def final_name_def)
    show "kept ?f g (clean_comps w)" if "v_procs v i = Some (rq, pc)" "work_ok s rq w" for i rq pc w
    proof -
      have "reComp (rq_component rq)"
        using that(1) v by (auto simp: vol_ok_def proc_ok_def valid_request_def)
      with that(2) kept show ?thesis by (auto simp: work_ok_def)
    qed
  qed
qed

lemma vol_step_ok: "vol_step s v v' \<Longrightarrow> is_abs (sv_root s) \<Longrightarrow> vol_ok s v \<Longrightarrow> vol_ok s v'"
proof (induction rule: vol_step.induct)
  case (start v i rq)
  have p: "proc_ok s (v\<lparr>v_procs := (v_procs v)(i \<mapsto> (rq, UCheck))\<rparr>) p = proc_ok s v p" for p
    by (simp add: proc_ok_def)
  have "live_works (v\<lparr>v_procs := (v_procs v)(i \<mapsto> (rq, UCheck))\<rparr>) j \<subseteq> live_works v j" for j
    by (auto simp: live_works_def split: if_splits)
  with start p show ?case
    by (fastforce simp: vol_ok_def proc_ok_def pc_ok_def)
next
  case (run v i rq pc env pc' g)
  from vol_step_run [OF run.prems(2,1) run.hyps] show ?case
    by (simp add: next_extracted_def)
next
  case (crash v i)
  have p: "proc_ok s (v\<lparr>v_procs := (v_procs v)(i := None)\<rparr>) p = proc_ok s v p" for p
    by (simp add: proc_ok_def)
  have "live_works (v\<lparr>v_procs := (v_procs v)(i := None)\<rparr>) j \<subseteq> live_works v j" for j
    by (auto simp: live_works_def split: if_splits)
  with crash p show ?case by (fastforce simp: vol_ok_def)
next
  case (delete c n v g)
  then show ?case using vol_step_delete by blast
next
  case (remove q v)
  have f: "fs_ok (v_fs v)" using remove.prems by (simp add: vol_ok_def)
  have get: "fs_get (fs_remove_all q (v_fs v)) p = (if p = q then None else fs_get (v_fs v) p)" for p
  proof (cases "prefix q p \<and> p \<noteq> q")
    case True
    then obtain x r where p: "p = (q @ [x]) @ r" by (metis append.assoc append_Cons append_Nil prefix_def append_self_conv neq_Nil_conv)
    have "fs_get (v_fs v) p = None"
      unfolding p by (rule fs_ok_absent_below [OF f remove.hyps(2)])
    with True show ?thesis by (simp add: fs_get_remove_all)
  qed (auto simp: fs_get_remove_all)
  have keep: "\<not> prefix p q \<Longrightarrow> kept (v_fs v) (fs_remove_all q (v_fs v)) p" for p
  proof -
    assume "\<not> prefix p q"
    then have "p @ r \<noteq> q" for r by auto
    then show ?thesis by (simp add: kept_def subtree_def get)
  qed
  show ?case
    by (rule vol_ok_frame [OF remove.prems(2) fs_remove_all_ok [OF f remove.hyps(1)]])
      (use keep remove.hyps(3,4) in blast)+
qed

lemma vol_reach_ok: "vol_reach s v v' \<Longrightarrow> is_abs (sv_root s) \<Longrightarrow> vol_ok s v \<Longrightarrow> vol_ok s v'"
  unfolding vol_reach_def by (induction rule: rtranclp_induct) (auto intro: vol_step_ok)

text \<open>A volume nobody is working on, with no package in it yet.\<close>

definition fresh_volume :: "server \<Rightarrow> vol \<Rightarrow> bool" where
  "fresh_volume s v \<longleftrightarrow> fs_ok (v_fs v) \<and> v_procs v = Map.empty \<and> v_extracted v = {} \<and>
     (\<forall>p \<in> final_places s. fs_get (v_fs v) p = None)"

lemma fresh_volume_ok: "fresh_volume s v \<Longrightarrow> vol_ok s v"
  by (simp add: fresh_volume_def vol_ok_def)

section \<open>A request on its own\<close>

fun unpack_steps :: "nat \<Rightarrow> server \<Rightarrow> uenv \<Rightarrow> unpackRequest \<Rightarrow> upc \<times> fs \<Rightarrow> upc \<times> fs" where
  "unpack_steps 0 s env rq st = st"
| "unpack_steps (Suc n) s env rq st = unpack_steps n s env rq (unpack_step s env rq (fst st) (snd st))"

lemma steps_reach:
  assumes "env_ok env" "v_procs v = [i \<mapsto> (rq, pc)]"
  shows "\<exists>v'. vol_reach s v v' \<and> (v_procs v' = [i \<mapsto> (rq, fst (unpack_steps n s env rq (pc, v_fs v)))]) \<and>
    v_fs v' = snd (unpack_steps n s env rq (pc, v_fs v))"
  using assms(2)
proof (induction n arbitrary: v pc)
  case 0
  then show ?case by (auto simp: vol_reach_def)
next
  case (Suc n)
  obtain pc' g where st: "unpack_step s env rq pc (v_fs v) = (pc', g)" by fastforce
  define v1 where "v1 = v\<lparr>v_fs := g, v_procs := (v_procs v)(i \<mapsto> (rq, pc')),
    v_extracted := (case pc' of UMark w \<Rightarrow> insert (subtree g (out_dir w)) (v_extracted v) | _ \<Rightarrow> v_extracted v)\<rparr>"
  have "live_works v i = {}" using Suc.prems by (auto simp: live_works_def)
  then have one: "vol_step s v v1"
    unfolding v1_def using Suc.prems st assms(1) by (intro vol_step.run) auto
  have "v_procs v1 = [i \<mapsto> (rq, pc')]" "v_fs v1 = g" by (auto simp: v1_def Suc.prems fun_eq_iff)
  with Suc.IH [of v1 pc'] one st show ?case
    unfolding vol_reach_def by (auto intro: converse_rtranclp_into_rtranclp)
qed

lemma start_reach:
  assumes "env_ok env" "valid_request rq" "v_procs v = Map.empty"
  shows "\<exists>v'. vol_reach s v v' \<and> v_fs v' = snd (unpack_steps n s env rq (UCheck, v_fs v))"
proof -
  let ?v = "v\<lparr>v_procs := (v_procs v)(0 \<mapsto> (rq, UCheck))\<rparr>"
  have "vol_step s v ?v" using assms(2,3) by (intro vol_step.start) auto
  moreover have "v_procs ?v = [0 \<mapsto> (rq, UCheck)]" using assms(3) by simp
  moreover obtain v' where "vol_reach s ?v v'" "v_fs v' = snd (unpack_steps n s env rq (UCheck, v_fs ?v))"
    using steps_reach [OF assms(1) calculation(2), of s n] by blast
  ultimately show ?thesis unfolding vol_reach_def
    by (auto intro: converse_rtranclp_into_rtranclp)
qed

section \<open>Properties\<close>


definition example_server :: server where
  "example_server = \<lparr>sv_root = ''/v'', sv_mirror = ''m'', sv_fields = (\<lambda>_. [])\<rparr>"

definition example_request :: unpackRequest where
  "example_request = \<lparr>rq_source = ''zlib'', rq_version = ''1.2'', rq_component = ''main''\<rparr>"

definition example_uenv :: uenv where
  "example_uenv = \<lparr>en_now = 7, en_random = ''123'', en_io_ok = True,
     en_fetch = (\<lambda>url. Whole (if has_suffix url ''.dsc''
        then ''Files:'' @ [CHR 0x0A] @ '' ab 3 z.tar'' @ [CHR 0x0A] else ''tarball'')),
     en_dpkg = (\<lambda>_ _. DpkgOk [([], Dir 7), ([''a.c''], Reg ''int'' 7)])\<rparr>"

definition example_vol :: vol where
  "example_vol = \<lparr>v_fs = [([], Dir 0), ([''v''], Dir 0)], v_procs = Map.empty, v_extracted = {}\<rparr>"

lemma example_final:
  "fs_get (snd (unpack_steps 11 example_server example_uenv example_request (UCheck, v_fs example_vol)))
     [''v'', ''main'', ''zlib_1.2'', ''a.c''] = Some (Reg ''int'' 7)"
  "fs_get (snd (unpack_steps 11 example_server example_uenv example_request (UCheck, v_fs example_vol)))
     [''v'', ''main'', ''zlib_1.2''] = Some (Dir 7)"
  by code_simp+

lemma example_uenv_ok: "env_ok example_uenv"
  by (auto simp: env_ok_def example_uenv_def fs_ok_def fs_get_def split: if_splits)

lemma example_root: "is_abs (sv_root example_server)" "clean_comps (sv_root example_server) = [''v'']"
  by code_simp+

lemma example_fresh: "fresh_volume example_server example_vol"
  unfolding fresh_volume_def final_places_def example_root(2)
  by (auto simp: example_vol_def fs_ok_def fs_get_def split: if_splits)

lemma example_valid: "valid_request example_request"
  by code_simp


end
