(* ===== verification/DebTrees.thy ===== *)
theory DebTrees
  imports DebVolume
begin

text \<open>
  The handlers of \<open>cmd/deb-unpack\<close>: what \<open>GET /trees\<close> reports, what a sweep removes, what a
  deletion does, and that an unpack request ends and stays below the volume's root.
\<close>

section \<open>Names on disk\<close>

text \<open>Names in a directory are never empty, \<open>.\<close> or \<open>..\<close>, and hold no separator.\<close>

definition fs_names :: "fs \<Rightarrow> bool" where
  "fs_names f \<longleftrightarrow> list_all (\<lambda>e. list_all plain (fst e)) f"

lemma fs_names_get: "fs_names f \<Longrightarrow> fs_get f p \<noteq> None \<Longrightarrow> list_all plain p"
  by (auto simp: fs_names_def fs_get_def list_all_iff dest!: map_of_SomeD)

lemma readdir_plain: "fs_names f \<Longrightarrow> fs_readdir f d = Some ns \<Longrightarrow> n \<in> set ns \<Longrightarrow> plain n"
  using fs_readdir_set fs_names_get by fastforce

lemma readdir_SomeI: "is_dir (fs_get f d) \<Longrightarrow> \<exists>ns. fs_readdir f d = Some ns"
  by (simp add: fs_readdir_def)

lemma readdir_is_dir: "fs_readdir f d = Some ns \<Longrightarrow> is_dir (fs_get f d)"
  by (simp add: fs_readdir_def split: if_splits)

section \<open>GET /trees\<close>

lemma listed_trees_iff:
  assumes root: "is_abs (sv_root s)" and names: "fs_names f" and c: "plain c"
  shows "t \<in> set (listed_trees s f c) \<longleftrightarrow>
    (\<exists>n. is_dir (fs_get f (clean_comps (sv_root s) @ [c])) \<and> is_dir (fs_get f (clean_comps (sv_root s) @ [c, n])) \<and>
       hd n \<noteq> CHR ''.'' \<and> fs_get f (clean_comps (sv_root s) @ [c, n, doneMarker]) \<noteq> None \<and>
       t = \<lparr>t_key = c @ ''/'' @ n, t_path = path_join [sv_root s, c, n],
         t_bytes = snd (measure_tree f (clean_comps (sv_root s) @ [c, n])),
         t_files = fst (measure_tree f (clean_comps (sv_root s) @ [c, n])),
         t_modified = entry_mtime f (clean_comps (sv_root s) @ [c, n])\<rparr>)"
  (is "_ \<longleftrightarrow> (\<exists>n. ?P n)")
proof -
  let ?R = "clean_comps (sv_root s)"
  have rc: "clean_comps (path_join [sv_root s, c]) = ?R @ [c]" using path_join_plain1 [OF root c] by simp
  have rcn: "clean_comps (path_join [sv_root s, c, n]) = ?R @ [c, n]"
    "clean_comps (path_join [path_join [sv_root s, c, n], doneMarker]) = ?R @ [c, n, doneMarker]" if "plain n" for n
    using path_join_plain2 [OF root c that] path_join_plain1 [of "path_join [sv_root s, c, n]" doneMarker]
      plain_names(2) by auto
  show ?thesis
  proof (cases "is_dir (fs_get f (?R @ [c]))")
    case False
    then show ?thesis by (simp add: listed_trees_def)
  next
    case True
    then obtain es where es: "fs_readdir f (?R @ [c]) = Some es" using readdir_SomeI by blast
    have pl: "e \<in> set es \<Longrightarrow> plain e" for e using readdir_plain [OF names es] .
    have mem: "n \<in> set es \<longleftrightarrow> fs_get f (?R @ [c, n]) \<noteq> None" for n
      using fs_readdir_set [OF es, of n] by simp
    define rec where "rec = (\<lambda>n. \<lparr>t_key = c @ ''/'' @ n, t_path = path_join [sv_root s, c, n],
         t_bytes = snd (measure_tree f (?R @ [c, n])), t_files = fst (measure_tree f (?R @ [c, n])),
         t_modified = entry_mtime f (?R @ [c, n])\<rparr>)"
    define g where "g = (\<lambda>n. if is_dir (fs_get f (?R @ [c, n])) \<and> hd n \<noteq> CHR ''.'' \<and>
        fs_get f (?R @ [c, n, doneMarker]) \<noteq> None then [rec n] else [])"
    have "listed_trees s f c = concat (map g es)"
    proof -
      have "listed_tree s f c e = g e" if "e \<in> set es" for e
      proof -
        have "plain e" using pl that .
        then show ?thesis
          by (simp add: listed_tree_def g_def rec_def fs_stat_def Let_def rc rcn plainD(1) split: prod.split)
      qed
      then have m: "map (listed_tree s f c) es = map g es" by simp
      show ?thesis using True es by (simp add: listed_trees_def rc m)
    qed
    then have "t \<in> set (listed_trees s f c) \<longleftrightarrow> (\<exists>n \<in> set es. ?P n)"
      using True by (auto simp: g_def rec_def split: if_splits)
    also have "\<dots> \<longleftrightarrow> (\<exists>n. ?P n)" using mem by (metis is_dir.simps(2))
    finally show ?thesis .
  qed
qed

lemma handleTrees_iff:
  assumes "is_abs (sv_root s)" "fs_names f" "handleTrees s f = Answer 200 (Some ts)"
  shows "t \<in> set ts \<longleftrightarrow> (\<exists>c. plain c \<and> t \<in> set (listed_trees s f c))"
proof -
  obtain cs where cs: "fs_readdir f (clean_comps (sv_root s)) = Some cs"
    "ts = concat (map (listed_trees s f) cs)"
    using assms(3) by (auto simp: handleTrees_def split: option.splits)
  have "c \<in> set cs" if "t \<in> set (listed_trees s f c)" for c
    using that fs_readdir_set [OF cs(1), of c] by (auto simp: listed_trees_def split: if_splits)
  with readdir_plain [OF assms(2) cs(1)] cs(2) show ?thesis by auto
qed

text \<open>\<open>GET /trees\<close> offers the evictor nothing half written. In every volume reachable from
  an empty one, each tree \<open>handleTrees\<close> reports, other than one under deletion
  (\<open>.deleting\<close>), in one of Debian's components, is the complete output of a successful
  \<open>dpkg-source\<close> run with the marker; staging directories (\<open>.tmp-\<close>) are never reported.\<close>

theorem handleTrees_complete:
  assumes root: "is_abs (sv_root s)" and fresh: "fresh_volume s v0" and r: "vol_reach s v0 v"
    and names: "fs_names (v_fs v)" and l: "handleTrees s (v_fs v) = Answer 200 (Some ts)"
    and t: "t \<in> set ts"
  shows "\<exists>c n. t_key t = c @ ''/'' @ n \<and> n \<noteq> [] \<and> hd n \<noteq> CHR ''.'' \<and>
    (\<not> reComp c \<or> has_suffix n ''.deleting'' \<or>
     (\<exists>T \<in> v_extracted v. \<exists>m. \<forall>q. fs_get (v_fs v) (clean_comps (sv_root s) @ [c, n] @ q) =
        (T([doneMarker] \<mapsto> Reg [] m)) q))"
proof -
  have ok: "vol_ok s v" using vol_reach_ok [OF r root fresh_volume_ok [OF fresh]] .
  obtain c where c: "plain c" "t \<in> set (listed_trees s (v_fs v) c)"
    using t handleTrees_iff [OF root names l] by blast
  then obtain n where n: "is_dir (fs_get (v_fs v) (clean_comps (sv_root s) @ [c, n]))" "hd n \<noteq> CHR ''.''"
    "t_key t = c @ ''/'' @ n"
    using listed_trees_iff [OF root names c(1)] by auto
  then have some: "fs_get (v_fs v) (clean_comps (sv_root s) @ [c, n]) \<noteq> None" by (metis is_dir.simps(2))
  then have "plain n" using fs_names_get [OF names] by fastforce
  then have ne: "n \<noteq> []" by (rule plainD)
  have "complete_at (v_extracted v) (v_fs v) (clean_comps (sv_root s) @ [c, n])"
    if "reComp c" "\<not> has_suffix n ''.deleting''"
    using ok some that ne n(2) by (auto simp: vol_ok_def final_places_def final_name_def)
  then have "\<not> reComp c \<or> has_suffix n ''.deleting'' \<or>
     (\<exists>T \<in> v_extracted v. \<exists>m. \<forall>q. fs_get (v_fs v) (clean_comps (sv_root s) @ [c, n] @ q) =
        (T([doneMarker] \<mapsto> Reg [] m)) q)"
    by (fastforce simp: complete_at_def subtree_def fun_eq_iff)
  with n(2,3) ne show ?thesis by blast
qed

lemma example_listing:
  "handleTrees example_server (snd (unpack_steps 11 example_server example_uenv example_request (UCheck, v_fs example_vol)))
    = Answer 200 (Some [\<lparr>t_key = ''main/zlib_1.2'', t_path = ''/v/main/zlib_1.2'', t_bytes = 3, t_files = 2, t_modified = 7\<rparr>])"
  "fs_names (snd (unpack_steps 11 example_server example_uenv example_request (UCheck, v_fs example_vol)))"
  by code_simp+

theorem handleTrees_complete_witness:
  "\<exists>v. vol_reach example_server example_vol v \<and>
     (\<exists>t. handleTrees example_server (v_fs v) = Answer 200 (Some [t]) \<and> t_key t = ''main/zlib_1.2'' \<and>
       (\<exists>c n. t_key t = c @ ''/'' @ n \<and> n \<noteq> [] \<and> hd n \<noteq> CHR ''.'' \<and>
         (\<not> reComp c \<or> has_suffix n ''.deleting'' \<or>
          (\<exists>T \<in> v_extracted v. \<exists>m. \<forall>q. fs_get (v_fs v) (clean_comps (sv_root example_server) @ [c, n] @ q) =
             (T([doneMarker] \<mapsto> Reg [] m)) q))))"
proof -
  obtain v where v: "vol_reach example_server example_vol v"
    "v_fs v = snd (unpack_steps 11 example_server example_uenv example_request (UCheck, v_fs example_vol))"
    using start_reach [OF example_uenv_ok example_valid, of example_vol] by (auto simp: example_vol_def)
  from example_listing v(2) obtain t where l: "handleTrees example_server (v_fs v) = Answer 200 (Some [t])"
    "t_key t = ''main/zlib_1.2''" "fs_names (v_fs v)" by auto
  from handleTrees_complete [OF example_root(1) example_fresh v(1) l(3,1), of t] v l show ?thesis
    by (metis list.set_intros(1))
qed

text \<open>
  \<open>handleDelete\<close> means to hide a tree with its rename (\<open>the tree stops being visible the
  instant this is called\<close>), but \<open>handleTrees\<close> only skips names with a leading dot: until
  \<open>RemoveAll\<close> reaches the marker, the renamed tree is still reported, under a key of its own.
\<close>

lemma deleting_still_listed:
  "\<exists>g t. delete_rename example_server ''main'' ''zlib_1.2''
      (snd (unpack_steps 11 example_server example_uenv example_request (UCheck, v_fs example_vol))) = Some g \<and>
    handleTrees example_server g = Answer 200 (Some [t]) \<and> t_key t = ''main/zlib_1.2.deleting''"
proof -
  have "(case delete_rename example_server ''main'' ''zlib_1.2''
      (snd (unpack_steps 11 example_server example_uenv example_request (UCheck, v_fs example_vol))) of
      None \<Rightarrow> None | Some g \<Rightarrow> Some (handleTrees example_server g)) =
    Some (Answer 200 (Some [\<lparr>t_key = ''main/zlib_1.2.deleting'', t_path = ''/v/main/zlib_1.2.deleting'',
       t_bytes = 3, t_files = 2, t_modified = 7\<rparr>]))"
    by code_simp
  then show ?thesis by (auto split: option.splits)
qed

text \<open>
  \<open>safeKey\<close> compares a name with its \<open>filepath.Base\<close>, and \<open>Base("/")\<close> is \<open>"/"\<close>: the
  name \<open>/\<close> (sent as \<open>%2F\<close>) passes and names the whole component's directory.
\<close>

lemma safeKey_accepts_slash: "safeKey ''main'' ''/''"
  by code_simp

section \<open>The sweep\<close>

definition stale_node :: "time \<Rightarrow> duration \<Rightarrow> string \<Rightarrow> fsnode option \<Rightarrow> bool" where
  "stale_node now stale n x \<longleftrightarrow> is_dir x \<and>
     (hd n = CHR ''.'' \<or> has_suffix n ''.deleting'') \<and> (\<forall>d. x = Some d \<longrightarrow> stale \<le> now - mtime d)"

lemma stale_node_None [simp]: "\<not> stale_node now stale n None"
  by (simp add: stale_node_def)

lemma sweep_entry_get:
  "fs_get (sweep_entry now stale dir n f) p =
    (if prefix (dir @ [n]) p \<and> stale_node now stale n (fs_get f (dir @ [n])) then None else fs_get f p)"
  by (auto simp: sweep_entry_def stale_node_def fs_get_remove_all entry_mtime_def split: option.splits)

lemma sweep_entry_noop:
  "\<not> stale_node now stale n (fs_get f (dir @ [n])) \<Longrightarrow> sweep_entry now stale dir n f = f"
  by (auto simp: sweep_entry_def stale_node_def entry_mtime_def split: option.splits)

lemma sweep_entries_get:
  "fs_get (fold (sweep_entry now stale dir) ns f) p =
    (if \<exists>n \<in> set ns. prefix (dir @ [n]) p \<and> stale_node now stale n (fs_get f (dir @ [n]))
     then None else fs_get f p)"
proof (induction ns arbitrary: f)
  case (Cons n ns)
  show ?case
  proof (cases "stale_node now stale n (fs_get f (dir @ [n]))")
    case True
    have g: "stale_node now stale m (fs_get (sweep_entry now stale dir n f) (dir @ [m])) \<longleftrightarrow>
        m \<noteq> n \<and> stale_node now stale m (fs_get f (dir @ [m]))" for m
      using True by (auto simp: sweep_entry_get)
    have "fs_get (fold (sweep_entry now stale dir) (n # ns) f) p =
      (if \<exists>m \<in> set ns. prefix (dir @ [m]) p \<and> m \<noteq> n \<and> stale_node now stale m (fs_get f (dir @ [m]))
       then None else fs_get (sweep_entry now stale dir n f) p)"
      using Cons.IH [of "sweep_entry now stale dir n f"] by (simp add: g)
    then show ?thesis using True by (auto simp: sweep_entry_get)
  next
    case False
    then show ?thesis using Cons.IH [of f] by (auto simp: sweep_entry_noop)
  qed
qed simp

lemma sweep_component_get:
  assumes "is_abs (sv_root s)" "plain c" "fs_ok f"
  shows "fs_get (sweep_component s now stale c f) p =
    (if \<exists>n. prefix (clean_comps (sv_root s) @ [c, n]) p \<and>
        stale_node now stale n (fs_get f (clean_comps (sv_root s) @ [c, n]))
     then None else fs_get f p)"
proof -
  let ?d = "clean_comps (sv_root s) @ [c]"
  have rc: "clean_comps (path_join [sv_root s, c]) = ?d"
    using path_join_plain1 assms by simp
  show ?thesis
  proof (cases "fs_readdir f ?d")
    case None
    then have nd: "\<not> is_dir (fs_get f ?d)" using readdir_SomeI by fastforce
    have "\<not> stale_node now stale n (fs_get f (clean_comps (sv_root s) @ [c, n]))" for n
    proof
      assume "stale_node now stale n (fs_get f (clean_comps (sv_root s) @ [c, n]))"
      then have "fs_get f (?d @ [n]) \<noteq> None" by (cases "fs_get f (?d @ [n])") auto
      with fs_ok_parent [OF assms(3)] nd show False by blast
    qed
    with None show ?thesis by (simp add: sweep_component_def rc)
  next
    case (Some ns)
    have mem: "stale_node now stale n (fs_get f (?d @ [n])) \<Longrightarrow> n \<in> set ns" for n
      using fs_readdir_set [OF Some, of n] by (cases "fs_get f (?d @ [n])") auto
    have "sweep_component s now stale c f = fold (sweep_entry now stale ?d) ns f"
      using Some by (simp add: sweep_component_def rc)
    with mem show ?thesis by (auto simp: sweep_entries_get)
  qed
qed

lemma sweep_component_ok: "fs_ok f \<Longrightarrow> fs_ok (sweep_component s now stale c f)"
proof -
  have e: "fs_ok g \<Longrightarrow> fs_ok (sweep_entry now stale dir n g)" for g dir n
    by (simp add: sweep_entry_def fs_remove_all_ok)
  have "fs_ok g \<Longrightarrow> fs_ok (fold (sweep_entry now stale dir) ns g)" for g dir ns
    by (induction ns arbitrary: g) (auto intro: e)
  then show "fs_ok f \<Longrightarrow> fs_ok (sweep_component s now stale c f)"
    by (simp add: sweep_component_def Let_def split: option.split)
qed

lemma sweep_component_other:
  assumes "is_abs (sv_root s)" "plain c" "fs_ok f"
  shows "stale_node now stale n (fs_get (sweep_component s now stale c f) (clean_comps (sv_root s) @ [d, n]))
    \<longleftrightarrow> d \<noteq> c \<and> stale_node now stale n (fs_get f (clean_comps (sv_root s) @ [d, n]))"
  by (auto simp: sweep_component_get [OF assms])

lemma sweep_components_get:
  assumes root: "is_abs (sv_root s)" and "\<forall>c \<in> set cs. plain c" "fs_ok f"
  shows "fs_get (fold (sweep_component s now stale) cs f) p =
    (if \<exists>c \<in> set cs. \<exists>n. prefix (clean_comps (sv_root s) @ [c, n]) p \<and>
        stale_node now stale n (fs_get f (clean_comps (sv_root s) @ [c, n])) then None else fs_get f p)"
  using assms(2,3)
proof (induction cs arbitrary: f)
  case (Cons c cs)
  have c: "plain c" "\<forall>c \<in> set cs. plain c" using Cons.prems(1) by auto
  note IH = Cons.IH [OF c(2) sweep_component_ok [OF Cons.prems(2)], of s now stale c]
  have "fs_get (fold (sweep_component s now stale) (c # cs) f) p =
    (if \<exists>d \<in> set cs. \<exists>n. prefix (clean_comps (sv_root s) @ [d, n]) p \<and> d \<noteq> c \<and>
        stale_node now stale n (fs_get f (clean_comps (sv_root s) @ [d, n])) then None
     else fs_get (sweep_component s now stale c f) p)"
    using IH by (simp add: sweep_component_other [OF root c(1) Cons.prems(2)])
  also have "\<dots> = (if \<exists>d \<in> set (c # cs). \<exists>n. prefix (clean_comps (sv_root s) @ [d, n]) p \<and>
        stale_node now stale n (fs_get f (clean_comps (sv_root s) @ [d, n])) then None else fs_get f p)"
    by (auto simp: sweep_component_get [OF root c(1) Cons.prems(2)])
  finally show ?case .
qed simp

text \<open>\<open>sweepStale\<close> removes abandoned staging and half-deleted directories and nothing else:
  a path disappears exactly when it is at or below a directory \<open>component/name\<close> whose name
  starts with a dot or ends in \<open>.deleting\<close> and whose modification time is \<open>stale\<close> or more ago.
  Finished trees, files and younger staging directories stay as they are.\<close>

theorem sweepStale_exact:
  assumes "is_abs (sv_root s)" "fs_ok f" "fs_names f"
  shows "fs_get (sweepStale s now stale f) p =
    (if \<exists>c n. prefix (clean_comps (sv_root s) @ [c, n]) p \<and>
        (\<exists>d. fs_get f (clean_comps (sv_root s) @ [c, n]) = Some (Dir d) \<and> stale \<le> now - d) \<and>
        (hd n = CHR ''.'' \<or> has_suffix n ''.deleting'') then None else fs_get f p)"
proof -
  let ?R = "clean_comps (sv_root s)"
  have st: "stale_node now stale n x \<longleftrightarrow> (\<exists>d. x = Some (Dir d) \<and> stale \<le> now - d) \<and>
      (hd n = CHR ''.'' \<or> has_suffix n ''.deleting'')" for n x
    by (cases x rule: is_dir.cases) (auto simp: stale_node_def)
  show ?thesis
  proof (cases "fs_readdir f ?R")
    case None
    then have nd: "\<not> is_dir (fs_get f ?R)" using readdir_SomeI by fastforce
    have "\<not> (\<exists>d. fs_get f (?R @ [c, n]) = Some (Dir d))" for c n
      using fs_ok_below [OF assms(2), of ?R "[c, n]"] nd by auto
    with None show ?thesis by (auto simp: sweepStale_def)
  next
    case (Some cs)
    have pl: "\<forall>c \<in> set cs. plain c" using readdir_plain [OF assms(3) Some] by simp
    have mem: "fs_get f (?R @ [c, n]) = Some (Dir d) \<Longrightarrow> c \<in> set cs" for c n d
      using fs_readdir_set [OF Some, of c] fs_ok_below [OF assms(2), of "?R @ [c]" "[n]"]
      by (cases "fs_get f (?R @ [c])") auto
    have "fs_get (sweepStale s now stale f) p = fs_get (fold (sweep_component s now stale) cs f) p"
      using Some by (simp add: sweepStale_def)
    also note sweep_components_get [OF assms(1) pl assms(2)]
    also have "(\<exists>c \<in> set cs. \<exists>n. prefix (?R @ [c, n]) p \<and> stale_node now stale n (fs_get f (?R @ [c, n]))) \<longleftrightarrow>
      (\<exists>c n. prefix (?R @ [c, n]) p \<and> stale_node now stale n (fs_get f (?R @ [c, n])))"
      using mem by (metis st)
    finally show ?thesis by (simp only: st)
  qed
qed

definition stale_fs :: fs where
  "stale_fs = [([], Dir 0), ([''v''], Dir 0), ([''v'', ''main''], Dir 0),
     ([''v'', ''main'', ''.tmp-x''], Dir 10), ([''v'', ''main'', ''.tmp-x'', ''f''], Reg ''a'' 10),
     ([''v'', ''main'', ''.tmp-y''], Dir 90), ([''v'', ''main'', ''zlib_1''], Dir 10)]"

lemma stale_fs_ok: "fs_ok stale_fs" "fs_names stale_fs"
  by (auto simp: stale_fs_def fs_ok_def fs_get_def fs_names_def plain_def split: if_splits)

theorem sweepStale_exact_witness:
  "fs_get (sweepStale example_server 100 50 stale_fs) [''v'', ''main'', ''.tmp-x'', ''f''] = None \<and>
   fs_get (sweepStale example_server 100 50 stale_fs) [''v'', ''main'', ''.tmp-y''] = Some (Dir 90) \<and>
   fs_get (sweepStale example_server 100 50 stale_fs) [''v'', ''main'', ''zlib_1''] = Some (Dir 10)"
proof -
  note ex = sweepStale_exact [OF example_root(1) stale_fs_ok, of 100 50, unfolded example_root(2)]
  have x: "prefix ([''v''] @ [''main'', ''.tmp-x'']) [''v'', ''main'', ''.tmp-x'', ''f''] \<and>
      (\<exists>d. fs_get stale_fs ([''v''] @ [''main'', ''.tmp-x'']) = Some (Dir d) \<and> 50 \<le> 100 - d) \<and>
      (hd ''.tmp-x'' = CHR ''.'' \<or> has_suffix ''.tmp-x'' ''.deleting'')"
    by (simp add: stale_fs_def fs_get_def)
  have y: "\<not> (\<exists>c n. prefix ([''v''] @ [c, n]) [''v'', ''main'', ''.tmp-y''] \<and>
      (\<exists>d. fs_get stale_fs ([''v''] @ [c, n]) = Some (Dir d) \<and> 50 \<le> 100 - d) \<and>
      (hd n = CHR ''.'' \<or> has_suffix n ''.deleting''))"
    by (auto simp: stale_fs_def fs_get_def)
  have z: "\<not> (\<exists>c n. prefix ([''v''] @ [c, n]) [''v'', ''main'', ''zlib_1''] \<and>
      (\<exists>d. fs_get stale_fs ([''v''] @ [c, n]) = Some (Dir d) \<and> 50 \<le> 100 - d) \<and>
      (hd n = CHR ''.'' \<or> has_suffix n ''.deleting''))"
    by (auto simp: has_suffix_def)
  show ?thesis
    unfolding ex [of "[''v'', ''main'', ''.tmp-x'', ''f'']"] ex [of "[''v'', ''main'', ''.tmp-y'']"]
      ex [of "[''v'', ''main'', ''zlib_1'']"]
    using x y z by (simp add: stale_fs_def fs_get_def)
qed

section \<open>A request stays in its component's directory\<close>

lemma prefix_take: "prefix (take k xs) xs"
  by (metis append_take_drop_id prefixI)

text \<open>C29. Whatever a \<open>.dsc\<close>, the network or \<open>dpkg-source\<close> say, each system call of an unpack
  request only changes paths below the root's component directory; outside it the only effect
  is that a missing directory on the way there is created.\<close>

theorem unpack_contained:
  assumes root: "is_abs (sv_root s)" and fresh: "fresh_volume s v0" and r: "vol_reach s v0 v"
    and i: "v_procs v i = Some (rq, pc)" and env: "env_ok env"
    and st: "unpack_step s env rq pc (v_fs v) = (pc', g)" and ch: "fs_get g q \<noteq> fs_get (v_fs v) q"
  shows "prefix (clean_comps (sv_root s) @ [rq_component rq]) q \<or>
    (prefix q (clean_comps (sv_root s) @ [rq_component rq]) \<and> fs_get (v_fs v) q = None \<and>
      fs_get g q = Some (Dir (en_now env)))"
proof -
  let ?C = "clean_comps (sv_root s) @ [rq_component rq]"
  have v: "vol_ok s v" using vol_reach_ok [OF r root fresh_volume_ok [OF fresh]] .
  then have f: "fs_ok (v_fs v)" and rq: "valid_request rq"
    using i by (auto simp: vol_ok_def proc_ok_def)
  note fin = final_comps [OF root rq]
  show ?thesis
  proof (cases "work_of pc")
    case (Some w)
    have wk: "work_ok s rq w" using own_workI [OF v i Some] by (simp add: own_work_def)
    then have W: "prefix ?C (clean_comps w)" by (auto simp: work_ok_def)
    have "prefix ?C q"
    proof (cases "pc = URename w")
      case False
      from run_local(1) [OF v root env i Some False st] ch have "prefix (clean_comps w) q"
        by (auto simp: local_change_def)
      with W show ?thesis by (rule prefix_order.trans)
    next
      case True
      with st ch have ren: "fs_rename (out_dir w) (clean_comps (final_path s rq)) (v_fs v) = Some g"
        by (auto simp: unpack_step_def split: option.splits if_splits)
      from fs_rename_get(6) [OF f ren, of q] ch
      have "prefix (clean_comps (final_path s rq)) q \<or> prefix (out_dir w) q" by (auto split: if_splits)
      moreover have "prefix ?C (clean_comps (final_path s rq))" "prefix ?C (out_dir w)"
        using fin(1) W out_dir_comps [OF wk] by auto
      ultimately show ?thesis by (meson prefix_order.trans)
    qed
    then show ?thesis ..
  next
    case None
    consider (mk) h where "fs_mkdir_all (en_now env) ?C (v_fs v) = Some h" "g = h"
      | (tmp) "pc = UTemp"
      using None st ch fin(3)
      by (cases pc) (auto simp: unpack_step_def split: option.splits if_splits)
    then show ?thesis
    proof cases
      case mk
      then have "mkdirs (en_now env) [] ?C (v_fs v) = Some g" by (simp add: fs_mkdir_all_def)
      from mkdirs_get [OF this, of q] ch prefix_take [of _ ?C] show ?thesis by auto
    next
      case tmp
      define work where "work = path_join [path_dir (final_path s rq), ''.tmp-'' @ rq_source rq @ ''-'' @ en_random env]"
      have "slash \<notin> set (rq_source rq @ ''-'' @ en_random env)"
        using rq env rePackage_chars by (auto simp: valid_request_def env_ok_def)
      then have "clean_comps work = ?C @ [''.tmp-'' @ rq_source rq @ ''-'' @ en_random env]"
        using path_join_plain1 [OF fin(4) plain_names(3)] fin(3) by (simp add: work_def)
      then have W: "prefix ?C (clean_comps work)" by simp
      have "g = v_fs v \<or> g = fs_put (v_fs v) (clean_comps work) (Dir (en_now env))"
        using tmp st by (auto simp: unpack_step_def Let_def work_def split: if_splits)
      with ch have "q = clean_comps work" by (auto simp: fs_get_put split: if_splits)
      with W show ?thesis by simp
    qed
  qed
qed

theorem unpack_contained_witness:
  "\<exists>v w g. vol_reach example_server example_vol v \<and>
     unpack_step example_server example_uenv example_request (UExtract w) (v_fs v) = (UMark w, g) \<and>
     fs_get g [''v'', ''main'', ''.tmp-zlib-123'', ''tree'', ''a.c''] \<noteq>
       fs_get (v_fs v) [''v'', ''main'', ''.tmp-zlib-123'', ''tree'', ''a.c''] \<and>
     (prefix [''v'', ''main''] [''v'', ''main'', ''.tmp-zlib-123'', ''tree'', ''a.c''] \<or>
      prefix [''v'', ''main'', ''.tmp-zlib-123'', ''tree'', ''a.c''] [''v'', ''main''])"
proof -
  let ?q = "[''v'', ''main'', ''.tmp-zlib-123'', ''tree'', ''a.c'']"
  let ?st = "unpack_steps 7 example_server example_uenv example_request (UCheck, v_fs example_vol)"
  let ?v0 = "example_vol\<lparr>v_procs := [0 \<mapsto> (example_request, UCheck)]\<rparr>"
  have s0: "vol_step example_server example_vol ?v0"
    using vol_step.start [of example_vol 0 example_request example_server] example_valid
    by (simp add: example_vol_def)
  obtain v where v: "vol_reach example_server ?v0 v"
    "v_procs v = [0 \<mapsto> (example_request, fst ?st)]" "v_fs v = snd ?st"
    using steps_reach [OF example_uenv_ok, of ?v0 0 example_request UCheck example_server 7] by auto
  have reach: "vol_reach example_server example_vol v"
    using v(1) s0 unfolding vol_reach_def by (rule converse_rtranclp_into_rtranclp [rotated])
  have pc: "fst ?st = UExtract ''/v/main/.tmp-zlib-123''" by code_simp
  have st: "fst (unpack_step example_server example_uenv example_request (UExtract ''/v/main/.tmp-zlib-123'') (snd ?st))
      = UMark ''/v/main/.tmp-zlib-123''"
    "fs_get (snd (unpack_step example_server example_uenv example_request (UExtract ''/v/main/.tmp-zlib-123'') (snd ?st))) ?q
      = Some (Reg ''int'' 7)" "fs_get (snd ?st) ?q = None"
    "rq_component example_request = ''main''" by code_simp+
  obtain g where g: "unpack_step example_server example_uenv example_request (UExtract ''/v/main/.tmp-zlib-123'') (v_fs v)
      = (UMark ''/v/main/.tmp-zlib-123'', g)" "fs_get g ?q = Some (Reg ''int'' 7)"
    using st v(3) by (metis prod.collapse)
  have i: "v_procs v 0 = Some (example_request, UExtract ''/v/main/.tmp-zlib-123'')" using v(2) pc by simp
  have ch: "fs_get g ?q \<noteq> fs_get (v_fs v) ?q" using g(2) st(3) v(3) by simp
  from unpack_contained [OF example_root(1) example_fresh reach i example_uenv_ok g(1) ch]
  have "prefix [''v'', ''main''] ?q \<or> prefix ?q [''v'', ''main'']"
    unfolding example_root(2) st(4) by auto
  with reach g(1) ch show ?thesis by blast
qed

section \<open>A request ends\<close>

definition ends :: "server \<Rightarrow> uenv \<Rightarrow> unpackRequest \<Rightarrow> upc \<Rightarrow> fs \<Rightarrow> bool" where
  "ends s env rq pc f \<longleftrightarrow> (\<exists>n. \<forall>m \<ge> n. \<exists>r g. run_unpack m s env rq pc f = (Some r, g))"

lemma ends_step:
  assumes "\<And>pc' g. unpack_step s env rq pc f = (pc', g) \<Longrightarrow> ends s env rq pc' g"
  shows "ends s env rq pc f"
proof (cases "\<exists>r. pc = UDone r")
  case True
  then show ?thesis by (auto simp: ends_def)
next
  case False
  obtain pc' g where st: "unpack_step s env rq pc f = (pc', g)" by fastforce
  from assms [OF st] obtain n where n: "\<And>m. n \<le> m \<Longrightarrow> \<exists>r h. run_unpack m s env rq pc' g = (Some r, h)"
    by (auto simp: ends_def)
  have "\<exists>r h. run_unpack m s env rq pc f = (Some r, h)" if le: "Suc n \<le> m" for m
  proof -
    from le obtain k where k: "m = Suc k" "n \<le> k" by (cases m) auto
    with n st False show ?thesis by (cases pc) auto
  qed
  then show ?thesis unfolding ends_def by blast
qed

lemma ends_all: "ends s env rq pc f"
proof -
  have d: "ends s env rq (UDone r) f" for r f by (auto simp: ends_def)
  have cl: "ends s env rq (UCleanup w r) f" for w r f
    by (rule ends_step) (auto simp: unpack_step_def d)
  have me: "ends s env rq (UMeasure w) f" for w f
    by (rule ends_step) (auto simp: unpack_step_def cl)
  have re: "ends s env rq (URename w) f" for w f
    by (rule ends_step) (auto simp: unpack_step_def cl me split: option.splits if_splits)
  have ma: "ends s env rq (UMark w) f" for w f
    by (rule ends_step) (auto simp: unpack_step_def cl re split: option.splits if_splits)
  have ex: "ends s env rq (UExtract w) f" for w f
    by (rule ends_step) (auto simp: unpack_step_def cl ma split: option.splits prod.splits)
  have fe: "ends s env rq (UFetch w xs) f" for w xs f
  proof (induction xs arbitrary: f)
    case Nil
    show ?case by (rule ends_step) (auto simp: unpack_step_def ex)
  next
    case (Cons x xs)
    show ?case
      by (rule ends_step) (auto simp: unpack_step_def cl Cons.IH split: option.splits prod.splits if_splits)
  qed
  have pa: "ends s env rq (UParse w) f" for w f
    by (rule ends_step) (auto simp: unpack_step_def cl fe split: option.splits fsnode.splits sum.splits)
  have ds: "ends s env rq (UFetchDsc w) f" for w f
    by (rule ends_step) (auto simp: unpack_step_def cl pa split: option.splits prod.splits if_splits)
  have te: "ends s env rq UTemp f" for f
    by (rule ends_step) (auto simp: unpack_step_def Let_def d ds split: if_splits)
  have mk: "ends s env rq UMkdir f" for f
    by (rule ends_step) (auto simp: unpack_step_def d te split: option.splits if_splits)
  have ch: "ends s env rq UCheck f" for f
    by (rule ends_step) (auto simp: unpack_step_def d mk split: if_splits)
  show ?thesis by (cases pc) (simp_all add: d cl me re ma ex fe pa ds te mk ch)
qed


end
