(* ===== verification/VolumeSpec.thy ===== *)
theory VolumeSpec
  imports DebVolume
begin

text \<open>
  What the shared volume promises, without system calls: a partial map from places
  \<open>component/source_version\<close> to trees that gains a whole tree at an empty place, loses places,
  and never changes a tree it holds. Every step of the unpackers and evictors implements it.
\<close>

section \<open>The specification\<close>

type_synonym tree = "path \<Rightarrow> fsnode option"
type_synonym store = "path \<Rightarrow> tree option"

definition complete_tree :: "tree \<Rightarrow> bool" where
  "complete_tree T \<longleftrightarrow> (\<exists>t. T [doneMarker] = Some (Reg [] t))"

inductive store_step :: "store \<Rightarrow> store \<Rightarrow> bool" where
  idle: "store_step A A"
| publish: "A p = None \<Longrightarrow> complete_tree T \<Longrightarrow> store_step A (A(p \<mapsto> T))"
| evict: "store_step A (A |` {p. \<not> prefix d p})"

text \<open>What it means for readers: a tree stays as it is until it is dropped, and a dropped place can
  only be filled again from empty.\<close>

lemma store_step_immutable: "store_step A B \<Longrightarrow> A p = Some T \<Longrightarrow> B p = Some T \<or> B p = None"
  by (induction rule: store_step.induct) (auto simp: restrict_map_def)

lemma store_step_complete: "store_step A B \<Longrightarrow> (\<And>p T. A p = Some T \<Longrightarrow> complete_tree T) \<Longrightarrow> B p = Some T \<Longrightarrow> complete_tree T"
  by (induction rule: store_step.induct) (auto simp: restrict_map_def split: if_splits)

section \<open>The abstraction\<close>

definition abs_volume :: "server \<Rightarrow> fs \<Rightarrow> store" where
  "abs_volume s f = (\<lambda>p. if p \<in> final_places s \<and> fs_get f p \<noteq> None then Some (subtree f p) else None)"

lemma abs_same: "(\<And>p. p \<in> final_places s \<Longrightarrow> subtree g p = subtree f p) \<Longrightarrow> abs_volume s g = abs_volume s f"
  by (auto simp: abs_volume_def fun_eq_iff subtree_Nil)

lemma idle_step: "(\<And>p. p \<in> final_places s \<Longrightarrow> subtree g p = subtree f p) \<Longrightarrow> store_step (abs_volume s f) (abs_volume s g)"
  using abs_same [of s g f] store_step.idle [of "abs_volume s f"] by simp

lemma abs_run:
  assumes v: "vol_ok s v" and root: "is_abs (sv_root s)" and i: "v_procs v i = Some (rq, pc)"
    and env: "env_ok env" and st: "unpack_step s env rq pc (v_fs v) = (pc', g)"
  shows "store_step (abs_volume s (v_fs v)) (abs_volume s g)"
proof (cases "work_of pc")
  case None
  have "subtree g p = subtree (v_fs v) p" if p: "p \<in> final_places s" for p
  proof -
    note fr = run_mkdir_temp_frame [OF v root env i None st]
    have "\<not> (\<exists>w. pc' = UFetchDsc w \<and> clean_comps w = p)"
    proof
      assume "\<exists>w. pc' = UFetchDsc w \<and> clean_comps w = p"
      then obtain w where w: "pc' = UFetchDsc w" "clean_comps w = p" by blast
      with fr have "work_ok s rq w" by simp
      from work_place [OF this] w(2) p show False by simp
    qed
    with fr [THEN conjunct2, THEN conjunct1, rule_format, of p] final_place_length [OF p] show ?thesis by blast
  qed
  then show ?thesis by (rule idle_step)
next
  case (Some w)
  then have wk: "work_ok s rq w" using own_workI [OF v i] by (simp add: own_work_def)
  then have len: "length (clean_comps w) = Suc (Suc (length (clean_comps (sv_root s))))" by (auto simp: work_ok_def)
  show ?thesis
  proof (cases "pc = URename w \<and> g \<noteq> v_fs v")
    case True
    let ?P = "clean_comps (sv_root s) @ [rq_component rq, pkg_dir rq]"
    note fr = run_rename_frame [OF v root i [unfolded True [THEN conjunct1]] st [unfolded True [THEN conjunct1]] True [THEN conjunct2]]
    have same: "subtree g p = subtree (v_fs v) p" if "p \<in> final_places s" "p \<noteq> ?P" for p
      using fr(4) [OF final_place_length [OF that(1)] that(2)] work_place [OF wk] that(1) by metis
    show ?thesis
    proof (cases "?P \<in> final_places s")
      case False
      with same have "subtree g p = subtree (v_fs v) p" if "p \<in> final_places s" for p using that by metis
      then show ?thesis by (rule idle_step)
    next
      case P: True
      have c: "complete_tree (subtree g ?P)" using fr(2) by (auto simp: complete_at_def complete_tree_def)
      have n: "fs_get g ?P \<noteq> None"
      proof
        assume "fs_get g ?P = None"
        then have "subtree g ?P [doneMarker] = None"
          using fs_ok_absent_below [OF fr(1), of ?P "[doneMarker]"] by (simp only: subtree_def)
        with c show False by (simp add: complete_tree_def)
      qed
      have a: "abs_volume s (v_fs v) ?P = None" using fr(3) by (simp add: abs_volume_def)
      have "abs_volume s g = (abs_volume s (v_fs v))(?P \<mapsto> subtree g ?P)"
      proof (rule ext)
        fix p
        show "abs_volume s g p = ((abs_volume s (v_fs v))(?P \<mapsto> subtree g ?P)) p"
          using P n same [of p] by (cases "p = ?P") (auto simp: abs_volume_def subtree_Nil)
      qed
      with store_step.publish [of "abs_volume s (v_fs v)" ?P, OF a c] show ?thesis by simp
    qed
  next
    case False
    have "subtree g p = subtree (v_fs v) p" if p: "p \<in> final_places s" for p
    proof (cases "pc = URename w")
      case True
      with False show ?thesis by simp
    next
      case nr: False
      show ?thesis
        using local_subtree [OF run_local(1) [OF v root env i Some nr st], of p] work_place [OF wk] p
          final_place_length [OF p] len by auto
    qed
    then show ?thesis by (rule idle_step)
  qed
qed

lemma abs_delete:
  assumes f: "fs_ok f" and root: "is_abs (sv_root s)" and safe: "safeKey c n" and del: "delete_rename s c n f = Some g"
  shows "abs_volume s g = abs_volume s f |` {p. \<not> prefix (clean_comps (path_join [sv_root s, c, n])) p}"
proof -
  let ?R = "clean_comps (sv_root s)"
  define a where "a = clean_comps (path_join [sv_root s, c, n])"
  define b where "b = clean_comps (path_join [sv_root s, c, n] @ ''.deleting'')"
  have "fs_rename a b f = Some g" using del by (simp add: delete_rename_def a_def b_def Let_def)
  note get = fs_rename_get [OF f this]
  have nb: "\<not> prefix b (p @ x)" if p: "p \<in> final_places s" for p x
  proof -
    obtain c' m where pm: "p = ?R @ [c', m]" "reComp c'" "final_name m" using p by (auto simp: final_places_def)
    have "c' \<noteq> c @ ''.deleting''" using pm(2) by (auto simp: reComp_def)
    moreover have "m \<noteq> n @ ''.deleting''" if "hd n \<noteq> CHR ''.''" "n \<noteq> []"
      using pm(3) that by (auto simp: final_name_def)
    ultimately show ?thesis using delete_paths [OF root safe] pm(1) by (auto simp: b_def plain_def)
  qed
  have pa: "prefix a (p @ x) \<longleftrightarrow> prefix a p" if p: "p \<in> final_places s" for p x
  proof -
    have "length a \<le> length p"
      using delete_paths [OF root safe] final_place_length [OF p] by (auto simp: a_def)
    then show ?thesis by (auto simp: prefix_append)
  qed
  have "abs_volume s g p = (abs_volume s f |` {p. \<not> prefix a p}) p" for p
  proof (cases "p \<in> final_places s")
    case True
    have "subtree g p = (if prefix a p then (\<lambda>_. None) else subtree f p)"
      using get(6) nb [OF True] pa [OF True] by (simp add: subtree_def fun_eq_iff)
    then show ?thesis by (cases "prefix a p") (auto simp: abs_volume_def subtree_Nil restrict_map_def)
  qed (simp add: abs_volume_def restrict_map_def)
  then show ?thesis by (auto simp: a_def)
qed

section \<open>The refinement\<close>

lemma abs_step: "vol_step s v v' \<Longrightarrow> is_abs (sv_root s) \<Longrightarrow> vol_ok s v \<Longrightarrow> store_step (abs_volume s (v_fs v)) (abs_volume s (v_fs v'))"
proof (induction rule: vol_step.induct)
  case (run v i rq pc env pc' g)
  with abs_run [OF run.prems(2,1) run.hyps(1-3)] show ?case by simp
next
  case (delete c n v g)
  then have "fs_ok (v_fs v)" by (simp add: vol_ok_def)
  from abs_delete [OF this delete.prems(1) delete.hyps] show ?case by (simp add: store_step.evict)
next
  case (remove q v)
  have f: "fs_ok (v_fs v)" using remove.prems by (simp add: vol_ok_def)
  have "subtree (fs_remove_all q (v_fs v)) p = subtree (v_fs v) p" if p: "p \<in> final_places s" for p
  proof (rule ext)
    fix x
    have "fs_get (v_fs v) (p @ x) = None" if "prefix q (p @ x)"
    proof -
      from that obtain y where y: "p @ x = q @ y" by (auto simp: prefix_def)
      have "y \<noteq> []"
      proof
        assume "y = []"
        then have "prefix p q" using y by (metis append_Nil2 prefixI)
        with remove.hyps(3) [OF p] show False by simp
      qed
      then obtain z r where "y = z # r" by (cases y) auto
      with y fs_ok_absent_below [OF f remove.hyps(2), of z r] show ?thesis by simp
    qed
    then show "subtree (fs_remove_all q (v_fs v)) p x = subtree (v_fs v) p x"
      by (auto simp: subtree_def fs_get_remove_all)
  qed
  then show ?case using idle_step [of s "fs_remove_all q (v_fs v)" "v_fs v"] by simp
qed (simp_all add: store_step.idle)


lemma example_before:
  "fs_get (snd (unpack_steps 9 example_server example_uenv example_request (UCheck, v_fs example_vol)))
     [''v'', ''main'', ''zlib_1.2''] = None"
  "fs_get (snd (unpack_steps 10 example_server example_uenv example_request (UCheck, v_fs example_vol)))
     [''v'', ''main'', ''zlib_1.2''] = Some (Dir 7)"
  by code_simp+

lemma unpack_steps_snoc:
  "unpack_steps (Suc n) s env rq st = (case unpack_steps n s env rq st of (pc, f) \<Rightarrow> unpack_step s env rq pc f)"
  by (induction n arbitrary: st) (auto split: prod.splits)

lemma example_publish:
  "\<exists>v v'. vol_reach example_server example_vol v \<and> vol_step example_server v v' \<and>
     fs_get (v_fs v) [''v'', ''main'', ''zlib_1.2''] = None \<and>
     fs_get (v_fs v') [''v'', ''main'', ''zlib_1.2''] = Some (Dir 7)"
proof -
  let ?v = "example_vol\<lparr>v_procs := (v_procs example_vol)(0 \<mapsto> (example_request, UCheck))\<rparr>"
  let ?st = "unpack_steps 9 example_server example_uenv example_request (UCheck, v_fs ?v)"
  have s: "vol_step example_server example_vol ?v"
    by (rule vol_step.start) (simp add: example_vol_def, rule example_valid)
  have p0: "v_procs ?v = [0 \<mapsto> (example_request, UCheck)]" by (simp add: example_vol_def)
  obtain v where v: "vol_reach example_server ?v v" "v_procs v = [0 \<mapsto> (example_request, fst ?st)]" "v_fs v = snd ?st"
    using steps_reach [OF example_uenv_ok p0, of example_server 9] by blast
  obtain pc' g where n: "unpack_step example_server example_uenv example_request (fst ?st) (v_fs v) = (pc', g)"
    by fastforce
  have l: "live_works v 0 = {}" using v(2) by (auto simp: live_works_def)
  have "unpack_steps 10 example_server example_uenv example_request (UCheck, v_fs ?v) = (pc', g)"
    using n v(3) unpack_steps_snoc [of 9 example_server example_uenv example_request "(UCheck, v_fs ?v)"]
    by (simp add: case_prod_beta)
  then have g: "g = snd (unpack_steps 10 example_server example_uenv example_request (UCheck, v_fs example_vol))"
    by simp
  have p: "v_procs v 0 = Some (example_request, fst ?st)" using v(2) by simp
  obtain v' where v': "vol_step example_server v v'" "v_fs v' = g"
    using vol_step.run [OF p example_uenv_ok n] l by fastforce
  have "vol_reach example_server example_vol v"
    using v(1) s unfolding vol_reach_def by (simp add: converse_rtranclp_into_rtranclp)
  moreover have "fs_get (v_fs v) [''v'', ''main'', ''zlib_1.2''] = None"
    unfolding v(3) using example_before(1) by simp
  moreover have "fs_get (v_fs v') [''v'', ''main'', ''zlib_1.2''] = Some (Dir 7)"
    unfolding v'(2) g by (rule example_before(2))
  ultimately show ?thesis using v'(1) by blast
qed


end
