(* ===== verification/SrcIndex.thy ===== *)
theory SrcIndex
  imports GoFacts
begin

text \<open>
  The source index, \<open>srcindex/srcindex.go\<close>: every regular file of a list of trees is
  filed under its base name (\<open>New\<close>), and a request is answered with the file that shares
  the most trailing components with it (\<open>Find\<close>). The file system is an argument: what
  \<open>filepath.EvalSymlinks\<close> answers for a root and the sequence of callbacks
  \<open>filepath.WalkDir\<close> makes below the resolved root.
\<close>

section \<open>State\<close>

record entry =
  e_root :: string
  e_parts :: "string list"
  e_prio :: nat

record index =
  byBase :: "string \<Rightarrow> entry list"
  ix_skipped :: "string list"

record walk_event =
  ev_err :: bool
  ev_dir :: bool
  ev_regular :: bool
  ev_name :: string
  ev_path :: string

record tree_env =
  eval_symlinks :: "string \<Rightarrow> string option"
  walk_dir :: "string \<Rightarrow> walk_event list"

section \<open>Operations\<close>

definition splitPath :: "string \<Rightarrow> string list" where
  "splitPath p = filter (\<lambda>s. s \<noteq> [] \<and> s \<noteq> ''.'') (split_on slash (clean p))"

definition index_file :: "string \<Rightarrow> string \<Rightarrow> nat \<Rightarrow> walk_event \<Rightarrow> index \<Rightarrow> index" where
  "index_file root resolved prio ev ix =
     (if ev_err ev then ix
      else if ev_dir ev \<or> \<not> ev_regular ev then ix
      else (case path_rel resolved (ev_path ev) of
          None \<Rightarrow> ix
        | Some rel \<Rightarrow>
            ix\<lparr>byBase := (byBase ix)(ev_name ev := byBase ix (ev_name ev) @
                 [\<lparr>e_root = root, e_parts = rev (splitPath rel), e_prio = prio\<rparr>])\<rparr>))"

definition index_root :: "tree_env \<Rightarrow> nat \<times> string \<Rightarrow> index \<Rightarrow> index" where
  "index_root env pr ix = (case pr of (prio, root) \<Rightarrow>
     (case eval_symlinks env root of
        None \<Rightarrow> ix\<lparr>ix_skipped := ix_skipped ix @ [root]\<rparr>
      | Some resolved \<Rightarrow> fold (index_file root resolved prio) (walk_dir env resolved) ix))"

definition index_New :: "tree_env \<Rightarrow> string list \<Rightarrow> index" where
  "index_New env roots =
     fold (index_root env) (enumerate 0 roots) \<lparr>byBase = (\<lambda>_. []), ix_skipped = []\<rparr>"

fun commonPrefixLen :: "string list \<Rightarrow> string list \<Rightarrow> nat" where
  "commonPrefixLen (x # xs) (y # ys) = (if x = y then Suc (commonPrefixLen xs ys) else 0)"
| "commonPrefixLen _ _ = 0"

definition find_step :: "string list \<Rightarrow> entry \<Rightarrow> entry option \<times> nat \<Rightarrow> entry option \<times> nat" where
  "find_step want cand st = (case st of (best, bestScore) \<Rightarrow>
     (let score = commonPrefixLen (e_parts cand) want in
      if score > bestScore then (Some cand, score)
      else (case best of
          None \<Rightarrow> (Some cand, score)
        | Some b \<Rightarrow>
            if score < bestScore then (best, bestScore)
            else if e_prio cand \<noteq> e_prio b then
              (if e_prio cand > e_prio b then (best, bestScore) else (Some cand, score))
            else if length (e_parts cand) \<ge> length (e_parts b) then (best, bestScore)
            else (Some cand, score))))"

definition find_entry :: "index \<Rightarrow> string \<Rightarrow> entry option" where
  "find_entry ix reqPath =
     (case rev (splitPath reqPath) of
        [] \<Rightarrow> None
      | b # rest \<Rightarrow> fst (fold (find_step (b # rest)) (byBase ix b) (None, 0)))"

definition index_Find :: "index \<Rightarrow> string \<Rightarrow> string" where
  "index_Find ix reqPath =
     (case find_entry ix reqPath of
        None \<Rightarrow> []
      | Some e \<Rightarrow> path_join (e_root e # rev (e_parts e)))"

section \<open>What the best match is\<close>

text \<open>
  The specification: \<open>beats want a b\<close> says candidate \<open>a\<close> is at least as good an answer as
  \<open>b\<close>. More trailing components win; then the tree given first; then the shallower file.
\<close>

definition beats :: "string list \<Rightarrow> entry \<Rightarrow> entry \<Rightarrow> bool" where
  "beats want a b \<longleftrightarrow>
     (let sa = commonPrefixLen (e_parts a) want; sb = commonPrefixLen (e_parts b) want in
      sb < sa \<or> sb = sa \<and> (e_prio a < e_prio b \<or>
        e_prio a = e_prio b \<and> length (e_parts a) \<le> length (e_parts b)))"

lemma beats_refl: "beats want a a"
  by (simp add: beats_def)

lemma beats_trans: "beats want a b \<Longrightarrow> beats want b c \<Longrightarrow> beats want a c"
  by (auto simp: beats_def Let_def)

lemma commonPrefixLen_le: "commonPrefixLen xs ys \<le> length xs" "commonPrefixLen xs ys \<le> length ys"
  by (induction xs ys rule: commonPrefixLen.induct) auto

lemma commonPrefixLen_take:
  "take (commonPrefixLen xs ys) xs = take (commonPrefixLen xs ys) ys"
  by (induction xs ys rule: commonPrefixLen.induct) auto

lemma commonPrefixLen_maximal:
  "take n xs = take n ys \<Longrightarrow> n \<le> length xs \<Longrightarrow> n \<le> length ys \<Longrightarrow> n \<le> commonPrefixLen xs ys"
proof (induction xs ys arbitrary: n rule: commonPrefixLen.induct)
  case (1 x xs y ys)
  then show ?case by (cases n) auto
qed auto

definition find_inv :: "string list \<Rightarrow> entry list \<Rightarrow> entry option \<times> nat \<Rightarrow> bool" where
  "find_inv want seen st \<longleftrightarrow>
     (case st of
        (None, s) \<Rightarrow> seen = [] \<and> s = 0
      | (Some b, s) \<Rightarrow> b \<in> set seen \<and> s = commonPrefixLen (e_parts b) want \<and>
          (\<forall>c \<in> set seen. beats want b c))"

lemma find_step_inv:
  assumes "find_inv want seen st"
  shows "find_inv want (seen @ [c]) (find_step want c st)"
proof (cases st)
  case (Pair best s)
  show ?thesis
  proof (cases best)
    case None
    with assms Pair show ?thesis
      by (auto simp: find_inv_def find_step_def Let_def beats_refl)
  next
    case (Some b)
    with assms Pair have b: "b \<in> set seen" "s = commonPrefixLen (e_parts b) want"
      "\<forall>d \<in> set seen. beats want b d"
      by (auto simp: find_inv_def)
    have keep: "beats want b c \<Longrightarrow> find_inv want (seen @ [c]) (Some b, s)"
      using b by (auto simp: find_inv_def)
    have new: "beats want c b \<Longrightarrow>
        find_inv want (seen @ [c]) (Some c, commonPrefixLen (e_parts c) want)"
      using b beats_trans [of want c b] by (auto simp: find_inv_def beats_refl)
    show ?thesis
      using Pair Some b(2) keep new
      by (auto simp: find_step_def Let_def beats_def not_less split: if_splits)
  qed
qed

lemma fold_find_inv:
  "find_inv want seen st \<Longrightarrow> find_inv want (seen @ cs) (fold (find_step want) cs st)"
proof (induction cs arbitrary: seen st)
  case (Cons c cs)
  from Cons.IH [OF find_step_inv [OF Cons.prems]] show ?case by simp
qed simp

lemma find_entry_inv:
  assumes "rev (splitPath req) = b # rest"
  shows "\<exists>s. find_inv (b # rest) (byBase ix b) (find_entry ix req, s)"
proof -
  have "find_inv (b # rest) [] (None, 0)" by (simp add: find_inv_def)
  from fold_find_inv [OF this, of "byBase ix b"]
  have inv: "find_inv (b # rest) (byBase ix b) (fold (find_step (b # rest)) (byBase ix b) (None, 0))"
    by simp
  have "find_entry ix req = fst (fold (find_step (b # rest)) (byBase ix b) (None, 0))"
    by (simp only: find_entry_def assms list.case)
  with inv show ?thesis by (metis prod.collapse)
qed


text \<open>C4. \<open>Find\<close> answers with the best candidate: among the files indexed under the request's
  base name, in every tree, the one it returns shares the most trailing components with the
  request, ties going to the tree given first and then to the shallower file. It answers the
  empty string exactly when no file has that base name.\<close>

theorem Find_best:
  assumes "rev (splitPath req) = b # rest"
  shows "(byBase ix b = [] \<and> index_Find ix req = []) \<or>
    (\<exists>e \<in> set (byBase ix b). index_Find ix req = path_join (e_root e # rev (e_parts e)) \<and>
       (\<forall>c \<in> set (byBase ix b). beats (b # rest) e c))"
proof -
  obtain s where inv: "find_inv (b # rest) (byBase ix b) (find_entry ix req, s)"
    using find_entry_inv [OF assms] by blast
  show ?thesis
  proof (cases "find_entry ix req")
    case None
    with inv show ?thesis by (simp add: find_inv_def index_Find_def)
  next
    case (Some e)
    with inv show ?thesis by (auto simp: find_inv_def index_Find_def)
  qed
qed

definition example_env :: tree_env where
  "example_env = \<lparr>eval_symlinks = (\<lambda>r. if r = ''/ov'' \<or> r = ''/src'' then Some r else None),
     walk_dir = (\<lambda>r. if r = ''/ov''
        then [\<lparr>ev_err = False, ev_dir = False, ev_regular = True, ev_name = ''x.c'', ev_path = ''/ov/x.c''\<rparr>]
        else [\<lparr>ev_err = False, ev_dir = True, ev_regular = False, ev_name = ''elf'', ev_path = ''/src/elf''\<rparr>,
              \<lparr>ev_err = False, ev_dir = False, ev_regular = True, ev_name = ''x.c'', ev_path = ''/src/elf/x.c''\<rparr>])\<rparr>"

lemma example_request: "rev (splitPath ''/build/elf/../elf/x.c'') = [''x.c'', ''elf'', ''build'']"
  by code_simp

theorem Find_best_witness:
  "index_Find (index_New example_env [''/ov'', ''/none'', ''/src'']) ''/build/elf/../elf/x.c'' = ''/src/elf/x.c'' \<and>
   (\<exists>e. path_join (e_root e # rev (e_parts e)) = ''/src/elf/x.c'' \<and>
     (\<forall>c \<in> set (byBase (index_New example_env [''/ov'', ''/none'', ''/src'']) ''x.c'').
        beats [''x.c'', ''elf'', ''build''] e c))"
proof -
  have "index_Find (index_New example_env [''/ov'', ''/none'', ''/src'']) ''/build/elf/../elf/x.c'' = ''/src/elf/x.c''"
    by code_simp
  then show ?thesis
    using Find_best [OF example_request, of "index_New example_env [''/ov'', ''/none'', ''/src'']"]
    by auto
qed

section \<open>Answers stay inside the trees\<close>

text \<open>
  What \<open>filepath.WalkDir\<close> promises: it reports paths below the resolved root, made of names
  read from directories (never empty, \<open>.\<close>, \<open>..\<close> or with a separator in them).
\<close>

definition walk_ok :: "tree_env \<Rightarrow> bool" where
  "walk_ok env \<longleftrightarrow> (\<forall>root resolved ev. eval_symlinks env root = Some resolved \<longrightarrow>
     ev \<in> set (walk_dir env resolved) \<longrightarrow> is_abs resolved \<and> is_abs (ev_path ev) \<and>
     (\<exists>ps. list_all plain ps \<and> clean_comps (ev_path ev) = clean_comps resolved @ ps))"

lemma strip_common_append: "strip_common xs (xs @ ps) = ([], ps)"
  by (induction xs) (cases ps; simp)+

lemma splitPath_join_plain:
  assumes "list_all plain ps" "ps \<noteq> []"
  shows "splitPath (join_with ''/'' ps) = ps"
proof -
  have split: "split_on slash (join_with ''/'' ps) = ps"
    using assms by (intro split_on_join) (auto simp: list_all_iff plain_def)
  have rel: "\<not> is_abs (join_with ''/'' ps)"
    using assms
    by (cases ps; cases "hd ps"; cases "tl ps") (auto simp: plain_def join_with_Cons)
  have "clean_comps (join_with ''/'' ps) = ps"
    using assms(1) rel split by (simp add: clean_comps_def clean_parts_plain)
  then have "clean (join_with ''/'' ps) = join_with ''/'' ps"
    using rel assms(2) by (simp add: clean_def)
  then show ?thesis
    using split assms(1) by (simp add: splitPath_def list_all_iff filter_id_conv plain_def)
qed

lemma splitPath_dot: "splitPath ''.'' = []"
  by code_simp

lemma splitPath_rel:
  assumes "is_abs r" "is_abs p" "clean_comps p = clean_comps r @ ps" "list_all plain ps"
  shows "\<exists>rel. path_rel r p = Some rel \<and> splitPath rel = ps"
proof (cases "ps = []")
  case True
  with assms have "clean r = clean p" by (simp add: clean_abs_eq_iff)
  with True show ?thesis by (simp add: path_rel_def splitPath_dot)
next
  case False
  with assms have "clean r \<noteq> clean p" by (simp add: clean_abs_eq_iff)
  with assms False show ?thesis
    by (simp add: path_rel_def strip_common_append splitPath_join_plain)
qed

text \<open>\<open>from_tree env roots e\<close>: entry \<open>e\<close> is a regular file some root's walk reported.\<close>

definition from_tree :: "tree_env \<Rightarrow> string list \<Rightarrow> entry \<Rightarrow> bool" where
  "from_tree env roots e \<longleftrightarrow> e_root e \<in> set roots \<and>
     (\<exists>resolved ev rel. eval_symlinks env (e_root e) = Some resolved \<and>
        ev \<in> set (walk_dir env resolved) \<and> ev_regular ev \<and> \<not> ev_dir ev \<and> \<not> ev_err ev \<and>
        path_rel resolved (ev_path ev) = Some rel \<and> e_parts e = rev (splitPath rel))"

definition index_ok :: "tree_env \<Rightarrow> string list \<Rightarrow> index \<Rightarrow> bool" where
  "index_ok env roots ix \<longleftrightarrow> (\<forall>b. \<forall>e \<in> set (byBase ix b). from_tree env roots e)"

lemma index_file_ok:
  "index_ok env roots ix \<Longrightarrow> root \<in> set roots \<Longrightarrow> eval_symlinks env root = Some resolved \<Longrightarrow>
   ev \<in> set (walk_dir env resolved) \<Longrightarrow> index_ok env roots (index_file root resolved prio ev ix)"
  by (fastforce simp: index_ok_def index_file_def from_tree_def split: option.splits)

lemma index_files_ok:
  "index_ok env roots ix \<Longrightarrow> root \<in> set roots \<Longrightarrow> eval_symlinks env root = Some resolved \<Longrightarrow>
   set evs \<subseteq> set (walk_dir env resolved) \<Longrightarrow>
   index_ok env roots (fold (index_file root resolved prio) evs ix)"
  by (induction evs arbitrary: ix) (auto intro: index_file_ok)

lemma index_root_ok:
  "index_ok env roots ix \<Longrightarrow> snd pr \<in> set roots \<Longrightarrow> index_ok env roots (index_root env pr ix)"
proof (cases pr)
  case (Pair prio root)
  assume ok: "index_ok env roots ix" and r: "snd pr \<in> set roots"
  show ?thesis
  proof (cases "eval_symlinks env root")
    case None
    with Pair ok show ?thesis by (simp add: index_root_def index_ok_def)
  next
    case (Some resolved)
    with Pair ok r show ?thesis by (simp add: index_root_def index_files_ok)
  qed
qed

lemma index_roots_ok:
  "index_ok env roots ix \<Longrightarrow> snd ` set prs \<subseteq> set roots \<Longrightarrow>
   index_ok env roots (fold (index_root env) prs ix)"
  by (induction prs arbitrary: ix) (auto intro: index_root_ok)

lemma index_New_ok: "index_ok env roots (index_New env roots)"
  unfolding index_New_def
  by (rule index_roots_ok) (auto simp: index_ok_def in_set_enumerate_eq)

lemma find_entry_mem: "find_entry ix req = Some e \<Longrightarrow> \<exists>b. e \<in> set (byBase ix b)"
proof -
  assume some: "find_entry ix req = Some e"
  then obtain b rest where "rev (splitPath req) = b # rest"
    by (cases "rev (splitPath req)") (auto simp: find_entry_def)
  from find_entry_inv [OF this, of ix] some show ?thesis by (auto simp: find_inv_def)
qed

lemma Find_contained_aux:
  assumes walk: "walk_ok env" and roots: "\<forall>r \<in> set roots. is_abs r"
  shows "index_Find (index_New env roots) req = [] \<or>
    (\<exists>root \<in> set roots. \<exists>resolved ev ps.
       eval_symlinks env root = Some resolved \<and> ev \<in> set (walk_dir env resolved) \<and> ev_regular ev \<and>
       list_all plain ps \<and> clean_comps (ev_path ev) = clean_comps resolved @ ps \<and>
       clean_comps (index_Find (index_New env roots) req) = clean_comps root @ ps)"
proof (cases "find_entry (index_New env roots) req")
  case None
  then show ?thesis by (simp add: index_Find_def)
next
  case (Some e)
  then obtain b where "e \<in> set (byBase (index_New env roots) b)"
    using find_entry_mem by blast
  with index_New_ok have "from_tree env roots e" by (auto simp: index_ok_def)
  then obtain resolved ev rel where root: "e_root e \<in> set roots"
    and res: "eval_symlinks env (e_root e) = Some resolved"
    and ev: "ev \<in> set (walk_dir env resolved)" "ev_regular ev"
    and rel: "path_rel resolved (ev_path ev) = Some rel" "e_parts e = rev (splitPath rel)"
    by (auto simp: from_tree_def)
  obtain ps where ps: "list_all plain ps" "clean_comps (ev_path ev) = clean_comps resolved @ ps"
    and abs: "is_abs resolved" "is_abs (ev_path ev)"
    using walk res ev(1) unfolding walk_ok_def by blast
  have parts: "rev (e_parts e) = ps"
    using splitPath_rel [OF abs ps(2) ps(1)] rel by simp
  have r: "is_abs (e_root e)" using roots root by blast
  have "clean_comps (path_join (e_root e # ps)) = clean_comps (e_root e) @ ps"
  proof (cases "ps = []")
    case True
    have "e_root e \<noteq> []" using r by auto
    with True r show ?thesis by (simp add: path_join_def clean_comps_clean)
  next
    case False
    with path_join_comps(1) [OF r ps(1)] show ?thesis .
  qed
  with Some root res ev ps parts show ?thesis
    by (auto simp: index_Find_def)
qed

text \<open>C27. Whatever path a client asks for, with any number of \<open>..\<close> in it, \<open>Find\<close> on an index
  that \<open>New\<close> built answers the empty string or the path of a regular file that the walk of
  one of the given trees reported: its components are the root's followed by plain names.\<close>

theorem Find_contained:
  assumes walk: "walk_ok env" and roots: "\<forall>r \<in> set roots. is_abs r"
  shows "index_Find (index_New env roots) req = [] \<or>
    (\<exists>root \<in> set roots. \<exists>resolved ev ps.
       eval_symlinks env root = Some resolved \<and> ev \<in> set (walk_dir env resolved) \<and> ev_regular ev \<and>
       list_all plain ps \<and> clean_comps (ev_path ev) = clean_comps resolved @ ps \<and>
       clean_comps (index_Find (index_New env roots) req) = clean_comps root @ ps)"
  using Find_contained_aux [OF assms] .

lemma example_comps:
  "clean_comps ''/ov/x.c'' = clean_comps ''/ov'' @ [''x.c'']"
  "clean_comps ''/src/elf'' = clean_comps ''/src'' @ [''elf'']"
  "clean_comps ''/src/elf/x.c'' = clean_comps ''/src'' @ [''elf'', ''x.c'']"
  by code_simp+

lemma example_plain: "list_all plain [''x.c'']" "list_all plain [''elf'']" "list_all plain [''elf'', ''x.c'']"
  by (simp_all add: plain_def)

lemma example_walk_ok: "walk_ok example_env"
  unfolding walk_ok_def example_env_def
  using example_comps example_plain by (auto split: if_splits)

theorem Find_contained_witness:
  "index_Find (index_New example_env [''/ov'', ''/src'']) ''/../../src/elf/x.c'' = [] \<or>
    (\<exists>root \<in> set [''/ov'', ''/src'']. \<exists>resolved ev ps.
       eval_symlinks example_env root = Some resolved \<and> ev \<in> set (walk_dir example_env resolved) \<and> ev_regular ev \<and>
       list_all plain ps \<and> clean_comps (ev_path ev) = clean_comps resolved @ ps \<and>
       clean_comps (index_Find (index_New example_env [''/ov'', ''/src'']) ''/../../src/elf/x.c'') = clean_comps root @ ps)"
  by (rule Find_contained [OF example_walk_ok]) simp

end
