(* ===== verification/DebArchive.thy ===== *)
theory DebArchive
  imports GoFacts
begin

text \<open>
  \<open>cmd/deb-debuginfod/archive.go\<close>: reading a Debian source package out of the
  \<open>X-DEBUGINFOD-ARCHIVE\<close> header.
\<close>

record pkgRef =
  pk_source :: string
  pk_version :: string
  pk_component :: string

datatype archive_error = PathTooShort | NotADeb | NoVersion

text \<open>\<open>binNMU.ReplaceAllString(s, "")\<close> for the pattern \<open>\+b[0-9]+$\<close>: the match ends the string
  and holds one plus sign, so there is at most one.\<close>

definition strip_binNMU :: "string \<Rightarrow> string" where
  "strip_binNMU s =
     (let digits = rev (takeWhile is_digit (rev s));
          rest = rev (dropWhile is_digit (rev s))
      in if digits \<noteq> [] \<and> has_suffix rest ''+b'' then trim_suffix rest ''+b'' else s)"

definition parseArchive :: "string \<Rightarrow> archive_error + pkgRef" where
  "parseArchive header =
     (let parts = split_on slash (trim_char slash header) in
      if length parts < 4 then Inl PathTooShort
      else
        let tail = drop (length parts - 4) parts;
            component = trim_prefix (tail ! 0) ''dbg-'';
            source = tail ! 2;
            file = tail ! 3
        in if \<not> has_suffix file ''.deb'' then Inl NotADeb
           else
             let name = trim_suffix file ''.deb'';
                 first = str_index name (CHR ''_'');
                 last = str_last_index name (CHR ''_'')
             in if first < 0 \<or> last \<le> first then Inl NoVersion
                else
                  let version = strip_binNMU (drop (nat (first + 1)) (take (nat last) name))
                  in Inr \<lparr>pk_source = source, pk_version = version, pk_component = component\<rparr>)"

section \<open>Facts\<close>

lemma strip_binNMU_rebuild:
  assumes "n \<noteq> []" "list_all is_digit n"
  shows "strip_binNMU (v @ ''+b'' @ n) = v"
proof -
  have n: "\<forall>x \<in> set (rev n). is_digit x" using assms(2) by (simp add: list_all_iff)
  have b: "\<not> is_digit (CHR ''b'')" by (simp add: is_digit_def)
  have r: "rev (v @ ''+b'' @ n) = rev n @ CHR ''b'' # CHR ''+'' # rev v" by simp
  have "takeWhile is_digit (rev (v @ ''+b'' @ n)) = rev n"
    unfolding r using n b by (rule takeWhile_append_stop)
  moreover have "dropWhile is_digit (rev (v @ ''+b'' @ n)) = CHR ''b'' # CHR ''+'' # rev v"
    unfolding r using n b by (rule dropWhile_append_stop)
  ultimately show ?thesis
    using assms(1) has_suffix_append [of v "''+b''"] trim_suffix_append [of v "''+b''"]
    unfolding strip_binNMU_def Let_def by simp
qed

lemma strip_binNMU_id:
  assumes "\<And>w n. v = w @ ''+b'' @ n \<Longrightarrow> n \<noteq> [] \<Longrightarrow> \<not> list_all is_digit n"
  shows "strip_binNMU v = v"
proof -
  define ds where "ds = rev (takeWhile is_digit (rev v))"
  define rest where "rest = rev (dropWhile is_digit (rev v))"
  have v: "v = rest @ ds"
    unfolding ds_def rest_def by (metis rev_append rev_rev_ident takeWhile_dropWhile_id)
  have "list_all is_digit ds" by (auto simp: ds_def list_all_iff dest: set_takeWhileD)
  with assms v have "ds \<noteq> [] \<Longrightarrow> \<not> has_suffix rest ''+b''"
    by (auto simp: has_suffix_iff)
  then show ?thesis
    by (auto simp: strip_binNMU_def Let_def ds_def [symmetric] rest_def [symmetric])
qed

text \<open>Only the last four components decide: what precedes them is free.\<close>

lemma archive_parts:
  assumes ts: "length ts = 4" "\<forall>t \<in> set ts. slash \<notin> set t" "hd ts \<noteq> []"
    and f: "last ts \<noteq> []" "last (last ts) \<noteq> slash"
  shows "\<exists>pre'. split_on slash (trim_char slash (pre @ slash # join_with ''/'' ts)) = pre' @ ts"
proof -
  obtain t0 rest where t0: "ts = t0 # rest" "t0 \<noteq> []" "rest \<noteq> []"
    using ts by (cases ts; cases "tl ts") auto
  have hd0: "hd t0 \<noteq> slash" using ts(2) t0 by (metis hd_in_set list.set_intros(1))
  have j: "join_with ''/'' ts = t0 @ slash # join_with ''/'' rest"
    using t0 by (simp add: join_with_Cons)
  obtain u z where uz: "join_with ''/'' ts = u @ [z]" "z \<noteq> slash"
  proof -
    have "ts \<noteq> [] \<Longrightarrow> last ts \<noteq> [] \<Longrightarrow> last (join_with ''/'' ts) = last (last ts) \<and> join_with ''/'' ts \<noteq> []"
      by (induction ts) (auto simp: join_with_Cons)
    then have "last (join_with ''/'' ts) \<noteq> slash" "join_with ''/'' ts \<noteq> []" using f t0 by auto
    then show thesis using that [of "butlast (join_with ''/'' ts)" "last (join_with ''/'' ts)"] by simp
  qed
  define l where "l = dropWhile (\<lambda>x. x = slash) pre"
  have left: "trim_left_char slash (pre @ slash # join_with ''/'' ts) =
      (if l = [] then join_with ''/'' ts else l @ slash # join_with ''/'' ts)"
  proof -
    have d: "dropWhile (\<lambda>x. x = slash) (join_with ''/'' ts) = join_with ''/'' ts"
      using hd0 t0(2) unfolding j by (cases t0) auto
    show ?thesis unfolding trim_left_char_def l_def
      by (cases "\<exists>x \<in> set pre. x \<noteq> slash")
        (auto simp: dropWhile_append dropWhile_eq_Nil_conv d)
  qed
  have right: "trim_right_char slash (w @ join_with ''/'' ts) = w @ join_with ''/'' ts" for w
    unfolding uz(1) trim_right_char_def using uz(2) by simp
  have tr: "trim_char slash (pre @ slash # join_with ''/'' ts) =
      (if l = [] then join_with ''/'' ts else l @ slash # join_with ''/'' ts)"
    unfolding trim_char_def left using right [of "[]"] right [of "l @ [slash]"] by simp
  have ne: "ts \<noteq> []" using t0 by simp
  show ?thesis
  proof (cases "l = []")
    case True
    have "split_on slash (join_with [slash] ts) = ts" using ne ts(2) by (intro split_on_join) auto
    with True tr show ?thesis by simp
  next
    case False
    have "split_on slash (l @ slash # join_with [slash] ts) = split_on slash l @ ts"
      using ne ts(2) by (intro split_on_append_join) auto
    with False tr show ?thesis by simp
  qed
qed

lemma archive_version:
  assumes "CHR ''_'' \<notin> set bin" "CHR ''_'' \<notin> set arch"
  shows "str_index (bin @ ''_'' @ v @ ''_'' @ arch) (CHR ''_'') = int (length bin)"
    "str_last_index (bin @ ''_'' @ v @ ''_'' @ arch) (CHR ''_'') = int (length bin + 1 + length v)"
  using str_index_found [OF assms(1), of "v @ ''_'' @ arch"]
    str_last_index_found [OF assms(2), of "bin @ ''_'' @ v"] by simp_all

text \<open>The four path components Debian's mirror gives a package.\<close>

definition archive_path :: "string \<Rightarrow> string \<Rightarrow> string \<Rightarrow> string \<Rightarrow> string \<Rightarrow> string \<Rightarrow> string \<Rightarrow> string" where
  "archive_path pre cmp shard src bin version arch =
     pre @ slash # join_with ''/'' [cmp, shard, src, bin @ ''_'' @ version @ ''_'' @ arch @ ''.deb'']"

lemma parseArchive_path:
  assumes "\<forall>t \<in> {cmp, shard, src, bin, version, arch}. slash \<notin> set t" "cmp \<noteq> []"
    and us: "CHR ''_'' \<notin> set bin" "CHR ''_'' \<notin> set arch"
  shows "parseArchive (archive_path pre cmp shard src bin version arch) =
    Inr \<lparr>pk_source = src, pk_version = strip_binNMU version, pk_component = trim_prefix cmp ''dbg-''\<rparr>"
proof -
  define fname where "fname = bin @ ''_'' @ version @ ''_'' @ arch @ ''.deb''"
  have "\<exists>pre'. split_on slash (trim_char slash (pre @ slash # join_with ''/'' [cmp, shard, src, fname]))
      = pre' @ [cmp, shard, src, fname]"
    by (rule archive_parts) (use assms(1,2) in \<open>auto simp: fname_def\<close>)
  then obtain pre' where split: "split_on slash (trim_char slash (archive_path pre cmp shard src bin version arch))
      = pre' @ [cmp, shard, src, fname]"
    unfolding archive_path_def fname_def by blast
  have f: "fname = (bin @ ''_'' @ version @ ''_'' @ arch) @ ''.deb''" by (simp add: fname_def)
  have deb: "has_suffix fname ''.deb''" "trim_suffix fname ''.deb'' = bin @ ''_'' @ version @ ''_'' @ arch"
    unfolding f by (rule has_suffix_append, rule trim_suffix_append)
  have slice: "drop (nat (int (length bin) + 1)) (take (nat (int (length bin + 1 + length version)))
      (bin @ ''_'' @ version @ ''_'' @ arch)) = version"
    by (simp add: nat_add_distrib)
  show ?thesis
    unfolding parseArchive_def Let_def split
    using deb slice archive_version [OF us, of version] by simp
qed

lemma two_underscores:
  "str_index n c < 0 \<or> str_last_index n c \<le> str_index n c
     \<longleftrightarrow> \<not> (\<exists>a b d. n = a @ [c] @ b @ [c] @ d)"
proof (cases "c \<in> set n")
  case False
  then show ?thesis by (auto simp: str_index_absent)
next
  case True
  then obtain a r where a: "n = a @ c # r" "c \<notin> set a" by (metis split_list_first)
  show ?thesis
  proof (cases "c \<in> set r")
    case True
    then obtain b d where b: "r = b @ c # d" "c \<notin> set d" by (metis split_list_last)
    have "str_last_index n c = int (length (a @ c # b))"
      using str_last_index_found [OF b(2), of "a @ c # b"] a(1) b(1) by simp
    moreover have "str_index n c = int (length a)" using str_index_found [OF a(2)] a(1) by simp
    moreover have "\<exists>a b d. n = a @ [c] @ b @ [c] @ d" using a(1) b(1) by auto
    ultimately show ?thesis by simp
  next
    case False
    have "n \<noteq> a' @ [c] @ b @ [c] @ d" for a' b d
    proof
      assume "n = a' @ [c] @ b @ [c] @ d"
      then have "count_list n c \<ge> 2" by simp
      moreover have "count_list n c = 1" using a False by simp
      ultimately show False by simp
    qed
    then show ?thesis using str_last_index_found [OF False, of a] str_index_found [OF a(2), of r] a(1)
      by simp
  qed
qed

section \<open>Properties\<close>

text \<open>C28. \<open>parseArchive\<close> inverts the layout of Debian's mirror. For every prefix, shard, source
  package, binary package and architecture (no underscore in the last two, no slash in any), the
  header of a package, with or without the \<open>dbg-\<close> component prefix and with or without a
  \<open>+bN\<close> rebuild suffix, gives the pool directory as source, the plain component and the
  version without the rebuild suffix.\<close>

theorem parseArchive_roundtrip:
  assumes "\<forall>t \<in> {cmp, shard, src, bin, version, arch}. slash \<notin> set t"
    and "cmp \<noteq> []" "\<not> has_prefix cmp ''dbg-''"
    and "CHR ''_'' \<notin> set bin" "CHR ''_'' \<notin> set arch"
    and "\<And>w n. version = w @ ''+b'' @ n \<Longrightarrow> n \<noteq> [] \<Longrightarrow> \<not> list_all is_digit n"
    and "nmu = [] \<or> (\<exists>n. nmu = ''+b'' @ n \<and> n \<noteq> [] \<and> list_all is_digit n)"
    and "dbg = [] \<or> dbg = ''dbg-''"
  shows "parseArchive (archive_path pre (dbg @ cmp) shard src bin (version @ nmu) arch) =
    Inr \<lparr>pk_source = src, pk_version = version, pk_component = cmp\<rparr>"
proof -
  have v: "strip_binNMU (version @ nmu) = version"
    using assms(6,7) strip_binNMU_rebuild [of _ version] strip_binNMU_id [of version] by auto
  have d: "trim_prefix (dbg @ cmp) ''dbg-'' = cmp"
  proof (cases "dbg = []")
    case True
    with assms(3) show ?thesis by (simp add: trim_prefix_def cut_prefix_def)
  next
    case False
    with assms(8) trim_prefix_append [of "''dbg-''" cmp] show ?thesis by simp
  qed
  have ns: "slash \<notin> set nmu"
  proof -
    have "is_digit c \<Longrightarrow> c \<noteq> slash" for c by (auto simp: is_digit_def)
    with assms(7) show ?thesis by (fastforce simp: list_all_iff)
  qed
  have "\<forall>t \<in> {dbg @ cmp, shard, src, bin, version @ nmu, arch}. slash \<notin> set t"
    using assms(1,8) ns by auto
  from parseArchive_path [OF this _ assms(4,5), of pre] assms(2) show ?thesis
    by (simp add: v d)
qed

theorem parseArchive_roundtrip_witness:
  "parseArchive (archive_path ''/srv/mirror/debian-debug'' (''dbg-'' @ ''main'') ''g'' ''glibc''
     ''libc6-dbg'' (''2.41-12'' @ ''+b1'') ''amd64'') =
   Inr \<lparr>pk_source = ''glibc'', pk_version = ''2.41-12'', pk_component = ''main''\<rparr>"
proof (rule parseArchive_roundtrip)
  show "''+b1'' = [] \<or> (\<exists>n. ''+b1'' = ''+b'' @ n \<and> n \<noteq> [] \<and> list_all is_digit n)"
    by (rule disjI2, rule exI [of _ "''1''"]) (simp add: is_digit_def)
qed (auto simp: has_prefix_def append_eq_Cons_conv Cons_eq_append_conv)

text \<open>Every other header is refused with the error of its first defect: fewer than four
  components, a file that is not a \<open>.deb\<close>, a name without two underscores, and nothing else
  is refused.\<close>

theorem parseArchive_refuses:
  fixes h :: string
  defines "ps \<equiv> split_on slash (trim_char slash h)"
  shows "(parseArchive h = Inl PathTooShort \<longleftrightarrow> length ps < 4) \<and>
   (parseArchive h = Inl NotADeb \<longleftrightarrow> 4 \<le> length ps \<and> \<not> has_suffix (last ps) ''.deb'') \<and>
   (parseArchive h = Inl NoVersion \<longleftrightarrow> 4 \<le> length ps \<and>
      (\<exists>n. last ps = n @ ''.deb'' \<and> \<not> (\<exists>a b c. n = a @ ''_'' @ b @ ''_'' @ c)))"
proof -
  have l: "length ps \<ge> 4 \<Longrightarrow> drop (length ps - 4) ps ! 3 = last ps"
    by (cases "ps = []") (auto simp: last_conv_nth)
  note two = two_underscores [of _ "CHR ''_''"]
  have suf: "has_suffix (last ps) ''.deb'' \<longleftrightarrow> (\<exists>n. last ps = n @ ''.deb'')" by (rule has_suffix_iff)
  have trim: "last ps = n @ ''.deb'' \<Longrightarrow> trim_suffix (last ps) ''.deb'' = n" for n
    by (metis trim_suffix_append)
  show ?thesis
  proof (cases "\<exists>n. last ps = n @ ''.deb''")
    case True
    then obtain n where n: "last ps = n @ ''.deb''" by blast
    then have u: "last ps = m @ ''.deb'' \<longleftrightarrow> m = n" for m by auto
    show ?thesis
      using l suf trim [OF n] two [of n] n
      unfolding parseArchive_def Let_def ps_def [symmetric] u by auto
  next
    case False
    with suf l show ?thesis
      unfolding parseArchive_def Let_def ps_def [symmetric] by auto
  qed
qed

end
