(* ===== verification/Budget.thy ===== *)
theory Budget
  imports Prelude
begin

text \<open>
  The contract two services share: a pass that deletes items, oldest first, until what remains
  fits a budget. The file cache of \<open>cmd/proxy\<close> and the source volume of
  \<open>cmd/deb-debuginfod\<close> both implement it; each interprets the locale on its own loop.
\<close>

section \<open>What a pass does\<close>

text \<open>The attempts of a pass on a list of items: which deletions succeeded, and the state after.\<close>

fun attempts :: "('a \<Rightarrow> 's \<Rightarrow> bool \<times> 's) \<Rightarrow> 'a list \<Rightarrow> 's \<Rightarrow> bool list \<times> 's" where
  "attempts att [] s = ([], s)"
| "attempts att (x # xs) s =
     (case att x s of (ok, s') \<Rightarrow> (case attempts att xs s' of (oks, s'') \<Rightarrow> (ok # oks, s'')))"

definition freed_by :: "('a \<Rightarrow> int) \<Rightarrow> 'a list \<Rightarrow> bool list \<Rightarrow> int" where
  "freed_by cost xs oks = sum_list (map (\<lambda>(x, ok). if ok then cost x else 0) (zip xs oks))"

lemma freed_by_simps [simp]:
  "freed_by cost [] oks = 0"
  "freed_by cost (x # xs) (ok # oks) = (if ok then cost x else 0) + freed_by cost xs oks"
  by (simp_all add: freed_by_def)

lemma length_attempts: "length (fst (attempts att xs s)) = length xs"
  by (induction xs arbitrary: s) (auto split: prod.splits, metis fst_conv)

locale budget_evictor =
  fixes pass :: "'a list \<Rightarrow> int \<Rightarrow> 's \<Rightarrow> int \<times> 's"
    and att :: "'a \<Rightarrow> 's \<Rightarrow> bool \<times> 's"
    and cost :: "'a \<Rightarrow> int"
    and total :: int
    and target :: int
  assumes pass_Nil: "pass [] freed s = (freed, s)"
    and pass_stop: "total - freed \<le> target \<Longrightarrow> pass (x # xs) freed s = (freed, s)"
    and pass_go: "target < total - freed \<Longrightarrow> pass (x # xs) freed s =
      (case att x s of (ok, s') \<Rightarrow> pass xs (if ok then freed + cost x else freed) s')"
begin

text \<open>A pass attempts a prefix of the list: it stops at the first point where the rest fits.\<close>

lemma pass_prefix:
  "\<exists>k \<le> length xs. \<exists>oks s'. attempts att (take k xs) s = (oks, s') \<and>
     pass xs freed s = (freed + freed_by cost (take k xs) oks, s') \<and>
     (k = length xs \<or> total - (freed + freed_by cost (take k xs) oks) \<le> target) \<and>
     (\<forall>j < k. target < total - (freed + freed_by cost (take j xs) (take j oks)))"
proof (induction xs arbitrary: freed s)
  case Nil
  then show ?case by (simp add: pass_Nil)
next
  case (Cons x xs)
  show ?case
  proof (cases "total - freed \<le> target")
    case True
    then show ?thesis by (intro exI [of _ 0]) (simp add: pass_stop)
  next
    case False
    obtain ok s1 where a: "att x s = (ok, s1)" by fastforce
    let ?fr = "if ok then freed + cost x else freed"
    from Cons.IH [of s1 ?fr] obtain k oks s' where k: "k \<le> length xs"
      "attempts att (take k xs) s1 = (oks, s')"
      "pass xs ?fr s1 = (?fr + freed_by cost (take k xs) oks, s')"
      "k = length xs \<or> total - (?fr + freed_by cost (take k xs) oks) \<le> target"
      "\<forall>j < k. target < total - (?fr + freed_by cost (take j xs) (take j oks))"
      by auto
    have min: "target < total - (freed + freed_by cost (take j (x # xs)) (take j (ok # oks)))"
      if j: "j < Suc k" for j
      using j k(5) False by (cases j) (auto split: if_splits)
    show ?thesis
      by (rule exI [of _ "Suc k"], intro conjI exI [of _ "ok # oks"] exI [of _ s'])
        (use k(1-4) a False min in \<open>auto simp: pass_go not_le split: if_splits\<close>)
  qed
qed

text \<open>When every deletion succeeds and the items are what fills the budget, the rest fits.\<close>

lemma pass_fits:
  assumes ok: "\<And>x s. x \<in> set xs \<Longrightarrow> fst (att x s)" and fit: "total - sum_list (map cost xs) \<le> target"
  shows "total - fst (pass xs 0 s) \<le> target"
proof -
  obtain k oks s' where k: "attempts att (take k xs) s = (oks, s')"
    "pass xs 0 s = (0 + freed_by cost (take k xs) oks, s')"
    "k = length xs \<or> total - (0 + freed_by cost (take k xs) oks) \<le> target"
    using pass_prefix [of xs s 0] by blast
  have all: "attempts att ys s = (oks', t) \<Longrightarrow> set ys \<subseteq> set xs \<Longrightarrow>
      freed_by cost ys oks' = sum_list (map cost ys)" for ys oks' s t
  proof (induction ys arbitrary: s oks')
    case (Cons y ys)
    obtain b s1 where b: "att y s = (b, s1)" by fastforce
    obtain bs t1 where bs: "attempts att ys s1 = (bs, t1)" by fastforce
    have "b" using ok [of y s] b Cons.prems(2) by simp
    with Cons.IH [OF _, of s1 bs] Cons.prems b bs show ?case by (auto split: prod.splits)
  qed simp
  from k(3) show ?thesis
  proof
    assume "k = length xs"
    with k(1,2) fit all [of xs s oks s'] show ?thesis by simp
  qed (use k(2) in simp)
qed

end

end
