(* ===== verification/DebServe.thy ===== *)
theory DebServe
  imports SrcIndex DebArchive Budget "HOL-Library.Product_Lexorder"
begin

text \<open>
  \<open>cmd/deb-debuginfod\<close>: a build ID is resolved to a Debian source package through the archive
  header of debuginfod.debian.net, the unpacker (\<open>cmd/deb-unpack\<close>) is asked for the tree, and
  the requested file is found in its index; a second loop keeps the unpacker's volume in budget.
  The network, the unpacker's answers and the local files are the environment; the expiring LRU
  cache is a library the sources call, given by its two operations.
\<close>

section \<open>State\<close>

record 'c lru_ops =
  lru_get :: "string \<Rightarrow> 'c \<Rightarrow> pkgRef option \<times> 'c"
  lru_add :: "string \<Rightarrow> pkgRef \<Rightarrow> 'c \<Rightarrow> 'c"

record 'c srv =
  sr_debian :: string
  sr_indexes :: "string \<Rightarrow> index option"
  sr_lastUsed :: "string \<Rightarrow> time option"
  sr_resolved :: 'c

datatype ask_error = NetError | BadStatus nat | NoArchiveHeader | BadArchive archive_error

datatype prep_error = UnpackNet | UnpackStatus nat | UnpackDecode | UnpackNoPath

text \<open>What the environment answers: Debian's status and headers for a URL, the unpacker's status
  and decoded path for a package, a local file's size, time and bytes, and the trees on disk.\<close>

record denv =
  de_debian :: "string \<Rightarrow> (nat \<times> (string \<Rightarrow> string)) option"
  de_unpacker :: "pkgRef \<Rightarrow> (nat \<times> string option) option"
  de_open :: "string \<Rightarrow> bytes option"
  de_stat_ok :: "string \<Rightarrow> bool"
  de_trees :: tree_env
  de_now :: time

section \<open>Requests\<close>

definition askDebian :: "denv \<Rightarrow> string \<Rightarrow> string \<Rightarrow> ask_error + pkgRef" where
  "askDebian env debian buildID =
     (case de_debian env (debian @ ''/buildid/'' @ buildID @ ''/debuginfo'') of
        None \<Rightarrow> Inl NetError
      | Some (status, header) \<Rightarrow>
          if status \<noteq> 200 then Inl (BadStatus status)
          else
            let archive = header ''x-debuginfod-archive'' in
            if archive = [] then Inl NoArchiveHeader
            else (case parseArchive archive of Inl e \<Rightarrow> Inl (BadArchive e) | Inr p \<Rightarrow> Inr p))"

definition resolve :: "'c lru_ops \<Rightarrow> denv \<Rightarrow> string \<Rightarrow> 'c srv \<Rightarrow> (ask_error + pkgRef) \<times> 'c srv" where
  "resolve ops env buildID s =
     (case lru_get ops buildID (sr_resolved s) of
        (Some pkg, c) \<Rightarrow> (Inr pkg, s\<lparr>sr_resolved := c\<rparr>)
      | (None, c) \<Rightarrow>
          (case askDebian env (sr_debian s) buildID of
             Inl e \<Rightarrow> (Inl e, s\<lparr>sr_resolved := c\<rparr>)
           | Inr pkg \<Rightarrow> (Inr pkg, s\<lparr>sr_resolved := lru_add ops buildID pkg c\<rparr>)))"

definition pkg_key :: "pkgRef \<Rightarrow> string" where
  "pkg_key pkg = pk_component pkg @ ''/'' @ pk_source pkg @ ''_'' @ pk_version pkg"

definition touch :: "time \<Rightarrow> string \<Rightarrow> 'c srv \<Rightarrow> 'c srv" where
  "touch now key s = s\<lparr>sr_lastUsed := (sr_lastUsed s)(key \<mapsto> now)\<rparr>"

definition srv_unpack :: "denv \<Rightarrow> pkgRef \<Rightarrow> prep_error + string" where
  "srv_unpack env pkg = (case de_unpacker env pkg of
     None \<Rightarrow> Inl UnpackNet
   | Some (status, out) \<Rightarrow>
       if status \<noteq> 200 then Inl (UnpackStatus status)
       else (case out of None \<Rightarrow> Inl UnpackDecode
         | Some p \<Rightarrow> if p = [] then Inl UnpackNoPath else Inr p))"

definition indexFor :: "denv \<Rightarrow> pkgRef \<Rightarrow> 'c srv \<Rightarrow> (prep_error + index) \<times> 'c srv" where
  "indexFor env pkg s = (case sr_indexes s (pkg_key pkg) of
     Some ix \<Rightarrow> (Inr ix, s)
   | None \<Rightarrow> (case srv_unpack env pkg of
       Inl e \<Rightarrow> (Inl e, s)
     | Inr root \<Rightarrow>
         (let ix = index_New (de_trees env) [root] in
          (Inr ix, s\<lparr>sr_indexes := (sr_indexes s)(pkg_key pkg \<mapsto> ix)\<rparr>))))"

text \<open>An answer: an error status, or the file \<open>http.ServeContent\<close> is given with the headers.\<close>

datatype src_answer = SrcError nat | SrcFile (sf_headers: "(string \<times> string) list") (sf_path: string) (sf_bytes: bytes)

definition handleSource :: "'c lru_ops \<Rightarrow> denv \<Rightarrow> string \<Rightarrow> string \<Rightarrow> 'c srv \<Rightarrow> src_answer \<times> 'c srv" where
  "handleSource ops env buildID reqPath s =
     (case resolve ops env buildID s of
        (Inl e, s1) \<Rightarrow> (SrcError 404, s1)
      | (Inr pkg, s1) \<Rightarrow>
          (case indexFor env pkg (touch (de_now env) (pkg_key pkg) s1) of
             (Inl e, s2) \<Rightarrow> (SrcError 502, s2)
           | (Inr ix, s2) \<Rightarrow>
               (let p = index_Find ix reqPath in
                if p = [] then (SrcError 404, s2)
                else (case de_open env p of
                    None \<Rightarrow> (SrcError 502, s2)
                  | Some b \<Rightarrow>
                      if \<not> de_stat_ok env p then (SrcError 502, s2)
                      else (SrcFile [(''content-type'', ''text/plain; charset=utf-8''),
                                     (''x-debuginfod-size'', nat_str (length b)),
                                     (''x-debuginfod-file'', p)] p b, s2)))))"

definition notImplemented :: src_answer where
  "notImplemented = SrcError 501"

section \<open>Eviction\<close>

record dtree =
  d_key :: string
  d_path :: string
  d_bytes :: int
  d_files :: int
  d_modified :: time

text \<open>\<open>sort.Slice\<close> orders by last use, a tree never served by its modification time, then by key.\<close>

definition use_order :: "(string \<Rightarrow> time option) \<Rightarrow> dtree \<Rightarrow> time \<times> string" where
  "use_order used t = (case used (d_key t) of Some u \<Rightarrow> u | None \<Rightarrow> d_modified t, d_key t)"

definition drop_tree :: "dtree \<Rightarrow> 'c srv \<Rightarrow> 'c srv" where
  "drop_tree t s = s\<lparr>sr_indexes := (sr_indexes s)(d_key t := None),
                     sr_lastUsed := (sr_lastUsed s)(d_key t := None)\<rparr>"

fun evict_trees :: "(string \<Rightarrow> bool) \<Rightarrow> int \<Rightarrow> int \<Rightarrow> dtree list \<Rightarrow> int \<Rightarrow> 'c srv \<Rightarrow> int \<times> 'c srv" where
  "evict_trees del occupied budget [] freed s = (freed, s)"
| "evict_trees del occupied budget (t # ts) freed s =
     (if occupied - freed \<le> budget then (freed, s)
      else
        let s' = drop_tree t s in
        if \<not> del (d_key t) then evict_trees del occupied budget ts freed s'
        else evict_trees del occupied budget ts (freed + d_bytes t) s')"

text \<open>\<open>evictOnce\<close>: \<open>listed\<close> is what \<open>GET /trees\<close> gave (\<open>None\<close>: it failed), \<open>srt\<close> what
  \<open>sort.Slice\<close> makes of it, \<open>del\<close> whether a \<open>DELETE\<close> succeeds.\<close>

definition deb_evictOnce :: "dtree list option \<Rightarrow> ((dtree \<Rightarrow> time \<times> string) \<Rightarrow> dtree list \<Rightarrow> dtree list)
    \<Rightarrow> (string \<Rightarrow> bool) \<Rightarrow> int \<Rightarrow> 'c srv \<Rightarrow> bool \<times> 'c srv" where
  "deb_evictOnce listed srt del budget s = (case listed of
     None \<Rightarrow> (False, s)
   | Some trees \<Rightarrow>
      (let occupied = sum_list (map d_bytes trees) in
       if occupied \<le> budget then (True, s)
       else (True, snd (evict_trees del occupied budget (srt (use_order (sr_lastUsed s)) trees) 0 s))))"

definition listTrees :: "(nat \<times> dtree list option) option \<Rightarrow> dtree list option" where
  "listTrees resp = (case resp of None \<Rightarrow> None
     | Some (status, out) \<Rightarrow> if status \<noteq> 200 then None else out)"

definition deleteTree :: "nat option \<Rightarrow> bool" where
  "deleteTree resp = (case resp of None \<Rightarrow> False | Some status \<Rightarrow> status = 204 \<or> status = 200)"

definition tree_attempt :: "(string \<Rightarrow> bool) \<Rightarrow> dtree \<Rightarrow> 'c srv \<Rightarrow> bool \<times> 'c srv" where
  "tree_attempt del t s = (del (d_key t), drop_tree t s)"

interpretation deb_ev: budget_evictor "evict_trees del occupied budget" "tree_attempt del" d_bytes occupied budget
  for del occupied budget
  by unfold_locales (auto simp: tree_attempt_def Let_def)

section \<open>Facts\<close>

lemma attempts_drop:
  "attempts (tree_attempt del) ts s = (map (\<lambda>t. del (d_key t)) ts, fold drop_tree ts s)"
  by (induction ts arbitrary: s) (auto simp: tree_attempt_def)

lemma fold_drop_tree:
  "sr_indexes (fold drop_tree ts s) k = (if k \<in> d_key ` set ts then None else sr_indexes s k)"
  "sr_lastUsed (fold drop_tree ts s) k = (if k \<in> d_key ` set ts then None else sr_lastUsed s k)"
  "sr_resolved (fold drop_tree ts s) = sr_resolved s" "sr_debian (fold drop_tree ts s) = sr_debian s"
  by (induction ts arbitrary: s) (auto simp: drop_tree_def)

text \<open>Freed bytes of the first \<open>k\<close> trees in the given order.\<close>

definition deleted_bytes :: "(string \<Rightarrow> bool) \<Rightarrow> dtree list \<Rightarrow> int" where
  "deleted_bytes del ts = sum_list (map d_bytes (filter (\<lambda>t. del (d_key t)) ts))"

lemma freed_deleted: "freed_by d_bytes ts (map (\<lambda>t. del (d_key t)) ts) = deleted_bytes del ts"
  by (induction ts) (auto simp: deleted_bytes_def)

section \<open>Properties\<close>

text \<open>An eviction pass works strictly in order of last use. With the volume over budget
  there is a number \<open>k\<close> such that exactly the \<open>k\<close> least recently used trees lose their index
  and usage record and are asked to be deleted; the pass goes on only while what remains is over
  budget, and ends with the remains in budget or with every tree tried. The result is the same
  whatever unstable order \<open>sort.Slice\<close> picks for equal keys.\<close>

theorem deb_evictOnce_lru:
  assumes "\<And>f ts. is_sorted_perm f ts (srt f ts)" and "budget < sum_list (map d_bytes trees)"
  shows "\<exists>order k. is_sorted_perm (use_order (sr_lastUsed s)) trees order \<and> k \<le> length trees \<and>
    fst (deb_evictOnce (Some trees) srt del budget s) \<and>
    (\<forall>key. sr_indexes (snd (deb_evictOnce (Some trees) srt del budget s)) key =
       (if key \<in> d_key ` set (take k order) then None else sr_indexes s key)) \<and>
    (\<forall>key. sr_lastUsed (snd (deb_evictOnce (Some trees) srt del budget s)) key =
       (if key \<in> d_key ` set (take k order) then None else sr_lastUsed s key)) \<and>
    (k = length trees \<or> sum_list (map d_bytes trees) - deleted_bytes del (take k order) \<le> budget) \<and>
    (\<forall>j < k. budget < sum_list (map d_bytes trees) - deleted_bytes del (take j order))"
proof -
  let ?total = "sum_list (map d_bytes trees)" and ?o = "srt (use_order (sr_lastUsed s)) trees"
  have o: "is_sorted_perm (use_order (sr_lastUsed s)) trees ?o" by (rule assms(1))
  obtain k oks s' where k: "k \<le> length ?o" "attempts (tree_attempt del) (take k ?o) s = (oks, s')"
    "evict_trees del ?total budget ?o 0 s = (0 + freed_by d_bytes (take k ?o) oks, s')"
    "k = length ?o \<or> ?total - (0 + freed_by d_bytes (take k ?o) oks) \<le> budget"
    "\<forall>j < k. budget < ?total - (0 + freed_by d_bytes (take j ?o) (take j oks))"
    using deb_ev.pass_prefix [of ?o del s ?total budget 0] by blast
  have oks: "oks = map (\<lambda>t. del (d_key t)) (take k ?o)" "s' = fold drop_tree (take k ?o) s"
    using k(2) by (simp_all add: attempts_drop)
  have min: "\<forall>j < k. budget < ?total - deleted_bytes del (take j ?o)"
    using k(5) freed_deleted [of "take j ?o" del for j] by (auto simp: oks(1) take_map [symmetric] min_def)
  have res: "deb_evictOnce (Some trees) srt del budget s = (True, s')"
    using k(3) assms(2) by (simp add: deb_evictOnce_def Let_def)
  have len: "length ?o = length trees" by (rule is_sorted_perm_length [OF o])
  have stop: "k = length trees \<or> ?total - deleted_bytes del (take k ?o) \<le> budget"
    using k(4) len by (auto simp: oks(1) freed_deleted)
  show ?thesis
    by (rule exI [of _ ?o], rule exI [of _ k])
      (use o k(1) len res min stop in \<open>simp add: oks(2) fold_drop_tree\<close>)
qed

definition example_srv :: "unit srv" where
  "example_srv = \<lparr>sr_debian = ''d'', sr_indexes = Map.empty, sr_lastUsed = [''main/a_1'' \<mapsto> 90], sr_resolved = ()\<rparr>"

definition example_trees :: "dtree list" where
  "example_trees =
    [\<lparr>d_key = ''main/a_1'', d_path = ''/v/main/a_1'', d_bytes = 60, d_files = 1, d_modified = 1\<rparr>,
     \<lparr>d_key = ''main/b_1'', d_path = ''/v/main/b_1'', d_bytes = 50, d_files = 1, d_modified = 2\<rparr>]"

theorem deb_evictOnce_lru_witness:
  "\<exists>order k. is_sorted_perm (use_order (sr_lastUsed example_srv)) example_trees order \<and> k \<le> 2 \<and>
    fst (deb_evictOnce (Some example_trees) (\<lambda>f. sort_key f) (\<lambda>_. True) 100 example_srv) \<and>
    (k = 2 \<or> 110 - deleted_bytes (\<lambda>_. True) (take k order) \<le> 100) \<and>
    (\<forall>j < k. 100 < 110 - deleted_bytes (\<lambda>_. True) (take j order))"
proof -
  have s: "is_sorted_perm f ts (sort_key f ts)" for f :: "dtree \<Rightarrow> time \<times> string" and ts
    by (rule is_sorted_perm_sort_key)
  have t: "sum_list (map d_bytes example_trees) = 110" "length example_trees = 2"
    by (simp_all add: example_trees_def)
  have "(100 :: int) < 110" by simp
  from deb_evictOnce_lru [of "\<lambda>f. sort_key f" 100 example_trees example_srv "\<lambda>_. True", OF s, unfolded t, OF this]
  show ?thesis by blast
qed

section \<open>What is served\<close>

text \<open>The life of the service: requests, each with the environment it met, and eviction passes.\<close>

datatype srv_event = Request denv string string
  | Evict "dtree list option" "(dtree \<Rightarrow> time \<times> string) \<Rightarrow> dtree list \<Rightarrow> dtree list" "string \<Rightarrow> bool" int

fun srv_exec :: "'c lru_ops \<Rightarrow> srv_event \<Rightarrow> 'c srv \<Rightarrow> 'c srv" where
  "srv_exec ops (Request env b p) s = snd (handleSource ops env b p s)"
| "srv_exec ops (Evict listed srt del budget) s = snd (deb_evictOnce listed srt del budget s)"

definition known_tree :: "denv set \<Rightarrow> tree_env \<Rightarrow> string \<Rightarrow> bool" where
  "known_tree E te root \<longleftrightarrow> (\<exists>env \<in> E. \<exists>pkg. te = de_trees env \<and> srv_unpack env pkg = Inr root)"

definition indexes_known :: "denv set \<Rightarrow> 'c srv \<Rightarrow> bool" where
  "indexes_known E s \<longleftrightarrow> (\<forall>key ix. sr_indexes s key = Some ix \<longrightarrow>
     (\<exists>te root. known_tree E te root \<and> ix = index_New te [root]))"

definition requests_of :: "srv_event list \<Rightarrow> denv set" where
  "requests_of es = {env. \<exists>b p. Request env b p \<in> set es}"

lemma resolve_indexes: "sr_indexes (snd (resolve ops env b s)) = sr_indexes s"
  by (auto simp: resolve_def split: prod.splits option.splits sum.splits)

lemma indexFor_known:
  assumes "indexes_known E s" "env \<in> E"
  shows "indexes_known E (snd (indexFor env pkg s))"
    "fst (indexFor env pkg s) = Inr ix \<Longrightarrow> \<exists>te root. known_tree E te root \<and> ix = index_New te [root]"
proof -
  have new: "srv_unpack env pkg = Inr root \<Longrightarrow> known_tree E (de_trees env) root" for root
    using assms(2) by (auto simp: known_tree_def)
  show "indexes_known E (snd (indexFor env pkg s))"
    using assms(1) new
    by (auto simp: indexes_known_def indexFor_def Let_def split: option.splits sum.splits if_splits) blast
  show "fst (indexFor env pkg s) = Inr ix \<Longrightarrow> \<exists>te root. known_tree E te root \<and> ix = index_New te [root]"
    using assms(1) new
    by (auto simp: indexes_known_def indexFor_def Let_def split: option.splits sum.splits)
qed

lemma prepared_known:
  assumes "indexes_known E s" "env \<in> E" "resolve ops env b s = (Inr pkg, s1)"
  shows "indexes_known E (snd (indexFor env pkg (touch (de_now env) (pkg_key pkg) s1)))"
    "fst (indexFor env pkg (touch (de_now env) (pkg_key pkg) s1)) = Inr ix \<Longrightarrow>
      \<exists>te root. known_tree E te root \<and> ix = index_New te [root]"
proof -
  have "indexes_known E (touch (de_now env) (pkg_key pkg) s1)"
    using assms(1) resolve_indexes [of ops env b s] assms(3) by (simp add: indexes_known_def touch_def)
  from indexFor_known [OF this assms(2)] show
    "indexes_known E (snd (indexFor env pkg (touch (de_now env) (pkg_key pkg) s1)))"
    "fst (indexFor env pkg (touch (de_now env) (pkg_key pkg) s1)) = Inr ix \<Longrightarrow>
      \<exists>te root. known_tree E te root \<and> ix = index_New te [root]" by auto
qed

lemma handleSource_known:
  assumes "indexes_known E s" "env \<in> E"
  shows "indexes_known E (snd (handleSource ops env b p s))"
proof (cases "resolve ops env b s")
  case (Pair r s1)
  show ?thesis
  proof (cases r)
    case (Inl e)
    then show ?thesis
      using assms(1) resolve_indexes [of ops env b s] Pair by (simp add: handleSource_def indexes_known_def)
  next
    case (Inr pkg)
    from prepared_known(1) [OF assms] Pair Inr show ?thesis
      by (fastforce simp: handleSource_def Let_def split: prod.splits sum.splits option.splits)
  qed
qed

lemma evict_trees_indexes:
  "sr_indexes (snd (evict_trees del occ b ts fr t)) k = Some ix \<Longrightarrow> sr_indexes t k = Some ix"
proof (induction ts arbitrary: fr t)
  case (Cons x ts)
  have d: "sr_indexes (drop_tree x t) k = Some ix \<Longrightarrow> sr_indexes t k = Some ix"
    by (simp add: drop_tree_def split: if_splits)
  from d Cons.prems Cons.IH [of fr "drop_tree x t"] Cons.IH [of "fr + d_bytes x" "drop_tree x t"]
  show ?case by (simp add: Let_def split: if_splits)
qed simp

lemma deb_evictOnce_indexes:
  "sr_indexes (snd (deb_evictOnce listed srt del budget s)) k = Some ix \<Longrightarrow> sr_indexes s k = Some ix"
  by (cases listed) (auto simp: deb_evictOnce_def Let_def split: if_splits dest: evict_trees_indexes)

lemma evict_known:
  "indexes_known E s \<Longrightarrow> indexes_known E (snd (deb_evictOnce listed srt del budget s))"
  unfolding indexes_known_def by (meson deb_evictOnce_indexes)

lemma srv_exec_known:
  "indexes_known E s \<Longrightarrow> requests_of es \<subseteq> E \<Longrightarrow> indexes_known E (fold (srv_exec ops) es s)"
proof (induction es arbitrary: s)
  case (Cons e es)
  have "indexes_known E (srv_exec ops e s)"
    using Cons.prems by (cases e) (auto intro!: handleSource_known evict_known simp: requests_of_def)
  moreover have "requests_of es \<subseteq> E" using Cons.prems(2) by (auto simp: requests_of_def)
  ultimately show ?case using Cons.IH by simp
qed simp

text \<open>Nothing outside the unpacked trees is ever served. After any history of requests and
  evictions, when a request for any build ID and any path (however many \<open>..\<close> it has) is answered
  with a file, that file is a regular file which the walk of a root the unpacker named in the
  history reported; the answer's bytes are that file's and the size header is their number.\<close>

theorem handleSource_contained:
  assumes hist: "indexes_known {} s0" and env: "\<forall>e \<in> insert env (requests_of es). walk_ok (de_trees e)"
    and abs: "\<forall>e \<in> insert env (requests_of es). \<forall>pkg root. srv_unpack e pkg = Inr root \<longrightarrow> is_abs root"
    and ans: "fst (handleSource ops env b req (fold (srv_exec ops) es s0)) = SrcFile hs p body"
  shows "\<exists>e \<in> insert env (requests_of es). \<exists>pkg root resolved ev ps. srv_unpack e pkg = Inr root \<and>
      eval_symlinks (de_trees e) root = Some resolved \<and> ev \<in> set (walk_dir (de_trees e) resolved) \<and>
      ev_regular ev \<and> list_all plain ps \<and> clean_comps p = clean_comps root @ ps \<and>
      clean_comps (ev_path ev) = clean_comps resolved @ ps \<and>
      de_open env p = Some body \<and> (''x-debuginfod-size'', nat_str (length body)) \<in> set hs"
proof -
  let ?E = "insert env (requests_of es)"
  let ?s = "fold (srv_exec ops) es s0"
  have "indexes_known ?E s0" using hist by (auto simp: indexes_known_def known_tree_def)
  then have k: "indexes_known ?E ?s" by (rule srv_exec_known) blast
  obtain r s1 where r: "resolve ops env b ?s = (r, s1)" by fastforce
  with ans obtain pkg where pkg: "r = Inr pkg" by (cases r) (auto simp: handleSource_def)
  obtain i s2 where i: "indexFor env pkg (touch (de_now env) (pkg_key pkg) s1) = (i, s2)" by fastforce
  with ans r pkg obtain ix where ix: "i = Inr ix" by (cases i) (auto simp: handleSource_def)
  from ans r pkg i ix have p: "p = index_Find ix req" "p \<noteq> []" "de_open env p = Some body"
    "(''x-debuginfod-size'', nat_str (length body)) \<in> set hs"
    by (auto simp: handleSource_def Let_def split: if_splits option.splits)
  from prepared_known(2) [OF k _ r [unfolded pkg], of ix] i ix obtain te root where
    known: "known_tree ?E te root" and new: "ix = index_New te [root]" by auto
  then obtain e pkg' where e: "e \<in> ?E" "te = de_trees e" "srv_unpack e pkg' = Inr root"
    by (auto simp: known_tree_def)
  have w: "walk_ok te" using env e by blast
  have a: "\<forall>x \<in> set [root]. is_abs x" using abs e by auto
  from Find_contained_aux [OF w a, of req] p(1,2) new obtain resolved ev ps where
    "eval_symlinks te root = Some resolved" "ev \<in> set (walk_dir te resolved)" "ev_regular ev"
    "list_all plain ps" "clean_comps (ev_path ev) = clean_comps resolved @ ps"
    "clean_comps p = clean_comps root @ ps" by auto
  with e p show ?thesis by blast
qed

definition example_denv :: denv where
  "example_denv = \<lparr>de_debian = (\<lambda>_. Some (200, \<lambda>_. ''/m/dbg-main/x/xpkg/xbin_1-1_amd64.deb'')),
     de_unpacker = (\<lambda>_. Some (200, Some ''/src'')), de_open = (\<lambda>_. Some ''int x;''), de_stat_ok = (\<lambda>_. True),
     de_trees = example_env, de_now = 5\<rparr>"

definition no_lru :: "unit lru_ops" where
  "no_lru = \<lparr>lru_get = (\<lambda>_ c. (None, c)), lru_add = (\<lambda>_ _ c. c)\<rparr>"

lemma example_served:
  "fst (handleSource no_lru example_denv ''ab'' ''/b/../elf/x.c'' (fold (srv_exec no_lru)
     [Request example_denv ''ab'' ''/x.c''] example_srv)) =
   SrcFile [(''content-type'', ''text/plain; charset=utf-8''), (''x-debuginfod-size'', ''6''),
     (''x-debuginfod-file'', ''/src/elf/x.c'')] ''/src/elf/x.c'' ''int x;''"
  by code_simp

theorem handleSource_contained_witness:
  "\<exists>e \<in> {example_denv}. \<exists>pkg root resolved ev ps. srv_unpack e pkg = Inr root \<and>
      eval_symlinks (de_trees e) root = Some resolved \<and> ev \<in> set (walk_dir (de_trees e) resolved) \<and>
      ev_regular ev \<and> list_all plain ps \<and> clean_comps ''/src/elf/x.c'' = clean_comps root @ ps \<and>
      clean_comps (ev_path ev) = clean_comps resolved @ ps"
proof -
  have r: "insert example_denv (requests_of [Request example_denv ''ab'' ''/x.c'']) = {example_denv}"
    by (auto simp: requests_of_def)
  have w: "\<forall>e \<in> insert example_denv (requests_of [Request example_denv ''ab'' ''/x.c'']). walk_ok (de_trees e)"
    unfolding r using example_walk_ok by (simp add: example_denv_def)
  have a: "\<forall>e \<in> insert example_denv (requests_of [Request example_denv ''ab'' ''/x.c'']).
      \<forall>pkg root. srv_unpack e pkg = Inr root \<longrightarrow> is_abs root"
    unfolding r by (auto simp: srv_unpack_def example_denv_def)
  have k: "indexes_known {} example_srv" by (simp add: indexes_known_def example_srv_def)
  from handleSource_contained [OF k w a example_served] show ?thesis unfolding r by blast
qed

end
