(* ===== verification/CacheFiles.thy ===== *)
theory CacheFiles
  imports GoFacts Budget
begin

text \<open>
  The file cache of \<open>cmd/proxy/filecache.go\<close> on disk: keys and paths, the check a stored entry
  has to pass (\<open>openCached\<close>), the headers it is served with, publication of a file by rename,
  and eviction. SHA-256 and the JSON codec of the metadata are arguments; what is needed of
  them is that a digest is 32 bytes and that decoding inverts encoding.
\<close>

section \<open>Constants and metadata\<close>

definition proxyHeaders :: "string list" where
  "proxyHeaders = [''x-debuginfod-size'', ''x-debuginfod-archive'', ''x-debuginfod-file'',
     ''x-debuginfod-imasignature'', ''content-type'', ''content-encoding'', ''content-length'']"

definition cacheFetchTimeout :: duration where "cacheFetchTimeout = 30 * minute"
definition cacheEvictPeriod :: duration where "cacheEvictPeriod = 10 * minute"
definition ingestBufSize :: nat where "ingestBufSize = 32 * 1024"
definition cacheChunkSize :: nat where "cacheChunkSize = 256 * 1024"
definition maxConcurrentDownloads :: nat where "maxConcurrentDownloads = 32"

definition cacheableEndpoints :: "string \<Rightarrow> bool" where
  "cacheableEndpoints e \<longleftrightarrow> e = ''debuginfo'' \<or> e = ''executable''"

record cacheMeta =
  cm_status :: int
  cm_headers :: headers
  cm_size :: int
  cm_host :: string

text \<open>\<open>clone\<close> copies the header map entry by entry; on values it is the identity.\<close>

definition clone :: "cacheMeta \<Rightarrow> cacheMeta" where
  "clone m = m\<lparr>cm_headers := (\<lambda>k. cm_headers m k)\<rparr>"

section \<open>Keys and paths\<close>

definition cacheKey :: "string \<Rightarrow> string \<Rightarrow> string \<Rightarrow> string" where
  "cacheKey endpointName buildID extraPath =
     endpointName @ [CHR 0x00] @ buildID @ [CHR 0x00] @ extraPath"

definition hex_digit :: "nat \<Rightarrow> char" where
  "hex_digit n = (if n < 10 then char_of (48 + n) else char_of (87 + n))"

definition hex_encode :: "bytes \<Rightarrow> string" where
  "hex_encode bs = concat (map (\<lambda>b. [hex_digit (of_char b div 16), hex_digit (of_char b mod 16)]) bs)"

definition is_hex :: "char \<Rightarrow> bool" where
  "is_hex c \<longleftrightarrow> \<not> (((of_char c :: nat) < 48 \<or> (of_char c :: nat) > 57) \<and>
     ((of_char c :: nat) < 97 \<or> (of_char c :: nat) > 102))"

definition isBlobName :: "string \<Rightarrow> bool" where
  "isBlobName name \<longleftrightarrow> length name = 64 \<and> list_all is_hex name"

definition blobPath :: "(bytes \<Rightarrow> bytes) \<Rightarrow> string \<Rightarrow> string \<Rightarrow> string" where
  "blobPath sha dir key =
     (let h = hex_encode (sha key) in path_join [dir, take 2 h, take 2 (drop 2 h), h])"

section \<open>Serving a stored entry\<close>

record store =
  st_file :: "string \<Rightarrow> bytes option"
  st_mtime :: "string \<Rightarrow> time"

text \<open>\<open>openCached\<close>: \<open>broken p\<close> says that opening, reading or stat-ing \<open>p\<close> fails for a reason
  other than that it does not exist; \<open>dec\<close> is \<open>json.Unmarshal\<close>.\<close>

definition openCached :: "(bytes \<Rightarrow> cacheMeta option) \<Rightarrow> (string \<Rightarrow> bool) \<Rightarrow> time \<Rightarrow> string \<Rightarrow> store
    \<Rightarrow> (cacheMeta \<times> bytes) option \<times> store" where
  "openCached dec broken now blob st =
     (if broken (blob @ ''.meta'') then (None, st)
      else (case st_file st (blob @ ''.meta'') of
        None \<Rightarrow> (None, st)
      | Some metaBytes \<Rightarrow> (case dec metaBytes of
          None \<Rightarrow> (None, st)
        | Some meta \<Rightarrow>
            if cm_status meta < 100 \<or> cm_status meta > 999 then (None, st)
            else if broken blob then (None, st)
            else (case st_file st blob of
                None \<Rightarrow> (None, st\<lparr>st_file := (st_file st)(blob @ ''.meta'' := None)\<rparr>)
              | Some b \<Rightarrow>
                  if int (length b) \<noteq> cm_size meta then (None, st)
                  else (Some (meta, b), st\<lparr>st_mtime := (st_mtime st)(blob := now)\<rparr>)))))"

definition copy_header :: "cacheMeta \<Rightarrow> string \<Rightarrow> headers \<Rightarrow> headers" where
  "copy_header meta name h =
     (let h1 = h(name := None) in
      case cm_headers meta name of
        Some v \<Rightarrow> if v \<noteq> [] then h1(name \<mapsto> v) else h1
      | None \<Rightarrow> h1)"

definition writeCachedHeaders :: "cacheMeta \<Rightarrow> string \<Rightarrow> string \<Rightarrow> bool \<Rightarrow> headers \<Rightarrow> headers" where
  "writeCachedHeaders meta hostName cacheStatus streaming h =
     (let h1 = fold (copy_header meta) proxyHeaders h;
          h2 = (if streaming then h1(''content-length'' := None)
                else h1(''content-length'' \<mapsto> int_str (cm_size meta)));
          h3 = (if cm_host meta \<noteq> [] then h2(''x-server'' \<mapsto> cm_host meta)
                else h2(''x-server'' \<mapsto> hostName))
      in h3(''x-cache'' \<mapsto> cacheStatus))"

section \<open>Publishing a file\<close>

text \<open>
  \<open>writeFileAtomic\<close>: the files as a crash can find them after each system call, first to last.
  \<open>tmp\<close> is the name \<open>os.CreateTemp\<close> picks (\<open>None\<close>: it fails), \<open>wrote\<close> how many bytes the
  write accepts (\<open>None\<close>: all), the flags whether \<open>Close\<close> and \<open>Rename\<close> succeed.
\<close>

definition writeFileAtomic :: "string option \<Rightarrow> nat option \<Rightarrow> bool \<Rightarrow> bool \<Rightarrow> string \<Rightarrow> bytes
    \<Rightarrow> (string \<Rightarrow> bytes option) \<Rightarrow> bool \<times> (string \<Rightarrow> bytes option) list" where
  "writeFileAtomic tmp wrote close_ok rename_ok path data f = (case tmp of
     None \<Rightarrow> (False, [f])
   | Some t \<Rightarrow>
      (let created = f(t \<mapsto> []);
           written = f(t \<mapsto> (case wrote of None \<Rightarrow> data | Some k \<Rightarrow> take k data));
           removed = f(t := None)
       in if wrote \<noteq> None \<or> \<not> close_ok \<or> \<not> rename_ok then (False, [f, created, written, removed])
          else (True, [f, created, written, (f(t := None))(path \<mapsto> data)])))"

section \<open>Eviction\<close>

text \<open>
  \<open>int64(float64(maxBytes) * 0.9)\<close>, exactly. \<open>round53\<close> rounds an integer to 53 significant
  bits, ties to even; the double nearest to 0.9 is \<open>8106479329266893 / 2 ^ 53\<close>, and the
  product of two doubles is the rounded product of their values.
\<close>

fun bit_length :: "nat \<Rightarrow> nat" where
  "bit_length n = (if n = 0 then 0 else Suc (bit_length (n div 2)))"

declare bit_length.simps [simp del]

definition round53 :: "nat \<Rightarrow> nat" where
  "round53 n =
     (let k = bit_length n - 53; q = n div 2 ^ k; r = n mod 2 ^ k in
      if 2 * r < 2 ^ k \<or> (2 * r = 2 ^ k \<and> even q) then q * 2 ^ k else (q + 1) * 2 ^ k)"

definition evict_target :: "int \<Rightarrow> int" where
  "evict_target maxBytes = int (round53 (round53 (nat maxBytes) * 8106479329266893) div 2 ^ 53)"

datatype walk_err = WNotExist | WOther

text \<open>One callback of \<open>filepath.Walk\<close>.\<close>

record cwalk =
  cw_path :: string
  cw_err :: "walk_err option"
  cw_dir :: bool
  cw_size :: int
  cw_mtime :: time

record cfile =
  cf_path :: string
  cf_size :: int
  cf_mtime :: time

text \<open>\<open>sc_log\<close>: the calls of \<open>os.Remove\<close>, in order, with their success.\<close>

record scan =
  sc_files :: "cfile list"
  sc_total :: int
  sc_skipped :: nat
  sc_tmp_removed :: nat
  sc_tmp_freed :: int
  sc_log :: "(string \<times> bool) list"

definition scan_file :: "(string \<Rightarrow> bool) \<Rightarrow> time \<Rightarrow> cwalk \<Rightarrow> scan \<Rightarrow> scan" where
  "scan_file rm now e s =
     (if cw_dir e then s
      else if str_contains (path_base (cw_path e)) ''.tmp-'' then
        (if now - cw_mtime e > cacheFetchTimeout then
           (if rm (cw_path e)
            then s\<lparr>sc_tmp_removed := sc_tmp_removed s + 1, sc_tmp_freed := sc_tmp_freed s + cw_size e,
                   sc_log := sc_log s @ [(cw_path e, True)]\<rparr>
            else s\<lparr>sc_log := sc_log s @ [(cw_path e, False)]\<rparr>)
         else s\<lparr>sc_total := sc_total s + cw_size e\<rparr>)
      else if has_suffix (cw_path e) ''.meta'' then s\<lparr>sc_total := sc_total s + cw_size e\<rparr>
      else if \<not> isBlobName (path_base (cw_path e)) then s
      else s\<lparr>sc_files := sc_files s @ [\<lparr>cf_path = cw_path e, cf_size = cw_size e, cf_mtime = cw_mtime e\<rparr>],
             sc_total := sc_total s + cw_size e\<rparr>)"

text \<open>\<open>False\<close>: the cache directory itself cannot be read, and the walk stops with the error.\<close>

fun scan_walk :: "(string \<Rightarrow> bool) \<Rightarrow> time \<Rightarrow> string \<Rightarrow> cwalk list \<Rightarrow> scan \<Rightarrow> bool \<times> scan" where
  "scan_walk rm now dir [] s = (True, s)"
| "scan_walk rm now dir (e # es) s =
     (case cw_err e of
        Some err \<Rightarrow>
          if cw_path e = dir then (False, s)
          else if err = WNotExist then scan_walk rm now dir es s
          else scan_walk rm now dir es (s\<lparr>sc_skipped := sc_skipped s + 1\<rparr>)
      | None \<Rightarrow> scan_walk rm now dir es (scan_file rm now e s))"

definition remove_pair :: "(string \<Rightarrow> bool) \<Rightarrow> cfile \<Rightarrow> (string \<times> bool) list \<Rightarrow> bool \<times> (string \<times> bool) list" where
  "remove_pair rm f log =
     (if \<not> rm (cf_path f) then (False, log @ [(cf_path f, False)])
      else (True, log @ [(cf_path f, True), (cf_path f @ ''.meta'', rm (cf_path f @ ''.meta''))]))"

fun evict_files :: "(string \<Rightarrow> bool) \<Rightarrow> int \<Rightarrow> int \<Rightarrow> cfile list \<Rightarrow> int \<Rightarrow> (string \<times> bool) list
    \<Rightarrow> int \<times> (string \<times> bool) list" where
  "evict_files rm occupied target [] freed log = (freed, log)"
| "evict_files rm occupied target (f # fs) freed log =
     (if occupied - freed \<le> target then (freed, log)
      else (case remove_pair rm f log of
          (False, log') \<Rightarrow> evict_files rm occupied target fs freed log'
        | (True, log') \<Rightarrow> evict_files rm occupied target fs (freed + cf_size f) log'))"

definition empty_scan :: scan where
  "empty_scan = \<lparr>sc_files = [], sc_total = 0, sc_skipped = 0, sc_tmp_removed = 0, sc_tmp_freed = 0, sc_log = []\<rparr>"

text \<open>\<open>evictOnce\<close>: whether it returned no error, and the calls of \<open>os.Remove\<close> it made.\<close>

definition cache_evictOnce :: "(string \<Rightarrow> bool) \<Rightarrow> ((cfile \<Rightarrow> time) \<Rightarrow> cfile list \<Rightarrow> cfile list) \<Rightarrow> time
    \<Rightarrow> string \<Rightarrow> int \<Rightarrow> cwalk list \<Rightarrow> bool \<times> (string \<times> bool) list" where
  "cache_evictOnce rm srt now dir maxBytes walk =
     (if maxBytes \<le> 0 then (True, [])
      else (case scan_walk rm now dir walk empty_scan of
          (False, s) \<Rightarrow> (False, sc_log s)
        | (True, s) \<Rightarrow>
            if sc_total s \<le> maxBytes then (True, sc_log s)
            else (True, snd (evict_files rm (sc_total s) (evict_target maxBytes)
                    (srt cf_mtime (sc_files s)) 0 (sc_log s)))))"

interpretation cache_ev: budget_evictor "evict_files rm occupied target" "remove_pair rm" cf_size occupied target
  for rm occupied target
  by unfold_locales (auto split: prod.splits bool.splits)

section \<open>Facts\<close>

lemma hex_digit_is_hex: "n < 16 \<Longrightarrow> is_hex (hex_digit n)"
  by (auto simp: is_hex_def hex_digit_def)

lemma hex_encode_Cons: "hex_encode (b # bs) =
    hex_digit (of_char b div 16) # hex_digit (of_char b mod 16) # hex_encode bs"
  by (simp add: hex_encode_def)

lemma hex_encode_ok: "length (hex_encode bs) = 2 * length bs" "list_all is_hex (hex_encode bs)"
proof -
  have "of_char b div 16 < (16 :: nat)" for b :: char
    using nat_of_char_less_256 [of b] by (simp add: less_mult_imp_div_less)
  then show "length (hex_encode bs) = 2 * length bs" "list_all is_hex (hex_encode bs)"
    by (induction bs) (simp_all add: hex_encode_Cons hex_digit_is_hex, simp_all add: hex_encode_def)
qed

lemma is_hex_plain: "list_all is_hex s \<Longrightarrow> s \<noteq> [] \<Longrightarrow> plain s"
proof -
  have h: "\<not> is_hex slash" "\<not> is_hex (CHR ''.'')" by (simp_all add: is_hex_def)
  assume "list_all is_hex s" "s \<noteq> []"
  with h show "plain s" by (cases s) (auto simp: plain_def list_all_iff)
qed

lemma copy_header_get:
  "copy_header meta name h k =
    (if k = name then (case cm_headers meta name of Some v \<Rightarrow> if v \<noteq> [] then Some v else None | None \<Rightarrow> None)
     else h k)"
  by (simp add: copy_header_def Let_def split: option.splits)

lemma copy_headers_get:
  "fold (copy_header meta) names h k =
    (if k \<in> set names then (case cm_headers meta k of Some v \<Rightarrow> if v \<noteq> [] then Some v else None | None \<Rightarrow> None)
     else h k)"
  by (induction names arbitrary: h) (auto simp: copy_header_get)

subsection \<open>The eviction target\<close>

lemma bit_length_0: "bit_length 0 = 0"
  by (simp add: bit_length.simps)

lemma bit_length_bounds: "n < 2 ^ bit_length n" "0 < n \<Longrightarrow> 2 ^ (bit_length n - 1) \<le> n"
proof -
  have "n < 2 ^ bit_length n \<and> (0 < n \<longrightarrow> 0 < bit_length n \<and> 2 ^ (bit_length n - 1) \<le> n)"
  proof (induction n rule: less_induct)
    case (less n)
    show ?case
    proof (cases "n = 0")
      case True
      then show ?thesis by (simp add: bit_length.simps)
    next
      case False
      then have l: "bit_length n = Suc (bit_length (n div 2))" by (simp add: bit_length.simps)
      have ih: "n div 2 < 2 ^ bit_length (n div 2)" using less.IH [of "n div 2"] False by simp
      have up: "n < 2 * 2 ^ bit_length (n div 2)" using ih by linarith
      have low: "2 ^ bit_length (n div 2) \<le> n"
      proof (cases "n div 2 = 0")
        case True
        then show ?thesis using False by (simp add: bit_length.simps)
      next
        case nz: False
        then have "0 < bit_length (n div 2) \<and> 2 ^ (bit_length (n div 2) - 1) \<le> n div 2"
          using less.IH [of "n div 2"] False by simp
        then have "2 * 2 ^ (bit_length (n div 2) - 1) \<le> n" "0 < bit_length (n div 2)" by linarith+
        then show ?thesis by (metis Suc_pred' power_Suc)
      qed
      show ?thesis using up low by (simp add: l)
    qed
  qed
  then show "n < 2 ^ bit_length n" "0 < n \<Longrightarrow> 2 ^ (bit_length n - 1) \<le> n" by auto
qed

lemma round53_error: "2 ^ 53 * round53 n \<le> (2 ^ 53 + 1) * n" "(2 ^ 53 - 1) * n \<le> 2 ^ 53 * round53 n"
proof -
  define k where "k = bit_length n - 53"
  define q where "q = n div 2 ^ k"
  define r where "r = n mod 2 ^ k"
  have n: "n = q * 2 ^ k + r" unfolding q_def r_def by (rule div_mult_mod_eq [symmetric])
  have r: "r < 2 ^ k" by (simp add: r_def)
  have small: "k = 0 \<or> 2 ^ 52 * 2 ^ k \<le> n"
  proof (cases "k = 0")
    case False
    then have "bit_length n - 1 = 52 + k" by (simp add: k_def)
    moreover have "n \<noteq> 0" using False bit_length_0 by (cases "n = 0") (simp_all add: k_def)
    ultimately show ?thesis using bit_length_bounds(2) [of n] by (simp add: power_add)
  qed simp
  have rd: "round53 n = (if 2 * r < 2 ^ k \<or> (2 * r = 2 ^ k \<and> even q) then q * 2 ^ k else (q + 1) * 2 ^ k)"
    by (simp add: round53_def Let_def k_def [symmetric] q_def r_def)
  have "2 * round53 n \<le> 2 * n + 2 ^ k \<and> 2 * n \<le> 2 * round53 n + 2 ^ k"
    using r unfolding rd by (auto simp: n algebra_simps)
  moreover have "k = 0 \<Longrightarrow> round53 n = n" using r n unfolding rd by auto
  ultimately show "2 ^ 53 * round53 n \<le> (2 ^ 53 + 1) * n" "(2 ^ 53 - 1) * n \<le> 2 ^ 53 * round53 n"
    using small by (auto simp: algebra_simps)
qed

section \<open>Properties\<close>

text \<open>Two requests share a cache entry only when they ask for the same artifact. For
  endpoint names without NUL (the router's are literals), \<open>cacheKey\<close> is injective in the
  endpoint and the build ID, whatever bytes a client puts into it, and in the extra path too
  when the build IDs have no NUL.\<close>

theorem cacheKey_injective:
  assumes "CHR 0x00 \<notin> set e" "CHR 0x00 \<notin> set e'" and "cacheKey e b x = cacheKey e' b' x'"
  shows "e = e' \<and> (x = [] \<and> x' = [] \<longrightarrow> b = b') \<and>
    (CHR 0x00 \<notin> set b \<and> CHR 0x00 \<notin> set b' \<longrightarrow> b = b' \<and> x = x')"
proof -
  have split: "a @ CHR 0x00 # c = a' @ CHR 0x00 # c' \<Longrightarrow> CHR 0x00 \<notin> set a \<Longrightarrow> CHR 0x00 \<notin> set a' \<Longrightarrow>
      a = a' \<and> c = c'" for a a' c c' :: string
    by (induction a arbitrary: a') (auto simp: Cons_eq_append_conv append_eq_Cons_conv)
  have 1: "e = e' \<and> b @ CHR 0x00 # x = b' @ CHR 0x00 # x'"
    using assms split [of e "b @ CHR 0x00 # x" e' "b' @ CHR 0x00 # x'"] by (simp add: cacheKey_def)
  with split [of b x b' x'] show ?thesis by auto
qed

theorem cacheKey_injective_witness:
  "cacheKey ''debuginfo'' [CHR 0x00, CHR ''a''] [] = cacheKey ''debuginfo'' [CHR 0x00, CHR ''a''] [] \<and>
   ([CHR 0x00, CHR ''a''] :: string) = [CHR 0x00, CHR ''a'']"
  using cacheKey_injective [of "''debuginfo''" "''debuginfo''" "[CHR 0x00, CHR ''a'']" "[]" "[CHR 0x00, CHR ''a'']" "[]"]
  by simp

lemma blobPath_shape:
  assumes "is_abs dir" "\<And>k. length (sha k) = 32"
  shows "\<exists>h. blobPath sha dir key = path_join [dir, take 2 h, take 2 (drop 2 h), h] \<and> isBlobName h \<and>
    clean_comps (blobPath sha dir key) = clean_comps dir @ [take 2 h, take 2 (drop 2 h), h]"
proof -
  define h where "h = hex_encode (sha key)"
  have l: "length h = 64" and hx: "list_all is_hex h"
    using hex_encode_ok [of "sha key"] assms(2) by (simp_all add: h_def)
  have "list_all is_hex (take 2 h)" "list_all is_hex (take 2 (drop 2 h))"
    using hx by (auto simp: list_all_iff dest: in_set_takeD in_set_dropD)
  moreover have "take 2 h \<noteq> []" "take 2 (drop 2 h) \<noteq> []" "h \<noteq> []" using l by auto
  ultimately have pl: "list_all plain [take 2 h, take 2 (drop 2 h), h]"
    using hx by (simp add: is_hex_plain)
  have "clean_comps (path_join (dir # [take 2 h, take 2 (drop 2 h), h])) = clean_comps dir @ [take 2 h, take 2 (drop 2 h), h]"
    by (rule path_join_comps(1) [OF assms(1) pl]) simp
  moreover have "blobPath sha dir key = path_join [dir, take 2 h, take 2 (drop 2 h), h]"
    by (simp add: blobPath_def h_def Let_def)
  ultimately show ?thesis using l hx by (auto simp: isBlobName_def)
qed

text \<open>A key never leads outside the cache directory: for every key, with separators,
  \<open>..\<close> or nothing in it, \<open>blobPath\<close> is the directory followed by two shards and a file
  name that eviction recognises as its own.\<close>

theorem blobPath_inside:
  assumes "is_abs dir" "\<And>k. length (sha k) = 32"
  shows "\<exists>h. blobPath sha dir key = path_join [dir, take 2 h, take 2 (drop 2 h), h] \<and> isBlobName h \<and>
    clean_comps (blobPath sha dir key) = clean_comps dir @ [take 2 h, take 2 (drop 2 h), h]"
  using blobPath_shape [OF assms] .

theorem blobPath_inside_witness:
  "\<exists>h. blobPath (\<lambda>_. replicate 32 (CHR ''x'')) ''/c'' ''../../etc'' = path_join [''/c'', take 2 h, take 2 (drop 2 h), h] \<and>
    isBlobName h \<and> clean_comps (blobPath (\<lambda>_. replicate 32 (CHR ''x'')) ''/c'' ''../../etc'') =
      clean_comps ''/c'' @ [take 2 h, take 2 (drop 2 h), h]"
  by (rule blobPath_inside) simp_all

lemma openCached_cases:
  "(fst (openCached dec broken now blob st) = Some (meta, b) \<longleftrightarrow>
      \<not> broken (blob @ ''.meta'') \<and> \<not> broken blob \<and>
      (\<exists>mb. st_file st (blob @ ''.meta'') = Some mb \<and> dec mb = Some meta) \<and>
      100 \<le> cm_status meta \<and> cm_status meta \<le> 999 \<and>
      st_file st blob = Some b \<and> int (length b) = cm_size meta) \<and>
   (st_file (snd (openCached dec broken now blob st)) = st_file st \<or>
     (st_file st blob = None \<and>
      st_file (snd (openCached dec broken now blob st)) = (st_file st)(blob @ ''.meta'' := None)))"
  by (auto simp: openCached_def split: option.splits)

text \<open>\<open>openCached\<close> serves an entry exactly when its metadata can be read and decoded, has a
  status \<open>WriteHeader\<close> accepts, and the blob's length is the recorded size; it then serves the
  blob's bytes. The only file it ever removes is the metadata of a blob that does not exist.\<close>

theorem openCached_sound:
  "(fst (openCached dec broken now blob st) = Some (meta, b) \<longleftrightarrow>
      \<not> broken (blob @ ''.meta'') \<and> \<not> broken blob \<and>
      (\<exists>mb. st_file st (blob @ ''.meta'') = Some mb \<and> dec mb = Some meta) \<and>
      100 \<le> cm_status meta \<and> cm_status meta \<le> 999 \<and>
      st_file st blob = Some b \<and> int (length b) = cm_size meta) \<and>
   (st_file (snd (openCached dec broken now blob st)) = st_file st \<or>
     (st_file st blob = None \<and>
      st_file (snd (openCached dec broken now blob st)) = (st_file st)(blob @ ''.meta'' := None)))"
  by (rule openCached_cases)

text \<open>A response from the cache looks the same whether it is streamed while the download
  runs or read from disk later: apart from \<open>content-length\<close> and \<open>x-cache\<close> the two have the
  same headers when the entry records its host, and \<open>content-length\<close> is the exact size from
  disk and absent while streaming.\<close>

theorem writeCachedHeaders_hit_miss:
  assumes "cm_host meta \<noteq> []"
  shows "(\<forall>k. k \<noteq> ''content-length'' \<and> k \<noteq> ''x-cache'' \<longrightarrow>
      writeCachedHeaders meta host1 ''HIT'' False h k = writeCachedHeaders meta host2 c2 True h k) \<and>
    writeCachedHeaders meta host1 ''HIT'' False h ''content-length'' = Some (int_str (cm_size meta)) \<and>
    writeCachedHeaders meta host2 c2 True h ''content-length'' = None \<and>
    writeCachedHeaders meta host1 ''HIT'' False h ''x-server'' = Some (cm_host meta)"
  using assms by (auto simp: writeCachedHeaders_def Let_def copy_headers_get)

theorem writeCachedHeaders_hit_miss_witness:
  "writeCachedHeaders \<lparr>cm_status = 200, cm_headers = [''content-type'' \<mapsto> ''x''], cm_size = 5, cm_host = ''h''\<rparr>
     ''a'' ''HIT'' False Map.empty ''x-server'' = Some ''h''"
  using writeCachedHeaders_hit_miss [of "\<lparr>cm_status = 200, cm_headers = [''content-type'' \<mapsto> ''x''], cm_size = 5, cm_host = ''h''\<rparr>"
      "''a''" Map.empty "''b''" "''MISS''"]
  by simp

text \<open>Publication is atomic: at every point where \<open>writeFileAtomic\<close> can be killed, and
  whichever of its calls fail, the published name holds its old content or the whole new
  content, no other file is touched, and success means the new content.\<close>

theorem writeFileAtomic_atomic:
  assumes "\<And>t. tmp = Some t \<Longrightarrow> t \<noteq> path \<and> f t = None"
  shows "(\<forall>g \<in> set (snd (writeFileAtomic tmp wrote close_ok rename_ok path data f)).
      (g path = f path \<or> g path = Some data) \<and> (\<forall>q. q \<noteq> path \<and> Some q \<noteq> tmp \<longrightarrow> g q = f q)) \<and>
    last (snd (writeFileAtomic tmp wrote close_ok rename_ok path data f)) =
      (if fst (writeFileAtomic tmp wrote close_ok rename_ok path data f) then f(path \<mapsto> data) else f)"
proof (cases tmp)
  case None
  then show ?thesis by (simp add: writeFileAtomic_def)
next
  case (Some t)
  with assms have "t \<noteq> path" "f(t := None) = f" by auto
  with Some show ?thesis by (auto simp: writeFileAtomic_def Let_def)
qed

theorem writeFileAtomic_atomic_witness:
  "list_all (\<lambda>g. g ''m'' = Some ''old'' \<or> g ''m'' = Some ''new'')
     (snd (writeFileAtomic (Some ''m.tmp-1'') (Some 2) True True ''m'' ''new'' [''m'' \<mapsto> ''old'']))"
  using writeFileAtomic_atomic [of "Some ''m.tmp-1''" "''m''" "[''m'' \<mapsto> ''old'']" "Some 2" True True "''new''"]
  by (simp add: list_all_iff)

lemma evict_target_range:
  assumes "0 < maxBytes"
  shows "89 * maxBytes - 100 \<le> 100 * evict_target maxBytes \<and> 100 * evict_target maxBytes \<le> 91 * maxBytes \<and>
    0 \<le> evict_target maxBytes \<and> evict_target maxBytes < maxBytes"
proof -
  define m where "m = nat maxBytes"
  define a where "a = round53 m"
  define p where "p = round53 (a * 8106479329266893)"
  define t where "t = p div 2 ^ 53"
  have a: "2 ^ 53 * a \<le> (2 ^ 53 + 1) * m" "(2 ^ 53 - 1) * m \<le> 2 ^ 53 * a"
    unfolding a_def by (rule round53_error)+
  have p: "2 ^ 53 * p \<le> (2 ^ 53 + 1) * (a * 8106479329266893)"
    "(2 ^ 53 - 1) * (a * 8106479329266893) \<le> 2 ^ 53 * p"
    unfolding p_def by (rule round53_error)+
  have t: "2 ^ 53 * t \<le> p" "p < 2 ^ 53 * t + 2 ^ 53"
    by (auto simp: t_def minus_mod_eq_mult_div [symmetric] algebra_simps)
  have up: "100 * t \<le> 91 * m" using a p t by simp
  have low: "89 * m \<le> 100 * t + 100" using a p t by simp
  have m: "int m = maxBytes" "0 < m" using assms by (simp_all add: m_def)
  have e: "evict_target maxBytes = int t"
    by (simp add: evict_target_def m_def a_def p_def t_def)
  from up m(2) have "t < m" by simp
  with up low m e show ?thesis by linarith
qed

text \<open>Eviction aims below the limit. For every configured limit the target computed in
  floating point lies between 89 and 91 percent of it (less one byte for the truncation), so it is
  below every positive limit.\<close>

theorem evict_target_bounds:
  assumes "0 < maxBytes"
  shows "89 * maxBytes - 100 \<le> 100 * evict_target maxBytes \<and> 100 * evict_target maxBytes \<le> 91 * maxBytes \<and>
    0 \<le> evict_target maxBytes \<and> evict_target maxBytes < maxBytes"
  using evict_target_range [OF assms] .

theorem evict_target_bounds_witness:
  "evict_target 21474836480 < 21474836480 \<and> 89 * 21474836480 - 100 \<le> 100 * evict_target 21474836480"
  using evict_target_bounds [of 21474836480] by simp

section \<open>What eviction removes\<close>

text \<open>A file the cache may remove: one of its blobs, the metadata of a blob it removed, or an
  abandoned temporary file.\<close>

definition own_file :: "time \<Rightarrow> cwalk list \<Rightarrow> (string \<times> bool) list \<Rightarrow> string \<Rightarrow> bool" where
  "own_file now walk log p \<longleftrightarrow>
     (\<exists>e \<in> set walk. cw_path e = p \<and> \<not> cw_dir e \<and>
        (isBlobName (path_base p) \<or> str_contains (path_base p) ''.tmp-'' \<and> now - cw_mtime e > cacheFetchTimeout)) \<or>
     (\<exists>q. p = q @ ''.meta'' \<and> isBlobName (path_base q) \<and> (q, True) \<in> set log)"

lemma scan_file_inv:
  "(\<forall>f \<in> set (sc_files s). \<exists>e \<in> set W. cw_path e = cf_path f \<and> \<not> cw_dir e \<and> isBlobName (path_base (cf_path f))) \<and>
   (\<forall>(p, ok) \<in> set (sc_log s). \<exists>e \<in> set W. cw_path e = p \<and> \<not> cw_dir e \<and>
      str_contains (path_base p) ''.tmp-'' \<and> now - cw_mtime e > cacheFetchTimeout) \<Longrightarrow> e \<in> set W \<Longrightarrow>
   (\<forall>f \<in> set (sc_files (scan_file rm now e s)). \<exists>e \<in> set W. cw_path e = cf_path f \<and> \<not> cw_dir e \<and> isBlobName (path_base (cf_path f))) \<and>
   (\<forall>(p, ok) \<in> set (sc_log (scan_file rm now e s)). \<exists>e \<in> set W. cw_path e = p \<and> \<not> cw_dir e \<and>
      str_contains (path_base p) ''.tmp-'' \<and> now - cw_mtime e > cacheFetchTimeout)"
  by (auto simp: scan_file_def)

definition scan_inv :: "time \<Rightarrow> cwalk list \<Rightarrow> scan \<Rightarrow> bool" where
  "scan_inv now W s \<longleftrightarrow>
   (\<forall>f \<in> set (sc_files s). \<exists>e \<in> set W. cw_path e = cf_path f \<and> \<not> cw_dir e \<and> isBlobName (path_base (cf_path f))) \<and>
   (\<forall>(p, ok) \<in> set (sc_log s). \<exists>e \<in> set W. cw_path e = p \<and> \<not> cw_dir e \<and>
      str_contains (path_base p) ''.tmp-'' \<and> now - cw_mtime e > cacheFetchTimeout)"

lemma scan_walk_inv:
  "scan_inv now W s \<Longrightarrow> set es \<subseteq> set W \<Longrightarrow> scan_inv now W (snd (scan_walk rm now dir es s))"
proof (induction es arbitrary: s)
  case (Cons e es)
  have sk: "scan_inv now W (s\<lparr>sc_skipped := sc_skipped s + 1\<rparr>)" using Cons.prems(1) by (simp add: scan_inv_def)
  have sf: "scan_inv now W (scan_file rm now e s)"
    using scan_file_inv [of s W now e rm] Cons.prems unfolding scan_inv_def by simp
  from Cons.IH [OF sk] Cons.IH [OF sf] Cons.IH [OF Cons.prems(1)] Cons.prems show ?case
    by (simp split: option.split)
qed simp

lemma attempts_remove:
  "attempts (remove_pair rm) fs log =
    (map (\<lambda>f. rm (cf_path f)) fs,
     log @ concat (map (\<lambda>f. if rm (cf_path f)
       then [(cf_path f, True), (cf_path f @ ''.meta'', rm (cf_path f @ ''.meta''))] else [(cf_path f, False)]) fs))"
  by (induction fs arbitrary: log) (auto simp: remove_pair_def)

text \<open>C5. Eviction never touches what it did not create. Whatever else lies in the directory
  the operator gave, every path \<open>os.Remove\<close> is called on is a file the walk reported under a
  blob's name, the metadata beside a blob just removed, or a temporary file older than any
  download can be.\<close>

theorem evictOnce_own_files:
  assumes srt: "\<And>g fs. is_sorted_perm g fs (srt g fs)"
    and p: "(p, ok) \<in> set (snd (cache_evictOnce rm srt now dir maxBytes walk))"
  shows "own_file now walk (snd (cache_evictOnce rm srt now dir maxBytes walk)) p"
proof -
  obtain b s where s: "scan_walk rm now dir walk empty_scan = (b, s)" by fastforce
  have "scan_inv now walk empty_scan" by (simp add: scan_inv_def empty_scan_def)
  from scan_walk_inv [OF this subset_refl, of rm dir] s have inv: "scan_inv now walk s" by simp
  have tmp: "(q, c) \<in> set (sc_log s) \<Longrightarrow> own_file now walk log q" for q c log
    using inv by (fastforce simp: scan_inv_def own_file_def)
  show ?thesis
  proof (cases "maxBytes \<le> 0 \<or> \<not> b \<or> sc_total s \<le> maxBytes")
    case True
    with p s tmp show ?thesis by (cases b) (auto simp: cache_evictOnce_def split: if_splits)
  next
    case False
    let ?fs = "srt cf_mtime (sc_files s)" and ?t = "evict_target maxBytes"
    have l: "snd (cache_evictOnce rm srt now dir maxBytes walk) = snd (evict_files rm (sc_total s) ?t ?fs 0 (sc_log s))"
      using False s by (simp add: cache_evictOnce_def)
    obtain k oks log where k: "attempts (remove_pair rm) (take k ?fs) (sc_log s) = (oks, log)"
      "evict_files rm (sc_total s) ?t ?fs 0 (sc_log s) = (0 + freed_by cf_size (take k ?fs) oks, log)"
      using cache_ev.pass_prefix [of ?fs rm "sc_log s" "sc_total s" ?t 0] by blast
    have blob: "f \<in> set (take k ?fs) \<Longrightarrow> \<exists>e \<in> set walk. cw_path e = cf_path f \<and> \<not> cw_dir e \<and> isBlobName (path_base (cf_path f))" for f
      using is_sorted_perm_set [OF srt, of cf_mtime "sc_files s"] inv
      by (auto simp: scan_inv_def dest: in_set_takeD)
    have log: "log = sc_log s @ concat (map (\<lambda>f. if rm (cf_path f)
       then [(cf_path f, True), (cf_path f @ ''.meta'', rm (cf_path f @ ''.meta''))] else [(cf_path f, False)]) (take k ?fs))"
      using k(1) by (simp add: attempts_remove)
    from p l k(2) have "(p, ok) \<in> set log" by simp
    then consider "(p, ok) \<in> set (sc_log s)"
      | f where "f \<in> set (take k ?fs)" "p = cf_path f"
      | f where "f \<in> set (take k ?fs)" "p = cf_path f @ ''.meta''" "(cf_path f, True) \<in> set log"
      unfolding log by (auto split: if_splits)
    then show ?thesis
    proof cases
      case 1
      then show ?thesis by (rule tmp)
    next
      case 2
      with blob [of f] show ?thesis by (auto simp: own_file_def)
    next
      case 3
      with blob [of f] show ?thesis unfolding l k(2) by (auto simp: own_file_def)
    qed
  qed
qed

definition example_walk :: "cwalk list" where
  "example_walk =
    [\<lparr>cw_path = ''/c'', cw_err = None, cw_dir = True, cw_size = 0, cw_mtime = 0\<rparr>,
     \<lparr>cw_path = ''/c/notes.txt'', cw_err = None, cw_dir = False, cw_size = 900, cw_mtime = 0\<rparr>,
     \<lparr>cw_path = ''/c/'' @ replicate 64 (CHR ''a''), cw_err = None, cw_dir = False, cw_size = 80, cw_mtime = 5\<rparr>,
     \<lparr>cw_path = ''/c/'' @ replicate 64 (CHR ''b''), cw_err = None, cw_dir = False, cw_size = 70, cw_mtime = 3\<rparr>]"

definition example_scan :: scan where
  "example_scan = \<lparr>sc_files = [\<lparr>cf_path = ''/c/'' @ replicate 64 (CHR ''a''), cf_size = 80, cf_mtime = 5\<rparr>,
       \<lparr>cf_path = ''/c/'' @ replicate 64 (CHR ''b''), cf_size = 70, cf_mtime = 3\<rparr>],
     sc_total = 150, sc_skipped = 0, sc_tmp_removed = 0, sc_tmp_freed = 0, sc_log = []\<rparr>"

lemma example_scanned: "scan_walk (\<lambda>_. True) 10 ''/c'' example_walk empty_scan = (True, example_scan)"
  by code_simp

lemma example_evicted:
  "snd (cache_evictOnce (\<lambda>_. True) sort_key 10 ''/c'' 100 example_walk) =
    [(''/c/'' @ replicate 64 (CHR ''b''), True), ((''/c/'' @ replicate 64 (CHR ''b'')) @ ''.meta'', True)]"
proof -
  have t: "evict_target 100 < 150" "80 \<le> evict_target 100"
    using evict_target_range [of 100] by auto
  show ?thesis
    unfolding cache_evictOnce_def example_scanned
    using t by (simp add: example_scan_def remove_pair_def)
qed

theorem evictOnce_own_files_witness:
  "own_file 10 example_walk
    [(''/c/'' @ replicate 64 (CHR ''b''), True), ((''/c/'' @ replicate 64 (CHR ''b'')) @ ''.meta'', True)]
    (''/c/'' @ replicate 64 (CHR ''b''))"
  using evictOnce_own_files [of sort_key "''/c/'' @ replicate 64 (CHR ''b'')" True "\<lambda>_. True" 10 "''/c''" 100 example_walk,
      OF is_sorted_perm_sort_key]
  unfolding example_evicted by simp

text \<open>C31. An eviction pass of the file cache removes a prefix of the blobs in order of last
  use, goes on only while the occupied bytes exceed the target, and ends at or below the target
  (hence below the limit) or with every blob tried.\<close>

theorem evictOnce_lru:
  assumes srt: "\<And>g fs. is_sorted_perm g fs (srt g fs)" and max: "0 < maxBytes"
    and scan: "scan_walk rm now dir walk empty_scan = (True, s)" and over: "maxBytes < sc_total s"
  shows "\<exists>order k. is_sorted_perm cf_mtime (sc_files s) order \<and> k \<le> length order \<and>
    (let freed = (\<lambda>j. sum_list (map cf_size (filter (\<lambda>f. rm (cf_path f)) (take j order)))) in
      snd (cache_evictOnce rm srt now dir maxBytes walk) =
        snd (attempts (remove_pair rm) (take k order) (sc_log s)) \<and>
      (k = length order \<or> sc_total s - freed k \<le> evict_target maxBytes) \<and>
      (\<forall>j < k. evict_target maxBytes < sc_total s - freed j))"
proof -
  let ?o = "srt cf_mtime (sc_files s)" and ?t = "evict_target maxBytes"
  have fr: "freed_by cf_size fs (map (\<lambda>f. rm (cf_path f)) fs) = sum_list (map cf_size (filter (\<lambda>f. rm (cf_path f)) fs))" for fs
    by (induction fs) auto
  obtain k oks log where k: "k \<le> length ?o" "attempts (remove_pair rm) (take k ?o) (sc_log s) = (oks, log)"
    "evict_files rm (sc_total s) ?t ?o 0 (sc_log s) = (0 + freed_by cf_size (take k ?o) oks, log)"
    "k = length ?o \<or> sc_total s - (0 + freed_by cf_size (take k ?o) oks) \<le> ?t"
    "\<forall>j < k. ?t < sc_total s - (0 + freed_by cf_size (take j ?o) (take j oks))"
    using cache_ev.pass_prefix [of ?o rm "sc_log s" "sc_total s" ?t 0] by blast
  have oks: "oks = map (\<lambda>f. rm (cf_path f)) (take k ?o)" using k(2) by (simp add: attempts_remove)
  have j: "j < k \<Longrightarrow> freed_by cf_size (take j ?o) (take j oks) = sum_list (map cf_size (filter (\<lambda>f. rm (cf_path f)) (take j ?o)))" for j
    using fr [of "take j ?o"] by (simp add: oks take_map [symmetric] min_def)
  show ?thesis
    by (rule exI [of _ ?o], rule exI [of _ k])
      (use srt k max scan over j in \<open>simp add: Let_def cache_evictOnce_def oks fr\<close>)
qed

theorem evictOnce_lru_witness:
  "\<exists>s order k. scan_walk (\<lambda>_. True) 10 ''/c'' example_walk empty_scan = (True, s) \<and>
     is_sorted_perm cf_mtime (sc_files s) order \<and> k \<le> length order \<and>
     (k = length order \<or> sc_total s - sum_list (map cf_size (filter (\<lambda>f. True) (take k order))) \<le> evict_target 100)"
proof -
  have s: "scan_walk (\<lambda>_. True) 10 ''/c'' example_walk empty_scan = (True, example_scan)" "sc_total example_scan = 150"
    by (rule example_scanned) (simp add: example_scan_def)
  from evictOnce_lru [of sort_key 100 "\<lambda>_. True" 10 "''/c''" example_walk example_scan, OF is_sorted_perm_sort_key _ s(1)] s
  show ?thesis by (auto simp: Let_def)
qed

end
