(* ===== verification/ProxyErr.thy ===== *)
theory ProxyErr
  imports GoFacts
begin

text \<open>
  The errors of \<open>cmd/proxy\<close> as values: the sentinels of \<open>finder.go\<close>, any other error by its
  text, \<open>errors.Join\<close>; \<open>errors.Is\<close> against a sentinel and \<open>Error()\<close>. Also the HTTP status
  helpers the error mapping and the upstream client share.
\<close>

datatype proxy_err = ErrDebuginfoNotFound | ErrSourceNotImplemented | ErrDebuginfodTemporaryDown
  | ErrDbNoRow | ErrCacheBusy | Errorf string | Join proxy_err proxy_err

text \<open>\<open>errors.Is(e, t)\<close> for a sentinel \<open>t\<close>.\<close>

fun errors_Is :: "proxy_err \<Rightarrow> proxy_err \<Rightarrow> bool" where
  "errors_Is (Join a b) t = (errors_Is a t \<or> errors_Is b t)"
| "errors_Is (Errorf m) t = False"
| "errors_Is e t = (e = t)"

fun err_text :: "proxy_err \<Rightarrow> string" where
  "err_text ErrDebuginfoNotFound = ''not found''"
| "err_text ErrSourceNotImplemented = ''source not implemented''"
| "err_text ErrDebuginfodTemporaryDown = ''debuginfod temporary down''"
| "err_text ErrDbNoRow = ''db no row''"
| "err_text ErrCacheBusy = ''cache: brak wolnego slotu na pobranie''"
| "err_text (Errorf m) = m"
| "err_text (Join a b) = err_text a @ [CHR 0x0A] @ err_text b"

definition http_get :: "headers \<Rightarrow> string \<Rightarrow> string" where
  "http_get h k = (case h k of None \<Rightarrow> [] | Some v \<Rightarrow> v)"

definition strToUInt64 :: "string \<Rightarrow> u64" where
  "strToUInt64 s = (if s = [] then 0 else case parse_uint64 s of None \<Rightarrow> 0 | Some n \<Rightarrow> of_nat n)"

text \<open>What a response with a status other than 200 means to \<open>Probe\<close> and \<open>Fetch\<close>.\<close>

definition status_err :: "int \<Rightarrow> proxy_err" where
  "status_err code =
     (if code = 404 then ErrDebuginfoNotFound
      else if code = 501 then ErrSourceNotImplemented
      else Errorf (''invalid status code '' @ int_str code))"

end
