(* ===== verification/CacheFlight.thy ===== *)
theory CacheFlight
  imports CacheFiles ProxyErr
begin

text \<open>
  Downloads in flight, the other half of \<open>cmd/proxy/filecache.go\<close>: \<open>Serve\<close> (hit, join, lead or
  busy), \<open>download\<close> in the background, \<open>follow\<close> and \<open>entryReader.Read\<close>. A download is a
  machine with one step per interval between two points where other goroutines can see it, so
  that any number of downloads, followers and evictions interleave. The gzip compressor is a
  library the sources call, given by its operations; \<open>bufio.Writer\<close> is modelled.
\<close>

section \<open>The write chain\<close>

text \<open>\<open>bufio.Writer.Write\<close>: what reaches the underlying writer, and what stays in the buffer.\<close>

function bufio_write :: "nat \<Rightarrow> bytes \<Rightarrow> bytes \<Rightarrow> bytes \<times> bytes" where
  "bufio_write cap buf p =
     (if length p \<le> cap - length buf then ([], buf @ p)
      else if buf = [] then (p, [])
      else (case bufio_write cap [] (drop (cap - length buf) p) of
          (out, buf') \<Rightarrow> (buf @ take (cap - length buf) p @ out, buf')))"
  by pat_completeness auto
termination
proof (relation "measure (\<lambda>(cap, buf, p). length p + length buf)")
  fix cap and buf p :: bytes
  assume "buf \<noteq> []"
  then have "length p - (cap - length buf) < length p + length buf"
    by (cases buf) auto
  then show "((cap, [], drop (cap - length buf) p), (cap, buf, p))
      \<in> measure (\<lambda>(cap, buf, p). length p + length buf)" by simp
qed simp

declare bufio_write.simps [simp del]

fun bufio_writes :: "nat \<Rightarrow> bytes \<Rightarrow> bytes list \<Rightarrow> bytes \<times> bytes" where
  "bufio_writes cap buf [] = ([], buf)"
| "bufio_writes cap buf (p # ps) =
     (case bufio_write cap buf p of (out, buf') \<Rightarrow>
        (case bufio_writes cap buf' ps of (out', buf'') \<Rightarrow> (out @ out', buf'')))"

lemma bufio_write_bytes: "bufio_write cap buf p = (out, buf') \<Longrightarrow> out @ buf' = buf @ p"
proof (induction cap buf p arbitrary: out buf' rule: bufio_write.induct)
  case (1 cap buf p)
  show ?case
  proof (cases "length p \<le> cap - length buf \<or> buf = []")
    case True
    with 1(2) show ?thesis by (subst (asm) bufio_write.simps) (auto split: if_splits)
  next
    case False
    obtain o' b' where r: "bufio_write cap [] (drop (cap - length buf) p) = (o', b')" by fastforce
    with False 1(2) have "out = buf @ take (cap - length buf) p @ o'" "buf' = b'"
      by (subst (asm) bufio_write.simps, simp)+
    with 1(1) [OF _ _ r] False show ?thesis by simp
  qed
qed

lemma bufio_writes_bytes: "bufio_writes cap buf ps = (out, buf') \<Longrightarrow> out @ buf' = buf @ concat ps"
proof (induction ps arbitrary: buf out buf')
  case (Cons p ps)
  obtain o1 b1 where 1: "bufio_write cap buf p = (o1, b1)" by fastforce
  obtain o2 b2 where 2: "bufio_writes cap b1 ps = (o2, b2)" by fastforce
  from Cons.IH [OF 2] bufio_write_bytes [OF 1] Cons.prems 1 2 show ?case
    by simp (metis append.assoc)
qed simp

text \<open>\<open>gzip.Writer\<close>: each call answers with the writes it makes on the writer below.\<close>

record 'z gzip =
  gz_new :: 'z
  gz_write :: "'z \<Rightarrow> bytes \<Rightarrow> 'z \<times> bytes list"
  gz_flush :: "'z \<Rightarrow> 'z \<times> bytes list"
  gz_close :: "'z \<Rightarrow> bytes list"

text \<open>\<open>gz_reach gz z i out\<close>: writer \<open>z\<close> was given \<open>i\<close> and has written \<open>out\<close>. The contract is the
  package's: after \<open>Close\<close>, what was written decompresses to what it was given.\<close>

inductive gz_reach :: "'z gzip \<Rightarrow> 'z \<Rightarrow> bytes \<Rightarrow> bytes \<Rightarrow> bool" for gz where
  started: "gz_reach gz (gz_new gz) [] []"
| wrote: "gz_reach gz z i out \<Longrightarrow> gz_write gz z p = (z', ws) \<Longrightarrow> gz_reach gz z' (i @ p) (out @ concat ws)"
| flushed: "gz_reach gz z i out \<Longrightarrow> gz_flush gz z = (z', ws) \<Longrightarrow> gz_reach gz z' i (out @ concat ws)"

definition gz_contract :: "'z gzip \<Rightarrow> (bytes \<Rightarrow> bytes option) \<Rightarrow> bool" where
  "gz_contract gz gunzip \<longleftrightarrow>
     (\<forall>z i out. gz_reach gz z i out \<longrightarrow> gunzip (out @ concat (gz_close gz z)) = Some i)"

section \<open>State\<close>

datatype flight_err = EFetch proxy_err | ECreate | EWrite | ERead string | EJson | ERenameBlob | EWriteMeta

record cacheEntry =
  en_open :: bool
  en_ready :: bool
  en_meta :: cacheMeta
  en_size :: nat
  en_done :: bool
  en_err :: "flight_err option"

definition no_meta :: cacheMeta where
  "no_meta = \<lparr>cm_status = 0, cm_headers = Map.empty, cm_size = 0, cm_host = []\<rparr>"

definition newCacheEntry :: cacheEntry where
  "newCacheEntry = \<lparr>en_open = False, en_ready = False, en_meta = no_meta, en_size = 0,
     en_done = False, en_err = None\<rparr>"

record response =
  up_status :: int
  up_headers :: "string \<Rightarrow> string"

datatype outcome = More | Eof | Broken string

datatype dpc = DFetch | DCreate response | DReady | DRead | DWrite bytes outcome | DFlush outcome
  | DPublish outcome | DClose | DLastFlush | DLastPublish | DRename | DMeta | DDefer | DForget | DUnlink | DRelease

text \<open>A running \<open>download\<close>: its locals (\<open>tmpPath\<close> as whether there is one to clean up,
  \<open>bodyComplete\<close>, \<open>finalErr\<close>, the chain) and, as a ghost, the body bytes read so far.\<close>

record 'z down =
  dn_key :: string
  dn_host :: string
  dn_pc :: dpc
  dn_tmp :: bool
  dn_complete :: bool
  dn_ret :: "flight_err option"
  dn_meta :: cacheMeta
  dn_compress :: bool
  dn_z :: 'z
  dn_buf :: bytes
  dn_n :: nat
  dn_body :: bytes

text \<open>The environment of one step: what the fetch, a read of the body, a write to the file and
  any other system call answer; \<open>fe_accept\<close> is how many bytes a failing write takes.\<close>

record fenv =
  fe_fetch :: "proxy_err + response"
  fe_read :: "bytes \<times> outcome"
  fe_accept :: "nat option"
  fe_ok :: bool
  fe_lower :: "string \<Rightarrow> string"
  fe_trim :: "string \<Rightarrow> string"

section \<open>download\<close>

definition ingest_meta :: "response \<Rightarrow> string \<Rightarrow> cacheMeta" where
  "ingest_meta resp hostName =
     \<lparr>cm_status = up_status resp,
      cm_headers = (\<lambda>n. if n \<in> set proxyHeaders \<and> up_headers resp n \<noteq> [] then Some (up_headers resp n) else None),
      cm_size = 0, cm_host = hostName\<rparr>"

definition compress_on_ingest :: "fenv \<Rightarrow> response \<Rightarrow> bool" where
  "compress_on_ingest env resp =
     (let enc = to_lower (fe_lower env) (trim_space (fe_trim env) (up_headers resp ''content-encoding''))
      in enc = [] \<or> enc = ''identity'')"

definition gzip_meta :: "cacheMeta \<Rightarrow> cacheMeta" where
  "gzip_meta m = m\<lparr>cm_headers := (cm_headers m)(''content-encoding'' \<mapsto> ''gzip'', ''content-length'' := None)\<rparr>"

text \<open>\<open>countingWriter.Write\<close> on the file: the counter is below every buffer.\<close>

definition file_write :: "nat option \<Rightarrow> bytes \<Rightarrow> 'z down \<Rightarrow> bytes \<Rightarrow> bool \<times> 'z down \<times> bytes" where
  "file_write accept out d f =
     (let w = (case accept of None \<Rightarrow> out | Some k \<Rightarrow> take k out) in
      (accept = None, d\<lparr>dn_n := dn_n d + length w\<rparr>, f @ w))"

definition chain_write :: "'z gzip \<Rightarrow> bytes \<Rightarrow> 'z down \<Rightarrow> bytes \<times> 'z down" where
  "chain_write gz p d =
     (if dn_compress d then
        (case gz_write gz (dn_z d) p of (z, ws) \<Rightarrow>
          (case bufio_writes ingestBufSize (dn_buf d) ws of (out, buf) \<Rightarrow> (out, d\<lparr>dn_z := z, dn_buf := buf\<rparr>)))
      else (p, d))"

definition chain_flush :: "'z gzip \<Rightarrow> 'z down \<Rightarrow> bytes \<times> 'z down" where
  "chain_flush gz d =
     (if dn_compress d then
        (case gz_flush gz (dn_z d) of (z, ws) \<Rightarrow>
          (case bufio_writes ingestBufSize (dn_buf d) ws of (out, buf) \<Rightarrow> (out @ buf, d\<lparr>dn_z := z, dn_buf := []\<rparr>)))
      else ([], d))"

definition chain_close :: "'z gzip \<Rightarrow> 'z down \<Rightarrow> bytes \<times> 'z down" where
  "chain_close gz d =
     (if dn_compress d then
        (case bufio_writes ingestBufSize (dn_buf d) (gz_close gz (dn_z d)) of (out, buf) \<Rightarrow> (out, d\<lparr>dn_buf := buf\<rparr>))
      else ([], d))"

definition fail :: "flight_err \<Rightarrow> 'z down \<Rightarrow> 'z down" where
  "fail err d = d\<lparr>dn_ret := Some err, dn_pc := DDefer\<rparr>"

definition after_chunk :: "outcome \<Rightarrow> 'z down \<Rightarrow> 'z down" where
  "after_chunk r d = (case r of More \<Rightarrow> d\<lparr>dn_pc := DRead\<rparr> | Eof \<Rightarrow> d\<lparr>dn_pc := DClose\<rparr> | Broken m \<Rightarrow> fail (ERead m) d)"

definition write_then :: "fenv \<Rightarrow> dpc \<Rightarrow> bytes \<times> 'z down \<Rightarrow> bytes \<Rightarrow> 'z down \<times> bytes" where
  "write_then env pc od f =
     (case file_write (fe_accept env) (fst od) (snd od) f of
        (ok, d', f') \<Rightarrow> (if ok then d'\<lparr>dn_pc := pc\<rparr> else fail EWrite d', f'))"

text \<open>The steps up to the end of the deferred function's first part: everything that touches
  only the download, its entry and its file.\<close>

definition down_step :: "'z gzip \<Rightarrow> fenv \<Rightarrow> 'z down \<Rightarrow> cacheEntry \<Rightarrow> bytes \<Rightarrow> 'z down \<times> cacheEntry \<times> bytes" where
  "down_step gz env d e f = (case dn_pc d of
     DFetch \<Rightarrow> (case fe_fetch env of
         Inl m \<Rightarrow> (fail (EFetch m) d, e, f)
       | Inr resp \<Rightarrow> (d\<lparr>dn_pc := DCreate resp\<rparr>, e, f))
   | DCreate resp \<Rightarrow>
       if \<not> fe_ok env then (fail ECreate d, e, f)
       else
         (let c = compress_on_ingest env resp; m = ingest_meta resp (dn_host d) in
          (d\<lparr>dn_tmp := True, dn_compress := c, dn_meta := (if c then gzip_meta m else m),
             dn_z := gz_new gz, dn_buf := [], dn_n := 0, dn_pc := DReady\<rparr>, e, f))
   | DReady \<Rightarrow> (d\<lparr>dn_pc := DRead\<rparr>, e\<lparr>en_open := True, en_meta := clone (dn_meta d), en_ready := True\<rparr>, f)
   | DRead \<Rightarrow> (case fe_read env of (bs, r) \<Rightarrow>
         if bs \<noteq> [] then (d\<lparr>dn_body := dn_body d @ bs, dn_pc := DWrite bs r\<rparr>, e, f)
         else (after_chunk r d, e, f))
   | DWrite bs r \<Rightarrow> (case write_then env (DFlush r) (chain_write gz bs d) f of (d', f') \<Rightarrow> (d', e, f'))
   | DFlush r \<Rightarrow> (case write_then env (DPublish r) (chain_flush gz d) f of (d', f') \<Rightarrow> (d', e, f'))
   | DPublish r \<Rightarrow> (after_chunk r d, e\<lparr>en_size := dn_n d\<rparr>, f)
   | DClose \<Rightarrow> (case write_then env DLastFlush (chain_close gz d) f of (d', f') \<Rightarrow> (d', e, f'))
   | DLastFlush \<Rightarrow> (case write_then env DLastPublish (dn_buf d, d\<lparr>dn_buf := []\<rparr>) f of (d', f') \<Rightarrow> (d', e, f'))
   | DLastPublish \<Rightarrow>
       (d\<lparr>dn_complete := True, dn_meta := (dn_meta d)\<lparr>cm_size := int (dn_n d)\<rparr>, dn_pc := DRename\<rparr>,
        e\<lparr>en_size := dn_n d\<rparr>, f)
   | DDefer \<Rightarrow>
       (d\<lparr>dn_pc := DForget\<rparr>,
        e\<lparr>en_open := False, en_done := True,
          en_err := (if en_err e = None \<and> \<not> dn_complete d then dn_ret d else en_err e)\<rparr>, f)
   | _ \<Rightarrow> (d, e, f))"

section \<open>The cache\<close>

datatype fol_err = FCancelled | FDownload flight_err | FNoHeaders | FNotPublished | FDup | FReadErr | FUnexpectedEOF

datatype fol_pc = FWait | FDisk | FStream | FDone "fol_err option"

record follower =
  fo_entry :: nat
  fo_key :: string
  fo_status :: string
  fo_pc :: fol_pc
  fo_meta :: cacheMeta
  fo_off :: nat
  fo_got :: bytes

text \<open>\<open>cs_bodies\<close> is a ghost: the bodies some upstream sent to the end, with whether they were
  compressed on the way in.\<close>

record 'z cache =
  cs_slots :: nat
  cs_inflight :: "string \<Rightarrow> nat option"
  cs_entry :: "nat \<Rightarrow> cacheEntry option"
  cs_file :: "nat \<Rightarrow> bytes"
  cs_down :: "nat \<Rightarrow> 'z down option"
  cs_fol :: "nat \<Rightarrow> follower option"
  cs_store :: store
  cs_bodies :: "(bool \<times> bytes) set"

record 'z cache_cfg =
  cc_gz :: "'z gzip"
  cc_path :: "string \<Rightarrow> string"
  cc_enc :: "cacheMeta \<Rightarrow> bytes"
  cc_dec :: "bytes \<Rightarrow> cacheMeta option"

definition new_down :: "'z cache_cfg \<Rightarrow> string \<Rightarrow> string \<Rightarrow> 'z down" where
  "new_down cfg key hostName =
     \<lparr>dn_key = key, dn_host = hostName, dn_pc = DFetch, dn_tmp = False, dn_complete = False, dn_ret = None,
      dn_meta = no_meta, dn_compress = False, dn_z = gz_new (cc_gz cfg), dn_buf = [], dn_n = 0, dn_body = []\<rparr>"

definition new_follower :: "nat \<Rightarrow> string \<Rightarrow> string \<Rightarrow> follower" where
  "new_follower i key status =
     \<lparr>fo_entry = i, fo_key = key, fo_status = status, fo_pc = FWait, fo_meta = no_meta, fo_off = 0, fo_got = []\<rparr>"

text \<open>\<open>Serve\<close> up to its \<open>follow\<close>: \<open>j\<close> names the client, \<open>i\<close> the entry a leader would create.
  \<open>None\<close> is \<open>ErrCacheBusy\<close>.\<close>

definition Serve :: "'z cache_cfg \<Rightarrow> (string \<Rightarrow> bool) \<Rightarrow> time \<Rightarrow> nat \<Rightarrow> nat \<Rightarrow> string \<Rightarrow> string \<Rightarrow> 'z cache \<Rightarrow> 'z cache option" where
  "Serve cfg broken now j i key hostName s =
     (case openCached (cc_dec cfg) broken now (cc_path cfg key) (cs_store s) of
        (Some (meta, b), st) \<Rightarrow>
          Some (s\<lparr>cs_store := st, cs_fol := (cs_fol s)(j \<mapsto>
            (new_follower i key ''HIT'')\<lparr>fo_pc := FDone None, fo_meta := meta, fo_got := b\<rparr>)\<rparr>)
      | (None, st) \<Rightarrow>
          (let live = (case cs_inflight s key of
                 None \<Rightarrow> None
               | Some k \<Rightarrow> (case cs_entry s k of
                     None \<Rightarrow> None | Some e \<Rightarrow> if en_done e then None else Some k))
           in case live of
               Some k \<Rightarrow> Some (s\<lparr>cs_store := st, cs_fol := (cs_fol s)(j \<mapsto> new_follower k key ''COALESCED'')\<rparr>)
             | None \<Rightarrow>
                 if maxConcurrentDownloads \<le> cs_slots s then None
                 else Some (s\<lparr>cs_store := st, cs_slots := cs_slots s + 1,
                   cs_entry := (cs_entry s)(i \<mapsto> newCacheEntry), cs_inflight := (cs_inflight s)(key \<mapsto> i),
                   cs_file := (cs_file s)(i := []), cs_down := (cs_down s)(i \<mapsto> new_down cfg key hostName),
                   cs_fol := (cs_fol s)(j \<mapsto> new_follower i key ''MISS'')\<rparr>)))"

text \<open>\<open>entryReader.Read\<close> for a buffer of \<open>plen\<close> bytes: \<open>got\<close> is how many bytes \<open>pread\<close> returns
  at most, \<open>bad\<close> whether it fails, \<open>gone\<close> whether the client has disconnected.\<close>

datatype reading = Data bytes | Fails fol_err | AtEof | Waits | Retries

definition entry_read :: "nat \<Rightarrow> nat \<Rightarrow> bool \<Rightarrow> bool \<Rightarrow> cacheEntry \<Rightarrow> bytes \<Rightarrow> nat \<Rightarrow> reading" where
  "entry_read plen got bad gone e f off =
     (if plen = 0 then Data []
      else if off < en_size e then
        (let chunk = take got (take (min plen (en_size e - off)) (drop off f)) in
         if bad then Fails FReadErr
         else if chunk \<noteq> [] then Data chunk
         else (case en_err e of
             Some err \<Rightarrow> Fails (FDownload err)
           | None \<Rightarrow> if en_done e then Fails FUnexpectedEOF
                    else if gone then Fails FCancelled else Retries))
      else if \<not> en_done e \<and> \<not> gone then Waits
      else if gone then Fails FCancelled
      else (case en_err e of Some err \<Rightarrow> Fails (FDownload err) | None \<Rightarrow> AtEof))"

text \<open>One step of \<open>follow\<close>; \<open>dup_ok\<close> is whether the descriptor could be duplicated.\<close>

definition follow_step :: "'z cache_cfg \<Rightarrow> (string \<Rightarrow> bool) \<Rightarrow> time \<Rightarrow> nat \<Rightarrow> nat \<Rightarrow> bool \<Rightarrow> bool \<Rightarrow> bool
    \<Rightarrow> cacheEntry \<Rightarrow> bytes \<Rightarrow> store \<Rightarrow> follower \<Rightarrow> follower \<times> store" where
  "follow_step cfg broken now plen got bad gone dup_ok e f st w = (case fo_pc w of
     FWait \<Rightarrow>
       (if \<not> en_ready e \<and> \<not> en_done e \<and> \<not> gone then w
        else (case en_err e of
            Some err \<Rightarrow> w\<lparr>fo_pc := FDone (Some (FDownload err))\<rparr>
          | None \<Rightarrow>
              if \<not> en_ready e then w\<lparr>fo_pc := FDone (Some (if gone then FCancelled else FNoHeaders))\<rparr>
              else if en_open e then
                (if dup_ok then w\<lparr>fo_meta := en_meta e, fo_pc := FStream\<rparr>
                 else w\<lparr>fo_pc := FDone (Some FDup)\<rparr>)
              else w\<lparr>fo_pc := FDisk\<rparr>), st)
   | FDisk \<Rightarrow> (case openCached (cc_dec cfg) broken now (cc_path cfg (fo_key w)) st of
         (None, st') \<Rightarrow> (w\<lparr>fo_pc := FDone (Some FNotPublished)\<rparr>, st')
       | (Some (meta, b), st') \<Rightarrow> (w\<lparr>fo_pc := FDone None, fo_meta := meta, fo_got := b\<rparr>, st'))
   | FStream \<Rightarrow> (case entry_read plen got bad gone e f (fo_off w) of
         Data bs \<Rightarrow> w\<lparr>fo_off := fo_off w + length bs, fo_got := fo_got w @ bs\<rparr>
       | Fails err \<Rightarrow> w\<lparr>fo_pc := FDone (Some err)\<rparr>
       | AtEof \<Rightarrow> w\<lparr>fo_pc := FDone None\<rparr>
       | Waits \<Rightarrow> w
       | Retries \<Rightarrow> w, st)
   | FDone r \<Rightarrow> (w, st))"

text \<open>The steps of a download that touch what it shares with others: the store, the table of
  downloads in flight, the semaphore.\<close>

definition shared_step :: "'z cache_cfg \<Rightarrow> fenv \<Rightarrow> nat \<Rightarrow> 'z down \<Rightarrow> 'z cache \<Rightarrow> 'z cache" where
  "shared_step cfg env i d s =
     (let blob = cc_path cfg (dn_key d); st = cs_store s;
          upd = (\<lambda>d'. (cs_down s)(i \<mapsto> d')) in
      case dn_pc d of
        DRename \<Rightarrow>
          if fe_ok env
          then s\<lparr>cs_store := st\<lparr>st_file := (st_file st)(blob \<mapsto> cs_file s i)\<rparr>, cs_down := upd (d\<lparr>dn_pc := DMeta\<rparr>)\<rparr>
          else s\<lparr>cs_down := upd (fail ERenameBlob d)\<rparr>
      | DMeta \<Rightarrow>
          if fe_ok env
          then s\<lparr>cs_store := st\<lparr>st_file := (st_file st)(blob @ ''.meta'' \<mapsto> cc_enc cfg (dn_meta d))\<rparr>,
                 cs_down := upd (d\<lparr>dn_tmp := False, dn_pc := DDefer\<rparr>)\<rparr>
          else s\<lparr>cs_store := st\<lparr>st_file := (st_file st)(blob := None)\<rparr>, cs_down := upd (fail EWriteMeta d)\<rparr>
      | DForget \<Rightarrow>
          s\<lparr>cs_inflight := (if cs_inflight s (dn_key d) = Some i then (cs_inflight s)(dn_key d := None) else cs_inflight s),
            cs_down := upd (d\<lparr>dn_pc := DUnlink\<rparr>)\<rparr>
      | DUnlink \<Rightarrow> s\<lparr>cs_down := upd (d\<lparr>dn_tmp := False, dn_pc := DRelease\<rparr>)\<rparr>
      | DRelease \<Rightarrow> s\<lparr>cs_slots := cs_slots s - 1, cs_down := (cs_down s)(i := None)\<rparr>
      | _ \<Rightarrow> s)"

fun is_shared :: "dpc \<Rightarrow> bool" where
  "is_shared DRename = True" | "is_shared DMeta = True" | "is_shared DForget = True"
| "is_shared DUnlink = True" | "is_shared DRelease = True" | "is_shared _ = False"

lemma is_shared_set: "is_shared pc \<longleftrightarrow> pc \<in> {DRename, DMeta, DForget, DUnlink, DRelease}"
  by (cases pc) simp_all

inductive cache_step :: "'z cache_cfg \<Rightarrow> 'z cache \<Rightarrow> 'z cache \<Rightarrow> bool" for cfg where
  serve: "cs_fol s j = None \<Longrightarrow> cs_entry s i = None \<Longrightarrow> Serve cfg broken now j i key hostName s = Some s' \<Longrightarrow>
     cache_step cfg s s'"
| alone: "cs_down s i = Some d \<Longrightarrow> cs_entry s i = Some e \<Longrightarrow> \<not> is_shared (dn_pc d) \<Longrightarrow>
     down_step (cc_gz cfg) env d e (cs_file s i) = (d', e', f') \<Longrightarrow>
     cache_step cfg s (s\<lparr>cs_down := (cs_down s)(i \<mapsto> d'), cs_entry := (cs_entry s)(i \<mapsto> e'),
       cs_file := (cs_file s)(i := f'),
       cs_bodies := (if dn_pc d = DLastPublish then insert (dn_compress d, dn_body d) (cs_bodies s) else cs_bodies s)\<rparr>)"
| shared: "cs_down s i = Some d \<Longrightarrow> is_shared (dn_pc d) \<Longrightarrow> cache_step cfg s (shared_step cfg env i d s)"
| follow: "cs_fol s j = Some w \<Longrightarrow> cs_entry s (fo_entry w) = Some e \<Longrightarrow>
     follow_step cfg broken now plen got bad gone dup_ok e (cs_file s (fo_entry w)) (cs_store s) w = (w', st') \<Longrightarrow>
     cache_step cfg s (s\<lparr>cs_fol := (cs_fol s)(j \<mapsto> w'), cs_store := st'\<rparr>)"
| evict: "cache_step cfg s (s\<lparr>cs_store := (cs_store s)\<lparr>st_file := (st_file (cs_store s))(p := None)\<rparr>\<rparr>)"

definition cache_reach :: "'z cache_cfg \<Rightarrow> 'z cache \<Rightarrow> 'z cache \<Rightarrow> bool" where
  "cache_reach cfg = (cache_step cfg)\<^sup>*\<^sup>*"

section \<open>What one download keeps\<close>

text \<open>\<open>whole gunzip c body f\<close>: file \<open>f\<close> represents the whole \<open>body\<close>.\<close>

definition whole :: "(bytes \<Rightarrow> bytes option) \<Rightarrow> bool \<Rightarrow> bytes \<Rightarrow> bytes \<Rightarrow> bool" where
  "whole gunzip c body f \<longleftrightarrow> (if c then gunzip f = Some body else f = body)"

definition chain_ok :: "'z gzip \<Rightarrow> 'z down \<Rightarrow> bytes \<Rightarrow> bytes \<Rightarrow> bool" where
  "chain_ok gz d fed f \<longleftrightarrow>
     (if dn_compress d then gz_reach gz (dn_z d) fed (f @ dn_buf d) else f = fed \<and> dn_buf d = [])"

definition closed_ok :: "(bytes \<Rightarrow> bytes option) \<Rightarrow> 'z down \<Rightarrow> bytes \<Rightarrow> bool" where
  "closed_ok gunzip d f \<longleftrightarrow> whole gunzip (dn_compress d) (dn_body d) (f @ dn_buf d)"

definition settled :: "(bytes \<Rightarrow> bytes option) \<Rightarrow> 'z down \<Rightarrow> cacheEntry \<Rightarrow> bytes \<Rightarrow> bool" where
  "settled gunzip d e f \<longleftrightarrow> whole gunzip (dn_compress d) (dn_body d) f \<and> en_size e = length f"

definition pc_inv :: "'z gzip \<Rightarrow> (bytes \<Rightarrow> bytes option) \<Rightarrow> 'z down \<Rightarrow> cacheEntry \<Rightarrow> bytes \<Rightarrow> bool" where
  "pc_inv gz gunzip d e f \<longleftrightarrow> (case dn_pc d of
     DFetch \<Rightarrow> f = [] \<and> dn_body d = [] \<and> \<not> dn_complete d
   | DCreate _ \<Rightarrow> f = [] \<and> dn_body d = [] \<and> \<not> dn_complete d
   | DReady \<Rightarrow> chain_ok gz d (dn_body d) f \<and> \<not> dn_complete d
   | DRead \<Rightarrow> chain_ok gz d (dn_body d) f \<and> \<not> dn_complete d
   | DWrite bs r \<Rightarrow> (\<exists>fed. dn_body d = fed @ bs \<and> chain_ok gz d fed f) \<and> \<not> dn_complete d
   | DFlush r \<Rightarrow> chain_ok gz d (dn_body d) f \<and> \<not> dn_complete d
   | DPublish r \<Rightarrow> chain_ok gz d (dn_body d) f \<and> \<not> dn_complete d
   | DClose \<Rightarrow> chain_ok gz d (dn_body d) f \<and> \<not> dn_complete d
   | DLastFlush \<Rightarrow> closed_ok gunzip d f \<and> \<not> dn_complete d
   | DLastPublish \<Rightarrow> whole gunzip (dn_compress d) (dn_body d) f \<and> \<not> dn_complete d
   | DRename \<Rightarrow> settled gunzip d e f \<and> dn_complete d
   | DMeta \<Rightarrow> settled gunzip d e f \<and> dn_complete d
   | DDefer \<Rightarrow> if dn_complete d then settled gunzip d e f else dn_ret d \<noteq> None
   | _ \<Rightarrow> en_err e = None \<longrightarrow> dn_complete d \<and> settled gunzip d e f)"

definition ended :: "dpc \<Rightarrow> bool" where
  "ended pc \<longleftrightarrow> pc \<in> {DForget, DUnlink, DRelease}"

definition flight_inv :: "'z gzip \<Rightarrow> (bytes \<Rightarrow> bytes option) \<Rightarrow> 'z down \<Rightarrow> cacheEntry \<Rightarrow> bytes \<Rightarrow> bool" where
  "flight_inv gz gunzip d e f \<longleftrightarrow> pc_inv gz gunzip d e f \<and> dn_n d = length f \<and> en_size e \<le> length f \<and>
     (en_done e \<longleftrightarrow> ended (dn_pc d)) \<and> (\<not> en_done e \<longrightarrow> en_err e = None)"

lemma chain_write_ok:
  assumes "chain_ok gz d fed f" "chain_write gz bs d = (out, d')"
  shows "chain_ok gz (d'\<lparr>dn_n := n, dn_pc := pc\<rparr>) (fed @ bs) (f @ out)"
    "dn_body d' = dn_body d" "dn_complete d' = dn_complete d" "dn_n d' = dn_n d" "dn_compress d' = dn_compress d"
proof -
  show "dn_body d' = dn_body d" "dn_complete d' = dn_complete d" "dn_n d' = dn_n d" "dn_compress d' = dn_compress d"
    using assms(2) by (auto simp: chain_write_def split: if_splits prod.splits)
  show "chain_ok gz (d'\<lparr>dn_n := n, dn_pc := pc\<rparr>) (fed @ bs) (f @ out)"
  proof (cases "dn_compress d")
    case True
    obtain z ws where z: "gz_write gz (dn_z d) bs = (z, ws)" by fastforce
    obtain o1 b1 where b: "bufio_writes ingestBufSize (dn_buf d) ws = (o1, b1)" by fastforce
    have "gz_reach gz z (fed @ bs) ((f @ dn_buf d) @ concat ws)"
      using assms(1) True gz_reach.wrote [OF _ z] by (simp only: chain_ok_def if_True)
    with bufio_writes_bytes [OF b] assms(2) True z b show ?thesis
      by (auto simp: chain_write_def chain_ok_def)
  next
    case False
    with assms show ?thesis by (auto simp: chain_write_def chain_ok_def)
  qed
qed

lemma chain_flush_ok:
  assumes "chain_ok gz d fed f" "chain_flush gz d = (out, d')"
  shows "chain_ok gz (d'\<lparr>dn_n := n, dn_pc := pc\<rparr>) fed (f @ out)"
    "dn_body d' = dn_body d" "dn_complete d' = dn_complete d" "dn_n d' = dn_n d" "dn_compress d' = dn_compress d"
proof -
  show "dn_body d' = dn_body d" "dn_complete d' = dn_complete d" "dn_n d' = dn_n d" "dn_compress d' = dn_compress d"
    using assms(2) by (auto simp: chain_flush_def split: if_splits prod.splits)
  show "chain_ok gz (d'\<lparr>dn_n := n, dn_pc := pc\<rparr>) fed (f @ out)"
  proof (cases "dn_compress d")
    case True
    obtain z ws where z: "gz_flush gz (dn_z d) = (z, ws)" by fastforce
    obtain o1 b1 where b: "bufio_writes ingestBufSize (dn_buf d) ws = (o1, b1)" by fastforce
    have "gz_reach gz z fed ((f @ dn_buf d) @ concat ws)"
      using assms(1) True gz_reach.flushed [OF _ z] by (simp only: chain_ok_def if_True)
    with bufio_writes_bytes [OF b] assms(2) True z b show ?thesis
      by (auto simp: chain_flush_def chain_ok_def)
  next
    case False
    with assms show ?thesis by (auto simp: chain_flush_def chain_ok_def)
  qed
qed

lemma chain_close_ok:
  assumes "gz_contract gz gunzip" "chain_ok gz d (dn_body d) f" "chain_close gz d = (out, d')"
  shows "closed_ok gunzip (d'\<lparr>dn_n := n, dn_pc := pc\<rparr>) (f @ out)"
    "dn_body d' = dn_body d" "dn_complete d' = dn_complete d" "dn_n d' = dn_n d" "dn_compress d' = dn_compress d"
proof -
  show "dn_body d' = dn_body d" "dn_complete d' = dn_complete d" "dn_n d' = dn_n d" "dn_compress d' = dn_compress d"
    using assms(3) by (auto simp: chain_close_def split: if_splits prod.splits)
  show "closed_ok gunzip (d'\<lparr>dn_n := n, dn_pc := pc\<rparr>) (f @ out)"
  proof (cases "dn_compress d")
    case True
    obtain o1 b1 where b: "bufio_writes ingestBufSize (dn_buf d) (gz_close gz (dn_z d)) = (o1, b1)" by fastforce
    have "gunzip ((f @ dn_buf d) @ concat (gz_close gz (dn_z d))) = Some (dn_body d)"
      using assms(1,2) True unfolding gz_contract_def chain_ok_def by (simp only: if_True)
    with bufio_writes_bytes [OF b] assms(3) True b show ?thesis
      by (auto simp: chain_close_def closed_ok_def whole_def)
  next
    case False
    with assms(2,3) show ?thesis by (auto simp: chain_close_def chain_ok_def closed_ok_def whole_def)
  qed
qed

lemma flight_fail:
  "dn_n d = length f \<Longrightarrow> en_size e \<le> length f \<Longrightarrow> \<not> en_done e \<Longrightarrow> en_err e = None \<Longrightarrow> \<not> dn_complete d \<Longrightarrow>
   flight_inv gz gunzip (fail err d) e f"
  by (simp add: flight_inv_def pc_inv_def fail_def ended_def)

lemma write_then_inv:
  assumes "write_then env pc (out, d0) f = (d', f')"
    and "dn_n d0 = length f" "en_size e \<le> length f" "\<not> en_done e" "en_err e = None" "\<not> dn_complete d0" "\<not> ended pc"
    and "\<And>n. pc_inv gz gunzip (d0\<lparr>dn_n := n, dn_pc := pc\<rparr>) e (f @ out)"
  shows "flight_inv gz gunzip d' e f'"
proof (cases "fe_accept env")
  case None
  then have r: "d' = d0\<lparr>dn_n := dn_n d0 + length out, dn_pc := pc\<rparr>" "f' = f @ out"
    using assms(1) by (simp_all add: write_then_def file_write_def)
  have "pc_inv gz gunzip d' e f'" unfolding r by (rule assms(8))
  with assms(2-5,7) show ?thesis by (simp add: flight_inv_def r)
next
  case (Some k)
  then have r: "d' = fail EWrite (d0\<lparr>dn_n := dn_n d0 + length (take k out)\<rparr>)" "f' = f @ take k out"
    using assms(1) by (simp_all add: write_then_def file_write_def)
  show ?thesis unfolding r by (rule flight_fail) (use assms(2-6) in simp_all)
qed

lemma after_chunk_inv:
  assumes "chain_ok gz d (dn_body d) f" "\<not> dn_complete d" "dn_n d = length f" "en_size e \<le> length f"
    "\<not> en_done e" "en_err e = None"
  shows "flight_inv gz gunzip (after_chunk r d) e f"
  using assms by (cases r) (auto simp: after_chunk_def flight_inv_def pc_inv_def fail_def ended_def chain_ok_def)

lemma down_step_inv:
  assumes gz: "gz_contract gz gunzip" and inv: "flight_inv gz gunzip d e f" and ns: "\<not> is_shared (dn_pc d)"
    and st: "down_step gz env d e f = (d', e', f')"
  shows "flight_inv gz gunzip d' e' f'"
proof -
  have nd: "\<not> en_done e" "en_err e = None" using inv ns by (auto simp: flight_inv_def ended_def is_shared_set)
  have n: "dn_n d = length f" and le: "en_size e \<le> length f" and pc: "pc_inv gz gunzip d e f"
    using inv by (auto simp: flight_inv_def)
  show ?thesis
  proof (cases "dn_pc d")
    case DFetch
    with st nd n le pc show ?thesis
      by (auto simp: down_step_def flight_inv_def pc_inv_def fail_def ended_def split: sum.splits)
  next
    case (DCreate resp)
    with st nd n le pc show ?thesis
      by (auto simp: down_step_def flight_inv_def pc_inv_def fail_def ended_def Let_def chain_ok_def
          split: if_splits intro: gz_reach.started)
  next
    case DReady
    with st nd n le pc show ?thesis
      by (auto simp: down_step_def flight_inv_def pc_inv_def ended_def chain_ok_def)
  next
    case DRead
    then have c: "chain_ok gz d (dn_body d) f" "\<not> dn_complete d" using pc by (auto simp: pc_inv_def)
    obtain bs r where r: "fe_read env = (bs, r)" by fastforce
    show ?thesis
    proof (cases "bs = []")
      case True
      with st DRead r have "d' = after_chunk r d" "e' = e" "f' = f" by (auto simp: down_step_def)
      with after_chunk_inv [OF c n le nd] show ?thesis by simp
    next
      case False
      with st DRead r have "d' = d\<lparr>dn_body := dn_body d @ bs, dn_pc := DWrite bs r\<rparr>" "e' = e" "f' = f"
        by (auto simp: down_step_def)
      with c n le nd show ?thesis by (auto simp: flight_inv_def pc_inv_def ended_def chain_ok_def)
    qed
  next
    case (DWrite bs r)
    then obtain fed where fed: "dn_body d = fed @ bs" "chain_ok gz d fed f" "\<not> dn_complete d"
      using pc by (auto simp: pc_inv_def)
    obtain out d0 where w: "chain_write gz bs d = (out, d0)" by fastforce
    note cw = chain_write_ok [OF fed(2) w]
    from st DWrite w have t: "write_then env (DFlush r) (out, d0) f = (d', f')" "e' = e"
      by (auto simp: down_step_def split: prod.splits)
    have "pc_inv gz gunzip (d0\<lparr>dn_n := m, dn_pc := DFlush r\<rparr>) e (f @ out)" for m
      using cw(1) [where n = m and pc = "DFlush r"] fed(1,3) cw(2-5) by (simp add: pc_inv_def)
    from write_then_inv [OF t(1) _ le nd _ _ this] n fed(3) t(2) cw(2-5) show ?thesis
      by (simp add: ended_def)
  next
    case (DFlush r)
    then have c: "chain_ok gz d (dn_body d) f" "\<not> dn_complete d" using pc by (auto simp: pc_inv_def)
    obtain out d0 where w: "chain_flush gz d = (out, d0)" by fastforce
    note cw = chain_flush_ok [OF c(1) w]
    from st DFlush w have t: "write_then env (DPublish r) (out, d0) f = (d', f')" "e' = e"
      by (auto simp: down_step_def split: prod.splits)
    have "pc_inv gz gunzip (d0\<lparr>dn_n := m, dn_pc := DPublish r\<rparr>) e (f @ out)" for m
      using cw(1) [where n = m and pc = "DPublish r"] c(2) cw(2-5) by (simp add: pc_inv_def)
    from write_then_inv [OF t(1) _ le nd _ _ this] n c(2) t(2) cw(2-5) show ?thesis
      by (simp add: ended_def)
  next
    case (DPublish r)
    then have c: "chain_ok gz d (dn_body d) f" "\<not> dn_complete d" using pc by (auto simp: pc_inv_def)
    from st DPublish have "d' = after_chunk r d" "e' = e\<lparr>en_size := dn_n d\<rparr>" "f' = f"
      by (auto simp: down_step_def)
    with after_chunk_inv [OF c n, of e'] n nd show ?thesis by simp
  next
    case DClose
    then have c: "chain_ok gz d (dn_body d) f" "\<not> dn_complete d" using pc by (auto simp: pc_inv_def)
    obtain out d0 where w: "chain_close gz d = (out, d0)" by fastforce
    note cw = chain_close_ok [OF gz c(1) w]
    from st DClose w have t: "write_then env DLastFlush (out, d0) f = (d', f')" "e' = e"
      by (auto simp: down_step_def split: prod.splits)
    have "pc_inv gz gunzip (d0\<lparr>dn_n := m, dn_pc := DLastFlush\<rparr>) e (f @ out)" for m
      using cw(1) [where n = m and pc = DLastFlush] c(2) cw(2-5) by (simp add: pc_inv_def)
    from write_then_inv [OF t(1) _ le nd _ _ this] n c(2) t(2) cw(2-5) show ?thesis
      by (simp add: ended_def)
  next
    case DLastFlush
    then have c: "closed_ok gunzip d f" "\<not> dn_complete d" using pc by (auto simp: pc_inv_def)
    from st DLastFlush have t: "write_then env DLastPublish (dn_buf d, d\<lparr>dn_buf := []\<rparr>) f = (d', f')" "e' = e"
      by (auto simp: down_step_def split: prod.splits)
    have "pc_inv gz gunzip (d\<lparr>dn_buf := [], dn_n := m, dn_pc := DLastPublish\<rparr>) e (f @ dn_buf d)" for m
      using c by (simp add: pc_inv_def closed_ok_def)
    from write_then_inv [OF t(1) _ le nd _ _ this] n c(2) t(2) show ?thesis
      by (simp add: ended_def)
  next
    case DLastPublish
    with st pc n nd show ?thesis
      by (auto simp: down_step_def flight_inv_def pc_inv_def settled_def ended_def)
  next
    case DDefer
    with st pc n nd le show ?thesis
      by (auto simp: down_step_def flight_inv_def pc_inv_def settled_def ended_def split: if_splits)
  qed (use ns in \<open>simp_all add: is_shared_set\<close>)
qed

end
