(* ===== verification/CacheSafety.thy ===== *)
theory CacheSafety
  imports CacheFlight
begin

text \<open>
  What the file cache keeps under every interleaving of requests, downloads, followers and
  evictions: no client is ever told that truncated content is complete, at most one download
  per key is open to joiners, and downloads never exceed their slots.
\<close>

section \<open>The invariant\<close>

definition sent_whole :: "(bytes \<Rightarrow> bytes option) \<Rightarrow> (bool \<times> bytes) set \<Rightarrow> bytes \<Rightarrow> bool" where
  "sent_whole gunzip B f \<longleftrightarrow> (\<exists>(c, body) \<in> B. whole gunzip c body f)"

definition slots_inv :: "'z cache \<Rightarrow> bool" where
  "slots_inv s \<longleftrightarrow> finite (dom (cs_down s)) \<and> cs_slots s = card (dom (cs_down s)) \<and>
     cs_slots s \<le> maxConcurrentDownloads"

definition table_inv :: "'z cache \<Rightarrow> bool" where
  "table_inv s \<longleftrightarrow>
     (\<forall>k i. cs_inflight s k = Some i \<longrightarrow>
        (\<exists>d. cs_down s i = Some d \<and> dn_key d = k \<and> dn_pc d \<notin> {DUnlink, DRelease})) \<and>
     (\<forall>i d. cs_down s i = Some d \<longrightarrow> \<not> ended (dn_pc d) \<longrightarrow> cs_inflight s (dn_key d) = Some i)"

definition flights_inv :: "'z cache_cfg \<Rightarrow> (bytes \<Rightarrow> bytes option) \<Rightarrow> 'z cache \<Rightarrow> bool" where
  "flights_inv cfg gunzip s \<longleftrightarrow> (\<forall>i d. cs_down s i = Some d \<longrightarrow>
     (\<exists>e. cs_entry s i = Some e \<and> flight_inv (cc_gz cfg) gunzip d e (cs_file s i)) \<and>
     (dn_complete d \<longrightarrow> (dn_compress d, dn_body d) \<in> cs_bodies s))"

definition entries_inv :: "(bytes \<Rightarrow> bytes option) \<Rightarrow> 'z cache \<Rightarrow> bool" where
  "entries_inv gunzip s \<longleftrightarrow> (\<forall>i e. cs_entry s i = Some e \<longrightarrow> cs_down s i = None \<longrightarrow>
     en_done e \<and> en_size e \<le> length (cs_file s i) \<and>
     (en_err e = None \<longrightarrow> en_size e = length (cs_file s i) \<and> sent_whole gunzip (cs_bodies s) (cs_file s i)))"

definition store_inv :: "'z cache_cfg \<Rightarrow> (bytes \<Rightarrow> bytes option) \<Rightarrow> 'z cache \<Rightarrow> bool" where
  "store_inv cfg gunzip s \<longleftrightarrow> (\<forall>k b. st_file (cs_store s) (cc_path cfg k) = Some b \<longrightarrow>
     sent_whole gunzip (cs_bodies s) b)"

definition fol_inv :: "(bytes \<Rightarrow> bytes option) \<Rightarrow> 'z cache \<Rightarrow> follower \<Rightarrow> bool" where
  "fol_inv gunzip s w \<longleftrightarrow> (case fo_pc w of
     FWait \<Rightarrow> cs_entry s (fo_entry w) \<noteq> None \<and> fo_off w = 0 \<and> fo_got w = []
   | FDisk \<Rightarrow> cs_entry s (fo_entry w) \<noteq> None
   | FStream \<Rightarrow> (\<exists>e. cs_entry s (fo_entry w) = Some e \<and> fo_off w \<le> en_size e \<and> en_size e \<le> length (cs_file s (fo_entry w)) \<and>
       fo_got w = take (fo_off w) (cs_file s (fo_entry w)))
   | FDone None \<Rightarrow> sent_whole gunzip (cs_bodies s) (fo_got w)
   | FDone (Some _) \<Rightarrow> True)"

definition fols_inv :: "(bytes \<Rightarrow> bytes option) \<Rightarrow> 'z cache \<Rightarrow> bool" where
  "fols_inv gunzip s \<longleftrightarrow> (\<forall>j w. cs_fol s j = Some w \<longrightarrow> fol_inv gunzip s w)"

definition cache_inv :: "'z cache_cfg \<Rightarrow> (bytes \<Rightarrow> bytes option) \<Rightarrow> 'z cache \<Rightarrow> bool" where
  "cache_inv cfg gunzip s \<longleftrightarrow> slots_inv s \<and> table_inv s \<and> flights_inv cfg gunzip s \<and>
     entries_inv gunzip s \<and> store_inv cfg gunzip s \<and> fols_inv gunzip s"

text \<open>A blob is never the metadata of another (true of \<open>blobPath\<close>, whose paths all have the
  same length).\<close>

definition paths_apart :: "'z cache_cfg \<Rightarrow> bool" where
  "paths_apart cfg \<longleftrightarrow> (\<forall>k k'. cc_path cfg k \<noteq> cc_path cfg k' @ ''.meta'')"

lemma blobPath_length:
  assumes "\<And>k. length (sha k) = 32" "is_abs dir"
  shows "length (blobPath sha dir k) = length (blobPath sha dir k')"
proof -
  have l: "length (join_with ''/'' (ps @ [a, b, c])) = (if ps = [] then 0 else length (join_with ''/'' ps) + 1) + length a + length b + length c + 2"
    for ps a b c
    by (induction ps) (auto simp: join_with_Cons)
  have "length (blobPath sha dir k) = 71 + (if clean_comps dir = [] then 0 else length (join_with ''/'' (clean_comps dir)) + 1)" for k
  proof -
    obtain h where h: "blobPath sha dir k = path_join [dir, take 2 h, take 2 (drop 2 h), h]" "isBlobName h"
      "clean_comps (blobPath sha dir k) = clean_comps dir @ [take 2 h, take 2 (drop 2 h), h]"
      using blobPath_shape [of dir sha k] assms by blast
    have "is_abs (blobPath sha dir k)" "clean (blobPath sha dir k) = blobPath sha dir k"
    proof -
      have "dir \<noteq> []" using assms(2) by auto
      then have j: "blobPath sha dir k = clean (join_with ''/'' [dir, take 2 h, take 2 (drop 2 h), h])"
        using h(1) by (simp add: path_join_def)
      have "is_abs (join_with ''/'' [dir, take 2 h, take 2 (drop 2 h), h])" using assms(2) by (cases dir) auto
      then show "is_abs (blobPath sha dir k)" "clean (blobPath sha dir k) = blobPath sha dir k"
        unfolding j by (auto simp: clean_idem_abs)
    qed
    then have "blobPath sha dir k = slash # join_with ''/'' (clean_comps dir @ [take 2 h, take 2 (drop 2 h), h])"
      using clean_abs h(3) by metis
    moreover have "length h = 64" using h(2) by (simp add: isBlobName_def)
    ultimately show ?thesis using l [of "clean_comps dir" "take 2 h" "take 2 (drop 2 h)" h] by simp
  qed
  then show ?thesis by metis
qed

lemma blobPath_apart:
  assumes "\<And>k. length (sha k) = 32" "is_abs dir"
  shows "paths_apart \<lparr>cc_gz = gz, cc_path = blobPath sha dir, cc_enc = enc, cc_dec = dec\<rparr>"
  unfolding paths_apart_def
proof (intro allI notI)
  fix k k'
  assume "cc_path \<lparr>cc_gz = gz, cc_path = blobPath sha dir, cc_enc = enc, cc_dec = dec\<rparr> k =
    cc_path \<lparr>cc_gz = gz, cc_path = blobPath sha dir, cc_enc = enc, cc_dec = dec\<rparr> k' @ ''.meta''"
  then have "length (blobPath sha dir k) = length (blobPath sha dir k') + 5" by simp
  with blobPath_length [OF assms, where k = k and k' = k'] show False by simp
qed

section \<open>Every step preserves it\<close>

lemma sent_whole_mono: "sent_whole gunzip B f \<Longrightarrow> B \<subseteq> B' \<Longrightarrow> sent_whole gunzip B' f"
  by (auto simp: sent_whole_def)

lemma openCached_store:
  assumes "openCached dec broken now blob st = (r, st')"
  shows "st_file st' p = st_file st p \<or> (st_file st' p = None \<and> p = blob @ ''.meta'')"
    "r = Some (m, b) \<Longrightarrow> st_file st blob = Some b"
  using assms by (auto simp: openCached_def split: option.splits if_splits)

lemma openCached_store_inv:
  assumes "openCached dec broken now blob (cs_store s) = (r, st')" "store_inv cfg gunzip s"
    "cs_store s' = st'" "cs_bodies s \<subseteq> cs_bodies s'"
  shows "store_inv cfg gunzip s'"
  using openCached_store(1) [OF assms(1)] assms(2-4) sent_whole_mono
  unfolding store_inv_def by (metis option.distinct(1))

lemma fol_inv_mono:
  assumes "fol_inv gunzip s w" "cs_bodies s \<subseteq> cs_bodies s'"
    and "\<And>e. cs_entry s (fo_entry w) = Some e \<Longrightarrow> \<exists>e' xs. cs_entry s' (fo_entry w) = Some e' \<and> en_size e \<le> en_size e' \<and>
       cs_file s' (fo_entry w) = cs_file s (fo_entry w) @ xs \<and>
       (en_size e \<le> length (cs_file s (fo_entry w)) \<longrightarrow> en_size e' \<le> length (cs_file s' (fo_entry w)))"
  shows "fol_inv gunzip s' w"
proof (cases "fo_pc w")
  case FStream
  then obtain e where e: "cs_entry s (fo_entry w) = Some e" "fo_off w \<le> en_size e" "en_size e \<le> length (cs_file s (fo_entry w))"
    "fo_got w = take (fo_off w) (cs_file s (fo_entry w))"
    using assms(1) by (auto simp: fol_inv_def)
  with assms(3) [OF e(1)] FStream show ?thesis by (fastforce simp: fol_inv_def)
next
  case (FDone r)
  with assms(1) sent_whole_mono [OF _ assms(2)] show ?thesis by (auto simp: fol_inv_def split: option.splits)
qed (use assms(1,3) in \<open>auto simp: fol_inv_def\<close>)

lemma write_then_mono:
  assumes "write_then env pc od f = (d1, f1)"
  shows "\<exists>xs. f1 = f @ xs" "dn_key d1 = dn_key (snd od)" "dn_complete d1 = dn_complete (snd od)"
    "dn_pc d1 = pc \<or> dn_pc d1 = DDefer"
  using assms by (auto simp: write_then_def file_write_def Let_def fail_def split: prod.splits if_splits)

lemma chain_mono [simp]:
  "dn_key (snd (chain_write gz p d)) = dn_key d" "dn_key (snd (chain_flush gz d)) = dn_key d"
  "dn_key (snd (chain_close gz d)) = dn_key d" "dn_complete (snd (chain_write gz p d)) = dn_complete d"
  "dn_complete (snd (chain_flush gz d)) = dn_complete d" "dn_complete (snd (chain_close gz d)) = dn_complete d"
  by (auto simp: chain_write_def chain_flush_def chain_close_def split: prod.splits)

lemma after_chunk_mono [simp]:
  "dn_key (after_chunk r d) = dn_key d" "dn_complete (after_chunk r d) = dn_complete d"
  "dn_pc (after_chunk r d) \<in> {DRead, DClose, DDefer}"
  by (auto simp: after_chunk_def fail_def split: outcome.splits)

lemma down_step_mono:
  assumes "flight_inv gz gunzip d e f" "down_step gz env d e f = (d', e', f')" "\<not> is_shared (dn_pc d)"
  shows "\<exists>xs. f' = f @ xs" "en_size e \<le> en_size e'" "dn_key d' = dn_key d"
    "dn_complete d' \<Longrightarrow> dn_pc d \<in> {DLastPublish, DDefer}"
    "dn_pc d \<in> {DLastPublish, DDefer} \<Longrightarrow> dn_complete d' = (dn_complete d \<or> dn_pc d = DLastPublish) \<and>
       dn_compress d' = dn_compress d \<and> dn_body d' = dn_body d"
    "dn_pc d' \<noteq> DUnlink \<and> dn_pc d' \<noteq> DRelease"
proof -
  have pc: "pc_inv gz gunzip d e f" and n: "dn_n d = length f" "en_size e \<le> length f"
    using assms(1) by (auto simp: flight_inv_def)
  have "(\<exists>xs. f' = f @ xs) \<and> en_size e \<le> en_size e' \<and> dn_key d' = dn_key d \<and>
    (dn_complete d' \<longrightarrow> dn_pc d \<in> {DLastPublish, DDefer}) \<and>
    (dn_pc d \<in> {DLastPublish, DDefer} \<longrightarrow> dn_complete d' = (dn_complete d \<or> dn_pc d = DLastPublish) \<and>
       dn_compress d' = dn_compress d \<and> dn_body d' = dn_body d) \<and>
    dn_pc d' \<noteq> DUnlink \<and> dn_pc d' \<noteq> DRelease"
  proof (cases "dn_pc d")
    case DFetch
    with assms(2) pc show ?thesis by (auto simp: down_step_def pc_inv_def fail_def split: sum.splits)
  next
    case DCreate
    with assms(2) pc show ?thesis by (auto simp: down_step_def pc_inv_def fail_def Let_def split: if_splits)
  next
    case DReady
    with assms(2) pc show ?thesis by (auto simp: down_step_def pc_inv_def)
  next
    case DRead
    obtain bs r where "fe_read env = (bs, r)" by fastforce
    with DRead assms(2) pc show ?thesis
      by (cases "bs = []"; cases r) (auto simp: down_step_def pc_inv_def after_chunk_def fail_def)
  next
    case (DWrite bs r)
    obtain d1 f1 where w: "write_then env (DFlush r) (chain_write gz bs d) f = (d1, f1)" by fastforce
    from write_then_mono [OF w] w DWrite assms(2) pc show ?thesis by (auto simp: down_step_def pc_inv_def)
  next
    case (DFlush r)
    obtain d1 f1 where w: "write_then env (DPublish r) (chain_flush gz d) f = (d1, f1)" by fastforce
    from write_then_mono [OF w] w DFlush assms(2) pc show ?thesis by (auto simp: down_step_def pc_inv_def)
  next
    case (DPublish r)
    with assms(2) pc n show ?thesis
      by (cases r) (auto simp: down_step_def pc_inv_def after_chunk_def fail_def)
  next
    case DClose
    obtain d1 f1 where w: "write_then env DLastFlush (chain_close gz d) f = (d1, f1)" by fastforce
    from write_then_mono [OF w] w DClose assms(2) pc show ?thesis by (auto simp: down_step_def pc_inv_def)
  next
    case DLastFlush
    obtain d1 f1 where w: "write_then env DLastPublish (dn_buf d, d\<lparr>dn_buf := []\<rparr>) f = (d1, f1)" by fastforce
    from write_then_mono [OF w] w DLastFlush assms(2) pc show ?thesis by (auto simp: down_step_def pc_inv_def)
  next
    case DLastPublish
    with assms(2) n show ?thesis by (auto simp: down_step_def)
  next
    case DDefer
    with assms(2) show ?thesis by (auto simp: down_step_def)
  qed (use assms(3) in \<open>simp_all add: is_shared_set\<close>)
  then show "\<exists>xs. f' = f @ xs" "en_size e \<le> en_size e'" "dn_key d' = dn_key d"
    "dn_complete d' \<Longrightarrow> dn_pc d \<in> {DLastPublish, DDefer}"
    "dn_pc d \<in> {DLastPublish, DDefer} \<Longrightarrow> dn_complete d' = (dn_complete d \<or> dn_pc d = DLastPublish) \<and>
       dn_compress d' = dn_compress d \<and> dn_body d' = dn_body d"
    "dn_pc d' \<noteq> DUnlink \<and> dn_pc d' \<noteq> DRelease" by blast+
qed

lemma whole_sent: "(c, body) \<in> B \<Longrightarrow> whole gunzip c body f \<Longrightarrow> sent_whole gunzip B f"
  by (auto simp: sent_whole_def)

lemma flights_at:
  assumes "flights_inv cfg gunzip s" "cs_down s i = Some d" "cs_entry s i = Some e"
  shows "flight_inv (cc_gz cfg) gunzip d e (cs_file s i)"
    "dn_complete d \<longrightarrow> (dn_compress d, dn_body d) \<in> cs_bodies s"
proof -
  from assms(1,2) obtain e2 where "cs_entry s i = Some e2" "flight_inv (cc_gz cfg) gunzip d e2 (cs_file s i)"
    "dn_complete d \<longrightarrow> (dn_compress d, dn_body d) \<in> cs_bodies s"
    unfolding flights_inv_def by blast
  with assms(3) show "flight_inv (cc_gz cfg) gunzip d e (cs_file s i)"
    "dn_complete d \<longrightarrow> (dn_compress d, dn_body d) \<in> cs_bodies s" by simp_all
qed

lemma table_at:
  assumes "table_inv s" "cs_inflight s k = Some i" "cs_down s i = Some d"
  shows "dn_key d = k" "dn_pc d \<notin> {DUnlink, DRelease}"
proof -
  from assms(1,2) obtain d2 where "cs_down s i = Some d2" "dn_key d2 = k" "dn_pc d2 \<notin> {DUnlink, DRelease}"
    unfolding table_inv_def by blast
  with assms(3) show "dn_key d = k" "dn_pc d \<notin> {DUnlink, DRelease}" by simp_all
qed

lemma table_upd:
  assumes t: "table_inv s" and d: "cs_down s i = Some d" and key: "dn_key d' = dn_key d"
    and pc: "dn_pc d' \<notin> {DUnlink, DRelease} \<or> (\<forall>k. cs_inflight s k \<noteq> Some i)"
    and live: "\<not> ended (dn_pc d') \<Longrightarrow> cs_inflight s (dn_key d) = Some i"
    and s': "cs_down s' = (cs_down s)(i \<mapsto> d')" "cs_inflight s' = cs_inflight s"
  shows "table_inv s'"
  unfolding table_inv_def
proof (intro conjI allI impI)
  fix k j
  assume k: "cs_inflight s' k = Some j"
  show "\<exists>x. cs_down s' j = Some x \<and> dn_key x = k \<and> dn_pc x \<notin> {DUnlink, DRelease}"
  proof (cases "j = i")
    case True
    with k s' table_at(1) [OF t _ d] key pc show ?thesis by auto
  next
    case False
    with k s' t show ?thesis by (simp add: table_inv_def)
  qed
next
  fix j x
  assume x: "cs_down s' j = Some x" "\<not> ended (dn_pc x)"
  show "cs_inflight s' (dn_key x) = Some j"
  proof (cases "j = i")
    case True
    with x s' live key show ?thesis by simp
  next
    case False
    with x s' t show ?thesis by (simp add: table_inv_def)
  qed
qed

text \<open>A finished entry without an error holds a whole body, whether or not its download still
  runs its last steps.\<close>

lemma done_whole:
  assumes "flights_inv cfg gunzip s" "entries_inv gunzip s" "cs_entry s i = Some e" "en_done e" "en_err e = None"
  shows "en_size e = length (cs_file s i) \<and> sent_whole gunzip (cs_bodies s) (cs_file s i)"
proof (cases "cs_down s i")
  case None
  with assms show ?thesis by (auto simp: entries_inv_def)
next
  case (Some d)
  note f = flights_at(1) [OF assms(1) Some assms(3)] and b = flights_at(2) [OF assms(1) Some assms(3)]
  from f have "dn_complete d \<and> settled gunzip d e (cs_file s i)"
    using assms(4,5) by (cases "dn_pc d") (auto simp: flight_inv_def pc_inv_def ended_def)
  with b show ?thesis by (auto simp: settled_def intro: whole_sent)
qed

lemma alone_inv:
  assumes inv: "cache_inv cfg gunzip s" and gz: "gz_contract (cc_gz cfg) gunzip"
    and d: "cs_down s i = Some d" and e: "cs_entry s i = Some e" and ns: "\<not> is_shared (dn_pc d)"
    and st: "down_step (cc_gz cfg) env d e (cs_file s i) = (d', e', f')"
  shows "cache_inv cfg gunzip (s\<lparr>cs_down := (cs_down s)(i \<mapsto> d'), cs_entry := (cs_entry s)(i \<mapsto> e'),
       cs_file := (cs_file s)(i := f'),
       cs_bodies := (if dn_pc d = DLastPublish then insert (dn_compress d, dn_body d) (cs_bodies s) else cs_bodies s)\<rparr>)"
    (is "cache_inv cfg gunzip ?s")
proof -
  have fi: "flights_inv cfg gunzip s" using inv by (simp add: cache_inv_def)
  note fl = flights_at(1) [OF fi d e] and bd = flights_at(2) [OF fi d e]
  note fl' = down_step_inv [OF gz fl ns st] and mono = down_step_mono [OF fl st ns]
  have B: "cs_bodies s \<subseteq> cs_bodies ?s" by auto
  have "slots_inv ?s" using inv d by (simp add: cache_inv_def slots_inv_def insert_absorb domIff)
  moreover have "table_inv ?s"
  proof -
    have t: "table_inv s" using inv by (simp add: cache_inv_def)
    have "\<not> ended (dn_pc d)" using ns by (auto simp: ended_def is_shared_set)
    then have "cs_inflight s (dn_key d) = Some i" using t d by (auto simp: table_inv_def)
    then show ?thesis by (intro table_upd [OF t d mono(3)]) (use mono(6) in auto)
  qed
  moreover have "flights_inv cfg gunzip ?s"
  proof -
    have "(dn_compress d', dn_body d') \<in> cs_bodies ?s" if c: "dn_complete d'"
    proof -
      from mono(4) [OF c] mono(5) c bd show ?thesis by auto
    qed
    with fl' inv show ?thesis by (auto simp: cache_inv_def flights_inv_def)
  qed
  moreover have "entries_inv gunzip ?s"
    using inv sent_whole_mono [OF _ B] d by (fastforce simp: cache_inv_def entries_inv_def)
  moreover have "store_inv cfg gunzip ?s"
    using inv sent_whole_mono [OF _ B] by (fastforce simp: cache_inv_def store_inv_def)
  moreover have "fols_inv gunzip ?s"
  proof -
    have "fol_inv gunzip ?s w" if "fol_inv gunzip s w" for w
    proof (rule fol_inv_mono [OF that B])
      fix e1
      assume e1: "cs_entry s (fo_entry w) = Some e1"
      show "\<exists>e' xs. cs_entry ?s (fo_entry w) = Some e' \<and> en_size e1 \<le> en_size e' \<and>
         cs_file ?s (fo_entry w) = cs_file s (fo_entry w) @ xs \<and>
         (en_size e1 \<le> length (cs_file s (fo_entry w)) \<longrightarrow> en_size e' \<le> length (cs_file ?s (fo_entry w)))"
      proof (cases "fo_entry w = i")
        case True
        obtain xs where "f' = cs_file s i @ xs" using mono(1) by blast
        with True e e1 mono(2) fl' show ?thesis by (auto simp: flight_inv_def)
      next
        case False
        with e1 show ?thesis by auto
      qed
    qed
    with inv show ?thesis by (auto simp: cache_inv_def fols_inv_def)
  qed
  ultimately show ?thesis by (simp add: cache_inv_def)
qed

text \<open>Steps that leave entries, files and bodies alone.\<close>

lemma fols_same:
  assumes "fols_inv gunzip s" "cs_entry s' = cs_entry s" "cs_file s' = cs_file s" "cs_bodies s' = cs_bodies s"
    "cs_fol s' = cs_fol s"
  shows "fols_inv gunzip s'"
  using assms by (simp add: fols_inv_def fol_inv_def cong: fol_pc.case_cong option.case_cong)

lemma store_shrink_inv:
  assumes "store_inv cfg gunzip s"
    "\<And>p. st_file st p = st_file (cs_store s) p \<or> st_file st p = None \<or> (\<exists>k. p = cc_path cfg k @ ''.meta'')"
    "paths_apart cfg" "cs_store s' = st" "cs_bodies s' = cs_bodies s"
  shows "store_inv cfg gunzip s'"
  using assms unfolding store_inv_def paths_apart_def by (metis option.distinct(1))

lemma flight_pc:
  assumes "flight_inv gz gunzip d e f" "dn_pc d \<in> {DRename, DMeta}"
  shows "settled gunzip d e f" "dn_complete d" "\<not> en_done e" "en_err e = None" "dn_n d = length f"
  using assms by (auto simp: flight_inv_def pc_inv_def ended_def)

definition moves :: "'z down \<Rightarrow> 'z down \<Rightarrow> bool" where
  "moves d d' \<longleftrightarrow>
     (dn_pc d = DRename \<and> (d' = fail ERenameBlob d \<or> d' = d\<lparr>dn_pc := DMeta\<rparr>)) \<or>
     (dn_pc d = DMeta \<and> (d' = d\<lparr>dn_tmp := False, dn_pc := DDefer\<rparr> \<or> d' = fail EWriteMeta d)) \<or>
     (dn_pc d = DForget \<and> d' = d\<lparr>dn_pc := DUnlink\<rparr>) \<or>
     (dn_pc d = DUnlink \<and> d' = d\<lparr>dn_tmp := False, dn_pc := DRelease\<rparr>)"

lemma flight_move:
  assumes "flight_inv gz gunzip d e f" "moves d d'"
  shows "flight_inv gz gunzip d' e f" "dn_key d' = dn_key d" "dn_complete d' = dn_complete d"
    "dn_compress d' = dn_compress d" "dn_body d' = dn_body d"
    "ended (dn_pc d') \<longleftrightarrow> ended (dn_pc d)"
proof -
  show "flight_inv gz gunzip d' e f"
    using assms(2,1) unfolding moves_def
    by (elim disjE conjE) (simp_all add: flight_inv_def pc_inv_def fail_def settled_def ended_def)
  show "dn_key d' = dn_key d" "dn_complete d' = dn_complete d"
    "dn_compress d' = dn_compress d" "dn_body d' = dn_body d" "ended (dn_pc d') \<longleftrightarrow> ended (dn_pc d)"
    using assms(2) unfolding moves_def by (elim disjE conjE; simp add: fail_def ended_def)+
qed

lemma moved_inv:
  assumes inv: "cache_inv cfg gunzip s" and d: "cs_down s i = Some d"
    and m: "flight_inv (cc_gz cfg) gunzip d' e (cs_file s i)" "dn_key d' = dn_key d" "dn_complete d' = dn_complete d"
      "dn_compress d' = dn_compress d" "dn_body d' = dn_body d" "ended (dn_pc d') \<longleftrightarrow> ended (dn_pc d)"
    and e: "cs_entry s i = Some e"
    and infl: "cs_inflight s' = cs_inflight s \<and> dn_pc d' \<notin> {DUnlink, DRelease} \<or>
       cs_inflight s' = (if cs_inflight s (dn_key d) = Some i then (cs_inflight s)(dn_key d := None) else cs_inflight s) \<and> ended (dn_pc d') \<or>
       cs_inflight s' = cs_inflight s \<and> dn_pc d \<in> {DUnlink, DRelease}"
    and s': "cs_down s' = (cs_down s)(i \<mapsto> d')" "cs_entry s' = cs_entry s" "cs_file s' = cs_file s"
      "cs_bodies s' = cs_bodies s" "cs_fol s' = cs_fol s" "cs_slots s' = cs_slots s"
    and st: "store_inv cfg gunzip s'"
  shows "cache_inv cfg gunzip s'"
proof -
  have t: "table_inv s" using inv by (simp add: cache_inv_def)
  have "slots_inv s'" using inv d s' by (simp add: cache_inv_def slots_inv_def insert_absorb domIff)
  moreover have "table_inv s'"
    using infl
  proof (elim disjE)
    assume a: "cs_inflight s' = cs_inflight s \<and> dn_pc d' \<notin> {DUnlink, DRelease}"
    have "\<not> ended (dn_pc d') \<Longrightarrow> cs_inflight s (dn_key d) = Some i"
      using t d m(6) by (simp add: table_inv_def)
    with a s'(1) show ?thesis by (intro table_upd [OF t d m(2)]) auto
  next
    assume a: "cs_inflight s' = (if cs_inflight s (dn_key d) = Some i then (cs_inflight s)(dn_key d := None) else cs_inflight s) \<and> ended (dn_pc d')"
    show ?thesis
    proof (cases "cs_inflight s (dn_key d) = Some i")
      case False
      then have none: "\<forall>k. cs_inflight s k \<noteq> Some i" using table_at(1) [OF t _ d] by auto
      show ?thesis by (rule table_upd [OF t d m(2)]) (use a False none s'(1) in simp_all)
    next
      case True
      then have i: "cs_inflight s' = (cs_inflight s)(dn_key d := None)" using a by simp
      show ?thesis
        unfolding table_inv_def
      proof (intro conjI allI impI)
        fix k j
        assume k: "cs_inflight s' k = Some j"
        then have "k \<noteq> dn_key d" "cs_inflight s k = Some j" using i by (auto split: if_splits)
        moreover from this have "j \<noteq> i" using table_at(1) [OF t _ d] by auto
        ultimately show "\<exists>x. cs_down s' j = Some x \<and> dn_key x = k \<and> dn_pc x \<notin> {DUnlink, DRelease}"
          using t s'(1) by (simp add: table_inv_def)
      next
        fix j x
        assume x: "cs_down s' j = Some x" "\<not> ended (dn_pc x)"
        then have "j \<noteq> i" using a s'(1) by auto
        with x s'(1) have "cs_inflight s (dn_key x) = Some j" using t by (simp add: table_inv_def)
        moreover from this have "dn_key x \<noteq> dn_key d" using True \<open>j \<noteq> i\<close> by auto
        ultimately show "cs_inflight s' (dn_key x) = Some j" using i by simp
      qed
    qed
  next
    assume a: "cs_inflight s' = cs_inflight s \<and> dn_pc d \<in> {DUnlink, DRelease}"
    then have "ended (dn_pc d')" using m(6) by (auto simp: ended_def)
    moreover have "cs_inflight s k = Some j \<Longrightarrow> j \<noteq> i" for k j
      using a table_at(2) [OF t _ d] by auto
    ultimately show ?thesis by (intro table_upd [OF t d m(2)]) (use a s'(1) in auto)
  qed
  moreover have "flights_inv cfg gunzip s'"
    using inv m(1-5) d e s' by (auto simp: cache_inv_def flights_inv_def)
  moreover have "entries_inv gunzip s'"
    using inv d s' by (auto simp: cache_inv_def entries_inv_def)
  moreover have "fols_inv gunzip s'"
    using fols_same inv s' unfolding cache_inv_def by blast
  ultimately show ?thesis using st by (simp add: cache_inv_def)
qed

lemma shared_inv:
  assumes inv: "cache_inv cfg gunzip s" and apart: "paths_apart cfg"
    and d: "cs_down s i = Some d" and sh: "is_shared (dn_pc d)"
  shows "cache_inv cfg gunzip (shared_step cfg env i d s)" (is "cache_inv cfg gunzip ?s")
proof -
  have fi: "flights_inv cfg gunzip s" and si: "store_inv cfg gunzip s" using inv by (auto simp: cache_inv_def)
  then obtain e where e: "cs_entry s i = Some e" using d by (auto simp: flights_inv_def)
  note fl = flights_at(1) [OF fi d e] and bd = flights_at(2) [OF fi d e]
  have pub: "dn_pc d \<in> {DRename, DMeta} \<Longrightarrow> sent_whole gunzip (cs_bodies s) (cs_file s i)"
    using flight_pc [OF fl] bd by (auto simp: settled_def intro: whole_sent)
  have not_meta: "cc_path cfg k \<noteq> cc_path cfg k' @ ''.meta''" for k k'
    using apart by (simp add: paths_apart_def)
  show ?thesis
  proof (cases "dn_pc d = DRelease")
    case True
    then have s': "?s = s\<lparr>cs_slots := cs_slots s - 1, cs_down := (cs_down s)(i := None)\<rparr>"
      by (simp add: shared_step_def Let_def)
    have t: "table_inv s" using inv by (simp add: cache_inv_def)
    have "slots_inv ?s"
    proof -
      have "i \<in> dom (cs_down s)" using d by auto
      then show ?thesis using inv by (auto simp: s' cache_inv_def slots_inv_def intro: le_trans [OF diff_le_self])
    qed
    moreover have "table_inv ?s"
    proof -
      have "cs_inflight s k = Some j \<Longrightarrow> j \<noteq> i" for k j using table_at(2) [OF t _ d] True by auto
      then show ?thesis using t by (auto simp: s' table_inv_def)
    qed
    moreover have "flights_inv cfg gunzip ?s" using fi by (auto simp: s' flights_inv_def)
    moreover have "entries_inv gunzip ?s"
    proof -
      have fin: "en_done e" "en_size e \<le> length (cs_file s i)"
        using fl True by (auto simp: flight_inv_def ended_def)
      have ei: "entries_inv gunzip s" using inv by (simp add: cache_inv_def)
      from fin done_whole [OF fi ei e fin(1)] e ei show ?thesis
        by (auto simp: s' entries_inv_def)
    qed
    moreover have "store_inv cfg gunzip ?s" using si by (simp add: s' store_inv_def)
    moreover have "fols_inv gunzip ?s"
      using fols_same [of gunzip s ?s] inv by (simp add: s' cache_inv_def)
    ultimately show ?thesis by (simp add: cache_inv_def)
  next
    case False
    have "\<exists>d'. moves d d' \<and> cs_down ?s = (cs_down s)(i \<mapsto> d') \<and> cs_entry ?s = cs_entry s \<and>
        cs_file ?s = cs_file s \<and> cs_bodies ?s = cs_bodies s \<and> cs_fol ?s = cs_fol s \<and> cs_slots ?s = cs_slots s \<and>
        (cs_inflight ?s = cs_inflight s \<and> dn_pc d' \<notin> {DUnlink, DRelease} \<or>
         cs_inflight ?s = (if cs_inflight s (dn_key d) = Some i then (cs_inflight s)(dn_key d := None) else cs_inflight s) \<and> ended (dn_pc d') \<or>
         cs_inflight ?s = cs_inflight s \<and> dn_pc d \<in> {DUnlink, DRelease}) \<and> store_inv cfg gunzip ?s"
    proof (cases "dn_pc d")
      case DRename
      have "store_inv cfg gunzip ?s"
        using DRename si pub by (auto simp: shared_step_def Let_def store_inv_def)
      with DRename show ?thesis by (auto simp: shared_step_def Let_def moves_def fail_def)
    next
      case DMeta
      have "store_inv cfg gunzip ?s"
        using DMeta si not_meta by (auto simp: shared_step_def Let_def store_inv_def)
      with DMeta show ?thesis by (auto simp: shared_step_def Let_def moves_def fail_def)
    next
      case DForget
      then show ?thesis using si by (auto simp: shared_step_def Let_def moves_def store_inv_def ended_def)
    next
      case DUnlink
      then show ?thesis using si by (auto simp: shared_step_def Let_def moves_def store_inv_def)
    qed (use sh False in \<open>simp_all add: is_shared_set\<close>)
    then obtain d' where d': "moves d d'" and s': "cs_down ?s = (cs_down s)(i \<mapsto> d')" "cs_entry ?s = cs_entry s"
        "cs_file ?s = cs_file s" "cs_bodies ?s = cs_bodies s" "cs_fol ?s = cs_fol s" "cs_slots ?s = cs_slots s"
        and infl: "cs_inflight ?s = cs_inflight s \<and> dn_pc d' \<notin> {DUnlink, DRelease} \<or>
         cs_inflight ?s = (if cs_inflight s (dn_key d) = Some i then (cs_inflight s)(dn_key d := None) else cs_inflight s) \<and> ended (dn_pc d') \<or>
         cs_inflight ?s = cs_inflight s \<and> dn_pc d \<in> {DUnlink, DRelease}"
        and st: "store_inv cfg gunzip ?s" by blast
    from moved_inv [OF inv d flight_move [OF fl d'] e infl s' st] show ?thesis .
  qed
qed

lemma entry_size:
  assumes "cache_inv cfg gunzip s" "cs_entry s i = Some e"
  shows "en_size e \<le> length (cs_file s i)"
proof (cases "cs_down s i")
  case None
  with assms show ?thesis by (auto simp: cache_inv_def entries_inv_def)
next
  case (Some d)
  have "flights_inv cfg gunzip s" using assms(1) by (simp add: cache_inv_def)
  from flights_at(1) [OF this Some assms(2)] show ?thesis by (simp add: flight_inv_def)
qed

lemma entry_read_ok:
  assumes "entry_read plen got bad gone e f off = r" "off \<le> en_size e" "en_size e \<le> length f"
  shows "r = Data bs \<Longrightarrow> take off f @ bs = take (off + length bs) f \<and> off + length bs \<le> en_size e"
    "r = AtEof \<Longrightarrow> off = en_size e \<and> en_done e \<and> en_err e = None"
proof -
  assume r: "r = Data bs"
  show "take off f @ bs = take (off + length bs) f \<and> off + length bs \<le> en_size e"
  proof (cases "plen = 0")
    case True
    with assms r show ?thesis by (simp add: entry_read_def)
  next
    case False
    with assms r have "off < en_size e" "bs = take got (take (min plen (en_size e - off)) (drop off f))"
      by (auto simp: entry_read_def Let_def split: if_splits option.splits)
    then obtain m where m: "bs = take m (drop off f)" "m \<le> en_size e - off" "off < en_size e"
      by (metis min.cobounded2 min.coboundedI2 take_take)
    have le: "length bs \<le> m" using m(1) by simp
    have "take (length bs) (drop off f) = bs"
      unfolding m(1) by (cases "m \<le> length (drop off f)") simp_all
    then have "take off f @ bs = take (off + length bs) f" by (simp add: take_add)
    with le m(2,3) show ?thesis by simp
  qed
next
  assume "r = AtEof"
  with assms show "off = en_size e \<and> en_done e \<and> en_err e = None"
    by (auto simp: entry_read_def Let_def split: if_splits option.splits)
qed

lemma follow_inv:
  assumes inv: "cache_inv cfg gunzip s" and apart: "paths_apart cfg" and w: "cs_fol s j = Some w"
    and e: "cs_entry s (fo_entry w) = Some e"
    and st: "follow_step cfg broken now plen got bad gone dup_ok e (cs_file s (fo_entry w)) (cs_store s) w = (w', st')"
  shows "cache_inv cfg gunzip (s\<lparr>cs_fol := (cs_fol s)(j \<mapsto> w'), cs_store := st'\<rparr>)" (is "cache_inv cfg gunzip ?s")
proof -
  have si: "store_inv cfg gunzip s" and fi: "flights_inv cfg gunzip s" and ei: "entries_inv gunzip s"
    and wi: "fol_inv gunzip s w" using inv w by (auto simp: cache_inv_def fols_inv_def)
  note sz = entry_size [OF inv e]
  obtain r st1 where oc: "openCached (cc_dec cfg) broken now (cc_path cfg (fo_key w)) (cs_store s) = (r, st1)" by fastforce
  have st': "st' = cs_store s \<or> st' = st1"
    using st oc by (auto simp: follow_step_def split: fol_pc.splits option.splits prod.splits)
  have store: "store_inv cfg gunzip ?s"
    using st'
  proof
    assume "st' = st1"
    then show ?thesis using openCached_store_inv [OF oc si, of ?s] by simp
  qed (use si in \<open>simp add: store_inv_def\<close>)
  have "fol_inv gunzip s w'"
  proof (cases "fo_pc w")
    case FWait
    then have w0: "fo_off w = 0" "fo_got w = []" using wi by (auto simp: fol_inv_def)
    from FWait st have w': "w' = w \<or> (\<exists>x. w' = w\<lparr>fo_pc := FDone (Some x)\<rparr>) \<or> w' = w\<lparr>fo_pc := FDisk\<rparr> \<or>
        w' = w\<lparr>fo_meta := en_meta e, fo_pc := FStream\<rparr>"
      by (auto simp: follow_step_def split: if_splits option.splits)
    with wi w0 e sz show ?thesis by (elim disjE exE) (simp_all add: fol_inv_def)
  next
    case FDisk
    show ?thesis
    proof (cases r)
      case None
      with FDisk st oc have "w' = w\<lparr>fo_pc := FDone (Some FNotPublished)\<rparr>" by (simp add: follow_step_def)
      then show ?thesis by (simp add: fol_inv_def)
    next
      case (Some mb)
      obtain m b where mb: "mb = (m, b)" by (cases mb)
      with Some FDisk st oc have "w' = w\<lparr>fo_pc := FDone None, fo_meta := m, fo_got := b\<rparr>" by (simp add: follow_step_def)
      moreover have "st_file (cs_store s) (cc_path cfg (fo_key w)) = Some b"
        using openCached_store(2) [OF oc] Some mb by simp
      ultimately show ?thesis using si by (simp add: fol_inv_def store_inv_def)
    qed
  next
    case FStream
    then have o: "fo_off w \<le> en_size e" "fo_got w = take (fo_off w) (cs_file s (fo_entry w))"
      using wi e by (auto simp: fol_inv_def)
    obtain rd where rd: "entry_read plen got bad gone e (cs_file s (fo_entry w)) (fo_off w) = rd" by blast
    note ok = entry_read_ok [OF rd o(1) sz]
    show ?thesis
    proof (cases rd)
      case (Data bs)
      with FStream st rd have "w' = w\<lparr>fo_off := fo_off w + length bs, fo_got := fo_got w @ bs\<rparr>"
        by (simp add: follow_step_def)
      with ok(1) [OF Data] o e sz FStream show ?thesis by (simp add: fol_inv_def)
    next
      case AtEof
      with FStream st rd have w': "w' = w\<lparr>fo_pc := FDone None\<rparr>" by (simp add: follow_step_def)
      from ok(2) [OF AtEof] done_whole [OF fi ei e] o(2) have
        "sent_whole gunzip (cs_bodies s) (fo_got w)" by simp
      with w' show ?thesis by (simp add: fol_inv_def)
    qed (use FStream st rd wi in \<open>auto simp: follow_step_def fol_inv_def\<close>)
  next
    case (FDone x)
    with st wi show ?thesis by (simp add: follow_step_def)
  qed
  then have "fol_inv gunzip ?s w'" by (simp add: fol_inv_def cong: fol_pc.case_cong option.case_cong)
  moreover have "fol_inv gunzip s x \<Longrightarrow> fol_inv gunzip ?s x" for x
    by (simp add: fol_inv_def cong: fol_pc.case_cong option.case_cong)
  ultimately have "fols_inv gunzip ?s" using inv by (auto simp: cache_inv_def fols_inv_def)
  with store inv show ?thesis
    by (simp add: cache_inv_def slots_inv_def table_inv_def flights_inv_def entries_inv_def)
qed

lemma fols_add:
  assumes "fols_inv gunzip s" "fol_inv gunzip s w" "cs_entry t = cs_entry s" "cs_file t = cs_file s"
    "cs_bodies t = cs_bodies s" "cs_fol t = (cs_fol s)(j \<mapsto> w)"
  shows "fols_inv gunzip t"
proof -
  have "fol_inv gunzip s x \<Longrightarrow> fol_inv gunzip t x" for x
    using assms(3-5) by (simp add: fol_inv_def cong: fol_pc.case_cong option.case_cong)
  with assms(1,2,6) show ?thesis by (auto simp: fols_inv_def)
qed

lemma serve_inv:
  assumes inv: "cache_inv cfg gunzip s" and gz: "gz_contract (cc_gz cfg) gunzip"
    and j: "cs_fol s j = None" and i: "cs_entry s i = None"
    and sv: "Serve cfg broken now j i key hostName s = Some s'"
  shows "cache_inv cfg gunzip s'"
proof -
  have si: "store_inv cfg gunzip s" and fi: "flights_inv cfg gunzip s" and ei: "entries_inv gunzip s"
    and ti: "table_inv s" and fo: "fols_inv gunzip s" and sl: "slots_inv s" using inv by (auto simp: cache_inv_def)
  obtain r st1 where oc: "openCached (cc_dec cfg) broken now (cc_path cfg key) (cs_store s) = (r, st1)" by fastforce
  have st1: "store_inv cfg gunzip (s\<lparr>cs_store := st1\<rparr>)" using openCached_store_inv [OF oc si] by simp
  define live where "live = (case cs_inflight s key of None \<Rightarrow> None
     | Some k \<Rightarrow> (case cs_entry s k of None \<Rightarrow> None | Some e \<Rightarrow> if en_done e then None else Some k))"
  consider (hit) m b where "r = Some (m, b)" "s' = s\<lparr>cs_store := st1, cs_fol := (cs_fol s)(j \<mapsto>
        (new_follower i key ''HIT'')\<lparr>fo_pc := FDone None, fo_meta := m, fo_got := b\<rparr>)\<rparr>"
    | (join) k where "live = Some k" "s' = s\<lparr>cs_store := st1, cs_fol := (cs_fol s)(j \<mapsto> new_follower k key ''COALESCED'')\<rparr>"
    | (lead) "live = None" "cs_slots s < maxConcurrentDownloads" "s' = s\<lparr>cs_store := st1, cs_slots := cs_slots s + 1,
         cs_entry := (cs_entry s)(i \<mapsto> newCacheEntry), cs_inflight := (cs_inflight s)(key \<mapsto> i),
         cs_file := (cs_file s)(i := []), cs_down := (cs_down s)(i \<mapsto> new_down cfg key hostName),
         cs_fol := (cs_fol s)(j \<mapsto> new_follower i key ''MISS'')\<rparr>"
    using sv oc by (cases r) (auto simp: Serve_def Let_def live_def [symmetric] split: option.splits if_splits)
  then show ?thesis
  proof cases
    case hit
    have "st_file (cs_store s) (cc_path cfg key) = Some b" using openCached_store(2) [OF oc] hit(1) by simp
    then have "sent_whole gunzip (cs_bodies s) b" using si by (simp add: store_inv_def)
    then have "fols_inv gunzip s'"
      by (intro fols_add [OF fo, of "(new_follower i key ''HIT'')\<lparr>fo_pc := FDone None, fo_meta := m, fo_got := b\<rparr>"])
        (simp_all add: hit(2) fol_inv_def)
    then show ?thesis using inv st1 hit(2)
      by (simp add: cache_inv_def slots_inv_def table_inv_def flights_inv_def entries_inv_def store_inv_def)
  next
    case join
    have "cs_entry s k \<noteq> None" using join(1) by (auto simp: live_def split: option.splits if_splits)
    then have "fols_inv gunzip s'"
      by (intro fols_add [OF fo, of "new_follower k key ''COALESCED''"]) (simp_all add: join(2) fol_inv_def new_follower_def)
    then show ?thesis using inv st1 join(2)
      by (simp add: cache_inv_def slots_inv_def table_inv_def flights_inv_def entries_inv_def store_inv_def)
  next
    case lead
    have di: "cs_down s i = None" using fi i unfolding flights_inv_def by (metis not_None_eq option.distinct(1))
    have "slots_inv s'" using sl lead(2,3) di by (simp add: slots_inv_def domIff)
    moreover have "table_inv s'"
    proof -
      have old: "cs_inflight s k = Some m \<Longrightarrow> m \<noteq> i" for k m
        using ti di unfolding table_inv_def by (metis option.distinct(1))
      have dead: "dn_key d \<noteq> key" if d: "cs_down s m = Some d" "\<not> ended (dn_pc d)" for m d
      proof
        assume k: "dn_key d = key"
        then have "cs_inflight s key = Some m" using ti d by (auto simp: table_inv_def)
        moreover obtain e where e: "cs_entry s m = Some e" using fi d(1) by (auto simp: flights_inv_def)
        moreover have "\<not> en_done e" using flights_at(1) [OF fi d(1) e] d(2) by (simp add: flight_inv_def)
        ultimately show False using lead(1) by (simp add: live_def)
      qed
      show ?thesis
        unfolding table_inv_def lead(3)
        using ti old dead by (auto simp: table_inv_def new_down_def)
    qed
    moreover have "flights_inv cfg gunzip s'"
    proof -
      have "flight_inv (cc_gz cfg) gunzip (new_down cfg key hostName) newCacheEntry []"
        by (simp add: flight_inv_def pc_inv_def new_down_def newCacheEntry_def ended_def)
      then show ?thesis using fi i unfolding flights_inv_def lead(3) by (auto simp: new_down_def)
    qed
    moreover have "entries_inv gunzip s'" using ei by (auto simp: entries_inv_def lead(3))
    moreover have "store_inv cfg gunzip s'" using st1 by (simp add: store_inv_def lead(3))
    moreover have "fols_inv gunzip s'"
    proof -
      have "fol_inv gunzip s' x" if x: "fol_inv gunzip s x" for x
      proof (rule fol_inv_mono [OF x])
        show "cs_bodies s \<subseteq> cs_bodies s'" by (simp add: lead(3))
        show "\<exists>e' xs. cs_entry s' (fo_entry x) = Some e' \<and> en_size e \<le> en_size e' \<and>
           cs_file s' (fo_entry x) = cs_file s (fo_entry x) @ xs \<and>
           (en_size e \<le> length (cs_file s (fo_entry x)) \<longrightarrow> en_size e' \<le> length (cs_file s' (fo_entry x)))"
          if "cs_entry s (fo_entry x) = Some e" for e
          using that i by (auto simp: lead(3))
      qed
      moreover have "fol_inv gunzip s' (new_follower i key ''MISS'')"
        by (simp add: fol_inv_def new_follower_def lead(3))
      ultimately show ?thesis using fo by (auto simp: fols_inv_def lead(3))
    qed
    ultimately show ?thesis by (simp add: cache_inv_def)
  qed
qed

lemma cache_step_inv:
  assumes "cache_step cfg s s'" "gz_contract (cc_gz cfg) gunzip" "paths_apart cfg" "cache_inv cfg gunzip s"
  shows "cache_inv cfg gunzip s'"
  using assms
proof (induction rule: cache_step.induct)
  case serve
  then show ?case using serve_inv by blast
next
  case alone
  then show ?case using alone_inv by blast
next
  case shared
  then show ?case using shared_inv by blast
next
  case follow
  then show ?case using follow_inv by blast
next
  case (evict s p)
  then show ?case
    using fols_same [of gunzip s "s\<lparr>cs_store := (cs_store s)\<lparr>st_file := (st_file (cs_store s))(p := None)\<rparr>\<rparr>"]
    by (auto simp: cache_inv_def slots_inv_def table_inv_def flights_inv_def entries_inv_def store_inv_def)
qed

lemma cache_reach_inv:
  assumes "cache_reach cfg s s'" "gz_contract (cc_gz cfg) gunzip" "paths_apart cfg" "cache_inv cfg gunzip s"
  shows "cache_inv cfg gunzip s'"
  using assms(1) unfolding cache_reach_def
  by (induction rule: rtranclp_induct) (use assms cache_step_inv in auto)

section \<open>Properties\<close>

text \<open>A cache that has just started on a directory whose blobs are whole.\<close>

definition fresh_cache :: "'z cache_cfg \<Rightarrow> (bytes \<Rightarrow> bytes option) \<Rightarrow> 'z cache \<Rightarrow> bool" where
  "fresh_cache cfg gunzip s \<longleftrightarrow> cs_slots s = 0 \<and> cs_inflight s = Map.empty \<and> cs_entry s = Map.empty \<and>
     cs_down s = Map.empty \<and> cs_fol s = Map.empty \<and> store_inv cfg gunzip s"

lemma fresh_cache_inv: "fresh_cache cfg gunzip s \<Longrightarrow> cache_inv cfg gunzip s"
  by (simp add: fresh_cache_def cache_inv_def slots_inv_def table_inv_def flights_inv_def entries_inv_def fols_inv_def)

subsection \<open>A run to evaluate\<close>

definition run_down :: "'z cache_cfg \<Rightarrow> nat \<Rightarrow> fenv \<Rightarrow> 'z cache \<Rightarrow> 'z cache" where
  "run_down cfg i env s = (case cs_down s i of
     None \<Rightarrow> s
   | Some d \<Rightarrow>
       if is_shared (dn_pc d) then shared_step cfg env i d s
       else (case cs_entry s i of None \<Rightarrow> s
         | Some e \<Rightarrow> (case down_step (cc_gz cfg) env d e (cs_file s i) of (d', e', f') \<Rightarrow>
             s\<lparr>cs_down := (cs_down s)(i \<mapsto> d'), cs_entry := (cs_entry s)(i \<mapsto> e'), cs_file := (cs_file s)(i := f'),
               cs_bodies := (case dn_pc d of DLastPublish \<Rightarrow> insert (dn_compress d, dn_body d) (cs_bodies s) | _ \<Rightarrow> cs_bodies s)\<rparr>)))"

definition run_fol :: "'z cache_cfg \<Rightarrow> nat \<Rightarrow> nat \<Rightarrow> 'z cache \<Rightarrow> 'z cache" where
  "run_fol cfg j plen s = (case cs_fol s j of
     None \<Rightarrow> s
   | Some w \<Rightarrow> (case cs_entry s (fo_entry w) of None \<Rightarrow> s
       | Some e \<Rightarrow> (case follow_step cfg (\<lambda>_. False) 0 plen plen False False True e (cs_file s (fo_entry w)) (cs_store s) w of
           (w', st') \<Rightarrow> s\<lparr>cs_fol := (cs_fol s)(j \<mapsto> w'), cs_store := st'\<rparr>)))"

definition run_serve :: "'z cache_cfg \<Rightarrow> nat \<Rightarrow> nat \<Rightarrow> string \<Rightarrow> 'z cache \<Rightarrow> 'z cache" where
  "run_serve cfg j i key s =
     (case (cs_fol s j, cs_entry s i) of
        (None, None) \<Rightarrow> (case Serve cfg (\<lambda>_. False) 0 j i key ''host'' s of None \<Rightarrow> s | Some s' \<Rightarrow> s')
      | _ \<Rightarrow> s)"

lemma run_reach:
  "cache_reach cfg s (run_down cfg i env s)" "cache_reach cfg s (run_fol cfg j plen s)"
  "cache_reach cfg s (run_serve cfg j i key s)"
proof -
  have refl: "cache_reach cfg s s" by (simp add: cache_reach_def)
  have one: "cache_step cfg s t \<Longrightarrow> cache_reach cfg s t" for t by (simp add: cache_reach_def)
  show "cache_reach cfg s (run_down cfg i env s)"
  proof (cases "cs_down s i")
    case (Some d)
    show ?thesis
    proof (cases "is_shared (dn_pc d)")
      case True
      with Some one [OF cache_step.shared [OF Some True]] show ?thesis by (simp add: run_down_def)
    next
      case False
      show ?thesis
      proof (cases "cs_entry s i")
        case (Some e)
        obtain d' e' f' where st: "down_step (cc_gz cfg) env d e (cs_file s i) = (d', e', f')"
          by (cases "down_step (cc_gz cfg) env d e (cs_file s i)") auto
        have "(case dn_pc d of DLastPublish \<Rightarrow> insert (dn_compress d, dn_body d) (cs_bodies s) | _ \<Rightarrow> cs_bodies s) =
          (if dn_pc d = DLastPublish then insert (dn_compress d, dn_body d) (cs_bodies s) else cs_bodies s)"
          by (cases "dn_pc d") simp_all
        with one [OF cache_step.alone [OF \<open>cs_down s i = Some d\<close> Some False st]] \<open>cs_down s i = Some d\<close> False Some st
        show ?thesis by (simp add: run_down_def)
      qed (use False \<open>cs_down s i = Some d\<close> refl in \<open>simp add: run_down_def\<close>)
    qed
  qed (simp add: run_down_def refl)
  show "cache_reach cfg s (run_fol cfg j plen s)"
  proof (cases "cs_fol s j")
    case (Some w)
    show ?thesis
    proof (cases "cs_entry s (fo_entry w)")
      case (Some e)
      obtain w' st' where st: "follow_step cfg (\<lambda>_. False) 0 plen plen False False True e (cs_file s (fo_entry w)) (cs_store s) w = (w', st')"
        by fastforce
      with one [OF cache_step.follow [OF \<open>cs_fol s j = Some w\<close> Some st]] \<open>cs_fol s j = Some w\<close> Some
      show ?thesis by (simp add: run_fol_def)
    qed (use Some refl in \<open>simp add: run_fol_def\<close>)
  qed (simp add: run_fol_def refl)
  show "cache_reach cfg s (run_serve cfg j i key s)"
    using refl one [OF cache_step.serve] by (auto simp: run_serve_def split: option.splits)
qed

lemma reach_trans: "cache_reach cfg s t \<Longrightarrow> cache_reach cfg t u \<Longrightarrow> cache_reach cfg s u"
  unfolding cache_reach_def by (rule rtranclp_trans)

definition example_cfg :: "unit cache_cfg" where
  "example_cfg = \<lparr>cc_gz = \<lparr>gz_new = (), gz_write = (\<lambda>_ p. ((), [p])), gz_flush = (\<lambda>_. ((), [])), gz_close = (\<lambda>_. [])\<rparr>,
     cc_path = (\<lambda>_. ''/c/b''), cc_enc = (\<lambda>_. []), cc_dec = (\<lambda>_. None)\<rparr>"

definition example_cache :: "unit cache" where
  "example_cache = \<lparr>cs_slots = 0, cs_inflight = Map.empty, cs_entry = Map.empty, cs_file = (\<lambda>_. []),
     cs_down = Map.empty, cs_fol = Map.empty, cs_store = \<lparr>st_file = Map.empty, st_mtime = (\<lambda>_. 0)\<rparr>, cs_bodies = {}\<rparr>"

definition example_fenv :: "bytes \<Rightarrow> outcome \<Rightarrow> fenv" where
  "example_fenv bs r = \<lparr>fe_fetch = Inr \<lparr>up_status = 200, up_headers = (\<lambda>n. if n = ''content-encoding'' then ''gzip'' else [])\<rparr>,
     fe_read = (bs, r), fe_accept = None, fe_ok = True, fe_lower = (\<lambda>s. s), fe_trim = (\<lambda>s. s)\<rparr>"

datatype run_op = RServe nat nat string | RDown nat fenv | RFol nat nat

fun run_ops :: "'z cache_cfg \<Rightarrow> run_op list \<Rightarrow> 'z cache \<Rightarrow> 'z cache" where
  "run_ops cfg [] s = s"
| "run_ops cfg (RServe j i key # ops) s = run_ops cfg ops (run_serve cfg j i key s)"
| "run_ops cfg (RDown i env # ops) s = run_ops cfg ops (run_down cfg i env s)"
| "run_ops cfg (RFol j plen # ops) s = run_ops cfg ops (run_fol cfg j plen s)"

lemma run_ops_reach: "cache_reach cfg s (run_ops cfg ops s)"
proof (induction cfg ops s rule: run_ops.induct)
  case (1 cfg s)
  show ?case by (simp add: cache_reach_def)
qed (use reach_trans run_reach in \<open>metis run_ops.simps\<close>)+

text \<open>A leader and a joiner; the joiner streams while the body arrives in two chunks.\<close>

definition example_ops :: "run_op list" where
  "example_ops =
     [RServe 0 0 ''k'', RServe 1 1 ''k''] @
     replicate 7 (RDown 0 (example_fenv ''abc'' More)) @ [RFol 1 8, RFol 1 2] @
     replicate 7 (RDown 0 (example_fenv ''de'' Eof)) @ [RFol 1 8, RFol 1 2] @
     replicate 3 (RDown 0 (example_fenv [] Eof)) @ [RFol 1 8, RFol 1 8]"

definition example_run :: "unit cache" where
  "example_run = run_ops example_cfg example_ops example_cache"

lemma example_reach: "cache_reach example_cfg example_cache example_run"
  unfolding example_run_def by (rule run_ops_reach)

lemma example_gz: "gz_contract (cc_gz example_cfg) Some"
proof -
  have "gz_reach gz z i out \<Longrightarrow> gz = cc_gz example_cfg \<Longrightarrow> out = i" for gz :: "unit gzip" and z i out
    by (induction rule: gz_reach.induct) (auto simp: example_cfg_def)
  then show ?thesis by (auto simp: gz_contract_def example_cfg_def)
qed

lemma example_apart: "paths_apart example_cfg"
  by (simp add: paths_apart_def example_cfg_def)

lemma example_fresh_cache: "fresh_cache example_cfg Some example_cache"
  by (simp add: fresh_cache_def example_cache_def store_inv_def)

lemma example_got:
  "map_option (\<lambda>w. (fo_pc w, fo_got w, fo_status w)) (cs_fol example_run 1) = Some (FDone None, ''abcde'', ''COALESCED'')"
  "st_file (cs_store example_run) ''/c/b'' = Some ''abcde''" "cs_slots example_run = 1"
  by code_simp+





text \<open>C33. Downloads are bounded and coalesced: the slots taken are exactly the running
  downloads, never more than 32, and of two downloads of one key at most one has not finished
  its body, the one the table of downloads in flight offers to joiners.\<close>

theorem downloads_coalesced:
  assumes gz: "gz_contract (cc_gz cfg) gunzip" and apart: "paths_apart cfg"
    and fresh: "fresh_cache cfg gunzip s0" and r: "cache_reach cfg s0 s"
  shows "cs_slots s = card {i. cs_down s i \<noteq> None} \<and> cs_slots s \<le> 32 \<and>
    (\<forall>i k d e. cs_down s i = Some d \<longrightarrow> cs_entry s i = Some e \<longrightarrow> \<not> en_done e \<longrightarrow>
       cs_inflight s (dn_key d) = Some i)"
proof -
  have inv: "cache_inv cfg gunzip s" using cache_reach_inv [OF r gz apart fresh_cache_inv [OF fresh]] .
  then have fi: "flights_inv cfg gunzip s" and ti: "table_inv s" and si: "slots_inv s" by (auto simp: cache_inv_def)
  have "cs_inflight s (dn_key d) = Some i"
    if d: "cs_down s i = Some d" and e: "cs_entry s i = Some e" "\<not> en_done e" for i d e
  proof -
    have "\<not> ended (dn_pc d)" using flights_at(1) [OF fi d e(1)] e(2) by (simp add: flight_inv_def)
    with ti d show ?thesis by (simp add: table_inv_def)
  qed
  moreover have "dom (cs_down s) = {i. cs_down s i \<noteq> None}" by auto
  ultimately show ?thesis using si by (auto simp: slots_inv_def maxConcurrentDownloads_def)
qed

theorem downloads_coalesced_witness:
  "card {i. cs_down example_run i \<noteq> None} = 1"
  using downloads_coalesced [OF example_gz example_apart example_fresh_cache example_reach] example_got(3)
  by simp

text \<open>C34. A client is never left hanging once a download has ended, successfully or not: each
  further step of its \<open>follow\<close> ends the response, or takes it from waiting to reading, or
  delivers at least one more byte of the finitely many that were announced.\<close>

theorem follower_wakes:
  assumes gz: "gz_contract (cc_gz cfg) gunzip" and apart: "paths_apart cfg"
    and fresh: "fresh_cache cfg gunzip s0" and r: "cache_reach cfg s0 s"
    and w: "cs_fol s j = Some w" and e: "cs_entry s (fo_entry w) = Some e" "en_done e"
    and rd: "0 < plen" "0 < got"
    and st: "follow_step cfg broken now plen got bad gone dup_ok e (cs_file s (fo_entry w)) (cs_store s) w = (w', st')"
  shows "(\<exists>x. fo_pc w' = FDone x) \<or> (fo_pc w = FWait \<and> (fo_pc w' = FDisk \<or> fo_pc w' = FStream)) \<or>
    (fo_pc w = FStream \<and> fo_off w < fo_off w' \<and> fo_off w' \<le> en_size e)"
proof -
  have inv: "cache_inv cfg gunzip s" using cache_reach_inv [OF r gz apart fresh_cache_inv [OF fresh]] .
  then have wi: "fol_inv gunzip s w" using w by (auto simp: cache_inv_def fols_inv_def)
  show ?thesis
  proof (cases "fo_pc w")
    case FStream
    with wi e(1) have o: "fo_off w \<le> en_size e" "en_size e \<le> length (cs_file s (fo_entry w))"
      by (auto simp: fol_inv_def)
    obtain x where x: "entry_read plen got bad gone e (cs_file s (fo_entry w)) (fo_off w) = x" by blast
    note ok = entry_read_ok(1) [OF x o]
    have nw: "x \<noteq> Waits" "x \<noteq> Retries" "\<And>bs. x = Data bs \<Longrightarrow> bs \<noteq> []"
      using x e(2) rd by (auto simp: entry_read_def Let_def split: if_splits option.splits)
    show ?thesis
    proof (cases x)
      case (Data bs)
      with FStream st x have "w' = w\<lparr>fo_off := fo_off w + length bs, fo_got := fo_got w @ bs\<rparr>"
        by (simp add: follow_step_def)
      with ok [OF Data] nw(3) [OF Data] FStream show ?thesis by (cases bs) auto
    qed (use FStream st x nw in \<open>auto simp: follow_step_def\<close>)
  qed (use st e(2) in \<open>auto simp: follow_step_def split: if_splits option.splits prod.splits\<close>)
qed

theorem follower_wakes_witness:
  "\<exists>w e. cs_fol example_run 0 = Some w \<and> fo_pc w = FWait \<and> cs_entry example_run (fo_entry w) = Some e \<and> en_done e \<and>
    fo_pc (fst (follow_step example_cfg (\<lambda>_. False) 0 4 4 False False True e (cs_file example_run (fo_entry w))
      (cs_store example_run) w)) \<noteq> FWait"
proof -
  have "map_option (\<lambda>w. (fo_pc w, fo_entry w)) (cs_fol example_run 0) = Some (FWait, 0)"
    "map_option en_done (cs_entry example_run 0) = Some True"
    by code_simp+
  then obtain w e where w: "cs_fol example_run 0 = Some w" "fo_pc w = FWait" "fo_entry w = 0"
    "cs_entry example_run (fo_entry w) = Some e" "en_done e" by auto
  obtain w' st' where st: "follow_step example_cfg (\<lambda>_. False) 0 4 4 False False True e (cs_file example_run (fo_entry w))
      (cs_store example_run) w = (w', st')" by fastforce
  from follower_wakes [OF example_gz example_apart example_fresh_cache example_reach w(1,4,5) _ _ st] w(2)
  have "fo_pc w' \<noteq> FWait" by auto
  with w st show ?thesis by auto
qed

end
