(* ===== verification/Finder.thy ===== *)
theory Finder
  imports ProxyErr
begin

text \<open>
  \<open>cmd/proxy/finder.go\<close>: which upstream has a build ID. The tables of servers and delegates as
  the code declares them, \<open>Probe\<close> and the status of \<open>Fetch\<close>, \<open>tryAllServers\<close> as a machine whose
  probes answer in any order, the state read through the LRU and the database, the negative
  backoff of \<open>bgFindByBuildID\<close> and \<open>FindByBuildID\<close> with the source rules. The database is its
  latest row per build ID and fails when the environment says so.
\<close>

section \<open>Servers\<close>

record Server =
  srv_name :: string
  srv_url :: string
  srv_source :: int
  srv_down :: bool
  srv_via :: string

definition up_server :: "string \<Rightarrow> string \<Rightarrow> Server" where
  "up_server name url = \<lparr>srv_name = name, srv_url = url, srv_source = 1, srv_down = False, srv_via = []\<rparr>"

definition finder_servers :: "Server list" where
  "finder_servers =
    [up_server ''systemtap'' ''https://debuginfod.systemtap.org'',
     up_server ''opensuse'' ''https://debuginfod.opensuse.org'',
     up_server ''fedora'' ''https://debuginfod.fedoraproject.org'',
     up_server ''archlinux'' ''https://debuginfod.archlinux.org'',
     up_server ''artixlinux'' ''https://debuginfod.artixlinux.org'',
     up_server ''cachyos'' ''https://debuginfod.cachyos.org'',
     up_server ''centos'' ''https://debuginfod.centos.org'',
     \<lparr>srv_name = ''debian'', srv_url = ''https://debuginfod.debian.net'', srv_source = 0, srv_down = False,
       srv_via = ''debian-src''\<rparr>,
     \<lparr>srv_name = ''ubuntu'', srv_url = ''https://debuginfod.ubuntu.com'', srv_source = 0, srv_down = True,
       srv_via = []\<rparr>,
     up_server ''nix'' ''https://127.0.0.1:8034'']"

definition finder_delegates :: "Server list" where
  "finder_delegates = [up_server ''debian-src'' ''http://127.0.0.1:8036'']"

definition server_named :: "Server list \<Rightarrow> string \<Rightarrow> Server option" where
  "server_named tab name = find (\<lambda>s. srv_name s = name) tab"

section \<open>Asking one upstream\<close>

record stateHeaders =
  sh_size :: u64
  sh_file :: string
  sh_archive :: string
  sh_ima :: string

definition no_headers :: stateHeaders where
  "no_headers = \<lparr>sh_size = 0, sh_file = [], sh_archive = [], sh_ima = []\<rparr>"

definition state_headers :: "headers \<Rightarrow> stateHeaders" where
  "state_headers h =
     \<lparr>sh_size = strToUInt64 (http_get h ''x-debuginfod-size''), sh_file = http_get h ''x-debuginfod-file'',
      sh_archive = http_get h ''x-debuginfod-archive'', sh_ima = http_get h ''x-debuginfod-imasignature''\<rparr>"

text \<open>One exchange: the interim (1xx) responses in order, then the transport's error or the final
  response. \<open>Got1xxResponse\<close> stops the exchange at the first one that answers the probe.\<close>

type_synonym exchange = "(int \<times> headers) list \<times> (string + int \<times> headers)"

definition probe_hint :: "int \<times> headers \<Rightarrow> bool" where
  "probe_hint i \<longleftrightarrow> \<not> (fst i \<noteq> 103 \<or> http_get (snd i) ''x-status'' \<noteq> ''200'')"

definition Probe :: "exchange \<Rightarrow> proxy_err + stateHeaders" where
  "Probe x = (case find probe_hint (fst x) of
     Some i \<Rightarrow> Inr (state_headers (snd i))
   | None \<Rightarrow> (case snd x of
       Inl m \<Rightarrow> Inl (Errorf m)
     | Inr (code, h) \<Rightarrow> if code \<noteq> 200 then Inl (status_err code) else Inr (state_headers h)))"

text \<open>\<open>Fetch\<close>, for any type of response with a status.\<close>

definition Fetch :: "('r \<Rightarrow> int) \<Rightarrow> string + 'r \<Rightarrow> proxy_err + 'r" where
  "Fetch status res = (case res of
     Inl m \<Rightarrow> Inl (Errorf m)
   | Inr resp \<Rightarrow> if status resp \<noteq> 200 then Inl (status_err (status resp)) else Inr resp)"

section \<open>Asking all of them\<close>

record resolveLogEntry =
  rl_time :: time
  rl_build :: string
  rl_host :: string
  rl_success :: bool
  rl_duration :: duration
  rl_msg :: string

definition errToString :: "proxy_err option \<Rightarrow> string" where
  "errToString e = (case e of None \<Rightarrow> [] | Some err \<Rightarrow> err_text err)"

text \<open>\<open>ta_waiting\<close>: the probes that have not returned; \<open>ta_ch\<close>: the channel's one slot;
  \<open>ta_out\<close>: what \<open>tryAllServers\<close> returned; \<open>ta_seen\<close>: every exchange that ended, as a ghost.\<close>

record try_all =
  ta_build :: string
  ta_waiting :: "Server list"
  ta_ch :: "(Server \<times> stateHeaders) option"
  ta_ctx :: bool
  ta_entries :: "resolveLogEntry list"
  ta_out :: "(proxy_err + Server \<times> stateHeaders) option"
  ta_seen :: "(Server \<times> exchange) list"

definition try_start :: "string \<Rightarrow> Server list \<Rightarrow> try_all" where
  "try_start buildID servers =
     \<lparr>ta_build = buildID, ta_waiting = filter (\<lambda>s. \<not> srv_down s) servers, ta_ch = None, ta_ctx = False,
      ta_entries = [], ta_out = None, ta_seen = []\<rparr>"

definition try_answer :: "Server \<Rightarrow> exchange \<Rightarrow> time \<Rightarrow> duration \<Rightarrow> try_all \<Rightarrow> try_all" where
  "try_answer s x at d t =
     (let r = Probe x;
          entry = \<lparr>rl_time = at, rl_build = ta_build t, rl_host = srv_name s, rl_success = (\<not> isl r),
            rl_duration = d, rl_msg = errToString (case r of Inl e \<Rightarrow> Some e | Inr _ \<Rightarrow> None)\<rparr>
      in t\<lparr>ta_waiting := remove1 s (ta_waiting t), ta_entries := ta_entries t @ [entry], ta_seen := ta_seen t @ [(s, x)],
           ta_ch := (case r of Inl _ \<Rightarrow> ta_ch t
             | Inr h \<Rightarrow> (case ta_ch t of None \<Rightarrow> Some (s, h) | Some y \<Rightarrow> Some y))\<rparr>)"

text \<open>The final \<open>select\<close>: the context's case, or the channel's, each when it is ready.\<close>

datatype try_case = CaseDone string | CaseChan

fun try_select :: "try_case \<Rightarrow> try_all \<Rightarrow> try_all option" where
  "try_select (CaseDone m) t = (if ta_ctx t then Some (t\<lparr>ta_out := Some (Inl (Errorf m))\<rparr>) else None)"
| "try_select CaseChan t = (case ta_ch t of
     Some r \<Rightarrow> Some (t\<lparr>ta_ch := None, ta_out := Some (Inr r)\<rparr>)
   | None \<Rightarrow> if ta_waiting t = [] then Some (t\<lparr>ta_out := Some (Inl ErrDebuginfoNotFound)\<rparr>) else None)"

inductive try_reach :: "string \<Rightarrow> Server list \<Rightarrow> try_all \<Rightarrow> bool" for buildID servers where
  start: "try_reach buildID servers (try_start buildID servers)"
| answer: "try_reach buildID servers t \<Longrightarrow> s \<in> set (ta_waiting t) \<Longrightarrow>
     try_reach buildID servers (try_answer s x at d t)"
| expire: "try_reach buildID servers t \<Longrightarrow> try_reach buildID servers (t\<lparr>ta_ctx := True\<rparr>)"
| select: "try_reach buildID servers t \<Longrightarrow> ta_out t = None \<Longrightarrow> try_select c t = Some t' \<Longrightarrow>
     try_reach buildID servers t'"

definition try_result :: "string \<Rightarrow> Server list \<Rightarrow> proxy_err + Server \<times> stateHeaders \<Rightarrow> bool" where
  "try_result buildID servers r \<longleftrightarrow> (\<exists>t. try_reach buildID servers t \<and> ta_out t = Some r)"

section \<open>State\<close>

record buildIDState =
  bs_build :: string
  bs_host :: string
  bs_error :: string
  bs_success :: bool
  bs_counter :: u32
  bs_updated :: time
  bs_headers :: stateHeaders

definition zero_time :: time where
  "zero_time = - 62135596800 * second"

definition fresh_state :: "string \<Rightarrow> buildIDState" where
  "fresh_state b = \<lparr>bs_build = b, bs_host = [], bs_error = [], bs_success = False, bs_counter = 0,
     bs_updated = zero_time, bs_headers = no_headers\<rparr>"

record finder =
  fi_cache :: "string \<Rightarrow> buildIDState option"
  fi_db :: "string \<Rightarrow> buildIDState option"

definition db_GetState :: "proxy_err option \<Rightarrow> finder \<Rightarrow> string \<Rightarrow> proxy_err + buildIDState" where
  "db_GetState dbfail f b = (case dbfail of
     Some e \<Rightarrow> Inl e
   | None \<Rightarrow> (case fi_db f b of None \<Rightarrow> Inl ErrDbNoRow | Some s \<Rightarrow> Inr s))"

definition db_UpdateState :: "bool \<Rightarrow> buildIDState \<Rightarrow> finder \<Rightarrow> finder" where
  "db_UpdateState ok s f = (if ok then f\<lparr>fi_db := (fi_db f)(bs_build s \<mapsto> s)\<rparr> else f)"

definition cache_Add :: "string \<Rightarrow> buildIDState \<Rightarrow> finder \<Rightarrow> finder" where
  "cache_Add b s f = f\<lparr>fi_cache := (fi_cache f)(b \<mapsto> s)\<rparr>"

definition after_db :: "string \<Rightarrow> proxy_err + buildIDState \<Rightarrow> finder \<Rightarrow> (proxy_err + buildIDState) \<times> finder" where
  "after_db b r f = (case r of
     Inl e \<Rightarrow> if errors_Is e ErrDbNoRow then (Inr (fresh_state b), cache_Add b (fresh_state b) f) else (Inl e, f)
   | Inr s \<Rightarrow> (Inr s, cache_Add b s f))"

definition GetState :: "proxy_err option \<Rightarrow> string \<Rightarrow> finder \<Rightarrow> (proxy_err + buildIDState) \<times> finder" where
  "GetState dbfail b f = (case fi_cache f b of
     Some s \<Rightarrow> (Inr s, f)
   | None \<Rightarrow> after_db b (db_GetState dbfail f b) f)"

definition UpdateState :: "bool \<Rightarrow> buildIDState \<Rightarrow> finder \<Rightarrow> finder" where
  "UpdateState ok s f = db_UpdateState ok s (cache_Add (bs_build s) s f)"

section \<open>Resolving\<close>

text \<open>\<open>time.Since\<close> saturates at the ends of \<open>int64\<close>.\<close>

definition since :: "time \<Rightarrow> time \<Rightarrow> duration" where
  "since now t = max (- (2 ^ 63)) (min (2 ^ 63 - 1) (now - t))"

definition backoff :: "u32 \<Rightarrow> duration" where
  "backoff c = (if c = 1 then 30 * minute else if c = 2 then 1 * hour else if c = 3 then 2 * hour else 24 * hour)"

text \<open>The first part of both \<open>FindByBuildID\<close> and \<open>bgFindByBuildID\<close>: a build ID once resolved.\<close>

definition known_host :: "Server list \<Rightarrow> buildIDState \<Rightarrow> proxy_err + Server" where
  "known_host servers s = (case server_named servers (bs_host s) of
     None \<Rightarrow> Inl ErrDebuginfoNotFound
   | Some h \<Rightarrow>
       if srv_down h then Inl (Join (Errorf (''host '' @ srv_name h @ '' is down'')) ErrDebuginfodTemporaryDown)
       else Inr h)"

text \<open>What the environment of one request decides: the database's answers, the times of the two
  readings of the clock, whether the client leaves while it waits (with the context's error), what
  \<open>tryAllServers\<close> returns if it is called.\<close>

record find_env =
  fe_dbfail1 :: "proxy_err option"
  fe_dbfail2 :: "proxy_err option"
  fe_dbwrite :: bool
  fe_now :: time
  fe_asked_at :: time
  fe_gone :: "string option"
  fe_upstream :: "proxy_err + Server \<times> stateHeaders"

text \<open>The last component: whether the upstreams were asked.\<close>

definition bgFindByBuildID :: "Server list \<Rightarrow> find_env \<Rightarrow> string \<Rightarrow> finder \<Rightarrow> (proxy_err + Server) \<times> finder \<times> bool" where
  "bgFindByBuildID servers env b f = (case GetState (fe_dbfail2 env) b f of
     (Inl e, f1) \<Rightarrow> (Inl e, f1, False)
   | (Inr s, f1) \<Rightarrow>
       if bs_success s then (known_host servers s, f1, False)
       else if bs_counter s > 30 then (Inl ErrDebuginfoNotFound, f1, False)
       else if since (fe_now env) (bs_updated s) < backoff (bs_counter s) then (Inl ErrDebuginfoNotFound, f1, False)
       else
         (let s1 = s\<lparr>bs_updated := fe_asked_at env\<rparr> in
          case fe_upstream env of
            Inl e \<Rightarrow>
              (Inl e, UpdateState (fe_dbwrite env)
                 (s1\<lparr>bs_success := False, bs_error := err_text e, bs_counter := bs_counter s1 + 1\<rparr>) f1, True)
          | Inr (h, hs) \<Rightarrow>
              (Inr h, UpdateState (fe_dbwrite env)
                 (s1\<lparr>bs_success := True, bs_host := srv_name h, bs_headers := hs\<rparr>) f1, True)))"

definition applySourceRules :: "Server list \<Rightarrow> string \<Rightarrow> proxy_err + Server \<Rightarrow> proxy_err + Server" where
  "applySourceRules delegates endpointName r =
     (if endpointName \<noteq> ''source'' then r
      else (case r of
        Inl e \<Rightarrow> if errors_Is e ErrDebuginfoNotFound then Inl (Join ErrSourceNotImplemented e) else Inl e
      | Inr s \<Rightarrow>
          if srv_source s = 0 then
            (case server_named delegates (srv_via s) of
               Some via \<Rightarrow> if \<not> srv_down via then Inr via else Inl ErrSourceNotImplemented
             | None \<Rightarrow> Inl ErrSourceNotImplemented)
          else Inr s))"

text \<open>A client that leaves gets the context's error; the resolution runs to its end. On the fast path a state whose host is
  not in the code goes through the source rules, one whose host is down does not.\<close>

definition FindByBuildID :: "Server list \<Rightarrow> Server list \<Rightarrow> find_env \<Rightarrow> string \<Rightarrow> string \<Rightarrow> finder
    \<Rightarrow> (proxy_err + Server) \<times> finder \<times> bool" where
  "FindByBuildID servers delegates env b endpointName f =
     (if length b > 64 then (Inl (Errorf (''buildID too long '' @ int_str (int (length b)))), f, False)
      else if length b < 32 then (Inl (Errorf (''buildID too short '' @ int_str (int (length b)))), f, False)
      else (case GetState (fe_dbfail1 env) b f of
        (Inl e, f1) \<Rightarrow> (Inl e, f1, False)
      | (Inr s, f1) \<Rightarrow>
          if bs_success s then
            (case server_named servers (bs_host s) of
               None \<Rightarrow> (applySourceRules delegates endpointName (Inl ErrDebuginfoNotFound), f1, False)
             | Some h \<Rightarrow>
                 if srv_down h
                 then (Inl (Join (Errorf (''host '' @ srv_name h @ '' is down'')) ErrDebuginfodTemporaryDown), f1, False)
                 else (applySourceRules delegates endpointName (Inr h), f1, False))
          else (case bgFindByBuildID servers env b f1 of
              (r, f2, asked) \<Rightarrow> (case fe_gone env of
                  Some m \<Rightarrow> (Inl (Errorf m), f2, asked)
                | None \<Rightarrow> (applySourceRules delegates endpointName r, f2, asked)))))"

section \<open>What tryAllServers returns\<close>

inductive_cases try_reach_cases: "try_reach b servers t"

definition live :: "Server list \<Rightarrow> Server list" where
  "live servers = filter (\<lambda>s. \<not> srv_down s) servers"

text \<open>\<open>answered t s h\<close>: server \<open>s\<close> itself answered with headers \<open>h\<close>.\<close>

definition answered :: "try_all \<Rightarrow> Server \<Rightarrow> stateHeaders \<Rightarrow> bool" where
  "answered t s h \<longleftrightarrow> (s, Inr h) \<in> set (map (\<lambda>(s, x). (s, Probe x)) (ta_seen t))"

definition all_failed :: "try_all \<Rightarrow> bool" where
  "all_failed t \<longleftrightarrow> list_all (\<lambda>(s, x). isl (Probe x)) (ta_seen t)"

definition log_entries :: "try_all \<Rightarrow> (string \<times> bool) list" where
  "log_entries t = map (\<lambda>e. (rl_host e, rl_success e)) (ta_entries t)"

definition outcomes :: "try_all \<Rightarrow> (string \<times> bool) list" where
  "outcomes t = map (\<lambda>(s, x). (srv_name s, \<not> isl (Probe x))) (ta_seen t)"

definition out_ok :: "try_all \<Rightarrow> proxy_err + Server \<times> stateHeaders \<Rightarrow> bool" where
  "out_ok t r \<longleftrightarrow> (case r of
     Inr (s, h) \<Rightarrow> answered t s h
   | Inl e \<Rightarrow> ta_ctx t \<or> (e = ErrDebuginfoNotFound \<and> ta_waiting t = [] \<and> all_failed t))"

definition try_inv :: "Server list \<Rightarrow> try_all \<Rightarrow> bool" where
  "try_inv servers t \<longleftrightarrow>
     mset (ta_waiting t) + mset (map fst (ta_seen t)) = mset (live servers) \<and>
     log_entries t = outcomes t \<and>
     (\<forall>s h. ta_ch t = Some (s, h) \<longrightarrow> answered t s h) \<and>
     (ta_out t = None \<longrightarrow> ta_ch t = None \<longrightarrow> all_failed t) \<and>
     (\<forall>r. ta_out t = Some r \<longrightarrow> out_ok t r)"

lemma try_answer_fields [simp]:
  "ta_waiting (try_answer s x at d t) = remove1 s (ta_waiting t)"
  "ta_seen (try_answer s x at d t) = ta_seen t @ [(s, x)]"
  "ta_out (try_answer s x at d t) = ta_out t"
  "ta_ctx (try_answer s x at d t) = ta_ctx t"
  by (simp_all add: try_answer_def Let_def)

lemma try_answer_ch [simp]:
  "ta_ch (try_answer s x at d t) = (if ta_ch t = None \<and> \<not> isl (Probe x) then Some (s, projr (Probe x)) else ta_ch t)"
  by (simp add: try_answer_def Let_def split: sum.splits option.splits)

lemma try_answer_views [simp]:
  "log_entries (try_answer s x at d t) = log_entries t @ [(srv_name s, \<not> isl (Probe x))]"
  "outcomes (try_answer s x at d t) = outcomes t @ [(srv_name s, \<not> isl (Probe x))]"
  "answered (try_answer s x at d t) s' h \<longleftrightarrow> answered t s' h \<or> (s = s' \<and> Probe x = Inr h)"
  "all_failed (try_answer s x at d t) \<longleftrightarrow> all_failed t \<and> isl (Probe x)"
proof -
  show "log_entries (try_answer s x at d t) = log_entries t @ [(srv_name s, \<not> isl (Probe x))]"
    by (simp add: log_entries_def try_answer_def Let_def)
qed (auto simp: outcomes_def answered_def all_failed_def)

lemma try_fields [simp]:
  "answered (t\<lparr>ta_ch := c\<rparr>) s h = answered t s h"
  "all_failed (t\<lparr>ta_ch := c\<rparr>) = all_failed t"
  "outcomes (t\<lparr>ta_ch := c\<rparr>) = outcomes t"
  "log_entries (t\<lparr>ta_ch := c\<rparr>) = log_entries t"
  "answered (t\<lparr>ta_out := r\<rparr>) s h = answered t s h"
  "all_failed (t\<lparr>ta_out := r\<rparr>) = all_failed t"
  "outcomes (t\<lparr>ta_out := r\<rparr>) = outcomes t"
  "log_entries (t\<lparr>ta_out := r\<rparr>) = log_entries t"
  "answered (t\<lparr>ta_ctx := x\<rparr>) s h = answered t s h"
  "all_failed (t\<lparr>ta_ctx := x\<rparr>) = all_failed t"
  "outcomes (t\<lparr>ta_ctx := x\<rparr>) = outcomes t"
  "log_entries (t\<lparr>ta_ctx := x\<rparr>) = log_entries t"
  by (simp_all add: answered_def all_failed_def outcomes_def log_entries_def)

lemma try_answer_inv:
  assumes inv: "try_inv servers t" and s: "s \<in> set (ta_waiting t)"
  shows "try_inv servers (try_answer s x at d t)"
proof -
  have m: "add_mset s (mset (ta_waiting t) - {#s#}) = mset (ta_waiting t)" using s by simp
  have w: "ta_waiting t \<noteq> []" using s by auto
  have "mset (remove1 s (ta_waiting t)) + mset (map fst (ta_seen t @ [(s, x)])) = mset (live servers)"
    using inv m by (simp add: try_inv_def) (metis union_mset_add_mset_left)
  moreover have "out_ok t r \<Longrightarrow> out_ok (try_answer s x at d t) r" for r
    using w by (cases r) (auto simp: out_ok_def)
  ultimately show ?thesis
    using inv by (cases "Probe x") (auto simp: try_inv_def split: if_splits)
qed

lemma try_select_inv:
  "try_inv servers t \<Longrightarrow> ta_out t = None \<Longrightarrow> try_select c t = Some t' \<Longrightarrow> try_inv servers t'"
  by (cases c) (auto simp: try_inv_def out_ok_def split: if_splits option.splits)

lemma try_reach_inv: "try_reach b servers t \<Longrightarrow> try_inv servers t"
proof (induction rule: try_reach.induct)
  case start
  then show ?case
    by (simp add: try_inv_def try_start_def live_def log_entries_def outcomes_def all_failed_def)
next
  case (expire t)
  then show ?case by (auto simp: try_inv_def out_ok_def split: sum.splits)
qed (auto intro: try_answer_inv try_select_inv)


section \<open>Where a request is sent\<close>

lemma finder_tables:
  "s \<in> set finder_servers \<Longrightarrow> \<not> srv_down s \<Longrightarrow> srv_source s = 0 \<or> srv_source s = 1"
  "s \<in> set finder_delegates \<Longrightarrow> srv_source s = 1"
  by (auto simp: finder_servers_def finder_delegates_def up_server_def)

lemma server_named_set: "server_named tab n = Some s \<Longrightarrow> s \<in> set tab \<and> srv_name s = n"
  by (auto simp: server_named_def find_Some_iff)

definition good_server :: "Server list \<Rightarrow> proxy_err + Server \<Rightarrow> bool" where
  "good_server servers r \<longleftrightarrow> (case r of Inl _ \<Rightarrow> True | Inr s \<Rightarrow> s \<in> set servers \<and> \<not> srv_down s)"

lemma known_host_good: "good_server servers (known_host servers s)"
  by (auto simp: good_server_def known_host_def dest: server_named_set split: option.splits)

lemma try_result_good:
  assumes "try_result b servers (Inr (s, h))"
  shows "s \<in> set servers \<and> \<not> srv_down s"
proof -
  obtain t where t: "try_reach b servers t" "ta_out t = Some (Inr (s, h))"
    using assms by (auto simp: try_result_def)
  note inv = try_reach_inv [OF t(1)]
  have "set (map fst (ta_seen t)) \<subseteq> set (live servers)"
    using inv unfolding try_inv_def by (metis mset_subset_eq_add_right set_mset_mono set_mset_mset)
  with inv t(2) show ?thesis by (force simp: try_inv_def out_ok_def answered_def live_def)
qed

lemma bgFind_good:
  assumes up: "try_result b servers (fe_upstream env)"
  shows "good_server servers (fst (bgFindByBuildID servers env b f))"
proof (cases "GetState (fe_dbfail2 env) b f")
  case (Pair r f1)
  show ?thesis
  proof (cases r)
    case (Inr s)
    then show ?thesis
      using Pair known_host_good [of servers s] up try_result_good [of b servers]
      by (auto simp: bgFindByBuildID_def Let_def good_server_def split: sum.splits)
  qed (use Pair in \<open>simp add: bgFindByBuildID_def good_server_def\<close>)
qed

lemma applySourceRules_good:
  assumes r: "good_server finder_servers r" and eq: "applySourceRules finder_delegates ep r = Inr s"
  shows "\<not> srv_down s \<and> (if ep = ''source'' then srv_source s = 1 \<and> s \<in> set (finder_servers @ finder_delegates)
    else s \<in> set finder_servers)"
proof -
  obtain h where h: "r = Inr h" "h \<in> set finder_servers" "\<not> srv_down h"
    using r eq by (cases r) (simp_all add: good_server_def applySourceRules_def split: if_splits)
  show ?thesis
  proof (cases "ep = ''source'' \<and> srv_source h = 0")
    case True
    then obtain via where "server_named finder_delegates (srv_via h) = Some via" "\<not> srv_down via" "s = via"
      using eq h(1) by (simp add: applySourceRules_def split: option.splits if_splits)
    with True show ?thesis using server_named_set finder_tables(2) by auto
  next
    case False
    with eq h have "s = h" by (simp add: applySourceRules_def split: if_splits)
    with False h show ?thesis using finder_tables(1) by auto
  qed
qed

lemma FindByBuildID_source:
  assumes "FindByBuildID servers delegates env b ep f = (Inr s, f', asked)"
  shows "\<exists>r. applySourceRules delegates ep r = Inr s \<and>
    ((\<exists>st. r = known_host servers st) \<or> (\<exists>f1. fst (bgFindByBuildID servers env b f1) = r))"
proof -
  obtain st f1 where g: "GetState (fe_dbfail1 env) b f = (Inr st, f1)"
    using assms by (auto simp: FindByBuildID_def split: if_splits prod.splits sum.splits)
  obtain r f2 k where bg: "bgFindByBuildID servers env b f1 = (r, f2, k)" by (metis prod_cases3)
  show ?thesis
  proof (cases "bs_success st")
    case True
    with assms g obtain h where "server_named servers (bs_host st) = Some h" "\<not> srv_down h"
        "applySourceRules delegates ep (Inr h) = Inr s"
      by (auto simp: FindByBuildID_def applySourceRules_def split: if_splits option.splits)
    then show ?thesis by (intro exI [of _ "Inr h"]) (auto simp: known_host_def intro!: exI [of _ st])
  next
    case False
    with assms g bg have "applySourceRules delegates ep r = Inr s"
      by (auto simp: FindByBuildID_def split: if_splits option.splits)
    with bg show ?thesis by (intro exI [of _ r]) (auto intro!: exI [of _ f1])
  qed
qed

text \<open>C13. A request is only ever sent to a server of the code's own tables that is not down, whatever
  the database holds: to one that resolves build IDs, or for a source file to one that has
  sources, a delegate included.\<close>
theorem FindByBuildID_routes:
  assumes "try_result b finder_servers (fe_upstream env)"
    and "FindByBuildID finder_servers finder_delegates env b ep f = (Inr s, f', asked)"
  shows "\<not> srv_down s \<and> 32 \<le> length b \<and> length b \<le> 64 \<and>
    (if ep = ''source'' then srv_source s = 1 \<and> s \<in> set (finder_servers @ finder_delegates)
     else s \<in> set finder_servers)"
proof -
  have len: "32 \<le> length b" "length b \<le> 64"
    using assms(2) by (cases "length b > 64"; cases "length b < 32"; simp add: FindByBuildID_def)+
  obtain r where r: "applySourceRules finder_delegates ep r = Inr s"
      "(\<exists>st. r = known_host finder_servers st) \<or> (\<exists>f1. fst (bgFindByBuildID finder_servers env b f1) = r)"
    using FindByBuildID_source [OF assms(2)] by blast
  then have "good_server finder_servers r"
    using known_host_good bgFind_good [OF assms(1)] by metis
  with len applySourceRules_good r(1) show ?thesis by blast
qed

section \<open>How often the upstreams are asked\<close>

text \<open>A history: requests, and entries the LRU drops. \<open>asks\<close> records every call of
  \<open>tryAllServers\<close>: the build ID, the time, whether it found a server.\<close>

datatype find_ev = Find find_env string string | Expire string

record ask =
  ak_build :: string
  ak_time :: time
  ak_ok :: bool

fun finder_step :: "Server list \<Rightarrow> Server list \<Rightarrow> find_ev \<Rightarrow> finder \<Rightarrow> finder \<times> ask list" where
  "finder_step servers delegates (Expire b) f = (f\<lparr>fi_cache := (fi_cache f)(b := None)\<rparr>, [])"
| "finder_step servers delegates (Find env b ep) f =
     (case FindByBuildID servers delegates env b ep f of (r, f', asked) \<Rightarrow>
        (f', if asked then [\<lparr>ak_build = b, ak_time = fe_asked_at env, ak_ok = \<not> isl (fe_upstream env)\<rparr>] else []))"

fun finder_run :: "Server list \<Rightarrow> Server list \<Rightarrow> find_ev list \<Rightarrow> finder \<times> ask list \<Rightarrow> finder \<times> ask list" where
  "finder_run servers delegates [] fa = fa"
| "finder_run servers delegates (e # es) fa =
     (case finder_step servers delegates e (fst fa) of (f', k) \<Rightarrow> finder_run servers delegates es (f', snd fa @ k))"

definition empty_finder :: finder where
  "empty_finder = \<lparr>fi_cache = Map.empty, fi_db = Map.empty\<rparr>"

text \<open>The database stores what it is given, no read claims a row is missing, and the clock does
  not go back between its two readings.\<close>

fun ev_ok :: "find_ev \<Rightarrow> bool" where
  "ev_ok (Expire b) = True"
| "ev_ok (Find env b ep) = (fe_dbwrite env \<and> fe_now env \<le> fe_asked_at env \<and>
     list_all (\<lambda>e. case e of None \<Rightarrow> True | Some err \<Rightarrow> \<not> errors_Is err ErrDbNoRow) [fe_dbfail1 env, fe_dbfail2 env])"

definition asks_of :: "string \<Rightarrow> ask list \<Rightarrow> ask list" where
  "asks_of b ks = filter (\<lambda>k. ak_build k = b) ks"

definition spaced :: "ask list \<Rightarrow> bool" where
  "spaced ks \<longleftrightarrow> (\<forall>i. Suc i < length ks \<longrightarrow>
     \<not> ak_ok (ks ! i) \<and> ak_time (ks ! i) + backoff (of_nat (Suc i)) \<le> ak_time (ks ! Suc i))"

definition row_inv :: "ask list \<Rightarrow> buildIDState option \<Rightarrow> bool" where
  "row_inv ks row \<longleftrightarrow> spaced ks \<and> length ks \<le> 31 \<and> (case row of
     None \<Rightarrow> ks = []
   | Some s \<Rightarrow> ks \<noteq> [] \<and> bs_updated s = ak_time (last ks) \<and>
       (\<not> bs_success s \<longrightarrow> bs_counter s = of_nat (length ks) \<and> \<not> ak_ok (last ks)))"

definition finder_inv :: "string \<Rightarrow> finder \<Rightarrow> ask list \<Rightarrow> bool" where
  "finder_inv b f ks \<longleftrightarrow> row_inv (asks_of b ks) (fi_db f b) \<and>
     (\<forall>s. fi_cache f b = Some s \<longrightarrow>
        (case fi_db f b of None \<Rightarrow> s = fresh_state b | Some s' \<Rightarrow> s = s')) \<and>
     (\<forall>s. fi_db f b = Some s \<longrightarrow> bs_build s = b)"

lemma since_backoff: "\<not> since now t < backoff c \<Longrightarrow> t + backoff c \<le> now"
  by (auto simp: since_def backoff_def split: if_splits)

lemma spaced_snoc:
  "spaced ks \<Longrightarrow> (ks \<noteq> [] \<Longrightarrow> \<not> ak_ok (last ks) \<and> ak_time (last ks) + backoff (of_nat (length ks)) \<le> ak_time k) \<Longrightarrow>
   spaced (ks @ [k])"
  unfolding spaced_def
proof (intro allI impI)
  fix i
  assume sp: "\<forall>i. Suc i < length ks \<longrightarrow> \<not> ak_ok (ks ! i) \<and> ak_time (ks ! i) + backoff (of_nat (Suc i)) \<le> ak_time (ks ! Suc i)"
    and l: "ks \<noteq> [] \<Longrightarrow> \<not> ak_ok (last ks) \<and> ak_time (last ks) + backoff (of_nat (length ks)) \<le> ak_time k"
    and i: "Suc i < length (ks @ [k])"
  show "\<not> ak_ok ((ks @ [k]) ! i) \<and> ak_time ((ks @ [k]) ! i) + backoff (of_nat (Suc i)) \<le> ak_time ((ks @ [k]) ! Suc i)"
  proof (cases "Suc i < length ks")
    case True
    with sp show ?thesis by (simp add: nth_append)
  next
    case False
    with i have "length ks = Suc i" "ks \<noteq> []" by auto
    with l show ?thesis by (simp add: nth_append last_conv_nth)
  qed
qed

lemma GetState_inv:
  assumes "finder_inv b f ks" and "list_all (\<lambda>e. case e of None \<Rightarrow> True | Some err \<Rightarrow> \<not> errors_Is err ErrDbNoRow) [dbfail]"
    and "GetState dbfail b' f = (r, f1)"
  shows "finder_inv b f1 ks \<and> fi_db f1 = fi_db f \<and>
    (\<forall>s. b' = b \<longrightarrow> r = Inr s \<longrightarrow> s = (case fi_db f b of None \<Rightarrow> fresh_state b | Some s' \<Rightarrow> s'))"
  using assms
  by (cases "fi_cache f b'"; cases dbfail; cases "fi_db f b'")
     (auto simp: finder_inv_def GetState_def after_db_def db_GetState_def cache_Add_def split: option.splits if_splits)

definition all_inv :: "finder \<Rightarrow> ask list \<Rightarrow> bool" where
  "all_inv f ks \<longleftrightarrow> (\<forall>b. finder_inv b f ks)"

lemma GetState_all_inv:
  assumes "all_inv f ks" and "\<forall>err. dbfail = Some err \<longrightarrow> \<not> errors_Is err ErrDbNoRow"
    and "GetState dbfail b f = (r, f1)"
  shows "all_inv f1 ks \<and>
    (\<forall>s. r = Inr s \<longrightarrow> s = (case fi_db f1 b of None \<Rightarrow> fresh_state b | Some s' \<Rightarrow> s'))"
  using assms GetState_inv [of _ f ks dbfail b r f1] unfolding all_inv_def
  by (cases dbfail) auto

lemma UpdateState_other:
  assumes "all_inv f ks" and "bs_build s = b'" and "b \<noteq> b'" and "ak_build k = b'"
  shows "finder_inv b (UpdateState True s f) (ks @ [k])"
  using assms unfolding all_inv_def finder_inv_def
  by (auto simp: UpdateState_def db_UpdateState_def cache_Add_def asks_of_def)

text \<open>The state a resolution starts from, and what is recorded after it.\<close>

lemma UpdateState_same:
  assumes inv: "finder_inv b f ks"
    and s: "s = (case fi_db f b of None \<Rightarrow> fresh_state b | Some s' \<Rightarrow> s')"
    and go: "\<not> bs_success s" "\<not> bs_counter s > 30" "\<not> since now (bs_updated s) < backoff (bs_counter s)"
    and k: "ak_build k = b" "now \<le> ak_time k"
    and s': "bs_build s' = bs_build s" "bs_updated s' = ak_time k"
      "\<not> bs_success s' \<Longrightarrow> bs_counter s' = bs_counter s + 1 \<and> \<not> ak_ok k"
  shows "finder_inv b (UpdateState True s' f) (ks @ [k])"
proof -
  let ?A = "asks_of b ks"
  have row: "row_inv ?A (fi_db f b)" and nm: "bs_build s = b"
    using inv s by (auto simp: finder_inv_def fresh_state_def split: option.splits)
  have c: "bs_counter s = of_nat (length ?A)" "?A \<noteq> [] \<Longrightarrow> bs_updated s = ak_time (last ?A) \<and> \<not> ak_ok (last ?A)"
    using row s go(1) by (auto simp: row_inv_def fresh_state_def split: option.splits)
  have "unat (bs_counter s) = length ?A"
    using row unfolding c(1) row_inv_def by (simp add: unat_of_nat)
  moreover have "unat (bs_counter s) \<le> 30"
    using go(2) by (simp add: word_less_nat_alt not_less)
  ultimately have le: "length ?A \<le> 30" by simp
  have "spaced (?A @ [k])"
  proof (rule spaced_snoc)
    show "spaced ?A" using row by (simp add: row_inv_def)
    show "?A \<noteq> [] \<Longrightarrow> \<not> ak_ok (last ?A) \<and> ak_time (last ?A) + backoff (of_nat (length ?A)) \<le> ak_time k"
      using c since_backoff [OF go(3)] k(2) by auto
  qed
  with le c s' k nm show ?thesis
    by (auto simp: finder_inv_def row_inv_def asks_of_def UpdateState_def db_UpdateState_def cache_Add_def)
qed

lemma UpdateState_all_inv:
  assumes inv: "all_inv f ks"
    and s: "s = (case fi_db f b of None \<Rightarrow> fresh_state b | Some s' \<Rightarrow> s')"
    and "\<not> bs_success s" "\<not> bs_counter s > 30" "\<not> since now (bs_updated s) < backoff (bs_counter s)"
    and k: "ak_build k = b" "now \<le> ak_time k"
    and s': "bs_build s' = bs_build s" "bs_updated s' = ak_time k"
      "\<not> bs_success s' \<Longrightarrow> bs_counter s' = bs_counter s + 1 \<and> \<not> ak_ok k"
  shows "all_inv (UpdateState True s' f) (ks @ [k])"
proof -
  have "bs_build s = b"
    using inv s by (auto simp: all_inv_def finder_inv_def fresh_state_def split: option.splits)
  then have "b' \<noteq> b \<Longrightarrow> finder_inv b' (UpdateState True s' f) (ks @ [k])" for b'
    using UpdateState_other [OF inv] s' k by metis
  moreover have "finder_inv b (UpdateState True s' f) (ks @ [k])"
    using UpdateState_same [of b f ks s now k s'] assms by (simp add: all_inv_def)
  ultimately show ?thesis unfolding all_inv_def by (metis (full_types))
qed

lemma bgFind_inv:
  assumes inv: "all_inv f ks" and ok: "ev_ok (Find env b ep)"
    and bg: "bgFindByBuildID servers env b f = (r, f', asked)"
  shows "all_inv f' (ks @ (if asked then [\<lparr>ak_build = b, ak_time = fe_asked_at env, ak_ok = \<not> isl (fe_upstream env)\<rparr>] else []))"
proof -
  obtain q f1 where g: "GetState (fe_dbfail2 env) b f = (q, f1)" by fastforce
  have i: "all_inv f1 ks \<and> (\<forall>s. q = Inr s \<longrightarrow> s = (case fi_db f1 b of None \<Rightarrow> fresh_state b | Some s' \<Rightarrow> s'))"
    using GetState_all_inv [OF inv _ g] ok by (auto split: option.splits)
  show ?thesis
  proof (cases "\<exists>s. q = Inr s \<and> \<not> bs_success s \<and> \<not> bs_counter s > 30 \<and>
      \<not> since (fe_now env) (bs_updated s) < backoff (bs_counter s)")
    case True
    then obtain s where s: "q = Inr s" "\<not> bs_success s" "\<not> bs_counter s > 30"
      "\<not> since (fe_now env) (bs_updated s) < backoff (bs_counter s)" by blast
    show ?thesis
    proof (cases "fe_upstream env")
      case (Inl e)
      with bg g s ok have "asked" and f': "f' = UpdateState True (s\<lparr>bs_updated := fe_asked_at env, bs_success := False,
          bs_error := err_text e, bs_counter := bs_counter s + 1\<rparr>) f1"
        by (simp_all add: bgFindByBuildID_def Let_def)
      show ?thesis unfolding f' if_P [OF \<open>asked\<close>]
        by (intro UpdateState_all_inv [of f1 ks s b "fe_now env"]) (use i s ok Inl in simp_all)
    next
      case (Inr hh)
      obtain h hs where hh: "hh = (h, hs)" by fastforce
      with bg g s ok Inr have "asked" and f': "f' = UpdateState True (s\<lparr>bs_updated := fe_asked_at env, bs_success := True,
          bs_host := srv_name h, bs_headers := hs\<rparr>) f1"
        by (simp_all add: bgFindByBuildID_def Let_def)
      show ?thesis unfolding f' if_P [OF \<open>asked\<close>]
        by (intro UpdateState_all_inv [of f1 ks s b "fe_now env"]) (use i s ok Inr in simp_all)
    qed
  next
    case False
    with bg g have "f' = f1 \<and> \<not> asked"
      by (cases q) (auto simp: bgFindByBuildID_def split: if_splits)
    with i show ?thesis by simp
  qed
qed

lemma finder_step_inv:
  assumes inv: "all_inv f ks" and ok: "ev_ok e" and st: "finder_step servers delegates e f = (f', k)"
  shows "all_inv f' (ks @ k)"
proof (cases e)
  case (Expire b)
  with inv st show ?thesis by (auto simp: all_inv_def finder_inv_def split: if_splits)
next
  case (Find env b ep)
  obtain q f1 where g: "GetState (fe_dbfail1 env) b f = (q, f1)" by fastforce
  have i: "all_inv f1 ks"
    using GetState_all_inv [OF inv _ g] ok Find by (auto split: option.splits)
  obtain r f2 a where bg: "bgFindByBuildID servers env b f1 = (r, f2, a)" by (metis prod_cases3)
  note i2 = bgFind_inv [OF i, of env b ep, OF _ bg]
  show ?thesis
  proof (cases "32 \<le> length b \<and> length b \<le> 64 \<and> (\<exists>s. q = Inr s \<and> \<not> bs_success s)")
    case True
    with st Find g bg have "f' = f2" "k = (if a then [\<lparr>ak_build = b, ak_time = fe_asked_at env, ak_ok = \<not> isl (fe_upstream env)\<rparr>] else [])"
      by (auto simp: FindByBuildID_def split: option.splits)
    with i2 ok Find show ?thesis by simp
  next
    case False
    with st Find g have "(f' = f1 \<or> f' = f) \<and> k = []"
      by (cases q; cases "length b > 64"; cases "length b < 32")
         (auto simp: FindByBuildID_def split: option.splits if_splits)
    with i inv show ?thesis by auto
  qed
qed

lemma finder_run_inv:
  "all_inv f ks \<Longrightarrow> \<forall>e \<in> set es. ev_ok e \<Longrightarrow> finder_run servers delegates es (f, ks) = (f', ks') \<Longrightarrow> all_inv f' ks'"
proof (induction es arbitrary: f ks)
  case (Cons e es)
  obtain f1 k where s: "finder_step servers delegates e f = (f1, k)" by fastforce
  have "all_inv f1 (ks @ k)" using finder_step_inv [OF Cons.prems(1) _ s] Cons.prems(2) by simp
  from Cons.IH [OF this] Cons.prems(2,3) s show ?case by simp
qed simp

lemma empty_finder_inv: "all_inv empty_finder []"
  by (simp add: all_inv_def finder_inv_def row_inv_def spaced_def asks_of_def empty_finder_def)


section \<open>Instances\<close>

definition ex_build :: string where "ex_build = replicate 40 (CHR ''a'')"

definition ex_env :: "time \<Rightarrow> proxy_err + Server \<times> stateHeaders \<Rightarrow> find_env" where
  "ex_env t up = \<lparr>fe_dbfail1 = None, fe_dbfail2 = None, fe_dbwrite = True, fe_now = t, fe_asked_at = t + 1,
     fe_gone = None, fe_upstream = up\<rparr>"

definition ex_history :: "find_ev list" where
  "ex_history = [Find (ex_env 0 (Inl ErrDebuginfoNotFound)) ex_build ''debuginfo'',
     Find (ex_env (10 * minute) (Inl ErrDebuginfoNotFound)) ex_build ''source'', Expire ex_build,
     Find (ex_env (31 * minute) (Inr (up_server ''fedora'' ''u'', no_headers))) ex_build ''debuginfo'',
     Find (ex_env (100 * hour) (Inr (up_server ''fedora'' ''u'', no_headers))) ex_build ''debuginfo'']"

lemma ex_run: "snd (finder_run finder_servers finder_delegates ex_history (empty_finder, [])) =
    [\<lparr>ak_build = ex_build, ak_time = 1, ak_ok = False\<rparr>, \<lparr>ak_build = ex_build, ak_time = 31 * minute + 1, ak_ok = True\<rparr>]"
  by code_simp


text \<open>A request served by the delegate: \<open>debian\<close> resolved the build ID and has no sources.\<close>

definition ex_debian :: Server where
  "ex_debian = \<lparr>srv_name = ''debian'', srv_url = ''https://debuginfod.debian.net'', srv_source = 0, srv_down = False,
     srv_via = ''debian-src''\<rparr>"

definition ex_win :: exchange where
  "ex_win = ([], Inr (200, Map.empty))"

lemma ex_win_probe: "Probe ex_win = Inr no_headers"
  by (simp add: Probe_def ex_win_def state_headers_def no_headers_def http_get_def strToUInt64_def)

definition ex_try :: try_all where
  "ex_try = try_answer ex_debian ex_win 0 1 (try_start ex_build finder_servers)"

lemma ex_debian_live: "ex_debian \<in> set (ta_waiting (try_start ex_build finder_servers))"
  by (simp add: try_start_def finder_servers_def ex_debian_def up_server_def)

lemma ex_try_out: "try_reach ex_build finder_servers (ex_try\<lparr>ta_ch := None, ta_out := Some (Inr (ex_debian, no_headers))\<rparr>)"
proof -
  have "try_reach ex_build finder_servers ex_try"
    unfolding ex_try_def by (intro try_reach.answer try_reach.start ex_debian_live)
  then show ?thesis
    by (rule try_reach.select [where c = CaseChan])
       (simp_all add: ex_try_def try_start_def ex_win_probe)
qed


theorem FindByBuildID_routes_witness:
  "fst (FindByBuildID finder_servers finder_delegates (ex_env 0 (Inr (ex_debian, no_headers))) ex_build ''source'' empty_finder) =
     Inr (up_server ''debian-src'' ''http://127.0.0.1:8036'') \<and>
   \<not> srv_down (up_server ''debian-src'' ''http://127.0.0.1:8036'')"
proof -
  have up: "try_result ex_build finder_servers (fe_upstream (ex_env 0 (Inr (ex_debian, no_headers))))"
    using ex_try_out by (auto simp: try_result_def ex_env_def)
  have "fst (FindByBuildID finder_servers finder_delegates (ex_env 0 (Inr (ex_debian, no_headers))) ex_build ''source'' empty_finder) =
     Inr (up_server ''debian-src'' ''http://127.0.0.1:8036'')"
    by code_simp
  with FindByBuildID_routes [OF up] show ?thesis by (metis prod_cases3 fst_conv)
qed

text \<open>
  \<open>GetState\<close> reads the database and stores what it read in the LRU in two steps. A read that
  started before a resolution ended therefore puts the state from before it back: the upstreams
  are asked again at once, and a recorded success is forgotten until the entry expires.
\<close>
lemma stale_read_asks_again:
  "let f1 = fst (snd (FindByBuildID finder_servers finder_delegates (ex_env 0 (Inl ErrDebuginfoNotFound)) ex_build ''debuginfo'' empty_finder));
       f2 = snd (after_db ex_build (db_GetState None empty_finder ex_build) f1)
   in snd (snd (FindByBuildID finder_servers finder_delegates (ex_env second (Inl ErrDebuginfoNotFound)) ex_build ''debuginfo'' f1)) = False \<and>
      snd (snd (FindByBuildID finder_servers finder_delegates (ex_env second (Inl ErrDebuginfoNotFound)) ex_build ''debuginfo'' f2)) = True"
  by code_simp

end
