(* ===== verification/IPRanges.thy ===== *)
theory IPRanges
  imports ProxyErr
begin

text \<open>
  Client addresses in \<open>cmd/proxy\<close>: \<open>net/netip\<close> addresses as words, the GitHub range set of
  \<open>ghranges.go\<close> with its lookup by mask length, the Cloudflare trust check and the client headers
  of \<open>cfip.go\<close>, and the address \<open>cmd/releases/context.go\<close> records. Parsing of addresses,
  prefixes and JSON is the library's and given as arguments.
\<close>

section \<open>net/netip\<close>

datatype addr = AddrNone | Addr4 "32 word" | Addr6 "128 word" string

fun IsValid :: "addr \<Rightarrow> bool" where
  "IsValid AddrNone = False" | "IsValid _ = True"

fun Is4 :: "addr \<Rightarrow> bool" where
  "Is4 (Addr4 w) = True" | "Is4 _ = False"

fun Unmap :: "addr \<Rightarrow> addr" where
  "Unmap (Addr6 w z) = (if drop_bit 32 w = 0xFFFF then Addr4 (ucast w) else Addr6 w z)"
| "Unmap a = a"

fun IsLoopback :: "addr \<Rightarrow> bool" where
  "IsLoopback AddrNone = False"
| "IsLoopback (Addr4 w) = (drop_bit 24 w = 127)"
| "IsLoopback (Addr6 w z) = (if drop_bit 32 w = 0xFFFF then drop_bit 24 (ucast w :: 32 word) = 127 else w = 1)"

definition keep_top :: "nat \<Rightarrow> nat \<Rightarrow> 'a::len word \<Rightarrow> 'a word" where
  "keep_top len b w = push_bit (len - b) (drop_bit (len - b) w)"

text \<open>\<open>Addr.Prefix(b).Addr()\<close>: the network address, the zone removed.\<close>

fun addr_Prefix :: "addr \<Rightarrow> nat \<Rightarrow> addr option" where
  "addr_Prefix AddrNone b = Some AddrNone"
| "addr_Prefix (Addr4 w) b = (if b > 32 then None else Some (Addr4 (keep_top 32 b w)))"
| "addr_Prefix (Addr6 w z) b = (if b > 128 then None else Some (Addr6 (keep_top 128 b w) []))"

fun prefix_Contains :: "addr \<times> nat \<Rightarrow> addr \<Rightarrow> bool" where
  "prefix_Contains (Addr4 n, b) (Addr4 w) = (b \<le> 32 \<and> keep_top 32 b n = keep_top 32 b w)"
| "prefix_Contains (Addr6 n z, b) (Addr6 w z') = (b \<le> 128 \<and> z' = [] \<and> keep_top 128 b n = keep_top 128 b w)"
| "prefix_Contains _ _ = False"

section \<open>GitHub ranges\<close>

record ghPrefix =
  gp_prefix :: string
  gp_service :: string

type_synonym lenBucket = "nat \<times> (addr \<Rightarrow> string option)"

record ipTagSet =
  ts_v4 :: "lenBucket list"
  ts_v6 :: "lenBucket list"

text \<open>\<open>byBits\<close>, a Go map, as the list of its entries.\<close>

fun add_net :: "nat \<Rightarrow> addr \<Rightarrow> string \<Rightarrow> lenBucket list \<Rightarrow> lenBucket list" where
  "add_net b n t [] = [(b, [n \<mapsto> t])]"
| "add_net b n t ((b', m) # bs) = (if b' = b then (b, m(n \<mapsto> t)) # bs else (b', m) # add_net b n t bs)"

definition add_prefix :: "(string \<Rightarrow> (addr \<times> nat) option) \<Rightarrow> ghPrefix \<Rightarrow> ipTagSet \<Rightarrow> ipTagSet" where
  "add_prefix parse p s = (case parse (gp_prefix p) of
     None \<Rightarrow> s
   | Some (a, b) \<Rightarrow> (case addr_Prefix a b of
       None \<Rightarrow> s
     | Some n \<Rightarrow>
         if Is4 n then s\<lparr>ts_v4 := add_net b n (gp_service p) (ts_v4 s)\<rparr>
         else s\<lparr>ts_v6 := add_net b n (gp_service p) (ts_v6 s)\<rparr>))"

definition longest_first :: "lenBucket list \<Rightarrow> lenBucket list" where
  "longest_first bs = sort_key (\<lambda>(b, m). - int b) bs"

definition newIPTagSet :: "(string \<Rightarrow> (addr \<times> nat) option) \<Rightarrow> ghPrefix list \<Rightarrow> ipTagSet" where
  "newIPTagSet parse ps =
     (let s = fold (add_prefix parse) ps \<lparr>ts_v4 = [], ts_v6 = []\<rparr>
      in \<lparr>ts_v4 = longest_first (ts_v4 s), ts_v6 = longest_first (ts_v6 s)\<rparr>)"

fun probe_buckets :: "addr \<Rightarrow> lenBucket list \<Rightarrow> string" where
  "probe_buckets ip [] = []"
| "probe_buckets ip ((b, m) # bs) = (case addr_Prefix ip b of
     None \<Rightarrow> probe_buckets ip bs
   | Some n \<Rightarrow> (case m n of Some tag \<Rightarrow> tag | None \<Rightarrow> probe_buckets ip bs))"

definition Lookup :: "ipTagSet \<Rightarrow> addr \<Rightarrow> string" where
  "Lookup s ip =
     (if \<not> IsValid ip then []
      else if Is4 (Unmap ip) then probe_buckets (Unmap ip) (ts_v4 s)
      else probe_buckets (Unmap ip) (ts_v6 s))"

definition ghTagsFor :: "ipTagSet option \<Rightarrow> addr \<Rightarrow> string list" where
  "ghTagsFor live ip = (case live of
     None \<Rightarrow> [''unclassified'']
   | Some s \<Rightarrow> if Lookup s ip \<noteq> [] then [''github_'' @ Lookup s ip] else [''direct''])"

text \<open>\<open>parseGitHubMeta\<close> on the decoded document: the value of each key, \<open>cidrs\<close> reading a value
  as a list of strings.\<close>

definition usable_cidrs :: "(string \<Rightarrow> (addr \<times> nat) option) \<Rightarrow> string \<Rightarrow> string list \<Rightarrow> ghPrefix list" where
  "usable_cidrs parse service xs =
     map (\<lambda>c. \<lparr>gp_prefix = c, gp_service = service\<rparr>) (filter (\<lambda>c. parse c \<noteq> None) xs)"

datatype meta_err = MetaJson | MetaNoKey string | MetaNotList string | MetaNone

fun meta_services :: "(string \<Rightarrow> (addr \<times> nat) option) \<Rightarrow> ('v \<Rightarrow> string list option) \<Rightarrow> (string \<Rightarrow> 'v option)
    \<Rightarrow> string list \<Rightarrow> ghPrefix list \<Rightarrow> meta_err + ghPrefix list" where
  "meta_services parse cidrs doc [] out = (if out = [] then Inl MetaNone else Inr out)"
| "meta_services parse cidrs doc (s # ss) out = (case doc s of
     None \<Rightarrow> Inl (MetaNoKey s)
   | Some raw \<Rightarrow> (case cidrs raw of
       None \<Rightarrow> Inl (MetaNotList s)
     | Some xs \<Rightarrow> meta_services parse cidrs doc ss (out @ usable_cidrs parse s xs)))"

definition parseGitHubMeta :: "(string \<Rightarrow> (addr \<times> nat) option) \<Rightarrow> ('v \<Rightarrow> string list option)
    \<Rightarrow> (string \<Rightarrow> 'v option) option \<Rightarrow> string list \<Rightarrow> meta_err + ghPrefix list" where
  "parseGitHubMeta parse cidrs doc services = (case doc of
     None \<Rightarrow> Inl MetaJson
   | Some d \<Rightarrow> meta_services parse cidrs d services [])"

text \<open>\<open>Refresh\<close>: a fetch that fails leaves the live set as it is. \<open>Worker\<close> comes back after
  \<open>retryUntilLoaded\<close> until a set has been loaded.\<close>

definition gh_Refresh :: "(string \<Rightarrow> (addr \<times> nat) option) \<Rightarrow> 'e + ghPrefix list \<Rightarrow> ipTagSet option \<Rightarrow> ipTagSet option" where
  "gh_Refresh parse res live = (case res of Inl _ \<Rightarrow> live | Inr ps \<Rightarrow> Some (newIPTagSet parse ps))"

definition gh_wait :: "duration \<Rightarrow> ipTagSet option \<Rightarrow> duration" where
  "gh_wait interval live = (if live = None then 15 * second else interval)"

section \<open>Cloudflare\<close>

record cfipManager =
  cf_prefixes :: "(addr \<times> nat) list"
  cf_updated :: "time option"

text \<open>What the request of \<open>refresh\<close> came to: its error, or the status, whether it decoded, its
  \<open>success\<close> field and the two lists.\<close>

record cfipResponse =
  cr_status :: int
  cr_decoded :: bool
  cr_success :: bool
  cr_v4 :: "string list"
  cr_v6 :: "string list"

definition cf_load :: "(string \<Rightarrow> (addr \<times> nat) option) \<Rightarrow> time \<Rightarrow> cfipResponse option \<Rightarrow> cfipManager \<Rightarrow> bool \<times> cfipManager" where
  "cf_load parse now res m = (case res of
     None \<Rightarrow> (False, m)
   | Some r \<Rightarrow>
       if cr_status r \<noteq> 200 \<or> \<not> cr_decoded r \<or> \<not> cr_success r then (False, m)
       else (True, \<lparr>cf_prefixes = List.map_filter parse (cr_v4 r @ cr_v6 r), cf_updated = Some now\<rparr>))"

definition cf_fresh :: "time \<Rightarrow> cfipManager \<Rightarrow> bool" where
  "cf_fresh now m \<longleftrightarrow> (case cf_updated m of None \<Rightarrow> False | Some t \<Rightarrow> t + 24 * hour > now)"

definition cf_refresh :: "(string \<Rightarrow> (addr \<times> nat) option) \<Rightarrow> time \<Rightarrow> cfipResponse option \<Rightarrow> cfipManager \<Rightarrow> bool \<times> cfipManager" where
  "cf_refresh parse now res m = (if cf_fresh now m then (True, m) else cf_load parse now res m)"

definition IsTrusted :: "cfipManager \<Rightarrow> addr \<Rightarrow> bool" where
  "IsTrusted m ip \<longleftrightarrow> IsLoopback ip \<or> list_ex (\<lambda>p. prefix_Contains p ip) (cf_prefixes m)"

text \<open>What the two functions read of a request: the peer's address as \<open>RemoteAddr\<close> has it, and the
  headers.\<close>

record peer =
  pe_remote :: string
  pe_headers :: headers

definition getRealIP :: "(string \<Rightarrow> addr option) \<Rightarrow> (string \<Rightarrow> addr option) \<Rightarrow> cfipManager \<Rightarrow> peer \<Rightarrow> addr option" where
  "getRealIP parse_port parse_addr m r = (case parse_port (pe_remote r) of
     None \<Rightarrow> None
   | Some remoteIP \<Rightarrow>
       (let hdr = http_get (pe_headers r) ''cf-connecting-ip'' in
        if hdr \<noteq> [] \<and> IsTrusted m remoteIP
        then (case parse_addr hdr of Some clientIP \<Rightarrow> Some clientIP | None \<Rightarrow> Some remoteIP)
        else Some remoteIP))"

definition getCFCountry :: "(string \<Rightarrow> addr option) \<Rightarrow> cfipManager \<Rightarrow> peer \<Rightarrow> string" where
  "getCFCountry parse_port m r =
     (let country = http_get (pe_headers r) ''cf-ipcountry'' in
      if country = [] then []
      else (case parse_port (pe_remote r) of
          None \<Rightarrow> []
        | Some ip \<Rightarrow> if \<not> IsTrusted m ip then [] else country))"

text \<open>\<open>clientIP\<close> of \<open>cmd/releases\<close>: an unparsable peer is the zero address there.\<close>

definition clientIP :: "(string \<Rightarrow> addr option) \<Rightarrow> (string \<Rightarrow> addr option) \<Rightarrow> peer \<Rightarrow> addr" where
  "clientIP parse_port parse_addr r = (case parse_port (pe_remote r) of
     None \<Rightarrow> AddrNone
   | Some remote \<Rightarrow>
       (let hdr = http_get (pe_headers r) ''cf-connecting-ip'' in
        if hdr \<noteq> [] \<and> IsLoopback remote
        then (case parse_addr hdr of Some ip \<Rightarrow> ip | None \<Rightarrow> remote)
        else remote))"

section \<open>Lookup against a linear scan\<close>

text \<open>\<open>matches\<close>: the prefixes that contain the address, in order, each with its length. \<open>best_match\<close>:
  the tag of the longest of them, the last one listed when several are the longest.\<close>

definition without_zone :: "addr \<Rightarrow> addr" where
  "without_zone a = (case a of Addr6 w z \<Rightarrow> Addr6 w [] | _ \<Rightarrow> a)"

definition parsed :: "(string \<Rightarrow> (addr \<times> nat) option) \<Rightarrow> ghPrefix list \<Rightarrow> ((addr \<times> nat) \<times> string) list" where
  "parsed parse ps = List.map_filter (\<lambda>p. map_option (\<lambda>x. (x, gp_service p)) (parse (gp_prefix p))) ps"

definition matches :: "((addr \<times> nat) \<times> string) list \<Rightarrow> addr \<Rightarrow> (nat \<times> string) list" where
  "matches xs ip = map (\<lambda>(p, t). (snd p, t)) (filter (\<lambda>(p, t). prefix_Contains p ip) xs)"

definition best_match :: "(nat \<times> string) list \<Rightarrow> string \<Rightarrow> bool" where
  "best_match C t \<longleftrightarrow> (C = [] \<and> t = []) \<or>
     (\<exists>xs b ys. C = xs @ (b, t) # ys \<and> (\<forall>c \<in> set xs. fst c \<le> b) \<and> (\<forall>c \<in> set ys. fst c < b))"

definition prefix_ok :: "addr \<times> nat \<Rightarrow> bool" where
  "prefix_ok p \<longleftrightarrow> (case fst p of AddrNone \<Rightarrow> False | Addr4 w \<Rightarrow> snd p \<le> 32 | Addr6 w z \<Rightarrow> snd p \<le> 128 \<and> z = [])"

text \<open>A bucket list as a finite map from mask length and network to tag.\<close>

definition net_tag :: "lenBucket list \<Rightarrow> nat \<Rightarrow> addr \<Rightarrow> string option" where
  "net_tag bs b n = (case map_of bs b of None \<Rightarrow> None | Some m \<Rightarrow> m n)"

lemma net_tag_add: "net_tag (add_net b n t bs) b' n' = (if b' = b \<and> n' = n then Some t else net_tag bs b' n')"
  by (induction b n t bs rule: add_net.induct) (auto simp: net_tag_def)

lemma add_net_keys: "fst ` set (add_net b n t bs) = insert b (fst ` set bs)"
  by (induction b n t bs rule: add_net.induct) auto

lemma add_net_distinct: "distinct (map fst bs) \<Longrightarrow> distinct (map fst (add_net b n t bs))"
proof (induction b n t bs rule: add_net.induct)
  case (2 b n t b' m bs)
  then show ?case using add_net_keys [of b n t bs] by auto
qed simp

definition buckets_of :: "(nat \<times> addr \<times> string) list \<Rightarrow> lenBucket list" where
  "buckets_of nets = fold (\<lambda>(b, n, t). add_net b n t) nets []"

lemma buckets_snoc: "buckets_of (nets @ [(b, n, t)]) = add_net b n t (buckets_of nets)"
  by (simp add: buckets_of_def)

lemma buckets_distinct: "distinct (map fst (buckets_of nets))"
  by (induction nets rule: rev_induct) (auto simp: buckets_snoc add_net_distinct, simp add: buckets_of_def)

lemma net_tag_Some:
  "net_tag (buckets_of nets) b n = Some t \<Longrightarrow>
   \<exists>xs ys. nets = xs @ (b, n, t) # ys \<and> (\<forall>y \<in> set ys. \<not> (fst y = b \<and> fst (snd y) = n))"
proof (induction nets rule: rev_induct)
  case (snoc x nets)
  obtain b' n' t' where x: "x = (b', n', t')" by (metis prod_cases3)
  show ?case
  proof (cases "b' = b \<and> n' = n")
    case True
    with snoc.prems x show ?thesis by (intro exI [of _ nets] exI [of _ "[]"]) (simp add: buckets_snoc net_tag_add)
  next
    case False
    with snoc.prems x have "net_tag (buckets_of nets) b n = Some t" by (auto simp: buckets_snoc net_tag_add split: if_splits)
    from snoc.IH [OF this] obtain xs ys where "nets = xs @ (b, n, t) # ys" "\<forall>y \<in> set ys. \<not> (fst y = b \<and> fst (snd y) = n)"
      by blast
    with False x show ?thesis by (intro exI [of _ xs] exI [of _ "ys @ [x]"]) auto
  qed
qed (simp add: buckets_of_def net_tag_def)

lemma net_tag_None: "net_tag (buckets_of nets) b n = None \<Longrightarrow> (b, n, t) \<notin> set nets"
proof (induction nets rule: rev_induct)
  case (snoc x nets)
  obtain b' n' t' where x: "x = (b', n', t')" by (metis prod_cases3)
  with snoc show ?case by (auto simp: buckets_snoc net_tag_add split: if_splits)
qed simp

definition misses :: "addr \<Rightarrow> lenBucket \<Rightarrow> bool" where
  "misses ip bm \<longleftrightarrow> (\<forall>n. addr_Prefix ip (fst bm) = Some n \<longrightarrow> snd bm n = None)"

lemma probe_buckets_cases:
  "(probe_buckets ip bs = [] \<and> (\<forall>bm \<in> set bs. misses ip bm)) \<or>
   (\<exists>xs b m ys n. bs = xs @ (b, m) # ys \<and> addr_Prefix ip b = Some n \<and> m n = Some (probe_buckets ip bs) \<and>
      (\<forall>bm \<in> set xs. misses ip bm))"
proof (induction bs)
  case (Cons bm bs)
  obtain b m where bm: "bm = (b, m)" by fastforce
  show ?case
  proof (cases "misses ip bm")
    case True
    then have eq: "probe_buckets ip (bm # bs) = probe_buckets ip bs"
      by (auto simp: bm misses_def split: option.splits)
    from Cons.IH show ?thesis
    proof
      assume "probe_buckets ip bs = [] \<and> (\<forall>bm \<in> set bs. misses ip bm)"
      with True eq show ?thesis by simp
    next
      assume "\<exists>xs b m ys n. bs = xs @ (b, m) # ys \<and> addr_Prefix ip b = Some n \<and> m n = Some (probe_buckets ip bs) \<and>
        (\<forall>bm \<in> set xs. misses ip bm)"
      then obtain xs b m ys n where "bs = xs @ (b, m) # ys" "addr_Prefix ip b = Some n"
        "m n = Some (probe_buckets ip bs)" "\<forall>bm \<in> set xs. misses ip bm" by blast
      with True eq show ?thesis by (intro disjI2 exI [of _ "bm # xs"]) auto
    qed
  next
    case False
    then obtain n t where "addr_Prefix ip b = Some n" "m n = Some t" by (auto simp: bm misses_def)
    then show ?thesis by (intro disjI2 exI [of _ "[]"]) (simp add: bm)
  qed
qed simp

definition net_matches :: "(nat \<times> addr \<times> string) list \<Rightarrow> addr \<Rightarrow> (nat \<times> string) list" where
  "net_matches nets ip = map (\<lambda>(b, n, t). (b, t)) (filter (\<lambda>(b, n, t). addr_Prefix ip b = Some n) nets)"

lemma longest_first_facts:
  "set (longest_first bs) = set bs" "distinct (map fst bs) \<Longrightarrow> distinct (map fst (longest_first bs))"
  "longest_first bs = xs @ bm # ys \<Longrightarrow> c \<in> set ys \<Longrightarrow> fst c \<le> fst bm"
proof -
  show "set (longest_first bs) = set bs" by (simp add: longest_first_def)
  show "distinct (map fst bs) \<Longrightarrow> distinct (map fst (longest_first bs))"
    unfolding longest_first_def by (simp add: distinct_map)
  have "sorted (map (\<lambda>(b, m). - int b) (longest_first bs))" by (simp add: longest_first_def)
  then show "longest_first bs = xs @ bm # ys \<Longrightarrow> c \<in> set ys \<Longrightarrow> fst c \<le> fst bm"
    by (cases c; cases bm) (simp add: sorted_append, auto)
qed

lemma map_of_net: "distinct (map fst bs) \<Longrightarrow> (b, m) \<in> set bs \<Longrightarrow> net_tag bs b n = m n"
  by (simp add: net_tag_def map_of_eq_Some_iff [THEN iffD2])

lemma net_tag_bucket: "net_tag bs b n = Some t \<Longrightarrow> \<exists>m. (b, m) \<in> set bs \<and> m n = Some t"
  by (auto simp: net_tag_def dest: map_of_SomeD split: option.splits)

lemma probe_best:
  "best_match (net_matches nets ip) (probe_buckets ip (longest_first (buckets_of nets)))"
proof -
  let ?B = "buckets_of nets" and ?L = "longest_first (buckets_of nets)"
  note dB = buckets_distinct [of nets]
  have tag: "(b, m) \<in> set ?L \<Longrightarrow> net_tag ?B b n = m n" for b m n
    using map_of_net [OF dB] by (simp add: longest_first_facts(1))
  have hit: "(b, n, t) \<in> set nets \<Longrightarrow> addr_Prefix ip b = Some n \<Longrightarrow> \<exists>m. (b, m) \<in> set ?L \<and> \<not> misses ip (b, m)" for b n t
    using net_tag_None [of nets b n t] net_tag_bucket [of ?B b n]
    by (cases "net_tag ?B b n") (auto simp: longest_first_facts(1) misses_def)
  from probe_buckets_cases [of ip ?L] show ?thesis
  proof
    assume none: "probe_buckets ip ?L = [] \<and> (\<forall>bm \<in> set ?L. misses ip bm)"
    have "net_matches nets ip = []"
    proof (rule ccontr)
      assume "net_matches nets ip \<noteq> []"
      then obtain x where "x \<in> set (filter (\<lambda>(b, n, t). addr_Prefix ip b = Some n) nets)"
        by (auto simp: net_matches_def filter_empty_conv)
      with hit none show False by (cases x) fastforce
    qed
    with none show ?thesis by (simp add: best_match_def)
  next
    assume "\<exists>xs b m ys n. ?L = xs @ (b, m) # ys \<and> addr_Prefix ip b = Some n \<and> m n = Some (probe_buckets ip ?L) \<and>
      (\<forall>bm \<in> set xs. misses ip bm)"
    then obtain xs b m ys n where L: "?L = xs @ (b, m) # ys" "addr_Prefix ip b = Some n"
      "m n = Some (probe_buckets ip ?L)" "\<forall>bm \<in> set xs. misses ip bm" by blast
    have le: "(b', n', t') \<in> set nets \<Longrightarrow> addr_Prefix ip b' = Some n' \<Longrightarrow> b' \<le> b" for b' n' t'
    proof -
      assume a: "(b', n', t') \<in> set nets" "addr_Prefix ip b' = Some n'"
      then obtain m' where m': "(b', m') \<in> set ?L" "\<not> misses ip (b', m')" using hit by blast
      with L(1,4) consider "(b', m') = (b, m)" | "(b', m') \<in> set ys" by auto
      then show "b' \<le> b"
        using longest_first_facts(3) [OF L(1)] by cases auto
    qed
    have "(b, m) \<in> set ?L" using L(1) by simp
    from tag [OF this, of n] L(3) have "net_tag ?B b n = Some (probe_buckets ip ?L)" by simp
    from net_tag_Some [OF this] obtain us vs where nets: "nets = us @ (b, n, probe_buckets ip ?L) # vs"
      and last: "\<forall>y \<in> set vs. \<not> (fst y = b \<and> fst (snd y) = n)" by blast
    have sub: "set us \<subseteq> set nets" "set vs \<subseteq> set nets" by (subst nets, force)+
    have split: "net_matches nets ip = net_matches us ip @ (b, probe_buckets ip ?L) # net_matches vs ip"
      by (subst nets) (simp add: net_matches_def L(2))
    have 1: "\<forall>c \<in> set (net_matches us ip). fst c \<le> b"
    proof
      fix c assume "c \<in> set (net_matches us ip)"
      then obtain b' n' t' where "(b', n', t') \<in> set us" "addr_Prefix ip b' = Some n'" "c = (b', t')"
        by (auto simp: net_matches_def)
      with le [of b' n' t'] sub(1) show "fst c \<le> b" by auto
    qed
    have 2: "\<forall>c \<in> set (net_matches vs ip). fst c < b"
    proof
      fix c assume "c \<in> set (net_matches vs ip)"
      then obtain b' n' t' where c: "(b', n', t') \<in> set vs" "addr_Prefix ip b' = Some n'" "c = (b', t')"
        by (auto simp: net_matches_def)
      then have "b' \<le> b" using le [of b' n' t'] sub(2) by auto
      moreover have "b' \<noteq> b" using c last L(2) by force
      ultimately show "fst c < b" using c by simp
    qed
    from 1 2 split show ?thesis unfolding best_match_def by blast
  qed
qed

definition nets :: "(string \<Rightarrow> (addr \<times> nat) option) \<Rightarrow> bool \<Rightarrow> ghPrefix list \<Rightarrow> (nat \<times> addr \<times> string) list" where
  "nets parse is4 ps = concat (map (\<lambda>p. case parse (gp_prefix p) of
     None \<Rightarrow> []
   | Some (a, b) \<Rightarrow> (case addr_Prefix a b of
       None \<Rightarrow> [] | Some n \<Rightarrow> if Is4 n = is4 then [(b, n, gp_service p)] else [])) ps)"

lemma fold_add_prefix:
  "fold (add_prefix parse) ps \<lparr>ts_v4 = [], ts_v6 = []\<rparr> =
     \<lparr>ts_v4 = buckets_of (nets parse True ps), ts_v6 = buckets_of (nets parse False ps)\<rparr>"
proof (induction ps rule: rev_induct)
  case (snoc p ps)
  then show ?case
    by (simp add: add_prefix_def nets_def buckets_snoc split: option.splits prod.splits)
qed (simp add: nets_def buckets_of_def)

lemma prefix_at:
  assumes "prefix_ok (a, b)" and "addr_Prefix a b = Some n" and "IsValid ip"
  shows "(Is4 n = Is4 ip \<and> addr_Prefix ip b = Some n) \<longleftrightarrow> prefix_Contains (a, b) (without_zone ip)"
  using assms by (cases a; cases ip) (auto simp: prefix_ok_def without_zone_def split: if_splits)

lemma prefix_ok_net: "prefix_ok (a, b) \<Longrightarrow> \<exists>n. addr_Prefix a b = Some n"
  by (cases a) (auto simp: prefix_ok_def)

lemma nets_matches:
  assumes ok: "\<And>s x. parse s = Some x \<Longrightarrow> prefix_ok x" and v: "IsValid ip"
  shows "net_matches (nets parse (Is4 ip) ps) ip = matches (parsed parse ps) (without_zone ip)"
proof (induction ps)
  case (Cons p ps)
  show ?case
  proof (cases "parse (gp_prefix p)")
    case None
    with Cons show ?thesis by (simp add: nets_def net_matches_def parsed_def matches_def List.map_filter_def)
  next
    case (Some x)
    obtain a b where x: "x = (a, b)" by fastforce
    obtain n where n: "addr_Prefix a b = Some n" using ok [OF Some] prefix_ok_net x by blast
    note at = prefix_at [OF _ n v] 
    have at: "(Is4 n = Is4 ip \<and> addr_Prefix ip b = Some n) \<longleftrightarrow> prefix_Contains (a, b) (without_zone ip)"
      using at ok [OF Some] x by blast
    have l: "net_matches (nets parse (Is4 ip) (p # ps)) ip =
        (if Is4 n = Is4 ip \<and> addr_Prefix ip b = Some n then [(b, gp_service p)] else []) @
        net_matches (nets parse (Is4 ip) ps) ip"
      by (simp add: nets_def net_matches_def Some x n)
    have r: "matches (parsed parse (p # ps)) (without_zone ip) =
        (if prefix_Contains (a, b) (without_zone ip) then [(b, gp_service p)] else []) @
        matches (parsed parse ps) (without_zone ip)"
      by (simp add: parsed_def matches_def List.map_filter_def Some x)
    show ?thesis unfolding l r at Cons.IH by (rule refl)
  qed
qed (simp add: nets_def net_matches_def parsed_def matches_def List.map_filter_def)

lemma Unmap_valid: "IsValid ip \<Longrightarrow> IsValid (Unmap ip)"
  by (cases ip) auto

text \<open>C18. The lookup by mask length answers as a linear scan over every listed prefix would: with the
  service of the longest prefix that contains the client's address, an IPv4-mapped one unwrapped
  and zones ignored, the last one listed among equals, and with the empty tag when none contains it.\<close>
theorem Lookup_longest:
  assumes "\<And>s x. parse s = Some x \<Longrightarrow> prefix_ok x" and "IsValid ip"
  shows "best_match (matches (parsed parse ps) (without_zone (Unmap ip))) (Lookup (newIPTagSet parse ps) ip)"
proof -
  have "Lookup (newIPTagSet parse ps) ip =
      probe_buckets (Unmap ip) (longest_first (buckets_of (nets parse (Is4 (Unmap ip)) ps)))"
    using assms(2) by (simp add: Lookup_def newIPTagSet_def fold_add_prefix Let_def)
  moreover have "net_matches (nets parse (Is4 (Unmap ip)) ps) (Unmap ip) = matches (parsed parse ps) (without_zone (Unmap ip))"
    by (rule nets_matches) (use assms Unmap_valid in blast)+
  ultimately show ?thesis using probe_best by metis
qed

text \<open>\<open>10.0.0.0/8\<close> and, inside it, \<open>10.1.0.0/16\<close>, asked about 10.1.2.3 in its IPv4-mapped form.\<close>

definition ex_parse :: "string \<Rightarrow> (addr \<times> nat) option" where
  "ex_parse s = (if s = ''10.0.0.0/8'' then Some (Addr4 0x0A000000, 8)
     else if s = ''10.1.0.0/16'' then Some (Addr4 0x0A010000, 16) else None)"

definition ex_ranges :: "ghPrefix list" where
  "ex_ranges = [\<lparr>gp_prefix = ''10.1.0.0/16'', gp_service = ''actions''\<rparr>, \<lparr>gp_prefix = ''10.0.0.0/8'', gp_service = ''hooks''\<rparr>]"

theorem Lookup_longest_witness:
  "Lookup (newIPTagSet ex_parse ex_ranges) (Addr6 0xFFFF0A010203 []) = ''actions'' \<and>
   best_match (matches (parsed ex_parse ex_ranges) (Addr4 0x0A010203)) ''actions''"
proof -
  have ok: "\<And>s x. ex_parse s = Some x \<Longrightarrow> prefix_ok x"
    by (auto simp: ex_parse_def prefix_ok_def split: if_splits)
  have 1: "Lookup (newIPTagSet ex_parse ex_ranges) (Addr6 0xFFFF0A010203 []) = ''actions''"
    by (simp add: Lookup_def newIPTagSet_def ex_ranges_def add_prefix_def ex_parse_def longest_first_def keep_top_def Let_def)
  have 2: "without_zone (Unmap (Addr6 0xFFFF0A010203 [])) = Addr4 0x0A010203"
    by (simp add: without_zone_def)
  have "best_match (matches (parsed ex_parse ex_ranges) (without_zone (Unmap (Addr6 0xFFFF0A010203 []))))
      (Lookup (newIPTagSet ex_parse ex_ranges) (Addr6 0xFFFF0A010203 []))"
    by (rule Lookup_longest) (use ok in blast, simp)
  with 1 2 show ?thesis by simp
qed



section \<open>The list over time\<close>

text \<open>Failed refreshes keep what was loaded, for both lists; a list loaded less than a day ago is not
  fetched again.\<close>

lemma cf_refresh_failed: "cf_refresh parse now None m = (ok, m') \<Longrightarrow> m' = m \<and> (ok \<longleftrightarrow> cf_fresh now m)"
  by (auto simp: cf_refresh_def cf_load_def split: if_splits)

lemma meta_services_usable:
  "meta_services parse cidrs doc ss out = Inr ps \<Longrightarrow> \<forall>p \<in> set out. parse (gp_prefix p) \<noteq> None \<Longrightarrow>
   ps \<noteq> [] \<and> (\<forall>p \<in> set ps. parse (gp_prefix p) \<noteq> None)"
proof (induction ss arbitrary: out)
  case (Cons s ss)
  obtain raw xs where r: "doc s = Some raw" "cidrs raw = Some xs"
    using Cons.prems(1) by (auto split: option.splits)
  have "\<forall>p \<in> set (out @ usable_cidrs parse s xs). parse (gp_prefix p) \<noteq> None"
    using Cons.prems(2) by (auto simp: usable_cidrs_def)
  from Cons.IH [OF _ this] Cons.prems(1) r show ?case by simp
qed (auto split: if_splits)

text \<open>A set once loaded stays loaded, and is replaced only by the ranges of a document that had
  every configured service and at least one usable prefix: until the first such document every
  request is tagged \<open>unclassified\<close>, and after it none is.\<close>
theorem gh_set_monotone:
  "(\<forall>e. gh_Refresh parse (Inl e) live = live) \<and>
   (case parseGitHubMeta parse cidrs doc services of
      Inl e \<Rightarrow> True
    | Inr ps \<Rightarrow> ps \<noteq> [] \<and> list_all (\<lambda>p. parse (gp_prefix p) \<noteq> None) ps \<and>
        list_all (\<lambda>s. case doc of None \<Rightarrow> False | Some d \<Rightarrow> d s \<noteq> None) services) \<and>
   (ghTagsFor (gh_Refresh parse (parseGitHubMeta parse cidrs doc services) live) ip = [''unclassified''] \<longleftrightarrow>
      live = None \<and> isl (parseGitHubMeta parse cidrs doc services))"
proof -
  have keys: "meta_services parse cidrs d ss out = Inr ps \<Longrightarrow> \<forall>s \<in> set ss. d s \<noteq> None" for d ss out ps
    by (induction ss arbitrary: out) (auto split: option.splits)
  have 2: "case parseGitHubMeta parse cidrs doc services of
      Inl e \<Rightarrow> True
    | Inr ps \<Rightarrow> ps \<noteq> [] \<and> list_all (\<lambda>p. parse (gp_prefix p) \<noteq> None) ps \<and>
        list_all (\<lambda>s. case doc of None \<Rightarrow> False | Some d \<Rightarrow> d s \<noteq> None) services"
  proof (cases "parseGitHubMeta parse cidrs doc services")
    case (Inr ps)
    then obtain d where d: "doc = Some d" "meta_services parse cidrs d services [] = Inr ps"
      by (auto simp: parseGitHubMeta_def split: option.splits)
    with meta_services_usable [OF d(2)] keys [OF d(2)] Inr show ?thesis by (simp add: list_all_iff)
  qed simp
  have 3: "ghTagsFor (Some s) ip \<noteq> [''unclassified'']" for s
    by (simp add: ghTagsFor_def)
  with 2 show ?thesis
    by (cases "parseGitHubMeta parse cidrs doc services"; cases live) (simp_all add: gh_Refresh_def, simp_all add: ghTagsFor_def)
qed

end
