(* ===== verification/RespWriter.thy ===== *)
theory RespWriter
  imports Finder IPRanges
begin

text \<open>
  The response side of the three HTTP services: \<open>net/http\<close>'s response, the logging writers of
  \<open>cmd/proxy/context.go\<close>, \<open>cmd/nix-debuginfod/context.go\<close> and \<open>cmd/releases/context.go\<close>, their
  common contract, and the middlewares that turn a handler's error into a status, an abort and
  a row of the access log. A handler is what it does to its writer, in order, and its error.
\<close>

section \<open>net/http\<close>

text \<open>\<open>cn_sent\<close>: the final status with the headers as they were when it was sent.\<close>

record conn =
  cn_header :: headers
  cn_interim :: "(int \<times> headers) list"
  cn_sent :: "(int \<times> headers) option"
  cn_body :: bytes

definition new_conn :: conn where
  "new_conn = \<lparr>cn_header = Map.empty, cn_interim = [], cn_sent = None, cn_body = []\<rparr>"

definition http_WriteHeader :: "int \<Rightarrow> conn \<Rightarrow> conn" where
  "http_WriteHeader code c =
     (if cn_sent c \<noteq> None then c
      else if 100 \<le> code \<and> code < 200 \<and> code \<noteq> 101
      then c\<lparr>cn_interim := cn_interim c @ [(code, cn_header c)]\<rparr>
      else c\<lparr>cn_sent := Some (code, cn_header c)\<rparr>)"

text \<open>A write: \<open>we_accept\<close> is how many bytes the connection takes before it fails.\<close>

record wenv =
  we_now :: time
  we_accept :: "nat option"

definition accepted :: "wenv \<Rightarrow> bytes \<Rightarrow> bytes" where
  "accepted e b = (case we_accept e of None \<Rightarrow> b | Some k \<Rightarrow> take k b)"

definition http_Write :: "wenv \<Rightarrow> bytes \<Rightarrow> conn \<Rightarrow> conn" where
  "http_Write e b c =
     (let c1 = (if cn_sent c = None then http_WriteHeader 200 c else c)
      in c1\<lparr>cn_body := cn_body c1 @ accepted e b\<rparr>)"

section \<open>The logging writers\<close>

record lrw =
  lw_conn :: conn
  lw_status :: int
  lw_wrote :: bool
  lw_bytes :: u64
  lw_start :: time
  lw_sample :: duration

definition throughputSampleBytes :: u64 where
  "throughputSampleBytes = 102400"

definition new_lrw :: "time \<Rightarrow> conn \<Rightarrow> lrw" where
  "new_lrw start c = \<lparr>lw_conn = c, lw_status = 0, lw_wrote = False, lw_bytes = 0, lw_start = start, lw_sample = - 1\<rparr>"

definition lrw_WriteHeader :: "int \<Rightarrow> lrw \<Rightarrow> lrw" where
  "lrw_WriteHeader code w =
     (if lw_wrote w then w
      else w\<lparr>lw_wrote := True, lw_status := code, lw_conn := http_WriteHeader code (lw_conn w)\<rparr>)"

definition lrw_count :: "wenv \<Rightarrow> bytes \<Rightarrow> 'a lrw_scheme \<Rightarrow> 'a lrw_scheme" where
  "lrw_count e b w =
     (let n = lw_bytes w + of_nat (length (accepted e b)) in
      w\<lparr>lw_conn := http_Write e b (lw_conn w), lw_bytes := n,
        lw_sample := (if lw_sample w = - 1 \<and> n > throughputSampleBytes then since (we_now e) (lw_start w) else lw_sample w)\<rparr>)"

definition lrw_Write :: "wenv \<Rightarrow> bytes \<Rightarrow> lrw \<Rightarrow> lrw" where
  "lrw_Write e b w = lrw_count e b (if \<not> lw_wrote w then lrw_WriteHeader 200 w else w)"

record nix_lrw = lrw +
  nl_hints :: bool

definition new_nix_lrw :: "time \<Rightarrow> conn \<Rightarrow> nix_lrw" where
  "new_nix_lrw start c = \<lparr>lw_conn = c, lw_status = 0, lw_wrote = False, lw_bytes = 0, lw_start = start, lw_sample = - 1,
     nl_hints = False\<rparr>"

definition nix_WriteHeader :: "int \<Rightarrow> nix_lrw \<Rightarrow> nix_lrw" where
  "nix_WriteHeader code w =
     (if code \<ge> 100 \<and> code < 200 then
        (if \<not> lw_wrote w then w\<lparr>lw_conn := http_WriteHeader code (lw_conn w), nl_hints := True\<rparr> else w)
      else if lw_wrote w then w
      else w\<lparr>lw_wrote := True, lw_status := code, lw_conn := http_WriteHeader code (lw_conn w)\<rparr>)"

definition nix_Write :: "wenv \<Rightarrow> bytes \<Rightarrow> nix_lrw \<Rightarrow> nix_lrw" where
  "nix_Write e b w = lrw_count e b (if \<not> lw_wrote w then nix_WriteHeader 200 w else w)"

record rel_lrw =
  rw_conn :: conn
  rw_status :: int
  rw_wrote :: bool

definition rel_WriteHeader :: "int \<Rightarrow> rel_lrw \<Rightarrow> rel_lrw" where
  "rel_WriteHeader code w =
     (if rw_wrote w then w
      else w\<lparr>rw_wrote := True, rw_status := code, rw_conn := http_WriteHeader code (rw_conn w)\<rparr>)"

definition rel_Write :: "wenv \<Rightarrow> bytes \<Rightarrow> rel_lrw \<Rightarrow> rel_lrw" where
  "rel_Write e b w =
     (let w1 = (if \<not> rw_wrote w then rel_WriteHeader 200 w else w)
      in w1\<lparr>rw_conn := http_Write e b (rw_conn w1)\<rparr>)"

section \<open>Handlers\<close>

datatype w_op = SetHeader string string | DelHeader string | WriteHeader int | WriteBody wenv bytes

definition edit_header :: "w_op \<Rightarrow> headers \<Rightarrow> headers" where
  "edit_header op h = (case op of SetHeader k v \<Rightarrow> h(k \<mapsto> v) | DelHeader k \<Rightarrow> h(k := None) | _ \<Rightarrow> h)"

definition lrw_op :: "w_op \<Rightarrow> lrw \<Rightarrow> lrw" where
  "lrw_op op w = (case op of
     WriteHeader code \<Rightarrow> lrw_WriteHeader code w
   | WriteBody e b \<Rightarrow> lrw_Write e b w
   | _ \<Rightarrow> w\<lparr>lw_conn := (lw_conn w)\<lparr>cn_header := edit_header op (cn_header (lw_conn w))\<rparr>\<rparr>)"

definition nix_op :: "w_op \<Rightarrow> nix_lrw \<Rightarrow> nix_lrw" where
  "nix_op op w = (case op of
     WriteHeader code \<Rightarrow> nix_WriteHeader code w
   | WriteBody e b \<Rightarrow> nix_Write e b w
   | _ \<Rightarrow> w\<lparr>lw_conn := (lw_conn w)\<lparr>cn_header := edit_header op (cn_header (lw_conn w))\<rparr>\<rparr>)"

definition rel_op :: "w_op \<Rightarrow> rel_lrw \<Rightarrow> rel_lrw" where
  "rel_op op w = (case op of
     WriteHeader code \<Rightarrow> rel_WriteHeader code w
   | WriteBody e b \<Rightarrow> rel_Write e b w
   | _ \<Rightarrow> w\<lparr>rw_conn := (rw_conn w)\<lparr>cn_header := edit_header op (cn_header (rw_conn w))\<rparr>\<rparr>)"

text \<open>\<open>http.Error\<close>.\<close>

definition http_Error :: "wenv \<Rightarrow> string \<Rightarrow> int \<Rightarrow> w_op list" where
  "http_Error e msg code =
     [DelHeader ''content-length'', SetHeader ''content-type'' ''text/plain; charset=utf-8'',
      SetHeader ''x-content-type-options'' ''nosniff'', WriteHeader code, WriteBody e (msg @ [CHR 0x0A])]"

text \<open>What the operations a handler may perform have in common: no status outside those a handler
  of the service uses.\<close>

fun final_op :: "w_op \<Rightarrow> bool" where
  "final_op (WriteHeader code) = (200 \<le> code \<and> code \<le> 999)" | "final_op _ = True"

fun any_op :: "w_op \<Rightarrow> bool" where
  "any_op (WriteHeader code) = (100 \<le> code \<and> code \<le> 999 \<and> code \<noteq> 101)" | "any_op _ = True"

text \<open>What the middleware answers with when a handler failed before it sent anything.\<close>

definition error_ops :: "('e \<Rightarrow> int \<times> string) \<Rightarrow> wenv \<Rightarrow> 'e option \<Rightarrow> bool \<Rightarrow> w_op list" where
  "error_ops answer e err committedByHandler = (case err of
     None \<Rightarrow> []
   | Some r \<Rightarrow> if committedByHandler then [] else http_Error e (snd (answer r)) (fst (answer r)))"

section \<open>The contract of a logging writer\<close>

text \<open>\<open>allowed\<close>: the operations the service's handlers perform. Once a status is committed it
  never changes, and what is logged is what the connection carries.\<close>

fun sends :: "w_op \<Rightarrow> bytes" where
  "sends (WriteBody e b) = accepted e b" | "sends _ = []"

fun edits :: "w_op \<Rightarrow> bool" where
  "edits (SetHeader k v) = True" | "edits (DelHeader k) = True" | "edits _ = False"

locale resp_writer =
  fixes oper :: "w_op \<Rightarrow> 'w \<Rightarrow> 'w"
    and allowed :: "w_op \<Rightarrow> bool"
    and committed :: "'w \<Rightarrow> bool"
    and status :: "'w \<Rightarrow> int"
    and out :: "'w \<Rightarrow> conn"
  assumes keep: "allowed op \<Longrightarrow> committed w \<Longrightarrow> cn_sent (out w) \<noteq> None \<Longrightarrow> committed (oper op w) \<and> status (oper op w) = status w \<and>
      cn_sent (out (oper op w)) = cn_sent (out w)"
    and body: "allowed op \<Longrightarrow> cn_body (out (oper op w)) = cn_body (out w) @ sends op"
    and edit: "allowed op \<Longrightarrow> edits op \<Longrightarrow> committed (oper op w) = committed w"
    and commit: "allowed (WriteHeader c) \<Longrightarrow> 200 \<le> c \<Longrightarrow> \<not> committed w \<Longrightarrow>
      committed (oper (WriteHeader c) w) \<and> status (oper (WriteHeader c) w) = c"
    and first: "allowed op \<Longrightarrow> \<not> committed w \<Longrightarrow> cn_sent (out w) = None \<Longrightarrow>
      (if committed (oper op w) then \<exists>h. cn_sent (out (oper op w)) = Some (status (oper op w), h)
       else cn_sent (out (oper op w)) = None \<and> cn_body (out (oper op w)) = cn_body (out w) \<and>
         status (oper op w) = status w)"
begin

definition agrees :: "'w \<Rightarrow> bool" where
  "agrees w \<longleftrightarrow> (if committed w then \<exists>h. cn_sent (out w) = Some (status w, h) else cn_sent (out w) = None)"

lemma agrees_op: "allowed op \<Longrightarrow> agrees w \<Longrightarrow> agrees (oper op w)"
  using keep [of op w] first [of op w] by (auto simp: agrees_def split: if_splits)

lemma agrees_run: "list_all allowed ops \<Longrightarrow> agrees w \<Longrightarrow> agrees (fold oper ops w)"
  by (induction ops arbitrary: w) (auto simp: agrees_op)

lemma committed_run:
  "list_all allowed ops \<Longrightarrow> committed w \<Longrightarrow> cn_sent (out w) \<noteq> None \<Longrightarrow>
   committed (fold oper ops w) \<and> status (fold oper ops w) = status w \<and> cn_sent (out (fold oper ops w)) = cn_sent (out w)"
proof (induction ops arbitrary: w)
  case (Cons op ops)
  with keep [of op w] show ?case by simp
qed simp

lemma body_run: "list_all allowed ops \<Longrightarrow> cn_body (out (fold oper ops w)) = cn_body (out w) @ concat (map sends ops)"
  by (induction ops arbitrary: w) (simp_all add: body)

text \<open>Nothing has reached the client as long as nothing is committed.\<close>

lemma untouched_run:
  "list_all allowed ops \<Longrightarrow> agrees w \<Longrightarrow> \<not> committed w \<Longrightarrow> \<not> committed (fold oper ops w) \<Longrightarrow>
   cn_body (out (fold oper ops w)) = cn_body (out w) \<and> status (fold oper ops w) = status w"
proof (induction ops arbitrary: w)
  case (Cons op ops)
  have n: "\<not> committed (oper op w)" using committed_run [of ops "oper op w"] agrees_op [of op w] Cons.prems by (auto simp: agrees_def)
  with first [of op w] Cons.prems have 1: "cn_body (out (oper op w)) = cn_body (out w) \<and> status (oper op w) = status w"
    by (simp add: agrees_def)
  from Cons.IH [of "oper op w"] n agrees_op [of op w] Cons.prems have
    "cn_body (out (fold oper ops (oper op w))) = cn_body (out (oper op w)) \<and> status (fold oper ops (oper op w)) = status (oper op w)"
    by simp
  with 1 show ?case by simp
qed simp

lemma error_run:
  assumes ok: "list_all allowed (http_Error e msg c)" "200 \<le> c" and w: "agrees w" "\<not> committed w"
  shows "(\<exists>h. cn_sent (out (fold oper (http_Error e msg c) w)) = Some (c, h)) \<and>
    status (fold oper (http_Error e msg c) w) = c \<and>
    cn_body (out (fold oper (http_Error e msg c) w)) = cn_body (out w) @ accepted e (msg @ [CHR 0x0A])"
proof -
  let ?pre = "[DelHeader ''content-length'', SetHeader ''content-type'' ''text/plain; charset=utf-8'',
      SetHeader ''x-content-type-options'' ''nosniff'']"
  let ?w1 = "fold oper ?pre w" let ?w2 = "oper (WriteHeader c) ?w1"
  have okp: "list_all allowed ?pre" and okw: "allowed (WriteHeader c)" "allowed (WriteBody e (msg @ [CHR 0x0A]))"
    using ok(1) by (simp_all add: http_Error_def)
  have n1: "\<not> committed ?w1" using okp w(2) edit by simp
  have a1: "agrees ?w1" using agrees_run [OF okp w(1)] .
  have c2: "committed ?w2" "status ?w2 = c" using commit [OF okw(1) ok(2) n1] by simp_all
  have a2: "agrees ?w2" using agrees_op [OF okw(1) a1] .
  have s2: "\<exists>h. cn_sent (out ?w2) = Some (c, h)" using a2 c2 by (simp add: agrees_def)
  have eq: "fold oper (http_Error e msg c) w = oper (WriteBody e (msg @ [CHR 0x0A])) ?w2"
    by (simp add: http_Error_def)
  have "cn_sent (out ?w2) \<noteq> None" using s2 by auto
  from keep [OF okw(2) c2(1) this] s2 c2(2) body_run [OF ok(1), of w]
  show ?thesis unfolding eq by (simp add: http_Error_def)
qed

text \<open>A middleware over the writer: the handler's operations, then the answer to its error.\<close>

lemma middleware_run:
  assumes ops: "list_all allowed ops"
    and ans: "\<And>e. list_all allowed (http_Error we (snd (answer e)) (fst (answer e))) \<and> 200 \<le> fst (answer e)"
    and w0: "agrees w0" "\<not> committed w0" "cn_body (out w0) = []" "status w0 = 0"
    and w1: "w1 = fold oper ops w0"
    and w2: "w2 = fold oper (error_ops answer we err (committed w1)) w1"
  shows "status w2 = (case cn_sent (out w2) of None \<Rightarrow> 0 | Some (code, h) \<Rightarrow> code)"
    and "case err of
       None \<Rightarrow> w2 = w1
     | Some e \<Rightarrow> if committed w1 then cn_sent (out w2) \<noteq> None
         else map_option fst (cn_sent (out w2)) = Some (fst (answer e)) \<and>
           cn_body (out w2) = accepted we (snd (answer e) @ [CHR 0x0A])"
proof -
  have a1: "agrees w1" unfolding w1 by (rule agrees_run [OF ops w0(1)])
  have b1: "\<not> committed w1 \<Longrightarrow> cn_body (out w1) = [] \<and> status w1 = 0"
    using untouched_run [OF ops w0(1,2)] w0(3,4) unfolding w1 by simp
  have none: "err = None \<or> committed w1 \<Longrightarrow> w2 = w1" unfolding w2 by (auto simp: error_ops_def split: option.splits)
  have st1: "status w1 = (case cn_sent (out w1) of None \<Rightarrow> 0 | Some (code, h) \<Rightarrow> code)"
    using a1 b1 by (cases "committed w1") (auto simp: agrees_def)
  have run: "(\<exists>h. cn_sent (out w2) = Some (fst (answer e), h)) \<and> status w2 = fst (answer e) \<and>
      cn_body (out w2) = accepted we (snd (answer e) @ [CHR 0x0A])" if "err = Some e" "\<not> committed w1" for e
    using error_run [of we "snd (answer e)" "fst (answer e)" w1] ans a1 b1 that unfolding w2 by (simp add: error_ops_def)
  show "status w2 = (case cn_sent (out w2) of None \<Rightarrow> 0 | Some (code, h) \<Rightarrow> code)"
  proof (cases "err = None \<or> committed w1")
    case True
    with none st1 show ?thesis by simp
  next
    case False
    then obtain e where e: "err = Some e" "\<not> committed w1" by auto
    from run [OF e] obtain h where "cn_sent (out w2) = Some (fst (answer e), h)" "status w2 = fst (answer e)" by blast
    then show ?thesis by simp
  qed
  show "case err of
       None \<Rightarrow> w2 = w1
     | Some e \<Rightarrow> if committed w1 then cn_sent (out w2) \<noteq> None
         else map_option fst (cn_sent (out w2)) = Some (fst (answer e)) \<and>
           cn_body (out w2) = accepted we (snd (answer e) @ [CHR 0x0A])"
  proof (cases err)
    case (Some e)
    then show ?thesis using none run [OF Some] a1 by (cases "committed w1") (auto simp: agrees_def)
  qed (simp add: none)
qed

end

lemmas lrw_defs = lrw_op_def lrw_WriteHeader_def lrw_Write_def lrw_count_def http_WriteHeader_def http_Write_def
  edit_header_def Let_def

interpretation pw: resp_writer lrw_op final_op lw_wrote lw_status lw_conn
proof
  fix op w
  show "final_op op \<Longrightarrow> lw_wrote w \<Longrightarrow> cn_sent (lw_conn w) \<noteq> None \<Longrightarrow> lw_wrote (lrw_op op w) \<and>
      lw_status (lrw_op op w) = lw_status w \<and> cn_sent (lw_conn (lrw_op op w)) = cn_sent (lw_conn w)"
    by (cases op) (auto simp: lrw_defs)
  show "final_op op \<Longrightarrow> cn_body (lw_conn (lrw_op op w)) = cn_body (lw_conn w) @ sends op"
    by (cases op) (auto simp: lrw_defs)
  show "final_op op \<Longrightarrow> edits op \<Longrightarrow> lw_wrote (lrw_op op w) = lw_wrote w"
    by (cases op) (auto simp: lrw_defs)
  show "final_op (WriteHeader c) \<Longrightarrow> 200 \<le> c \<Longrightarrow> \<not> lw_wrote w \<Longrightarrow>
      lw_wrote (lrw_op (WriteHeader c) w) \<and> lw_status (lrw_op (WriteHeader c) w) = c" for c
    by (auto simp: lrw_defs)
  show "final_op op \<Longrightarrow> \<not> lw_wrote w \<Longrightarrow> cn_sent (lw_conn w) = None \<Longrightarrow>
      (if lw_wrote (lrw_op op w) then \<exists>h. cn_sent (lw_conn (lrw_op op w)) = Some (lw_status (lrw_op op w), h)
       else cn_sent (lw_conn (lrw_op op w)) = None \<and> cn_body (lw_conn (lrw_op op w)) = cn_body (lw_conn w) \<and>
         lw_status (lrw_op op w) = lw_status w)"
    by (cases op) (auto simp: lrw_defs)
qed

lemmas nix_defs = nix_op_def nix_WriteHeader_def nix_Write_def lrw_count_def http_WriteHeader_def http_Write_def
  edit_header_def Let_def

interpretation nw: resp_writer nix_op any_op lw_wrote lw_status lw_conn
proof
  fix op w
  show "any_op op \<Longrightarrow> lw_wrote w \<Longrightarrow> cn_sent (lw_conn w) \<noteq> None \<Longrightarrow> lw_wrote (nix_op op w) \<and>
      lw_status (nix_op op w) = lw_status w \<and> cn_sent (lw_conn (nix_op op w)) = cn_sent (lw_conn w)"
    by (cases op) (auto simp: nix_defs)
  show "any_op op \<Longrightarrow> cn_body (lw_conn (nix_op op w)) = cn_body (lw_conn w) @ sends op"
    by (cases op) (auto simp: nix_defs)
  show "any_op op \<Longrightarrow> edits op \<Longrightarrow> lw_wrote (nix_op op w) = lw_wrote w"
    by (cases op) (auto simp: nix_defs)
  show "any_op (WriteHeader c) \<Longrightarrow> 200 \<le> c \<Longrightarrow> \<not> lw_wrote w \<Longrightarrow>
      lw_wrote (nix_op (WriteHeader c) w) \<and> lw_status (nix_op (WriteHeader c) w) = c" for c
    by (auto simp: nix_defs)
  show "any_op op \<Longrightarrow> \<not> lw_wrote w \<Longrightarrow> cn_sent (lw_conn w) = None \<Longrightarrow>
      (if lw_wrote (nix_op op w) then \<exists>h. cn_sent (lw_conn (nix_op op w)) = Some (lw_status (nix_op op w), h)
       else cn_sent (lw_conn (nix_op op w)) = None \<and> cn_body (lw_conn (nix_op op w)) = cn_body (lw_conn w) \<and>
         lw_status (nix_op op w) = lw_status w)"
    by (cases op) (auto simp: nix_defs)
qed

lemmas rel_defs = rel_op_def rel_WriteHeader_def rel_Write_def http_WriteHeader_def http_Write_def
  edit_header_def Let_def

interpretation rw: resp_writer rel_op final_op rw_wrote rw_status rw_conn
proof
  fix op w
  show "final_op op \<Longrightarrow> rw_wrote w \<Longrightarrow> cn_sent (rw_conn w) \<noteq> None \<Longrightarrow> rw_wrote (rel_op op w) \<and>
      rw_status (rel_op op w) = rw_status w \<and> cn_sent (rw_conn (rel_op op w)) = cn_sent (rw_conn w)"
    by (cases op) (auto simp: rel_defs)
  show "final_op op \<Longrightarrow> cn_body (rw_conn (rel_op op w)) = cn_body (rw_conn w) @ sends op"
    by (cases op) (auto simp: rel_defs)
  show "final_op op \<Longrightarrow> edits op \<Longrightarrow> rw_wrote (rel_op op w) = rw_wrote w"
    by (cases op) (auto simp: rel_defs)
  show "final_op (WriteHeader c) \<Longrightarrow> 200 \<le> c \<Longrightarrow> \<not> rw_wrote w \<Longrightarrow>
      rw_wrote (rel_op (WriteHeader c) w) \<and> rw_status (rel_op (WriteHeader c) w) = c" for c
    by (auto simp: rel_defs)
  show "final_op op \<Longrightarrow> \<not> rw_wrote w \<Longrightarrow> cn_sent (rw_conn w) = None \<Longrightarrow>
      (if rw_wrote (rel_op op w) then \<exists>h. cn_sent (rw_conn (rel_op op w)) = Some (rw_status (rel_op op w), h)
       else cn_sent (rw_conn (rel_op op w)) = None \<and> cn_body (rw_conn (rel_op op w)) = cn_body (rw_conn w) \<and>
         rw_status (rel_op op w) = rw_status w)"
    by (cases op) (auto simp: rel_defs)
qed

section \<open>The middlewares\<close>

definition proxy_answer :: "proxy_err \<Rightarrow> int \<times> string" where
  "proxy_answer r =
     (if errors_Is r ErrSourceNotImplemented then (501, ''source not implemented'')
      else if errors_Is r ErrDebuginfoNotFound then (404, ''not found'')
      else if errors_Is r ErrDebuginfodTemporaryDown then (503, err_text r)
      else (500, ''Internal Server Error''))"

datatype nix_err = ErrNixDebuginfoNotFound | ErrNotExist | NErrorf string | NWrap string nix_err

fun nix_Is :: "nix_err \<Rightarrow> nix_err \<Rightarrow> bool" where
  "nix_Is (NWrap m e) t = nix_Is e t"
| "nix_Is (NErrorf m) t = False"
| "nix_Is e t = (e = t)"

fun nix_text :: "nix_err \<Rightarrow> string" where
  "nix_text ErrNixDebuginfoNotFound = ''nix debuginfo not found''"
| "nix_text ErrNotExist = ''file does not exist''"
| "nix_text (NErrorf m) = m"
| "nix_text (NWrap m e) = m @ '': '' @ nix_text e"

definition nix_answer :: "nix_err \<Rightarrow> int \<times> string" where
  "nix_answer r =
     (if nix_Is r ErrNixDebuginfoNotFound \<or> nix_Is r ErrNotExist then (404, ''not found'')
      else (500, ''Internal Server Error''))"

text \<open>Rows of the access logs, and what a request gives to them.\<close>

record request =
  rq_peer :: peer
  rq_method :: string
  rq_uri :: string
  rq_build :: string

record accessLogEntry =
  al_time :: time
  al_ip :: addr
  al_country :: string
  al_tags :: "string list"
  al_method :: string
  al_endpoint :: string
  al_uri :: string
  al_status :: "16 word"
  al_agent :: string
  al_duration :: duration
  al_duration100 :: duration
  al_bytes :: u64
  al_build :: string
  al_host :: string
  al_cache :: string
  al_error :: string
  al_headers :: stateHeaders

text \<open>The columns \<open>duration_ms\<close> and \<open>duration_100kb_ms\<close>: \<open>uint32(d.Milliseconds())\<close>, truncated
  towards zero and wrapped.\<close>

definition row_ms :: "duration \<Rightarrow> u32" where
  "row_ms d = (if 0 \<le> d then of_int (d div 1000000) else of_int (- ((- d) div 1000000)))"

text \<open>What the environment of one request gives: the clock at its three readings, what the error page's
  write meets, and the classifiers of the client address.\<close>

record menv =
  me_start :: time
  me_time :: time
  me_end :: time
  me_write :: wenv
  me_port :: "string \<Rightarrow> addr option"
  me_addr :: "string \<Rightarrow> addr option"
  me_cf :: cfipManager
  me_gh :: "ipTagSet option"

definition proxy_entry :: "menv \<Rightarrow> string \<Rightarrow> request \<Rightarrow> accessLogEntry" where
  "proxy_entry env endpointName r =
     (let ip = (case getRealIP (me_port env) (me_addr env) (me_cf env) (rq_peer r) of Some a \<Rightarrow> a | None \<Rightarrow> AddrNone) in
      \<lparr>al_time = me_time env, al_ip = ip, al_country = getCFCountry (me_port env) (me_cf env) (rq_peer r),
       al_tags = ghTagsFor (me_gh env) ip, al_method = rq_method r, al_endpoint = endpointName, al_uri = rq_uri r,
       al_status = 0, al_agent = http_get (pe_headers (rq_peer r)) ''user-agent'', al_duration = 0, al_duration100 = 0,
       al_bytes = 0, al_build = rq_build r, al_host = [], al_cache = [], al_error = [], al_headers = no_headers\<rparr>)"

definition fill_entry :: "duration \<Rightarrow> string \<Rightarrow> 'a lrw_scheme \<Rightarrow> accessLogEntry \<Rightarrow> accessLogEntry" where
  "fill_entry d errmsg w en = en\<lparr>al_error := errmsg, al_duration := d,
     al_duration100 := (if lw_sample w \<noteq> - 1 then lw_sample w else al_duration100 en),
     al_status := of_int (lw_status w), al_bytes := lw_bytes w,
     al_headers := state_headers (cn_header (lw_conn w))\<rparr>"

text \<open>A handler's run: its operations, its error, the host it resolved. The result: the writer, the
  row, and whether the connection is aborted (\<open>panic(http.ErrAbortHandler)\<close>).\<close>

definition proxy_Middleware :: "menv \<Rightarrow> string \<Rightarrow> request \<Rightarrow> w_op list \<times> proxy_err option \<times> string \<Rightarrow> conn
    \<Rightarrow> lrw \<times> accessLogEntry \<times> bool" where
  "proxy_Middleware env endpointName r run c = (case run of (ops, respErr, host) \<Rightarrow>
     (let w1 = fold lrw_op ops (new_lrw (me_start env) c);
          committedByHandler = lw_wrote w1;
          w2 = fold lrw_op (error_ops proxy_answer (me_write env) respErr committedByHandler) w1;
          en = (fill_entry (since (me_end env) (me_start env)) (errToString respErr) w2
                 (proxy_entry env endpointName r))
               \<lparr>al_host := host, al_cache := http_get (cn_header (lw_conn w2)) ''x-cache''\<rparr>
      in (w2, en, respErr \<noteq> None \<and> committedByHandler)))"

definition nix_entry :: "menv \<Rightarrow> string \<Rightarrow> request \<Rightarrow> accessLogEntry" where
  "nix_entry env endpointName r =
      \<lparr>al_time = me_time env, al_ip = (case me_port env (pe_remote (rq_peer r)) of Some a \<Rightarrow> a | None \<Rightarrow> AddrNone),
       al_country = [], al_tags = [], al_method = rq_method r, al_endpoint = endpointName, al_uri = rq_uri r,
       al_status = 0, al_agent = http_get (pe_headers (rq_peer r)) ''user-agent'', al_duration = 0, al_duration100 = 0,
       al_bytes = 0, al_build = rq_build r, al_host = [], al_cache = [], al_error = [], al_headers = no_headers\<rparr>"

definition nix_Middleware :: "menv \<Rightarrow> string \<Rightarrow> request \<Rightarrow> w_op list \<times> nix_err option \<Rightarrow> conn
    \<Rightarrow> nix_lrw \<times> accessLogEntry \<times> bool" where
  "nix_Middleware env endpointName r run c = (case run of (ops, respErr) \<Rightarrow>
     (let w1 = fold nix_op ops (new_nix_lrw (me_start env) c);
          committedByHandler = lw_wrote w1;
          w2 = fold nix_op (error_ops nix_answer (me_write env) respErr committedByHandler) w1;
          en = fill_entry (since (me_end env) (me_start env)) (case respErr of None \<Rightarrow> [] | Some e \<Rightarrow> nix_text e) w2
                 (nix_entry env endpointName r)
      in (w2, en, respErr \<noteq> None \<and> committedByHandler)))"

record releasesEntry =
  re_time :: time
  re_ip :: addr
  re_country :: string
  re_version :: string
  re_file :: string
  re_uri :: string
  re_status :: "16 word"
  re_agent :: string

definition releases_Middleware :: "menv \<Rightarrow> string \<Rightarrow> string \<Rightarrow> request \<Rightarrow> w_op list \<Rightarrow> conn \<Rightarrow> rel_lrw \<times> releasesEntry" where
  "releases_Middleware env version fname r ops c =
     (let w = fold rel_op ops \<lparr>rw_conn = c, rw_status = 0, rw_wrote = False\<rparr>
      in (w, \<lparr>re_time = me_start env, re_ip = clientIP (me_port env) (me_addr env) (rq_peer r),
        re_country = http_get (pe_headers (rq_peer r)) ''cf-ipcountry'', re_version = version, re_file = fname,
        re_uri = rq_uri r, re_status = of_int (rw_status w),
        re_agent = http_get (pe_headers (rq_peer r)) ''user-agent''\<rparr>))"

section \<open>What the client sees and what is logged\<close>

definition counted :: "'a lrw_scheme \<Rightarrow> bool" where
  "counted w \<longleftrightarrow> lw_bytes w = of_nat (length (cn_body (lw_conn w)))"

lemma counted_op:
  "counted w \<Longrightarrow> counted (lrw_op op w)" "counted v \<Longrightarrow> counted (nix_op op v)"
  by (cases op; auto simp: counted_def lrw_defs nix_defs)+

lemma counted_run:
  "counted w \<Longrightarrow> counted (fold lrw_op ops w)" "counted v \<Longrightarrow> counted (fold nix_op ops v)"
  by (induction ops arbitrary: w v) (simp_all add: counted_op)

lemma error_ops_allowed:
  "list_all final_op (error_ops proxy_answer e err k)" "list_all any_op (error_ops nix_answer e err' k)"
  by (simp_all add: error_ops_def http_Error_def proxy_answer_def nix_answer_def split: option.splits)

lemma answers_ok:
  "list_all final_op (http_Error e (snd (proxy_answer r)) (fst (proxy_answer r))) \<and> 200 \<le> fst (proxy_answer r)"
  "list_all any_op (http_Error e (snd (nix_answer q)) (fst (nix_answer q))) \<and> 200 \<le> fst (nix_answer q)"
  by (simp_all add: http_Error_def proxy_answer_def nix_answer_def)

lemmas proxy_answer_ok = answers_ok(1)
lemmas nix_answer_ok = answers_ok(2)

definition nix_final :: "nix_lrw \<Rightarrow> bool" where
  "nix_final w \<longleftrightarrow> lw_status w = 0 \<or> 200 \<le> lw_status w"

lemma nix_final_run: "list_all any_op ops \<Longrightarrow> nix_final w \<Longrightarrow> nix_final (fold nix_op ops w)"
proof (induction ops arbitrary: w)
  case (Cons op ops)
  have "nix_final (nix_op op w)"
    using Cons.prems by (cases op) (auto simp: nix_final_def nix_defs)
  with Cons show ?case by simp
qed simp

lemma fresh_writer:
  "pw.agrees (new_lrw t new_conn)" "\<not> lw_wrote (new_lrw t new_conn)" "counted (new_lrw t new_conn)"
  "nw.agrees (new_nix_lrw t new_conn)" "\<not> lw_wrote (new_nix_lrw t new_conn)" "counted (new_nix_lrw t new_conn)"
  "cn_body (lw_conn (new_lrw t new_conn)) = []" "cn_body (lw_conn (new_nix_lrw t new_conn)) = []" "lw_status (new_lrw t c) = 0" "lw_status (new_nix_lrw t c) = 0"
  "nix_final (new_nix_lrw t c)"
  by (simp_all add: nix_final_def pw.agrees_def nw.agrees_def new_lrw_def new_nix_lrw_def counted_def new_conn_def)

text \<open>What a response amounts to for the client: the status and body it received, or an aborted
  connection; and the row that goes with it.\<close>

definition row_true :: "accessLogEntry \<Rightarrow> conn \<Rightarrow> bool" where
  "row_true en c \<longleftrightarrow> al_status en = of_int (case cn_sent c of None \<Rightarrow> 0 | Some (code, h) \<Rightarrow> code) \<and>
     al_bytes en = of_nat (length (cn_body c))"


definition ex_menv :: menv where
  "ex_menv = \<lparr>me_start = 0, me_time = 1, me_end = 5, me_write = \<lparr>we_now = 4, we_accept = None\<rparr>,
     me_port = (\<lambda>_. Some (Addr4 0x7F000001)), me_addr = (\<lambda>_. None), me_cf = \<lparr>cf_prefixes = [], cf_updated = None\<rparr>, me_gh = None\<rparr>"

definition ex_request :: request where
  "ex_request = \<lparr>rq_peer = \<lparr>pe_remote = ''127.0.0.1:1'', pe_headers = Map.empty\<rparr>, rq_method = ''GET'',
     rq_uri = ''/buildid/00/debuginfo'', rq_build = ''00''\<rparr>"


text \<open>The same for the nix backend, whose handler may send informational responses first: they
  never seal the response, so a failure after Early Hints is still a 404 or 500, and a 103 is
  never what the row says.\<close>
theorem nix_Middleware_outcome:
  assumes ops: "list_all any_op ops"
    and run: "nix_Middleware env ep r (ops, err) new_conn = (w, en, aborted)"
  shows "(aborted \<longleftrightarrow> err \<noteq> None \<and> lw_wrote (fold nix_op ops (new_nix_lrw (me_start env) new_conn))) \<and>
    row_true en (lw_conn w) \<and>
    (case err of
       None \<Rightarrow> w = fold nix_op ops (new_nix_lrw (me_start env) new_conn)
     | Some e \<Rightarrow> if aborted then cn_sent (lw_conn w) \<noteq> None
         else map_option fst (cn_sent (lw_conn w)) = Some (fst (nix_answer e)) \<and>
           cn_body (lw_conn w) = accepted (me_write env) (snd (nix_answer e) @ [CHR 0x0A])) \<and>
    (lw_status w = 0 \<or> 200 \<le> lw_status w)"
proof -
  define w1 where "w1 = fold nix_op ops (new_nix_lrw (me_start env) new_conn)"
  have w: "w = fold nix_op (error_ops nix_answer (me_write env) err (lw_wrote w1)) w1"
    and ab: "aborted \<longleftrightarrow> err \<noteq> None \<and> lw_wrote w1"
    and row: "al_status en = of_int (lw_status w)" "al_bytes en = lw_bytes w"
    using run by (auto simp: nix_Middleware_def Let_def w1_def fill_entry_def)
  have cnt: "counted w" unfolding w w1_def by (intro counted_run fresh_writer)
  note m = nw.middleware_run [OF ops nix_answer_ok fresh_writer(4,5) fresh_writer(8) fresh_writer(10) w1_def w]
  from m(1) cnt row have "row_true en (lw_conn w)" by (simp add: row_true_def counted_def)
  moreover have "nix_final w" unfolding w w1_def by (intro nix_final_run ops error_ops_allowed fresh_writer)
  ultimately show ?thesis using m(2) ab unfolding w1_def [symmetric] by (cases err) (auto simp: nix_final_def)
qed

theorem nix_Middleware_outcome_witness:
  "\<exists>w en. nix_Middleware ex_menv ''debuginfo'' ex_request ([SetHeader ''x-status'' ''200'', WriteHeader 103], Some (NErrorf ''mkfs'')) new_conn
       = (w, en, False) \<and> map_option fst (cn_sent (lw_conn w)) = Some 500 \<and> row_true en (lw_conn w)"
proof -
  let ?ops = "[SetHeader ''x-status'' ''200'', WriteHeader 103]"
  obtain w en ab where run: "nix_Middleware ex_menv ''debuginfo'' ex_request (?ops, Some (NErrorf ''mkfs'')) new_conn = (w, en, ab)"
    by (metis prod_cases3)
  have n: "\<not> lw_wrote (fold nix_op ?ops (new_nix_lrw (me_start ex_menv) new_conn))"
    by (simp add: nix_defs new_nix_lrw_def)
  from nix_Middleware_outcome [OF _ run] n have "\<not> ab" "row_true en (lw_conn w)"
    "map_option fst (cn_sent (lw_conn w)) = Some 500"
    by (auto simp: nix_answer_def split: if_splits)
  with run show ?thesis by auto
qed

end
