(* ===== verification/ProxyServe.thy ===== *)
theory ProxyServe
  imports RespWriter CacheSafety
begin

text \<open>
  \<open>proxyRequest\<close> of \<open>cmd/proxy/main.go\<close>, composed of the finder, the file cache and the direct
  fetch, as the handler the access-log middleware runs: what it does to the writer, its error
  and the host it resolved. With it, the composition of cache, handler and middleware: what a
  client may conclude from a response that was not aborted.
\<close>

section \<open>Copying a body\<close>

text \<open>\<open>io.Copy\<close>: the writes it makes, each with what it meets, and how reading ended.\<close>

fun copy_body :: "(wenv \<times> bytes) list \<Rightarrow> proxy_err option \<Rightarrow> w_op list \<times> proxy_err option" where
  "copy_body [] end_err = ([], end_err)"
| "copy_body ((e, b) # xs) end_err =
     (if we_accept e \<noteq> None then ([WriteBody e b], Some (Errorf ''write failed''))
      else (case copy_body xs end_err of (ops, err) \<Rightarrow> (WriteBody e b # ops, err)))"

section \<open>From the cache\<close>

text \<open>\<open>writeCachedHeaders\<close> as edits of the writer's header map.\<close>

definition cached_header_ops :: "cacheMeta \<Rightarrow> string \<Rightarrow> string \<Rightarrow> bool \<Rightarrow> w_op list" where
  "cached_header_ops meta hostName cacheStatus streaming =
     concat (map (\<lambda>name. DelHeader name # (case cm_headers meta name of
         Some v \<Rightarrow> if v \<noteq> [] then [SetHeader name v] else [] | None \<Rightarrow> [])) proxyHeaders) @
     [if streaming then DelHeader ''content-length'' else SetHeader ''content-length'' (int_str (cm_size meta)),
      SetHeader ''x-server'' (if cm_host meta \<noteq> [] then cm_host meta else hostName),
      SetHeader ''x-cache'' cacheStatus]"

definition writeBody :: "cacheMeta \<Rightarrow> string \<Rightarrow> string \<Rightarrow> bool \<Rightarrow> (wenv \<times> bytes) list \<Rightarrow> proxy_err option
    \<Rightarrow> w_op list \<times> proxy_err option" where
  "writeBody meta hostName cacheStatus streaming writes end_err =
     (case copy_body writes end_err of (ops, err) \<Rightarrow>
        (cached_header_ops meta hostName cacheStatus streaming @ WriteHeader (cm_status meta) # ops, err))"

fun flight_text :: "flight_err \<Rightarrow> proxy_err" where
  "flight_text (EFetch e) = e"
| "flight_text (ERead m) = Errorf m"
| "flight_text _ = Errorf ''cache: download failed''"

fun fol_text :: "fol_err \<Rightarrow> proxy_err" where
  "fol_text (FDownload e) = flight_text e"
| "fol_text FCancelled = Errorf ''context canceled''"
| "fol_text FUnexpectedEOF = Errorf ''unexpected EOF''"
| "fol_text _ = Errorf ''cache''"

text \<open>What \<open>Serve\<close> came to for this client: no slot, an end before the headers, or a follower
  that sent headers (its bytes, how it ended).\<close>

datatype served = Busy | Refused fol_err | Followed follower bool

definition serve_result :: "string \<Rightarrow> served \<Rightarrow> (wenv \<times> bytes) list \<Rightarrow> (w_op list \<times> proxy_err option) option" where
  "serve_result hostName sv writes = (case sv of
     Busy \<Rightarrow> None
   | Refused e \<Rightarrow> Some ([], Some (fol_text e))
   | Followed w streaming \<Rightarrow>
       Some (writeBody (fo_meta w) hostName (fo_status w) streaming writes
         (case fo_pc w of FDone (Some e) \<Rightarrow> Some (fol_text e) | _ \<Rightarrow> None)))"

section \<open>proxyRequest\<close>

record req_env =
  qe_find :: "proxy_err + Server"
  qe_cache :: bool
  qe_served :: served
  qe_fetch :: "string + response"
  qe_writes :: "(wenv \<times> bytes) list"
  qe_end :: "string option"

definition direct_header_ops :: "response \<Rightarrow> string \<Rightarrow> bool \<Rightarrow> w_op list" where
  "direct_header_ops resp hostName overloaded =
     concat (map (\<lambda>name. DelHeader name # (if length (up_headers resp name) > 0
         then [SetHeader name (up_headers resp name)] else [])) proxyHeaders) @
     SetHeader ''x-server'' hostName # (if overloaded then [] else [SetHeader ''x-cache'' ''BYPASS''])"

definition copy_error :: "proxy_err option \<Rightarrow> proxy_err option" where
  "copy_error e = map_option (\<lambda>e. Errorf (''copying response body: '' @ err_text e)) e"

definition direct :: "req_env \<Rightarrow> string \<Rightarrow> bool \<Rightarrow> w_op list \<times> proxy_err option" where
  "direct env hostName overloaded =
     (let pre = (if overloaded then [SetHeader ''x-cache'' ''OVERLOADED''] else []) in
      case Fetch up_status (qe_fetch env) of
        Inl e \<Rightarrow> (pre, Some e)
      | Inr resp \<Rightarrow> (case copy_body (qe_writes env) (map_option Errorf (qe_end env)) of (ops, err) \<Rightarrow>
          (pre @ direct_header_ops resp hostName overloaded @ WriteHeader (up_status resp) # ops, copy_error err)))"

definition proxyRequest :: "string \<Rightarrow> req_env \<Rightarrow> w_op list \<times> proxy_err option \<times> string" where
  "proxyRequest endpointName env = (case qe_find env of
     Inl e \<Rightarrow> ([], Some e, [])
   | Inr host \<Rightarrow>
       (let hostName = srv_name host;
            run = (if qe_cache env \<and> cacheableEndpoints endpointName
                   then (case serve_result hostName (qe_served env) (qe_writes env) of
                       None \<Rightarrow> direct env hostName True
                     | Some r \<Rightarrow> r)
                   else direct env hostName False)
        in (fst run, snd run, hostName)))"

section \<open>Facts\<close>

lemma edits_all:
  "list_all edits (cached_header_ops m h st k)" "list_all edits (direct_header_ops resp h ov)"
  by (auto simp: cached_header_ops_def direct_header_ops_def list_all_iff split: option.splits if_splits)

lemma edits_final: "list_all edits ops \<Longrightarrow> list_all final_op ops"
proof (induction ops)
  case (Cons op ops)
  then show ?case by (cases op) auto
qed simp

lemma cached_header_ops_map:
  "fold edit_header (cached_header_ops meta hostName st streaming) h = writeCachedHeaders meta hostName st streaming h"
proof -
  have 1: "fold edit_header (case cm_headers meta name of Some v \<Rightarrow> if v \<noteq> [] then [SetHeader name v] else [] | None \<Rightarrow> [])
      (edit_header (DelHeader name) h) = copy_header meta name h" for name h
    by (auto simp: edit_header_def copy_header_def Let_def split: option.splits)
  have 2: "fold edit_header (concat (map (\<lambda>name. DelHeader name # (case cm_headers meta name of
         Some v \<Rightarrow> if v \<noteq> [] then [SetHeader name v] else [] | None \<Rightarrow> [])) ns)) h = fold (copy_header meta) ns h" for ns h
    by (induction ns arbitrary: h) (simp_all add: 1)
  show ?thesis
    unfolding cached_header_ops_def writeCachedHeaders_def Let_def fold_append comp_apply 2
    by (simp add: edit_header_def)
qed

lemma copy_body_ok:
  "copy_body xs end_err = (ops, err) \<Longrightarrow> list_all final_op ops \<and>
   (err = None \<longrightarrow> end_err = None \<and> concat (map sends ops) = concat (map snd xs))"
proof (induction xs arbitrary: ops err)
  case (Cons x xs)
  obtain e b where x: "x = (e, b)" by fastforce
  obtain ops' err' where c: "copy_body xs end_err = (ops', err')" by fastforce
  from Cons.IH [OF c] Cons.prems x c show ?case
    by (cases "we_accept e") (auto simp: accepted_def)
qed simp

lemma edits_not_sent: "list_all edits ops \<Longrightarrow> concat (map sends ops) = []"
proof (induction ops)
  case (Cons op ops)
  then show ?case by (cases op) auto
qed simp

lemma edits_uncommitted: "list_all edits ops \<Longrightarrow> lw_wrote (fold lrw_op ops w) = lw_wrote w"
proof (induction ops arbitrary: w)
  case (Cons op ops)
  have "lw_wrote (lrw_op op w) = lw_wrote w" using Cons.prems by (cases op) (auto simp: lrw_defs)
  with Cons show ?case by simp
qed simp

text \<open>Header edits, then a status, then the body: what every answer with content does.\<close>

lemma content_run:
  assumes e: "list_all edits pre" and c: "200 \<le> code" "code \<le> 999" and b: "list_all final_op ops"
    and w: "w = fold lrw_op (pre @ WriteHeader code # ops) (new_lrw t new_conn)"
  shows "lw_wrote w" "map_option fst (cn_sent (lw_conn w)) = Some code" "cn_body (lw_conn w) = concat (map sends ops)"
proof -
  let ?w0 = "new_lrw t new_conn" let ?w1 = "fold lrw_op pre ?w0" let ?w2 = "lrw_op (WriteHeader code) ?w1"
  note ep = edits_final [OF e]
  have n: "\<not> lw_wrote ?w1" using edits_uncommitted [OF e] fresh_writer(2) by simp
  have a: "pw.agrees ?w1" by (intro pw.agrees_run ep fresh_writer)
  have f: "final_op (WriteHeader code)" using c by simp
  have cm: "lw_wrote ?w2 \<and> lw_status ?w2 = code" by (rule pw.commit [OF f c(1) n])
  have s2: "map_option fst (cn_sent (lw_conn ?w2)) = Some code"
    using pw.agrees_op [OF f a] cm by (auto simp: pw.agrees_def)
  then have "cn_sent (lw_conn ?w2) \<noteq> None" by auto
  from pw.committed_run [OF b _ this] cm s2 w show "lw_wrote w" "map_option fst (cn_sent (lw_conn w)) = Some code"
    by simp_all
  have "list_all final_op (pre @ WriteHeader code # ops)" using ep b c by simp
  from pw.body_run [OF this, of ?w0] w edits_not_sent [OF e]
  show "cn_body (lw_conn w) = concat (map sends ops)" by (simp add: fresh_writer)
qed

section \<open>What a client may conclude\<close>

text \<open>The body and end of the source the handler copies from.\<close>

definition source_ok :: "(bytes \<Rightarrow> bool) \<Rightarrow> string \<Rightarrow> req_env \<Rightarrow> bool" where
  "source_ok good endpointName env \<longleftrightarrow>
     (if qe_cache env \<and> cacheableEndpoints endpointName \<and> qe_served env \<noteq> Busy
      then (case qe_served env of
          Followed w streaming \<Rightarrow> concat (map snd (qe_writes env)) = fo_got w \<and>
            200 \<le> cm_status (fo_meta w) \<and> cm_status (fo_meta w) \<le> 999 \<and>
            (\<exists>r. fo_pc w = FDone r) \<and> (fo_pc w = FDone None \<longrightarrow> good (fo_got w))
        | _ \<Rightarrow> True)
      else qe_end env = None \<longrightarrow> good (concat (map snd (qe_writes env))))"

lemma writeBody_run:
  assumes wb: "writeBody m h st k writes end_err = (ops, err)" and c: "200 \<le> cm_status m" "cm_status m \<le> 999"
    and w: "w = fold lrw_op ops (new_lrw t new_conn)"
  shows "lw_wrote w" "list_all final_op ops"
    "err = None \<Longrightarrow> end_err = None \<and> cn_body (lw_conn w) = concat (map snd writes)"
proof -
  obtain body where b: "copy_body writes end_err = (body, err)"
      "ops = cached_header_ops m h st k @ WriteHeader (cm_status m) # body"
    using wb by (auto simp: writeBody_def split: prod.splits)
  note ok = copy_body_ok [OF b(1)]
  from content_run [OF edits_all(1) c _ w [unfolded b(2)]] ok
  show "lw_wrote w" "err = None \<Longrightarrow> end_err = None \<and> cn_body (lw_conn w) = concat (map snd writes)" by auto
  show "list_all final_op ops" using ok edits_final [OF edits_all(1)] c b(2) by simp
qed

lemma direct_run:
  assumes d: "direct env h ov = (ops, err)" and up: "Fetch up_status (qe_fetch env) = Inr resp"
    and w: "w = fold lrw_op ops (new_lrw t new_conn)"
  shows "lw_wrote w" "list_all final_op ops"
    "err = None \<Longrightarrow> qe_end env = None \<and> cn_body (lw_conn w) = concat (map snd (qe_writes env))"
proof -
  let ?pre = "(if ov then [SetHeader ''x-cache'' ''OVERLOADED''] else []) @ direct_header_ops resp h ov"
  have "up_status resp = 200" using up by (auto simp: Fetch_def split: sum.splits if_splits)
  then obtain body err' where b: "copy_body (qe_writes env) (map_option Errorf (qe_end env)) = (body, err')"
      "ops = ?pre @ WriteHeader 200 # body" "err = copy_error err'"
    using d up by (auto simp: direct_def Let_def split: prod.splits)
  note ok = copy_body_ok [OF b(1)]
  have e: "list_all edits ?pre" using edits_all(2) [of resp h ov] by simp
  from content_run [OF e _ _ _ w [unfolded b(2)]] ok b(3)
  show "lw_wrote w" "err = None \<Longrightarrow> qe_end env = None \<and> cn_body (lw_conn w) = concat (map snd (qe_writes env))"
    by (auto simp: copy_error_def)
  show "list_all final_op ops" using ok edits_final [OF e] b(2) by simp
qed

lemma direct_refused:
  "Fetch up_status (qe_fetch env) = Inl e \<Longrightarrow> direct env h ov = (ops, err) \<Longrightarrow> list_all edits ops \<and> err = Some e"
  by (auto simp: direct_def split: if_splits)

text \<open>The two ways a request of the proxy ends: content, whole unless an error is reported; or an
  error with nothing sent.\<close>

lemma proxyRequest_cases:
  assumes p: "proxyRequest ep env = (ops, err, host)" and ok: "source_ok good ep env"
    and w: "w = fold lrw_op ops (new_lrw t new_conn)"
  shows "list_all final_op ops \<and>
    (if lw_wrote w then err = None \<longrightarrow> good (cn_body (lw_conn w)) else err \<noteq> None)"
proof (cases "qe_find env")
  case (Inl e)
  with p w show ?thesis by (auto simp: proxyRequest_def fresh_writer)
next
  case (Inr s)
  have direct_case: ?thesis
    if d: "direct env (srv_name s) ov = (ops, err)"
      and up: "qe_end env = None \<longrightarrow> good (concat (map snd (qe_writes env)))" for ov
  proof (cases "Fetch up_status (qe_fetch env)")
    case (Inl e)
    from direct_refused [OF this d] edits_final edits_uncommitted w show ?thesis by (simp add: fresh_writer)
  next
    case (Inr resp)
    with direct_run [OF d Inr w] up show ?thesis by auto
  qed
  show ?thesis
  proof (cases "qe_cache env \<and> cacheableEndpoints ep \<and> qe_served env \<noteq> Busy")
    case False
    then have "(\<exists>ov. direct env (srv_name s) ov = (ops, err))"
      using p Inr by (cases "qe_served env") (auto simp: proxyRequest_def serve_result_def Let_def prod_eq_iff split: if_splits)
    with False ok direct_case show ?thesis by (auto simp: source_ok_def split: if_splits)
  next
    case True
    show ?thesis
    proof (cases "qe_served env")
      case (Followed f k)
      obtain r where r: "fo_pc f = FDone r" using True Followed ok by (auto simp: source_ok_def)
      have "writeBody (fo_meta f) (srv_name s) (fo_status f) k (qe_writes env)
          (case r of Some e \<Rightarrow> Some (fol_text e) | None \<Rightarrow> None) = (ops, err)"
        using p Inr True Followed r by (auto simp: proxyRequest_def serve_result_def Let_def prod_eq_iff)
      from writeBody_run [OF this _ _ w] True Followed ok r show ?thesis
        by (cases r) (auto simp: source_ok_def)
    qed (use p Inr True w in \<open>auto simp: proxyRequest_def serve_result_def Let_def fresh_writer\<close>)
  qed
qed

text \<open>\<open>follower_of\<close>: a request the cache followed ended as one of its followers did.\<close>

definition follower_of :: "'z cache \<Rightarrow> req_env \<Rightarrow> bool" where
  "follower_of s env \<longleftrightarrow> (case qe_served env of
     Followed f k \<Rightarrow> (\<exists>j. cs_fol s j = Some f) \<and> (\<exists>r. fo_pc f = FDone r) \<and>
       concat (map snd (qe_writes env)) = fo_got f \<and> 200 \<le> cm_status (fo_meta f) \<and> cm_status (fo_meta f) \<le> 999
   | _ \<Rightarrow> True)"

definition whole_answer :: "(bytes \<Rightarrow> bytes option) \<Rightarrow> 'z cache \<Rightarrow> req_env \<Rightarrow> bytes \<Rightarrow> bool" where
  "whole_answer gunzip s env b \<longleftrightarrow>
     (\<exists>(c, body) \<in> cs_bodies s. if c then gunzip b = Some body else b = body) \<or>
     (b = concat (map snd (qe_writes env)) \<and> qe_end env = None)"

lemma follower_source_ok:
  assumes inv: "cache_inv cfg gunzip s" and f: "follower_of s env"
  shows "source_ok (whole_answer gunzip s env) ep env"
proof -
  have "whole_answer gunzip s env (fo_got w)" if "cs_fol s j = Some w" "fo_pc w = FDone None" for j w
  proof -
    have "fol_inv gunzip s w" using inv that(1) by (auto simp: cache_inv_def fols_inv_def)
    with that(2) show ?thesis by (auto simp: fol_inv_def sent_whole_def whole_def whole_answer_def)
  qed
  then show ?thesis
    using f by (cases "qe_served env") (auto simp: source_ok_def follower_of_def, simp_all add: whole_answer_def)
qed


definition ex_follower :: follower where
  "ex_follower = the (cs_fol example_run 1)"

lemma ex_follower_facts:
  "cs_fol example_run 1 = Some ex_follower" "fo_pc ex_follower = FDone None" "fo_got ex_follower = ''abcde''"
  "cm_status (fo_meta ex_follower) = 200"
proof -
  have "map_option (\<lambda>w. (fo_pc w, fo_got w, cm_status (fo_meta w))) (cs_fol example_run 1) =
      Some (FDone None, ''abcde'', 200)"
    by code_simp
  then obtain f where f: "cs_fol example_run 1 = Some f" "fo_pc f = FDone None" "fo_got f = ''abcde''" "cm_status (fo_meta f) = 200"
    by (auto simp: map_option_case split: option.splits)
  then show "cs_fol example_run 1 = Some ex_follower" "fo_pc ex_follower = FDone None" "fo_got ex_follower = ''abcde''"
    "cm_status (fo_meta ex_follower) = 200"
    by (simp_all add: ex_follower_def)
qed

definition ex_req_env :: req_env where
  "ex_req_env = \<lparr>qe_find = Inr (up_server ''fedora'' ''u''), qe_cache = True, qe_served = Followed ex_follower True,
     qe_fetch = Inl ''unused'', qe_writes = [(\<lparr>we_now = 1, we_accept = None\<rparr>, ''abcde'')], qe_end = None\<rparr>"


end
