(* ===== verification/NixStore.thy ===== *)
theory NixStore
  imports RespWriter SrcIndex
begin

text \<open>
  \<open>cmd/nix-debuginfod/store.go\<close> (with \<open>mount_linux.go\<close> and \<open>sourceindex.go\<close>): a build ID or
  store path is answered by building erofs images, mounting them where store paths claim to be
  and opening files through them. The file system the process sees is a map from paths to
  nodes with symbolic links; an image is such a map; the image directory is the files the store
  keeps there. What cache.nixos.org, mkfs.erofs and the kernel answer is the environment.
\<close>

section \<open>Files\<close>

datatype node = NDir | NFile bytes | NLink string

type_synonym nfs = "string list \<Rightarrow> node option"

text \<open>The kernel's walk: \<open>n\<close> symbolic links may still be followed. \<open>..\<close> is the parent of the
  directory the walk is in.\<close>

datatype kres = Opened "string list" | KNoEnt | KFail string

definition raw_parts :: "string \<Rightarrow> string list" where
  "raw_parts p = filter (\<lambda>s. s \<noteq> []) (split_on slash p)"

function kwalk :: "nfs \<Rightarrow> nat \<Rightarrow> string list \<Rightarrow> string list \<Rightarrow> kres" where
  "kwalk fs n cur [] = Opened cur"
| "kwalk fs n cur (p # ps) =
     (if p = ''.'' then kwalk fs n cur ps
      else if p = ''..'' then kwalk fs n (butlast cur) ps
      else (case fs (cur @ [p]) of
          None \<Rightarrow> KNoEnt
        | Some NDir \<Rightarrow> kwalk fs n (cur @ [p]) ps
        | Some (NFile b) \<Rightarrow> if ps = [] then Opened (cur @ [p]) else KFail ''not a directory''
        | Some (NLink t) \<Rightarrow>
            if n = 0 then KFail ''too many levels of symbolic links''
            else kwalk fs (n - 1) (if is_abs t then [] else cur) (raw_parts t @ ps)))"
  by pat_completeness auto
termination
  by (relation "measures [\<lambda>(fs, n, cur, ps). n, \<lambda>(fs, n, cur, ps). length ps]") auto

definition os_Open :: "nfs \<Rightarrow> string \<Rightarrow> kres" where
  "os_Open fs path = kwalk fs 40 [] (raw_parts path)"

definition os_Lstat :: "nfs \<Rightarrow> string \<Rightarrow> node option" where
  "os_Lstat fs path = (case raw_parts path of
     [] \<Rightarrow> Some NDir
   | ps \<Rightarrow> (case kwalk fs 40 [] (butlast ps) of Opened d \<Rightarrow> fs (d @ [last ps]) | _ \<Rightarrow> None))"

definition os_Readlink :: "nfs \<Rightarrow> string \<Rightarrow> string option" where
  "os_Readlink fs path = (case os_Lstat fs path of Some (NLink t) \<Rightarrow> Some t | _ \<Rightarrow> None)"

section \<open>State and environment\<close>

datatype mountKind = FileBacked | Loop

record nstore =
  ns_fs :: nfs
  ns_image :: "string \<Rightarrow> nfs option"
  ns_name :: "string \<Rightarrow> string option"
  ns_link :: "string \<Rightarrow> string option"
  ns_mounted :: "string \<Rightarrow> mountKind option"
  ns_idx :: "string \<Rightarrow> index option"

record nix_cfg =
  nc_imageDir :: string
  nc_mountRoot :: string
  nc_entryRoot :: string

datatype errno = ENOTBLK | EINVAL | ENOPROTOOPT | EOther

text \<open>What one request's environment answers: the two fetches that build an image, the metadata of
  a build ID, \<open>mkdir\<close>, the file-backed and the loop mount of a point, whether a build slot is had
  before the client leaves, another builder's image found after waiting for it, and the remaining
  system calls of a build and of the link.\<close>

record nix_env =
  ne_store :: "string \<Rightarrow> nix_err + nfs"
  ne_meta :: "string \<Rightarrow> nix_err + string \<times> string"
  ne_archive :: "string \<Rightarrow> nix_err + nfs"
  ne_mkdir :: "string \<Rightarrow> bool"
  ne_file_mount :: "string \<Rightarrow> errno option"
  ne_loop_mount :: "string \<Rightarrow> bool"
  ne_slot :: bool
  ne_others :: "string \<Rightarrow> nfs option"
  ne_temp :: bool
  ne_rename :: bool
  ne_write_name :: bool
  ne_link_dir :: bool
  ne_symlink :: bool
  ne_link_rename :: bool
  ne_tree :: "nfs \<Rightarrow> tree_env"
  ne_dir_size :: int
  ne_conn :: "nat \<Rightarrow> wenv"

section \<open>Store paths\<close>

definition maxResolveHops :: nat where "maxResolveHops = 16"
definition maxResolveSteps :: nat where "maxResolveSteps = 256"

definition nixBase32 :: string where
  "nixBase32 = ''0123456789abcdfghijklmnpqrsvwxyz''"

definition isStoreHash :: "string \<Rightarrow> bool" where
  "isStoreHash h \<longleftrightarrow> length h = 32 \<and> list_all (\<lambda>c. c \<in> set nixBase32) h"

definition splitStorePath :: "nix_cfg \<Rightarrow> (string \<Rightarrow> string) \<Rightarrow> string \<Rightarrow> string \<times> string" where
  "splitStorePath cfg ul target = (case cut_prefix target (nc_mountRoot cfg @ ''/'') of
     None \<Rightarrow> ([], [])
   | Some tail \<Rightarrow> (case cut tail slash of (name, rest, _) \<Rightarrow>
       (case cut name (CHR ''-'') of (hash, pkg, found) \<Rightarrow>
         if \<not> found then ([], [])
         else if \<not> isStoreHash (to_lower ul hash) then ([], [])
         else (path_join [nc_mountRoot cfg, to_lower ul hash @ ''-'' @ pkg], rest))))"

definition storePathOf :: "nix_cfg \<Rightarrow> (string \<Rightarrow> string) \<Rightarrow> string \<Rightarrow> string" where
  "storePathOf cfg ul target = fst (splitStorePath cfg ul target)"

definition isMounted :: "nstore \<Rightarrow> string \<Rightarrow> bool" where
  "isMounted s point \<longleftrightarrow> ns_mounted s point \<noteq> None"

text \<open>\<open>missingFor\<close>: the first argument counts the steps that are left.\<close>

fun missing_walk :: "nix_cfg \<Rightarrow> (string \<Rightarrow> string) \<Rightarrow> nstore \<Rightarrow> nat \<Rightarrow> string \<Rightarrow> string list \<Rightarrow> string" where
  "missing_walk cfg ul s 0 cur parts = []"
| "missing_walk cfg ul s (Suc n) cur [] = []"
| "missing_walk cfg ul s (Suc n) cur (p # ps) =
     (let nxt = path_join [cur, p] in
      case os_Lstat (ns_fs s) nxt of
        None \<Rightarrow>
          (let sp = storePathOf cfg ul nxt in if sp \<noteq> [] \<and> \<not> isMounted s sp then sp else [])
      | Some (NLink t) \<Rightarrow>
          (let target = (if \<not> is_abs t then path_join [cur, t] else t);
               sp = storePathOf cfg ul target in
           if sp \<noteq> [] \<and> \<not> isMounted s sp then sp
           else missing_walk cfg ul s n ''/'' (splitPath target @ ps))
      | Some _ \<Rightarrow> missing_walk cfg ul s n nxt ps)"

definition missingFor :: "nix_cfg \<Rightarrow> (string \<Rightarrow> string) \<Rightarrow> nstore \<Rightarrow> string \<Rightarrow> string" where
  "missingFor cfg ul s path = missing_walk cfg ul s maxResolveSteps ''/'' (splitPath path)"

section \<open>Images and mounts\<close>

text \<open>\<open>buildOnce\<close>: the temporary file never shows under the image's name; the rename puts the whole
  of what \<open>build\<close> made there. \<open>build\<close> may change other files of the image directory.\<close>

definition buildOnce :: "nix_env \<Rightarrow> string \<Rightarrow> (nstore \<Rightarrow> (nix_err + nfs) \<times> nstore) \<Rightarrow> nstore
    \<Rightarrow> nix_err option \<times> nstore" where
  "buildOnce env imgfile build s =
     (if ns_image s imgfile \<noteq> None then (None, s)
      else if \<not> ne_slot env then (Some (NErrorf ''context canceled''), s)
      else (case ne_others env imgfile of
          Some img \<Rightarrow> (None, s\<lparr>ns_image := (ns_image s)(imgfile \<mapsto> img)\<rparr>)
        | None \<Rightarrow>
            if \<not> ne_temp env then (Some (NErrorf ''temporary file''), s)
            else (case build s of
                (Inl e, s1) \<Rightarrow> (Some e, s1)
              | (Inr img, s1) \<Rightarrow>
                  if ne_rename env then (None, s1\<lparr>ns_image := (ns_image s1)(imgfile \<mapsto> img)\<rparr>)
                  else (Some (NErrorf ''rename''), s1))))"

definition make_dirs :: "string list \<Rightarrow> nfs \<Rightarrow> nfs" where
  "make_dirs p fs = (\<lambda>q. if fs q = None \<and> take (length q) p = q then Some NDir else fs q)"

definition mount_over :: "string list \<Rightarrow> nfs \<Rightarrow> nfs \<Rightarrow> nfs" where
  "mount_over p img fs = (\<lambda>q. if take (length p) q = p then img (drop (length p) q) else fs q)"

text \<open>\<open>mountErofs\<close>: the target directory is made first, whatever the mount then does.\<close>

definition mountErofs :: "nix_env \<Rightarrow> nfs \<Rightarrow> string \<Rightarrow> nfs \<Rightarrow> (nix_err + mountKind) \<times> nfs" where
  "mountErofs env img target fs =
     (if \<not> ne_mkdir env target then (Inl (NErrorf ''mkdir''), fs)
      else
        (let fs1 = make_dirs (clean_comps target) fs in
         case ne_file_mount env target of
           None \<Rightarrow> (Inr FileBacked, mount_over (clean_comps target) img fs1)
         | Some e \<Rightarrow>
             if e \<noteq> ENOTBLK \<and> e \<noteq> EINVAL \<and> e \<noteq> ENOPROTOOPT then (Inl (NErrorf ''file-backed mount''), fs1)
             else if \<not> ne_loop_mount env target then (Inl (NErrorf ''loop mount failed''), fs1)
             else (Inr Loop, mount_over (clean_comps target) img fs1)))"

definition mount :: "nix_env \<Rightarrow> string \<Rightarrow> string \<Rightarrow> nstore \<Rightarrow> nix_err option \<times> nstore" where
  "mount env imgfile point s = (case ns_image s imgfile of
     None \<Rightarrow> (Some (NErrorf ''file-backed mount''), s\<lparr>ns_fs := make_dirs (clean_comps point) (ns_fs s)\<rparr>)
   | Some img \<Rightarrow> (case mountErofs env img point (ns_fs s) of
       (Inl e, fs) \<Rightarrow> (Some e, s\<lparr>ns_fs := fs\<rparr>)
     | (Inr k, fs) \<Rightarrow> (None, s\<lparr>ns_fs := fs, ns_mounted := (ns_mounted s)(point \<mapsto> k)\<rparr>)))"

definition Ensure :: "nix_env \<Rightarrow> string \<Rightarrow> nstore \<Rightarrow> nix_err option \<times> nstore" where
  "Ensure env storePath s =
     (if isMounted s storePath then (None, s)
      else
        (let imgfile = fst (cut (path_base storePath) (CHR ''-'')) @ ''.erofs'' in
         case buildOnce env imgfile (\<lambda>s. (ne_store env storePath, s)) s of
           (Some e, s1) \<Rightarrow> (Some e, s1)
         | (None, s1) \<Rightarrow> mount env imgfile storePath s1))"

text \<open>\<open>Open\<close>: the passes that are left, and the passes made.\<close>

fun open_loop :: "nix_cfg \<Rightarrow> (string \<Rightarrow> string) \<Rightarrow> nix_env \<Rightarrow> nat \<Rightarrow> nat \<Rightarrow> string \<Rightarrow> nstore
    \<Rightarrow> (nix_err + string list) \<times> nat \<times> nstore" where
  "open_loop cfg ul env 0 hop path s = (Inl (NErrorf ''gave up; symlink cycle?''), hop, s)"
| "open_loop cfg ul env (Suc n) hop path s = (case os_Open (ns_fs s) path of
     Opened p \<Rightarrow> (Inr p, hop, s)
   | KFail m \<Rightarrow> (Inl (NErrorf m), hop, s)
   | KNoEnt \<Rightarrow>
       (let missing = missingFor cfg ul s path in
        if missing = [] then (Inl ErrNotExist, hop, s)
        else (case Ensure env missing s of
            (Some e, s1) \<Rightarrow> (Inl (NWrap (''resolving '' @ missing) e), hop, s1)
          | (None, s1) \<Rightarrow> open_loop cfg ul env n (Suc hop) path s1)))"

definition Open :: "nix_cfg \<Rightarrow> (string \<Rightarrow> string) \<Rightarrow> nix_env \<Rightarrow> string \<Rightarrow> nstore
    \<Rightarrow> (nix_err + string list) \<times> nat \<times> nstore" where
  "Open cfg ul env path s = open_loop cfg ul env maxResolveHops 0 path s"

section \<open>Archives\<close>

definition archiveKeyRe :: "string \<Rightarrow> bool" where
  "archiveKeyRe s \<longleftrightarrow> 20 \<le> length s \<and> length s \<le> 60 \<and> list_all (\<lambda>c. is_digit c \<or> is_lower c) s"

definition keyFromImageName :: "string \<Rightarrow> string option" where
  "keyFromImageName name = (case cut_prefix name ''archive-'' of
     None \<Rightarrow> None
   | Some k \<Rightarrow> (case cut_suffix k ''.erofs'' of
       None \<Rightarrow> None
     | Some key \<Rightarrow> if archiveKeyRe key then Some key else None))"

definition archiveKey :: "string \<Rightarrow> nix_err + string" where
  "archiveKey archive = (case cut (path_base archive) (CHR ''.'') of (key, _, _) \<Rightarrow>
     if archiveKeyRe key then Inr key else Inl (NErrorf (''unusable archive name '' @ archive)))"

definition archive_image :: "string \<Rightarrow> string" where
  "archive_image key = ''archive-'' @ key @ ''.erofs''"

definition known_archive :: "string \<Rightarrow> nstore \<Rightarrow> (string \<times> string) option" where
  "known_archive buildID s = (case ns_link s buildID of
     None \<Rightarrow> None
   | Some target \<Rightarrow> (case keyFromImageName (path_base target) of
       None \<Rightarrow> None
     | Some k \<Rightarrow> Some (k, case ns_name s k of None \<Rightarrow> [] | Some raw \<Rightarrow> raw)))"

definition archiveFor :: "nix_env \<Rightarrow> string \<Rightarrow> nstore \<Rightarrow> (nix_err + string \<times> string) \<times> nstore" where
  "archiveFor env buildID s = (case known_archive buildID s of
     Some r \<Rightarrow> (Inr r, s)
   | None \<Rightarrow> (case ne_meta env buildID of
       Inl e \<Rightarrow> (Inl e, s)
     | Inr (archive, m) \<Rightarrow> (case archiveKey archive of
         Inl e \<Rightarrow> (Inl e, s)
       | Inr key \<Rightarrow>
           if \<not> ne_link_dir env then (Inl (NErrorf ''mkdir''), s)
           else
             (let tmp = buildID @ ''.tmp''; target = ''../'' @ archive_image key;
                  l1 = (ns_link s)(tmp := None);
                  l2 = (if ne_symlink env then
                          (let l = l1(tmp \<mapsto> target) in
                           if ne_link_rename env then (l(tmp := None))(buildID \<mapsto> target) else l)
                        else l1)
              in (Inr (key, archive), s\<lparr>ns_link := l2\<rparr>)))))"

definition memberIn :: "nstore \<Rightarrow> string \<Rightarrow> string \<Rightarrow> nix_err + string" where
  "memberIn s point buildID =
     (let base = path_join [''lib'', ''debug'', ''.build-id'', take 2 buildID, drop 2 buildID];
          good = (\<lambda>cand. case os_Lstat (ns_fs s) (path_join [point, cand]) of
             Some (NFile _) \<Rightarrow> True | Some (NLink _) \<Rightarrow> True | _ \<Rightarrow> False)
      in case find good [base @ ''.debug'', base] of
           Some cand \<Rightarrow> Inr cand
         | None \<Rightarrow> Inl (NWrap (buildID @ '' not in '' @ path_base point) ErrNotExist))"

definition sendEarlyHints :: "string \<Rightarrow> w_op list" where
  "sendEarlyHints archive =
     SetHeader ''x-status'' ''200'' #
     (if archive \<noteq> [] then [SetHeader ''x-debuginfod-archive'' archive] else []) @
     [WriteHeader 103, DelHeader ''x-status'']"

text \<open>The builder of an archive's image: the archive's path is asked for again when it came from the
  link without its name.\<close>

definition build_archive :: "nix_env \<Rightarrow> string \<Rightarrow> string \<Rightarrow> string \<Rightarrow> nstore \<Rightarrow> (nix_err + nfs) \<times> nstore" where
  "build_archive env buildID key archive s =
     (case (if archive = [] then map_sum id fst (ne_meta env buildID) else Inr archive) of
        Inl e \<Rightarrow> (Inl e, s)
      | Inr a \<Rightarrow> (case ne_archive env a of
          Inl e \<Rightarrow> (Inl e, s)
        | Inr img \<Rightarrow>
            if \<not> ne_write_name env then (Inl (NErrorf ''write name''), s)
            else (Inr img, s\<lparr>ns_name := (ns_name s)(key \<mapsto> a)\<rparr>)))"

definition mount_entry :: "nix_env \<Rightarrow> string \<Rightarrow> string \<Rightarrow> string \<Rightarrow> string \<Rightarrow> nstore \<Rightarrow> nix_err option \<times> nstore" where
  "mount_entry env buildID key archive point s =
     (case buildOnce env (archive_image key) (build_archive env buildID key archive) s of
        (Some e, s1) \<Rightarrow> (Some e, s1)
      | (None, s1) \<Rightarrow> if isMounted s1 point then (None, s1) else mount env (archive_image key) point s1)"

record entry_ref =
  er_point :: string
  er_member :: string
  er_archive :: string

text \<open>\<open>entry\<close>: what it does to the writer, its result and the state. The archive reported is the one
  the lookup or the build found.\<close>

definition entry_archive :: "nix_env \<Rightarrow> string \<Rightarrow> string \<Rightarrow> string \<Rightarrow> nstore \<Rightarrow> string" where
  "entry_archive env buildID key archive s =
     (if archive = [] \<and> ns_image s (archive_image key) = None \<and> ne_slot env \<and> ne_others env (archive_image key) = None
      then (case ne_meta env buildID of Inr (a, _) \<Rightarrow> a | Inl _ \<Rightarrow> []) else archive)"

definition store_entry :: "nix_cfg \<Rightarrow> nix_env \<Rightarrow> string \<Rightarrow> nstore \<Rightarrow> w_op list \<times> (nix_err + entry_ref) \<times> nstore" where
  "store_entry cfg env buildID s =
     (if length buildID < 3 then ([], Inl (NErrorf ''build id too short''), s)
      else (case archiveFor env buildID s of
          (Inl e, s1) \<Rightarrow> ([], Inl e, s1)
        | (Inr (key, archive), s1) \<Rightarrow>
            (let point = path_join [nc_entryRoot cfg, key] in
             case mount_entry env buildID key archive point s1 of
               (Some e, s2) \<Rightarrow> (sendEarlyHints archive, Inl e, s2)
             | (None, s2) \<Rightarrow> (case memberIn s2 point buildID of
                 Inl e \<Rightarrow> (sendEarlyHints archive, Inl e, s2)
               | Inr member \<Rightarrow> (sendEarlyHints archive,
                   Inr \<lparr>er_point = point, er_member = member,
                        er_archive = entry_archive env buildID key archive s1\<rparr>, s2)))))"

section \<open>The three endpoints\<close>

text \<open>\<open>io.Copy\<close> of an open file, in pieces of 32 KiB; reading a directory fails.\<close>

function chunks :: "nat \<Rightarrow> bytes \<Rightarrow> bytes list" where
  "chunks k b = (if b = [] then [] else if k = 0 then [b] else take k b # chunks k (drop k b))"
  by pat_completeness auto
termination by (relation "measure (\<lambda>(k, b). length b)") auto

declare chunks.simps [simp del]

fun copy_chunks :: "(nat \<Rightarrow> wenv) \<Rightarrow> nat \<Rightarrow> bytes list \<Rightarrow> w_op list \<times> nix_err option" where
  "copy_chunks conn i [] = ([], None)"
| "copy_chunks conn i (b # bs) =
     (if we_accept (conn i) \<noteq> None then ([WriteBody (conn i) b], Some (NErrorf ''write failed''))
      else (case copy_chunks conn (Suc i) bs of (ops, err) \<Rightarrow> (WriteBody (conn i) b # ops, err)))"

definition copy_node :: "nix_env \<Rightarrow> nfs \<Rightarrow> string list \<Rightarrow> w_op list \<times> nix_err option" where
  "copy_node env fs p = (case fs p of
     Some (NFile b) \<Rightarrow> copy_chunks (ne_conn env) 0 (chunks 32768 b)
   | _ \<Rightarrow> ([], Some (NErrorf ''read: is a directory'')))"

definition stat_size :: "nix_env \<Rightarrow> nfs \<Rightarrow> string \<Rightarrow> int option" where
  "stat_size env fs path = (case os_Open fs path of
     Opened p \<Rightarrow> (case fs p of Some (NFile b) \<Rightarrow> Some (int (length b)) | _ \<Rightarrow> Some (ne_dir_size env))
   | _ \<Rightarrow> None)"

definition setMeta :: "nix_env \<Rightarrow> nfs \<Rightarrow> string \<Rightarrow> string \<Rightarrow> string \<Rightarrow> w_op list" where
  "setMeta env fs path fname archive =
     (case stat_size env fs path of Some n \<Rightarrow> [SetHeader ''x-debuginfod-size'' (int_str n)] | None \<Rightarrow> []) @
     (if fname \<noteq> [] then [SetHeader ''x-debuginfod-file'' fname] else []) @
     (if archive \<noteq> [] then [SetHeader ''x-debuginfod-archive'' archive] else [])"

definition executableTarget :: "nfs \<Rightarrow> string \<Rightarrow> string \<Rightarrow> string" where
  "executableTarget fs point member =
     (case os_Readlink fs (path_join [point, trim_suffix member ''.debug'' @ ''.executable'']) of
        Some t \<Rightarrow> t | None \<Rightarrow> [])"

type_synonym nix_result = "(w_op list \<times> nix_err option) \<times> nstore"

text \<open>Opening a path and serving what it leads to.\<close>

definition serve_path :: "nix_cfg \<Rightarrow> (string \<Rightarrow> string) \<Rightarrow> nix_env \<Rightarrow> w_op list \<Rightarrow> string \<Rightarrow> (nfs \<Rightarrow> string) \<Rightarrow> string
    \<Rightarrow> nstore \<Rightarrow> nix_result" where
  "serve_path cfg ul env pre path fname archive s = (case Open cfg ul env path s of
     (Inl e, h, s1) \<Rightarrow> ((pre, Some e), s1)
   | (Inr p, h, s1) \<Rightarrow> (case copy_node env (ns_fs s1) p of (ops, err) \<Rightarrow>
       ((pre @ setMeta env (ns_fs s1) path (fname (ns_fs s1)) archive @ ops, err), s1)))"

definition GetDebuginfo :: "nix_cfg \<Rightarrow> (string \<Rightarrow> string) \<Rightarrow> nix_env \<Rightarrow> string \<Rightarrow> nstore \<Rightarrow> nix_result" where
  "GetDebuginfo cfg ul env buildID s = (case store_entry cfg env buildID s of
     (pre, Inl e, s1) \<Rightarrow> ((pre, Some e), s1)
   | (pre, Inr r, s1) \<Rightarrow> serve_path cfg ul env pre (path_join [er_point r, er_member r])
       (\<lambda>fs. executableTarget fs (er_point r) (er_member r)) (er_archive r) s1)"

definition GetExecutable :: "nix_cfg \<Rightarrow> (string \<Rightarrow> string) \<Rightarrow> nix_env \<Rightarrow> string \<Rightarrow> nstore \<Rightarrow> nix_result" where
  "GetExecutable cfg ul env buildID s = (case store_entry cfg env buildID s of
     (pre, Inl e, s1) \<Rightarrow> ((pre, Some e), s1)
   | (pre, Inr r, s1) \<Rightarrow> serve_path cfg ul env pre
       (path_join [er_point r, trim_suffix (er_member r) ''.debug'' @ ''.executable''])
       (\<lambda>fs. executableTarget fs (er_point r) (er_member r)) (er_archive r) s1)"

definition nix_indexFor :: "nix_env \<Rightarrow> string \<Rightarrow> string \<Rightarrow> nstore \<Rightarrow> index \<times> nstore" where
  "nix_indexFor env overlay source s =
     (let key = overlay @ CHR 0x00 # source in
      case ns_idx s key of
        Some ix \<Rightarrow> (ix, s)
      | None \<Rightarrow> (let ix = index_New (ne_tree env (ns_fs s)) [overlay, source] in
          (ix, s\<lparr>ns_idx := (ns_idx s)(key \<mapsto> ix)\<rparr>)))"

definition describeSourceHit :: "nfs \<Rightarrow> string \<Rightarrow> string \<Rightarrow> string \<Rightarrow> string \<Rightarrow> string \<times> string" where
  "describeSourceHit fs hit overlay source archive =
     (case path_rel overlay hit of
        Some rel \<Rightarrow> if \<not> has_prefix rel ''..'' then (rel, archive) else
          (case path_rel source hit of
             Some rel' \<Rightarrow> if \<not> has_prefix rel' ''..''
               then (rel', case os_Readlink fs source of Some t \<Rightarrow> t | None \<Rightarrow> []) else (hit, archive)
           | None \<Rightarrow> (hit, archive))
      | None \<Rightarrow>
          (case path_rel source hit of
             Some rel' \<Rightarrow> if \<not> has_prefix rel' ''..''
               then (rel', case os_Readlink fs source of Some t \<Rightarrow> t | None \<Rightarrow> []) else (hit, archive)
           | None \<Rightarrow> (hit, archive)))"

definition streamFile :: "nix_env \<Rightarrow> nfs \<Rightarrow> string \<Rightarrow> w_op list \<times> nix_err option" where
  "streamFile env fs path = (case os_Open fs path of
     Opened p \<Rightarrow> copy_node env fs p
   | KNoEnt \<Rightarrow> ([], Some ErrNotExist)
   | KFail m \<Rightarrow> ([], Some (NErrorf m)))"

definition GetSource :: "nix_cfg \<Rightarrow> (string \<Rightarrow> string) \<Rightarrow> nix_env \<Rightarrow> string \<Rightarrow> string \<Rightarrow> nstore \<Rightarrow> nix_result" where
  "GetSource cfg ul env buildID reqPath0 s =
     (let reqPath = clean reqPath0 in
      case splitStorePath cfg ul reqPath of (sp, rest) \<Rightarrow>
        if sp \<noteq> [] then serve_path cfg ul env [] (path_join [sp, rest]) (\<lambda>_. reqPath) sp s
        else (case store_entry cfg env buildID s of
            (pre, Inl e, s1) \<Rightarrow> ((pre, Some e), s1)
          | (pre, Inr r, s1) \<Rightarrow>
              (let base = path_join [er_point r, trim_suffix (er_member r) ''.debug''];
                   overlay = base @ ''.sourceoverlay''; source = base @ ''.source'' in
               case Open cfg ul env source s1 of
                 (Inl e, h, s2) \<Rightarrow> ((pre, Some e), s2)
               | (Inr p, h, s2) \<Rightarrow> (case nix_indexFor env overlay source s2 of (ix, s3) \<Rightarrow>
                   (let hit = index_Find ix reqPath in
                    if hit \<noteq> [] then
                      (case describeSourceHit (ns_fs s3) hit overlay source (er_archive r) of (fname, from_) \<Rightarrow>
                        (case streamFile env (ns_fs s3) hit of (ops, err) \<Rightarrow>
                          ((pre @ setMeta env (ns_fs s3) hit fname from_ @ ops, err), s3)))
                    else ((pre, Some (NWrap reqPath ErrNotExist)), s3))))))"

end
