(* ===== verification/NixSafety.thy ===== *)
theory NixSafety
  imports NixStore
begin

text \<open>
  What the nix backend keeps: names that become paths stay below their roots, mounts show exactly
  the image built for them, images never change, resolution is bounded and counts what it
  mounted, and the archive of a build ID is remembered.
\<close>

section \<open>Names\<close>

lemma base32_facts: "c \<in> set nixBase32 \<Longrightarrow> c \<noteq> slash \<and> c \<noteq> CHR ''-'' \<and> c \<noteq> CHR ''.''"
  by (auto simp: nixBase32_def)

lemma store_hash_facts:
  assumes "isStoreHash h"
  shows "slash \<notin> set h" "CHR ''-'' \<notin> set h" "length h = 32"
  using assms base32_facts by (auto simp: isStoreHash_def list_all_iff)

lemma store_name_plain: "isStoreHash h \<Longrightarrow> slash \<notin> set pkg \<Longrightarrow> plain (h @ ''-'' @ pkg)"
  using store_hash_facts [of h] by (auto simp: plain_def append_eq_Cons_conv Cons_eq_append_conv)

lemma key_char: "is_digit c \<or> is_lower c \<Longrightarrow> c \<noteq> slash \<and> c \<noteq> CHR ''.''"
  by (auto simp: is_digit_def is_lower_def)

lemma key_facts:
  assumes "archiveKeyRe k"
  shows "slash \<notin> set k" "CHR ''.'' \<notin> set k" "20 \<le> length k"
  using assms key_char by (auto simp: archiveKeyRe_def list_all_iff)

lemma key_plain: "archiveKeyRe k \<Longrightarrow> plain k"
  using key_facts [of k] by (cases k) (auto simp: plain_def)

lemma cut_free: "cut s c = (a, b, f) \<Longrightarrow> c \<notin> set a"
  by (cases f) (auto dest: cut_TrueD cut_FalseD)

lemma splitStorePath_shape:
  assumes "splitStorePath cfg ul target = (sp, rest)" "sp \<noteq> []"
  shows "\<exists>h pkg. isStoreHash h \<and> slash \<notin> set pkg \<and> sp = path_join [nc_mountRoot cfg, h @ ''-'' @ pkg] \<and>
    (\<exists>h0. h = to_lower ul h0 \<and> (target = nc_mountRoot cfg @ ''/'' @ h0 @ ''-'' @ pkg @ ''/'' @ rest \<or>
       (rest = [] \<and> target = nc_mountRoot cfg @ ''/'' @ h0 @ ''-'' @ pkg)))"
proof -
  obtain tail where t: "target = nc_mountRoot cfg @ ''/'' @ tail"
    using assms by (auto simp: splitStorePath_def cut_prefix_Some split: option.splits)
  obtain name r f1 where n: "cut tail slash = (name, r, f1)" by (metis prod_cases3)
  obtain h0 pkg f2 where h: "cut name (CHR ''-'') = (h0, pkg, f2)" by (metis prod_cases3)
  have ok: "f2" "isStoreHash (to_lower ul h0)" "sp = path_join [nc_mountRoot cfg, to_lower ul h0 @ ''-'' @ pkg]" "rest = r"
    using assms t n h by (auto simp: splitStorePath_def cut_prefix_def split: if_splits)
  then have nm: "name = h0 @ ''-'' @ pkg" using cut_TrueD h by fastforce
  have "slash \<notin> set name" using cut_free [OF n] .
  then have "slash \<notin> set pkg" using nm by auto
  moreover have "tail = name @ ''/'' @ r \<or> (r = [] \<and> tail = name)"
    using n by (cases f1) (auto dest: cut_TrueD cut_FalseD)
  ultimately show ?thesis using ok t nm by fastforce
qed

text \<open>The points a store may mount on: direct children of the two roots, under names of a fixed
  shape.\<close>

definition point_name :: "nix_cfg \<Rightarrow> string \<Rightarrow> string \<Rightarrow> string \<Rightarrow> bool" where
  "point_name cfg p root name \<longleftrightarrow> p = path_join [root, name] \<and>
     ((root = nc_mountRoot cfg \<and> (\<exists>h pkg. isStoreHash h \<and> slash \<notin> set pkg \<and> name = h @ ''-'' @ pkg)) \<or>
      (root = nc_entryRoot cfg \<and> archiveKeyRe name))"

definition cfg_ok :: "nix_cfg \<Rightarrow> bool" where
  "cfg_ok cfg \<longleftrightarrow> is_abs (nc_mountRoot cfg) \<and> is_abs (nc_entryRoot cfg) \<and>
     (let m = clean_comps (nc_mountRoot cfg); e = clean_comps (nc_entryRoot cfg)
      in take (length m) e \<noteq> m \<and> take (length e) m \<noteq> e)"

lemma point_comps:
  assumes "cfg_ok cfg" "point_name cfg p root name"
  shows "clean_comps p = clean_comps root @ [name]" "plain name" "is_abs p"
proof -
  show pl: "plain name" using assms(2) store_name_plain key_plain by (auto simp: point_name_def)
  have "is_abs root" using assms by (auto simp: cfg_ok_def point_name_def)
  from path_join_comps [OF this, of "[name]"] pl assms(2)
  show "clean_comps p = clean_comps root @ [name]" "is_abs p" by (simp_all add: point_name_def)
qed

lemma storePathOf_point:
  assumes "storePathOf cfg ul t = sp" "sp \<noteq> []"
  shows "\<exists>name. point_name cfg sp (nc_mountRoot cfg) name"
proof -
  obtain rest where "splitStorePath cfg ul t = (sp, rest)" using assms(1) by (metis storePathOf_def prod.collapse)
  from splitStorePath_shape [OF this assms(2)] show ?thesis by (auto simp: point_name_def)
qed

lemma missing_walk_point:
  "missing_walk cfg ul s n cur parts = sp \<Longrightarrow> sp \<noteq> [] \<Longrightarrow>
   \<not> isMounted s sp \<and> (\<exists>name. point_name cfg sp (nc_mountRoot cfg) name)"
proof (induction cfg ul s n cur parts rule: missing_walk.induct)
  case (3 cfg ul s n cur p ps)
  show ?case
  proof (cases "os_Lstat (ns_fs s) (path_join [cur, p])")
    case None
    with 3(4,5) storePathOf_point show ?thesis by (auto simp: Let_def split: if_splits)
  next
    case (Some nd)
    show ?thesis
    proof (cases nd)
      case (NLink t)
      let ?target = "if \<not> is_abs t then path_join [cur, t] else t"
      show ?thesis
      proof (cases "storePathOf cfg ul ?target \<noteq> [] \<and> \<not> isMounted s (storePathOf cfg ul ?target)")
        case True
        then have "sp = storePathOf cfg ul ?target" using 3(4) Some NLink by (simp add: Let_def)
        with True storePathOf_point show ?thesis by metis
      next
        case False
        then have "missing_walk cfg ul s n ''/'' (splitPath ?target @ ps) = sp"
          using 3(4) Some NLink by (simp add: Let_def split: if_splits)
        from 3(3) [OF refl Some NLink refl refl False this 3(5)] show ?thesis .
      qed
    next
      case NDir
      with 3(1) [OF refl Some] 3(4,5) Some show ?thesis by (auto simp: Let_def)
    next
      case (NFile b)
      with 3(2) [OF refl Some] 3(4,5) Some show ?thesis by (auto simp: Let_def)
    qed
  qed
qed simp_all

section \<open>The invariant\<close>

definition image_of :: "nix_cfg \<Rightarrow> string \<Rightarrow> string \<Rightarrow> string" where
  "image_of cfg root name = (if root = nc_mountRoot cfg then fst (cut name (CHR ''-'')) @ ''.erofs'' else archive_image name)"

text \<open>Every mounted point shows, at every path below it, what its image holds.\<close>

definition shows_image :: "nix_cfg \<Rightarrow> nstore \<Rightarrow> string \<Rightarrow> bool" where
  "shows_image cfg s p \<longleftrightarrow> (\<exists>root name img. point_name cfg p root name \<and> ns_image s (image_of cfg root name) = Some img \<and>
     (\<forall>rel. ns_fs s (clean_comps p @ rel) = img rel))"

definition mounts_ok :: "nix_cfg \<Rightarrow> nstore \<Rightarrow> bool" where
  "mounts_ok cfg s \<longleftrightarrow> (\<forall>p. isMounted s p \<longrightarrow> shows_image cfg s p)"

definition below_roots :: "nix_cfg \<Rightarrow> string list \<Rightarrow> bool" where
  "below_roots cfg q \<longleftrightarrow> (\<exists>root \<in> {nc_mountRoot cfg, nc_entryRoot cfg}. \<exists>x xs. q = clean_comps root @ x # xs)"

text \<open>What an operation may do to the store: images and mounts stay, and outside the two roots
  nothing changes but missing directories on the way to them.\<close>

definition ext :: "nix_cfg \<Rightarrow> nstore \<Rightarrow> nstore \<Rightarrow> bool" where
  "ext cfg s s' \<longleftrightarrow>
     (\<forall>n img. ns_image s n = Some img \<longrightarrow> ns_image s' n = Some img) \<and>
     (\<forall>p. isMounted s p \<longrightarrow> isMounted s' p) \<and>
     (\<forall>q. below_roots cfg q \<or> ns_fs s' q = ns_fs s q \<or> (ns_fs s q = None \<and> ns_fs s' q = Some NDir))"

lemma ext_refl [simp]: "ext cfg s s"
  by (simp add: ext_def)

lemma ext_trans: "ext cfg s s' \<Longrightarrow> ext cfg s' s'' \<Longrightarrow> ext cfg s s''"
  unfolding ext_def by metis

lemma points_apart:
  assumes cfg: "cfg_ok cfg" and p: "point_name cfg p root name" and p': "point_name cfg p' root' name'"
    and eq: "clean_comps p @ r = clean_comps p' @ r'"
  shows "p = p'"
proof -
  note c = point_comps(1) [OF cfg p] point_comps(1) [OF cfg p']
  show ?thesis
  proof (cases "root = root'")
    case True
    with eq c have "name = name'" by simp
    with True p p' show ?thesis by (simp add: point_name_def)
  next
    case False
    have roots: "{root, root'} = {nc_mountRoot cfg, nc_entryRoot cfg}"
      using False p p' by (auto simp: point_name_def)
    have "clean_comps root @ name # r = clean_comps root' @ name' # r'" using eq c by simp
    then have "take (length (clean_comps root)) (clean_comps root') = clean_comps root \<or>
        take (length (clean_comps root')) (clean_comps root) = clean_comps root'"
      unfolding append_eq_append_conv2 by (elim exE disjE conjE) (drule sym, simp)+
    with roots cfg show ?thesis by (auto simp: cfg_ok_def Let_def doubleton_eq_iff)
  qed
qed

lemma make_dirs_other:
  assumes "cfg_ok cfg" "point_name cfg p root name" "point_name cfg p' root' name'" "p \<noteq> p'"
  shows "make_dirs (clean_comps p) fs (clean_comps p' @ rel) = fs (clean_comps p' @ rel)"
    "mount_over (clean_comps p) img fs (clean_comps p' @ rel) = fs (clean_comps p' @ rel)"
proof -
  have "take (length (clean_comps p' @ rel)) (clean_comps p) \<noteq> clean_comps p' @ rel"
  proof
    assume "take (length (clean_comps p' @ rel)) (clean_comps p) = clean_comps p' @ rel"
    then have "clean_comps p @ [] = clean_comps p' @ (rel @ drop (length (clean_comps p' @ rel)) (clean_comps p))"
      by (metis append.assoc append_Nil2 append_take_drop_id)
    with points_apart [OF assms(1-3)] assms(4) show False by blast
  qed
  then show "make_dirs (clean_comps p) fs (clean_comps p' @ rel) = fs (clean_comps p' @ rel)"
    by (simp add: make_dirs_def)
  have "take (length (clean_comps p)) (clean_comps p' @ rel) \<noteq> clean_comps p"
    using points_apart [OF assms(1-3)] assms(4) by (metis append_take_drop_id)
  then show "mount_over (clean_comps p) img fs (clean_comps p' @ rel) = fs (clean_comps p' @ rel)"
    by (simp add: mount_over_def)
qed

lemma below_point:
  assumes "cfg_ok cfg" "point_name cfg p root name"
  shows "below_roots cfg (clean_comps p @ rel)"
  using point_comps [OF assms] assms(2) by (auto simp: below_roots_def point_name_def)

lemma shows_image_mono:
  assumes "shows_image cfg s p" "ext cfg s s'" "\<And>rel. ns_fs s' (clean_comps p @ rel) = ns_fs s (clean_comps p @ rel)"
  shows "shows_image cfg s' p"
  using assms unfolding shows_image_def ext_def by metis

lemma ext_fs:
  assumes "cfg_ok cfg" "point_name cfg p root name" "s' = s\<lparr>ns_fs := fs'\<rparr>"
    and "\<And>q. ns_fs s' q = ns_fs s q \<or> (ns_fs s q = None \<and> ns_fs s' q = Some NDir) \<or> (\<exists>rel. q = clean_comps p @ rel)"
  shows "ext cfg s s'"
  using assms below_point unfolding ext_def isMounted_def by fastforce

lemma mount_ok:
  assumes cfg: "cfg_ok cfg" and p: "point_name cfg p root name" and new: "\<not> isMounted s p"
    and inv: "mounts_ok cfg s" and m: "mount env (image_of cfg root name) p s = (r, s')"
  shows "mounts_ok cfg s'" "ext cfg s s'"
    "ns_mounted s' = ns_mounted s \<or> (\<exists>k. ns_mounted s' = (ns_mounted s)(p \<mapsto> k))"
    "r = None \<Longrightarrow> isMounted s' p" "r \<noteq> None \<Longrightarrow> ns_mounted s' = ns_mounted s"
proof -
  let ?c = "clean_comps p"
  define dirs where "dirs = s\<lparr>ns_fs := make_dirs ?c (ns_fs s)\<rparr>"
  have ed: "ext cfg s dirs"
    by (rule ext_fs [OF cfg p dirs_def]) (auto simp: dirs_def make_dirs_def)
  have od: "mounts_ok cfg dirs"
    unfolding mounts_ok_def
  proof (intro allI impI)
    fix p'
    assume m': "isMounted dirs p'"
    then have sh: "shows_image cfg s p'" using inv by (simp add: mounts_ok_def dirs_def isMounted_def)
    then obtain root' name' where p': "point_name cfg p' root' name'" by (auto simp: shows_image_def)
    have "p \<noteq> p'" using new m' by (auto simp: dirs_def isMounted_def)
    from shows_image_mono [OF sh ed] make_dirs_other(1) [OF cfg p p' this]
    show "shows_image cfg dirs p'" by (simp add: dirs_def)
  qed
  have full: "mounts_ok cfg t \<and> ext cfg s t"
    if img: "ns_image s (image_of cfg root name) = Some img"
      and t: "t = s\<lparr>ns_fs := mount_over ?c img (make_dirs ?c (ns_fs s)), ns_mounted := (ns_mounted s)(p \<mapsto> k)\<rparr>" for img k t
  proof
    show e: "ext cfg s t"
      unfolding ext_def
    proof (intro conjI allI)
      fix q
      show "below_roots cfg q \<or> ns_fs t q = ns_fs s q \<or> (ns_fs s q = None \<and> ns_fs t q = Some NDir)"
      proof (cases "take (length ?c) q = ?c")
        case True
        then have "q = ?c @ drop (length ?c) q" by (metis append_take_drop_id)
        with below_point [OF cfg p] show ?thesis by metis
      qed (auto simp: t mount_over_def make_dirs_def)
    qed (auto simp: t isMounted_def)
    show "mounts_ok cfg t"
      unfolding mounts_ok_def
    proof (intro allI impI)
      fix p'
      assume m': "isMounted t p'"
      show "shows_image cfg t p'"
      proof (cases "p' = p")
        case True
        have "ns_fs t (?c @ rel) = img rel" for rel by (simp add: t mount_over_def)
        with True p img show ?thesis by (auto simp: shows_image_def t)
      next
        case False
        then have sh: "shows_image cfg s p'" using inv m' by (auto simp: mounts_ok_def t isMounted_def)
        then obtain root' name' where p': "point_name cfg p' root' name'" by (auto simp: shows_image_def)
        note o = make_dirs_other [OF cfg p p' False [symmetric]]
        from shows_image_mono [OF sh e] show ?thesis by (simp add: t o)
      qed
    qed
  qed
  show "mounts_ok cfg s'" "ext cfg s s'" "ns_mounted s' = ns_mounted s \<or> (\<exists>k. ns_mounted s' = (ns_mounted s)(p \<mapsto> k))"
    "r = None \<Longrightarrow> isMounted s' p" "r \<noteq> None \<Longrightarrow> ns_mounted s' = ns_mounted s"
    using m ed od full inv
    by (auto simp: mount_def mountErofs_def Let_def dirs_def isMounted_def split: option.splits if_splits)
qed

section \<open>Every operation keeps it\<close>

lemma path_base_last:
  assumes "slash \<notin> set name" "name \<noteq> []"
  shows "path_base (d @ slash # name) = name"
proof -
  have "trim_right_char slash (d @ slash # name) = d @ slash # name"
    using assms by (cases "rev name") (auto simp: trim_right_char_def)
  then show ?thesis
    using assms takeWhile_append_stop [of "rev name" "\<lambda>x. x \<noteq> slash" slash "rev d"]
    by (fastforce simp: path_base_def)
qed

lemma join_with_snoc: "xs \<noteq> [] \<Longrightarrow> join_with sep (xs @ [y]) = join_with sep xs @ sep @ y"
  by (induction sep xs rule: join_with.induct) simp_all

lemma point_clean:
  assumes "cfg_ok cfg" "point_name cfg p root name"
  shows "clean p = p"
proof -
  have r: "is_abs root" "root \<noteq> []" using assms by (auto simp: cfg_ok_def point_name_def)
  then have "is_abs (root @ slash # name)" by (cases root) auto
  moreover have "p = clean (root @ slash # name)" using assms(2) r by (simp add: point_name_def path_join_def)
  ultimately show ?thesis by (simp add: clean_idem_abs)
qed

lemma point_base:
  assumes "cfg_ok cfg" "point_name cfg p root name"
  shows "path_base p = name"
proof -
  note c = point_comps [OF assms]
  have "p = slash # join_with ''/'' (clean_comps root @ [name])"
    using clean_abs [OF c(3)] point_clean [OF assms] c(1) by simp
  then have "\<exists>d. p = d @ slash # name"
    by (cases "clean_comps root = []") (auto simp: join_with_snoc)
  with path_base_last c(2) show ?thesis by (auto simp: plain_def)
qed

lemma same_view:
  assumes "ns_fs s' = ns_fs s" "ns_mounted s' = ns_mounted s"
    "\<And>n img. ns_image s n = Some img \<Longrightarrow> ns_image s' n = Some img"
  shows "ext cfg s s'" "mounts_ok cfg s \<Longrightarrow> mounts_ok cfg s'"
proof -
  show e: "ext cfg s s'" using assms by (simp add: ext_def isMounted_def)
  show "mounts_ok cfg s \<Longrightarrow> mounts_ok cfg s'"
    using shows_image_mono [OF _ e] assms by (simp add: mounts_ok_def isMounted_def)
qed

lemma buildOnce_ok:
  assumes b: "buildOnce env imgfile build s = (r, s')"
    and build: "\<And>q s1. build s = (q, s1) \<Longrightarrow> ns_fs s1 = ns_fs s \<and> ns_image s1 = ns_image s \<and> ns_mounted s1 = ns_mounted s"
  shows "ns_fs s' = ns_fs s" "ns_mounted s' = ns_mounted s" "ext cfg s s'" "mounts_ok cfg s \<Longrightarrow> mounts_ok cfg s'"
proof -
  obtain q s1 where q: "build s = (q, s1)" by fastforce
  have "ns_fs s' = ns_fs s \<and> ns_mounted s' = ns_mounted s \<and>
      (\<forall>n img. ns_image s n = Some img \<longrightarrow> ns_image s' n = Some img)"
    using b q build [OF q]
    by (cases q) (auto simp: buildOnce_def split: if_splits option.splits)
  then show "ns_fs s' = ns_fs s" "ns_mounted s' = ns_mounted s" "ext cfg s s'" "mounts_ok cfg s \<Longrightarrow> mounts_ok cfg s'"
    using same_view [of s' s cfg] by blast+
qed

lemma Ensure_ok:
  assumes cfg: "cfg_ok cfg" and p: "point_name cfg sp (nc_mountRoot cfg) name" and new: "\<not> isMounted s sp"
    and inv: "mounts_ok cfg s" and e: "Ensure env sp s = (r, s')"
  shows "mounts_ok cfg s' \<and> ext cfg s s' \<and>
    (case r of None \<Rightarrow> dom (ns_mounted s') = insert sp (dom (ns_mounted s)) | Some _ \<Rightarrow> ns_mounted s' = ns_mounted s)"
proof -
  let ?img = "image_of cfg (nc_mountRoot cfg) name"
  obtain q s1 where b: "buildOnce env ?img (\<lambda>s. (ne_store env sp, s)) s = (q, s1)" by fastforce
  have k: "ns_fs s1 = ns_fs s" "ns_mounted s1 = ns_mounted s" "ext cfg s s1"
    by (rule buildOnce_ok [OF b], simp)+
  have k4: "mounts_ok cfg s1" by (rule buildOnce_ok(4) [OF b _ inv]) simp
  have img: "fst (cut (path_base sp) (CHR ''-'')) @ ''.erofs'' = ?img"
    using point_base [OF cfg p] by (simp add: image_of_def)
  show ?thesis
  proof (cases q)
    case (Some x)
    with e new b img have "r = Some x" "s' = s1" by (simp_all add: Ensure_def Let_def)
    with k k4 show ?thesis by simp
  next
    case None
    with e new b img have m: "mount env ?img sp s1 = (r, s')" by (simp add: Ensure_def Let_def)
    have new1: "\<not> isMounted s1 sp" using new k(2) by (simp add: isMounted_def)
    note mo = mount_ok [OF cfg p new1 k4 m]
    have "ext cfg s s'" using ext_trans k(3) mo(2) by blast
    moreover have "r = None \<Longrightarrow> dom (ns_mounted s') = insert sp (dom (ns_mounted s))"
      using mo(3,4) new1 k(2) by (auto simp: isMounted_def)
    ultimately show ?thesis using mo(1,5) k(2) by (cases r) auto
  qed
qed

text \<open>\<open>pulled s s' k\<close>: exactly \<open>k\<close> points were mounted between the two states.\<close>

definition pulled :: "nstore \<Rightarrow> nstore \<Rightarrow> nat \<Rightarrow> bool" where
  "pulled s s' k \<longleftrightarrow> (\<exists>M. dom (ns_mounted s') = dom (ns_mounted s) \<union> M \<and> dom (ns_mounted s) \<inter> M = {} \<and>
     finite M \<and> card M = k)"

lemma pulled_same: "ns_mounted s' = ns_mounted s \<Longrightarrow> pulled s s' 0"
  unfolding pulled_def by (intro exI [of _ "{}"]) simp

lemma pulled_step:
  assumes "dom (ns_mounted s1) = insert sp (dom (ns_mounted s))" "\<not> isMounted s sp" "pulled s1 s' k"
  shows "pulled s s' (Suc k)"
proof -
  obtain M where M: "dom (ns_mounted s') = dom (ns_mounted s1) \<union> M" "dom (ns_mounted s1) \<inter> M = {}" "finite M" "card M = k"
    using assms(3) by (auto simp: pulled_def)
  have "sp \<notin> M" "sp \<notin> dom (ns_mounted s)" using M(2) assms(1,2) by (auto simp: isMounted_def)
  with M assms(1) show ?thesis unfolding pulled_def by (intro exI [of _ "insert sp M"]) auto
qed

text \<open>\<open>Open\<close>: the number it reports is the number of store paths it mounted, and what it opens is what
  the kernel finds then.\<close>

definition open_ok :: "nix_cfg \<Rightarrow> nstore \<Rightarrow> string \<Rightarrow> nat \<Rightarrow> nix_err + string list \<Rightarrow> nat \<Rightarrow> nstore \<Rightarrow> bool" where
  "open_ok cfg s path n r h s' \<longleftrightarrow> mounts_ok cfg s' \<and> ext cfg s s' \<and> h \<le> n \<and> pulled s s' h \<and>
     (case r of Inr p \<Rightarrow> os_Open (ns_fs s') path = Opened p | Inl _ \<Rightarrow> True)"

lemma open_loop_ok:
  assumes cfg: "cfg_ok cfg" and inv: "mounts_ok cfg s"
    and o: "open_loop cfg ul env n hop path s = (r, h, s')"
  shows "hop \<le> h \<and> open_ok cfg s path n r (h - hop) s'"
  using inv o
proof (induction n arbitrary: hop s)
  case 0
  then show ?case by (auto simp: open_ok_def pulled_same)
next
  case (Suc n)
  show ?case
  proof (cases "os_Open (ns_fs s) path")
    case (Opened p)
    with Suc.prems show ?thesis by (auto simp: open_ok_def pulled_same)
  next
    case (KFail m)
    with Suc.prems show ?thesis by (auto simp: open_ok_def pulled_same)
  next
    case KNoEnt
    let ?sp = "missingFor cfg ul s path"
    show ?thesis
    proof (cases "?sp = []")
      case True
      with KNoEnt Suc.prems show ?thesis by (auto simp: open_ok_def pulled_same)
    next
      case False
      then obtain name where p: "\<not> isMounted s ?sp" "point_name cfg ?sp (nc_mountRoot cfg) name"
        using missing_walk_point unfolding missingFor_def by blast
      obtain q s1 where e: "Ensure env ?sp s = (q, s1)" by fastforce
      note ok = Ensure_ok [OF cfg p(2,1) Suc.prems(1) e]
      show ?thesis
      proof (cases q)
        case (Some x)
        with KNoEnt False e Suc.prems(2) have "r = Inl (NWrap (''resolving '' @ ?sp) x)" "h = hop" "s' = s1"
          by (simp_all add: Let_def)
        with ok Some show ?thesis by (simp add: open_ok_def pulled_same)
      next
        case None
        with KNoEnt False e Suc.prems(2) have "open_loop cfg ul env n (Suc hop) path s1 = (r, h, s')"
          by (simp add: Let_def)
        from Suc.IH [OF conjunct1 [OF ok] this] have ih: "Suc hop \<le> h" "open_ok cfg s1 path n r (h - Suc hop) s'"
          by blast+
        have d: "dom (ns_mounted s1) = insert ?sp (dom (ns_mounted s))" using ok None by simp
        have "pulled s1 s' (h - Suc hop)" using ih(2) by (simp add: open_ok_def)
        from pulled_step [OF d p(1) this] ih(1) have "pulled s s' (h - hop)" by (simp add: Suc_diff_Suc)
        moreover have "ext cfg s s'" using ok ih(2) ext_trans unfolding open_ok_def by blast
        moreover have "h - hop \<le> Suc n" using ih by (auto simp: open_ok_def)
        ultimately show ?thesis using ih by (simp add: open_ok_def)
      qed
    qed
  qed
qed

lemma Open_ok:
  "cfg_ok cfg \<Longrightarrow> mounts_ok cfg s \<Longrightarrow> Open cfg ul env path s = (r, h, s') \<Longrightarrow> open_ok cfg s path 16 r h s'"
  using open_loop_ok [of cfg s ul env maxResolveHops 0 path r h s'] by (simp add: Open_def maxResolveHops_def)

definition kept :: "nix_cfg \<Rightarrow> nstore \<Rightarrow> nstore \<Rightarrow> bool" where
  "kept cfg s s' \<longleftrightarrow> mounts_ok cfg s' \<and> ext cfg s s'"

lemma archiveFor_same:
  assumes "archiveFor env b s = (r, s')"
  shows "ns_fs s' = ns_fs s" "ns_mounted s' = ns_mounted s" "ns_image s' = ns_image s"
  using assms by (auto simp: archiveFor_def Let_def split: option.splits sum.splits prod.splits if_splits)

lemma archiveFor_key: "archiveFor env b s = (Inr (key, archive), s') \<Longrightarrow> archiveKeyRe key"
  by (auto simp: archiveFor_def known_archive_def keyFromImageName_def archiveKey_def Let_def
      split: option.splits sum.splits if_splits prod.splits)

lemma archiveFor_ok:
  assumes inv: "mounts_ok cfg s" and a: "archiveFor env b s = (r, s')"
  shows "kept cfg s s'" "r = Inr (key, archive) \<Longrightarrow> archiveKeyRe key"
proof -
  show "kept cfg s s'" using same_view [of s' s cfg] inv archiveFor_same [OF a] by (simp add: kept_def)
  show "r = Inr (key, archive) \<Longrightarrow> archiveKeyRe key" using archiveFor_key a by blast
qed

lemma build_archive_view:
  "build_archive env b key a s = (q, s1) \<Longrightarrow> ns_fs s1 = ns_fs s \<and> ns_image s1 = ns_image s \<and> ns_mounted s1 = ns_mounted s"
  by (auto simp: build_archive_def split: sum.splits if_splits)

lemma mount_entry_ok:
  assumes cfg: "cfg_ok cfg" and key: "archiveKeyRe key" and inv: "mounts_ok cfg s"
    and m: "mount_entry env b key archive (path_join [nc_entryRoot cfg, key]) s = (r, s')"
  shows "kept cfg s s'" "r = None \<Longrightarrow> isMounted s' (path_join [nc_entryRoot cfg, key])"
proof -
  let ?p = "path_join [nc_entryRoot cfg, key]"
  have p: "point_name cfg ?p (nc_entryRoot cfg) key" using key by (simp add: point_name_def)
  have "nc_entryRoot cfg \<noteq> nc_mountRoot cfg" using cfg by (auto simp: cfg_ok_def Let_def)
  then have img: "archive_image key = image_of cfg (nc_entryRoot cfg) key" by (simp add: image_of_def)
  obtain q s1 where bo: "buildOnce env (archive_image key) (build_archive env b key archive) s = (q, s1)" by fastforce
  have k: "ns_mounted s1 = ns_mounted s" "ext cfg s s1"
    by (rule buildOnce_ok [OF bo], erule build_archive_view)+
  have k3: "mounts_ok cfg s1" by (rule buildOnce_ok(4) [OF bo _ inv], erule build_archive_view)
  show "kept cfg s s'" "r = None \<Longrightarrow> isMounted s' ?p"
  proof -
    show "kept cfg s s'"
    proof (cases "q = None \<and> \<not> isMounted s1 ?p")
      case True
      with m bo have "mount env (image_of cfg (nc_entryRoot cfg) key) ?p s1 = (r, s')"
        by (simp add: mount_entry_def img)
      from mount_ok(1,2) [OF cfg p conjunct2 [OF True] k3 this] k(2) ext_trans show ?thesis
        by (auto simp: kept_def)
    next
      case False
      with m bo have "s' = s1" by (cases q) (auto simp: mount_entry_def)
      with k k3 show ?thesis by (simp add: kept_def)
    qed
    show "isMounted s' ?p" if "r = None"
    proof (cases "isMounted s1 ?p")
      case True
      with m bo that show ?thesis by (cases q) (auto simp: mount_entry_def)
    next
      case False
      with m bo that have "mount env (image_of cfg (nc_entryRoot cfg) key) ?p s1 = (None, s')"
        by (cases q) (auto simp: mount_entry_def img)
      from mount_ok(4) [OF cfg p False k3 this] show ?thesis by simp
    qed
  qed
qed

lemma kept_trans: "kept cfg s s' \<Longrightarrow> kept cfg s' s'' \<Longrightarrow> kept cfg s s''"
  unfolding kept_def using ext_trans by blast

lemma entry_ok:
  assumes cfg: "cfg_ok cfg" and inv: "mounts_ok cfg s" and e: "store_entry cfg env b s = (ops, r, s')"
  shows "kept cfg s s'"
proof (cases "length b < 3")
  case True
  with e inv show ?thesis by (simp add: store_entry_def kept_def)
next
  case False
  obtain q s1 where a: "archiveFor env b s = (q, s1)" by fastforce
  note k1 = archiveFor_ok(1) [OF inv a]
  show ?thesis
  proof (cases q)
    case (Inl x)
    with e False a k1 show ?thesis by (simp add: store_entry_def)
  next
    case (Inr ka)
    obtain key archive where ka: "ka = (key, archive)" by fastforce
    have key: "archiveKeyRe key" using archiveFor_ok(2) [OF inv a] Inr ka by blast
    obtain m s2 where m: "mount_entry env b key archive (path_join [nc_entryRoot cfg, key]) s1 = (m, s2)" by fastforce
    have "kept cfg s1 s2" using mount_entry_ok(1) [OF cfg key _ m] k1 by (simp add: kept_def)
    moreover have "s' = s2"
      using e False a Inr ka m by (auto simp: store_entry_def Let_def split: option.splits sum.splits)
    ultimately show ?thesis using k1 kept_trans by blast
  qed
qed

lemma Open_kept: "cfg_ok cfg \<Longrightarrow> mounts_ok cfg s \<Longrightarrow> Open cfg ul env path s = (r, h, s') \<Longrightarrow> kept cfg s s'"
  using Open_ok by (simp add: kept_def open_ok_def)

lemma nix_indexFor_ok: "mounts_ok cfg s \<Longrightarrow> nix_indexFor env ov src s = (ix, s') \<Longrightarrow> kept cfg s s'"
  using same_view [of s' s cfg] by (auto simp: nix_indexFor_def Let_def kept_def split: option.splits)

datatype nix_request = Debuginfo string | Executable string | Source string string

fun handle :: "nix_cfg \<Rightarrow> (string \<Rightarrow> string) \<Rightarrow> nix_env \<Rightarrow> nix_request \<Rightarrow> nstore \<Rightarrow> nix_result" where
  "handle cfg ul env (Debuginfo b) s = GetDebuginfo cfg ul env b s"
| "handle cfg ul env (Executable b) s = GetExecutable cfg ul env b s"
| "handle cfg ul env (Source b path) s = GetSource cfg ul env b path s"

text \<open>What a request does to the store is a sequence of entries, openings and look-ups of an index, so
  a relation that holds for each of these holds for the request.\<close>

locale nix_steps =
  fixes R :: "nix_env \<Rightarrow> nstore \<Rightarrow> nstore \<Rightarrow> bool" and cfg :: nix_cfg and ul :: "string \<Rightarrow> string"
  assumes R_refl: "R env s s"
    and R_trans: "R env s s' \<Longrightarrow> R env s' s'' \<Longrightarrow> R env s s''"
    and R_entry: "store_entry cfg env b s = (ops, e, s') \<Longrightarrow> R env s s'"
    and R_Open: "Open cfg ul env path s = (o', n, s') \<Longrightarrow> R env s s'"
    and R_index: "nix_indexFor env ov src s = (ix, s') \<Longrightarrow> R env s s'"
begin

lemma serve_path_R:
  assumes "serve_path cfg ul env pre path fname archive s = (r, s')"
  shows "R env s s'"
proof -
  obtain q n s1 where "Open cfg ul env path s = (q, n, s1)" by (metis prod_cases3)
  with R_Open [OF this] assms show ?thesis
    by (auto simp: serve_path_def split: sum.splits prod.splits)
qed

lemma via_entry:
  assumes "store_entry cfg env b s = (pre, q, s1)"
    and "\<And>er. q = Inr er \<Longrightarrow> R env s1 s'" "\<And>x. q = Inl x \<Longrightarrow> s' = s1"
  shows "R env s s'"
  using R_entry [OF assms(1)] assms(2,3) R_trans by (cases q) blast+

lemma source_R:
  assumes h: "GetSource cfg ul env b path s = (r, s')"
  shows "R env s s'"
proof -
  obtain sp rest where sp: "splitStorePath cfg ul (clean path) = (sp, rest)" by fastforce
  show ?thesis
  proof (cases "sp = []")
    case False
    with h sp serve_path_R show ?thesis by (simp add: GetSource_def Let_def)
  next
    case True
    obtain pre q s1 where e: "store_entry cfg env b s = (pre, q, s1)" by (metis prod_cases3)
    show ?thesis
    proof (rule via_entry [OF e])
      fix er
      assume q: "q = Inr er"
      let ?base = "path_join [er_point er, trim_suffix (er_member er) ''.debug'']"
      obtain o' n s2 where o: "Open cfg ul env (?base @ ''.source'') s1 = (o', n, s2)" by (metis prod_cases3)
      obtain ix s3 where x: "nix_indexFor env (?base @ ''.sourceoverlay'') (?base @ ''.source'') s2 = (ix, s3)" by fastforce
      have "s' = s2 \<or> s' = s3"
        using h sp True e q o x by (auto simp: GetSource_def Let_def split: sum.splits prod.splits if_splits)
      with R_Open [OF o] R_index [OF x] R_trans show "R env s1 s'" by blast
    next
      fix x
      assume "q = Inl x"
      with h sp True e show "s' = s1" by (simp add: GetSource_def Let_def)
    qed
  qed
qed

lemma handle_R:
  assumes h: "handle cfg ul env rq s = (r, s')"
  shows "R env s s'"
proof (cases rq)
  case (Debuginfo b)
  obtain pre q s1 where e: "store_entry cfg env b s = (pre, q, s1)" by (metis prod_cases3)
  with h Debuginfo serve_path_R show ?thesis by (intro via_entry [OF e]) (auto simp: GetDebuginfo_def)
next
  case (Executable b)
  obtain pre q s1 where e: "store_entry cfg env b s = (pre, q, s1)" by (metis prod_cases3)
  with h Executable serve_path_R show ?thesis by (intro via_entry [OF e]) (auto simp: GetExecutable_def)
next
  case (Source b path)
  with h source_R show ?thesis by simp
qed

end

text \<open>Entries and openings are in turn made of four kinds of step: look-ups, the building of an image of
  a store path or of an archive, and the mounting of a point.\<close>

locale nix_mounts =
  fixes R :: "nix_env \<Rightarrow> nstore \<Rightarrow> nstore \<Rightarrow> bool" and cfg :: nix_cfg and ul :: "string \<Rightarrow> string"
  assumes R_off: "\<not> cfg_ok cfg \<Longrightarrow> R env s s'"
    and R_quiet: "ns_fs s' = ns_fs s \<Longrightarrow> ns_mounted s' = ns_mounted s \<Longrightarrow> ns_image s' = ns_image s \<Longrightarrow> R env s s'"
    and R_trans: "R env s s' \<Longrightarrow> R env s' s'' \<Longrightarrow> R env s s''"
    and R_path: "point_name cfg sp (nc_mountRoot cfg) name \<Longrightarrow>
      buildOnce env (image_of cfg (nc_mountRoot cfg) name) (\<lambda>s. (ne_store env sp, s)) s = (q, s') \<Longrightarrow> R env s s'"
    and R_archive: "archiveKeyRe key \<Longrightarrow>
      buildOnce env (archive_image key) (build_archive env b key archive) s = (q, s') \<Longrightarrow> R env s s'"
    and R_mount: "point_name cfg p root name \<Longrightarrow> mount env imgfile p s = (q, s') \<Longrightarrow> R env s s'"
begin

lemma Ensure_R:
  assumes p: "point_name cfg sp (nc_mountRoot cfg) name" and e: "Ensure env sp s = (r, s')"
  shows "R env s s'"
proof (cases "cfg_ok cfg \<and> \<not> isMounted s sp")
  case True
  let ?k = "image_of cfg (nc_mountRoot cfg) name"
  have k: "fst (cut (path_base sp) (CHR ''-'')) @ ''.erofs'' = ?k"
    using point_base [OF _ p] True by (simp add: image_of_def)
  obtain q s1 where b: "buildOnce env ?k (\<lambda>s. (ne_store env sp, s)) s = (q, s1)" by fastforce
  note n = R_path [OF p b]
  show ?thesis
  proof (cases q)
    case None
    with e True b k have "mount env ?k sp s1 = (r, s')" by (simp add: Ensure_def Let_def)
    from R_trans [OF n R_mount [OF p this]] show ?thesis .
  next
    case Some
    with e True b k n show ?thesis by (simp add: Ensure_def Let_def)
  qed
next
  case False
  with e R_off R_quiet show ?thesis by (auto simp: Ensure_def)
qed

lemma open_loop_R: "open_loop cfg ul env n hop path s = (r, h, s') \<Longrightarrow> R env s s'"
proof (induction n arbitrary: hop s)
  case 0
  then show ?case by (simp add: R_quiet)
next
  case (Suc n)
  show ?case
  proof (cases "os_Open (ns_fs s) path = KNoEnt \<and> missingFor cfg ul s path \<noteq> []")
    case True
    let ?sp = "missingFor cfg ul s path"
    obtain name where p: "point_name cfg ?sp (nc_mountRoot cfg) name"
      using missing_walk_point True unfolding missingFor_def by blast
    obtain q s1 where e: "Ensure env ?sp s = (q, s1)" by fastforce
    note n1 = Ensure_R [OF p e]
    show ?thesis
    proof (cases q)
      case (Some x)
      with Suc.prems True e have "s' = s1" by (simp add: Let_def)
      with n1 show ?thesis by simp
    next
      case None
      with Suc.prems True e have "open_loop cfg ul env n (Suc hop) path s1 = (r, h, s')" by (simp add: Let_def)
      from R_trans [OF n1 Suc.IH [OF this]] show ?thesis .
    qed
  next
    case False
    with Suc.prems show ?thesis by (auto simp: R_quiet Let_def split: kres.splits if_splits)
  qed
qed

lemma mount_entry_R:
  assumes key: "archiveKeyRe key" and m: "mount_entry env b key archive (path_join [nc_entryRoot cfg, key]) s = (r, s')"
  shows "R env s s'"
proof -
  let ?p = "path_join [nc_entryRoot cfg, key]"
  have p: "point_name cfg ?p (nc_entryRoot cfg) key" using key by (simp add: point_name_def)
  obtain q s1 where bo: "buildOnce env (archive_image key) (build_archive env b key archive) s = (q, s1)" by fastforce
  note n = R_archive [OF key bo]
  show ?thesis
  proof (cases "q = None \<and> \<not> isMounted s1 ?p")
    case True
    with m bo have "mount env (archive_image key) ?p s1 = (r, s')" by (simp add: mount_entry_def)
    from R_trans [OF n R_mount [OF p this]] show ?thesis .
  next
    case False
    with m bo n show ?thesis by (cases q) (auto simp: mount_entry_def)
  qed
qed

lemma entry_R:
  assumes e: "store_entry cfg env b s = (ops, r, s')"
  shows "R env s s'"
proof (cases "length b < 3")
  case True
  with e show ?thesis by (simp add: store_entry_def R_quiet)
next
  case False
  obtain q s1 where a: "archiveFor env b s = (q, s1)" by fastforce
  note n1 = R_quiet [OF archiveFor_same [OF a], of env]
  show ?thesis
  proof (cases q)
    case (Inl x)
    with e False a n1 show ?thesis by (simp add: store_entry_def)
  next
    case (Inr ka)
    obtain key archive where ka: "ka = (key, archive)" by fastforce
    have key: "archiveKeyRe key" using a Inr ka by (intro archiveFor_key) simp_all
    obtain m s2 where m: "mount_entry env b key archive (path_join [nc_entryRoot cfg, key]) s1 = (m, s2)" by fastforce
    have "s' = s2"
      using e False a Inr ka m by (auto simp: store_entry_def Let_def split: option.splits sum.splits)
    with R_trans [OF n1 mount_entry_R [OF key m]] show ?thesis by simp
  qed
qed

lemma index_R: "nix_indexFor env ov src s = (ix, s') \<Longrightarrow> R env s s'"
  by (auto simp: nix_indexFor_def Let_def R_quiet split: option.splits)

end

sublocale nix_mounts \<subseteq> steps: nix_steps R cfg ul
  using R_quiet R_trans entry_R open_loop_R index_R by unfold_locales (auto simp: Open_def)

definition keeps :: "nix_cfg \<Rightarrow> nstore \<Rightarrow> nstore \<Rightarrow> bool" where
  "keeps cfg s s' \<longleftrightarrow> (cfg_ok cfg \<longrightarrow> mounts_ok cfg s \<longrightarrow> kept cfg s s')"

interpretation view: nix_steps "\<lambda>env. keeps cfg" cfg ul for cfg ul
proof
  show "keeps cfg s s" for s by (simp add: keeps_def kept_def)
  show "keeps cfg s s' \<Longrightarrow> keeps cfg s' s'' \<Longrightarrow> keeps cfg s s''" for s s' s''
    using kept_trans by (auto simp: keeps_def kept_def)
qed (auto simp: keeps_def entry_ok Open_kept nix_indexFor_ok)

lemma handle_ok: "cfg_ok cfg \<Longrightarrow> mounts_ok cfg s \<Longrightarrow> handle cfg ul env rq s = (r, s') \<Longrightarrow> kept cfg s s'"
  using view.handle_R by (simp add: keeps_def)

section \<open>Properties\<close>

fun nix_run :: "nix_cfg \<Rightarrow> (string \<Rightarrow> string) \<Rightarrow> (nix_env \<times> nix_request) list \<Rightarrow> nstore \<Rightarrow> nstore" where
  "nix_run cfg ul [] s = s"
| "nix_run cfg ul ((env, rq) # h) s = nix_run cfg ul h (snd (handle cfg ul env rq s))"

lemma nix_run_ok: "cfg_ok cfg \<Longrightarrow> mounts_ok cfg s \<Longrightarrow> kept cfg s (nix_run cfg ul h s)"
proof (induction h arbitrary: s)
  case Nil
  then show ?case by (simp add: kept_def)
next
  case (Cons x h)
  obtain env rq where x: "x = (env, rq)" by fastforce
  have k: "kept cfg s (snd (handle cfg ul env rq s))"
    by (rule handle_ok [OF Cons.prems prod.collapse [symmetric]])
  with Cons.IH [OF Cons.prems(1)] have "kept cfg (snd (handle cfg ul env rq s)) (nix_run cfg ul h (snd (handle cfg ul env rq s)))"
    by (simp add: kept_def)
  with k have "kept cfg s (nix_run cfg ul h (snd (handle cfg ul env rq s)))" by (rule kept_trans)
  then show ?case by (simp add: x)
qed

text \<open>What is served under a store path is what was built for it: after any history of requests,
  with any failures of fetches, builds and mounts, every mounted point is a direct child of the
  mount root or the entry root, and at every path below it the process sees exactly the image
  built for that hash or archive.\<close>
theorem mounts_show_images:
  assumes "cfg_ok cfg" and "ns_mounted s = Map.empty" and "isMounted (nix_run cfg ul h s) p"
  shows "\<exists>root name img. point_name cfg p root name \<and>
    ns_image (nix_run cfg ul h s) (image_of cfg root name) = Some img \<and>
    (\<forall>rel. ns_fs (nix_run cfg ul h s) (clean_comps p @ rel) = img rel)"
proof -
  have "mounts_ok cfg s" using assms(2) by (simp add: mounts_ok_def isMounted_def)
  from nix_run_ok [OF assms(1) this, of ul h] assms(3) show ?thesis
    by (simp add: kept_def mounts_ok_def shows_image_def)
qed

text \<open>Nothing else changes: outside the two roots a request leaves every file as it was, except
  for directories it creates where nothing was; an image once published keeps its content and a
  mount stays.\<close>
theorem nix_host_untouched:
  assumes "cfg_ok cfg" and "ns_mounted s = Map.empty"
  shows "(\<forall>q. below_roots cfg q \<or> ns_fs (nix_run cfg ul h s) q = ns_fs s q \<or>
      (ns_fs s q = None \<and> ns_fs (nix_run cfg ul h s) q = Some NDir)) \<and>
    (\<forall>n. ns_image s n = None \<or> ns_image (nix_run cfg ul h s) n = ns_image s n)"
proof -
  have "mounts_ok cfg s" using assms(2) by (simp add: mounts_ok_def isMounted_def)
  from nix_run_ok [OF assms(1) this, of ul h] have e: "ext cfg s (nix_run cfg ul h s)" by (simp add: kept_def)
  have "ns_image s n = None \<or> ns_image (nix_run cfg ul h s) n = ns_image s n" for n
    using e unfolding ext_def by (cases "ns_image s n") auto
  with e show ?thesis unfolding ext_def by blast
qed

text \<open>Resolution is bounded and accounted for: \<open>Open\<close> makes at most 16 passes, the number it reports
  is exactly the number of store paths it mounted, all of them new, and a file it opens is the
  one the kernel finds at the path then.\<close>
theorem Open_counts:
  assumes "cfg_ok cfg" and "mounts_ok cfg s" and "Open cfg ul env path s = (r, h, s')"
  shows "h \<le> 16 \<and> card (dom (ns_mounted s') - dom (ns_mounted s)) = h \<and> dom (ns_mounted s) \<subseteq> dom (ns_mounted s') \<and>
    (case r of Inr p \<Rightarrow> os_Open (ns_fs s') path = Opened p | Inl _ \<Rightarrow> True)"
proof -
  have o: "open_ok cfg s path 16 r h s'" by (rule Open_ok [OF assms])
  then obtain M where "dom (ns_mounted s') = dom (ns_mounted s) \<union> M" "dom (ns_mounted s) \<inter> M = {}" "card M = h"
    by (auto simp: open_ok_def pulled_def)
  then have "dom (ns_mounted s') - dom (ns_mounted s) = M" by auto
  with o \<open>card M = h\<close> \<open>dom (ns_mounted s') = _ \<union> M\<close> show ?thesis by (auto simp: open_ok_def)
qed

subsection \<open>Archives\<close>

lemma archiveKey_ok: "archiveKey a = Inr k \<Longrightarrow> archiveKeyRe k"
  by (auto simp: archiveKey_def split: prod.splits if_splits)

lemma link_target_base: "archiveKeyRe k \<Longrightarrow> path_base (''../'' @ archive_image k) = archive_image k"
  using path_base_last [of "archive_image k" "''..''"] key_facts(1) [of k] by (simp add: archive_image_def)

lemma keyFromImageName_image: "archiveKeyRe k \<Longrightarrow> keyFromImageName (archive_image k) = Some k"
  using cut_prefix_append [of "''archive-''" "k @ ''.erofs''"] cut_suffix_append [of k "''.erofs''"]
  by (simp add: keyFromImageName_def archive_image_def)

text \<open>The archive a build ID resolves to is remembered across requests: the key parsed from the
  binary cache's path, written as the link's target, reads back as the same key, so once the link
  is in place no later request asks the network which archive it is.\<close>
theorem archive_remembered:
  assumes "archiveFor env b s = (Inr (key, archive), s')" and "ne_symlink env" and "ne_link_rename env"
  shows "archiveKeyRe key \<and> (\<forall>env2. \<exists>a. archiveFor env2 b s' = (Inr (key, a), s'))"
proof -
  have "\<exists>a. known_archive b s' = Some (key, a) \<and> archiveKeyRe key"
  proof (cases "known_archive b s")
    case (Some r)
    with assms(1) have "s' = s" "r = (key, archive)" by (auto simp: archiveFor_def)
    with Some show ?thesis by (auto simp: known_archive_def keyFromImageName_def split: option.splits if_splits)
  next
    case None
    with assms have k: "archiveKeyRe key" and l: "ns_link s' b = Some (''../'' @ archive_image key)"
      by (auto simp: archiveFor_def Let_def archiveKey_ok split: sum.splits prod.splits if_splits)
    have "keyFromImageName (path_base (''../'' @ archive_image key)) = Some key"
      using link_target_base [OF k] keyFromImageName_image [OF k] by simp
    with k l show ?thesis by (simp add: known_archive_def)
  qed
  then show ?thesis by (auto simp: archiveFor_def)
qed

section \<open>What a source request opens\<close>

lemma split_on_append: "split_on c (s @ c # t) = split_on c s @ split_on c t"
proof (induction s)
  case Nil
  show ?case by simp
next
  case (Cons x xs)
  obtain p ps where "split_on c xs = p # ps" by (metis neq_Nil_conv split_on_not_Nil)
  with Cons show ?case by auto
qed

lemma raw_parts_clean:
  assumes "is_abs p"
  shows "raw_parts (clean p) = clean_comps p"
proof (cases "clean_comps p")
  case Nil
  with assms show ?thesis by (simp add: clean_abs raw_parts_def)
next
  case (Cons q qs)
  have pl: "list_all plain (clean_comps p)" by (rule clean_comps_plain [OF assms])
  then have "split_on slash (join_with ''/'' (clean_comps p)) = clean_comps p"
    using Cons by (intro split_on_join) (auto simp: list_all_iff plain_def)
  moreover have "filter (\<lambda>s. s \<noteq> []) (clean_comps p) = clean_comps p"
    using pl by (intro filter_True) (auto simp: list_all_iff plain_def)
  ultimately show ?thesis using assms by (simp add: clean_abs raw_parts_def)
qed

lemma parts_clean_plain:
  assumes "is_abs p" and "x \<in> set (split_on slash (clean p))"
  shows "x = [] \<or> plain x"
proof (cases "x = []")
  case False
  with assms(2) have "x \<in> set (raw_parts (clean p))" by (simp add: raw_parts_def)
  then show ?thesis using clean_comps_plain [OF assms(1)] by (simp add: raw_parts_clean [OF assms(1)] list_all_iff)
qed simp

lemma path_join_rest:
  assumes d: "is_abs d" and r: "\<And>x. x \<in> set (split_on slash rest) \<Longrightarrow> x = [] \<or> plain x"
  shows "\<exists>qs. list_all plain qs \<and> raw_parts (path_join [d, rest]) = clean_comps d @ qs"
proof -
  let ?qs = "filter (\<lambda>s. s \<noteq> []) (split_on slash rest)"
  have d0: "d \<noteq> []" using d by auto
  have j: "path_join [d, rest] = clean (d @ slash # rest)" using d0 by (simp add: path_join_def)
  have a: "is_abs (d @ slash # rest)" using d by (cases d) auto
  have skip: "clean_parts True ps acc = clean_parts True (filter (\<lambda>s. s \<noteq> []) ps) acc" for ps acc
    by (induction "True" ps acc rule: clean_parts.induct) (auto split: list.splits)
  have pl: "list_all plain ?qs" using r by (auto simp: list_all_iff)
  have "clean_comps (d @ slash # rest) = clean_parts True (split_on slash d @ split_on slash rest) []"
    using a by (simp add: clean_comps_def split_on_append)
  also have "\<dots> = clean_parts True (filter (\<lambda>s. s \<noteq> []) (split_on slash d) @ ?qs) []"
    using skip [of "split_on slash d @ split_on slash rest" "[]"] by simp
  also have "\<dots> = clean_comps d @ ?qs"
    using d pl skip [of "split_on slash d" "[]"] by (simp add: clean_comps_def clean_parts_append_plain)
  finally show ?thesis using pl raw_parts_clean [OF a] j by metis
qed

definition body_of :: "w_op list \<Rightarrow> bytes" where
  "body_of ops = concat (map (\<lambda>op. case op of WriteBody e b \<Rightarrow> b | _ \<Rightarrow> []) ops)"

lemma body_of_simps [simp]:
  "body_of [] = []" "body_of (xs @ ys) = body_of xs @ body_of ys" "body_of (WriteBody e b # xs) = b @ body_of xs"
  "body_of (SetHeader k v # xs) = body_of xs" "body_of (DelHeader k # xs) = body_of xs" "body_of (WriteHeader n # xs) = body_of xs"
  by (simp_all add: body_of_def)

lemma concat_chunks: "concat (chunks k b) = b"
  by (induction k b rule: chunks.induct) (subst chunks.simps, auto)

lemma copy_chunks_body: "copy_chunks conn i bs = (ops, None) \<Longrightarrow> body_of ops = concat bs"
  by (induction bs arbitrary: i ops) (auto split: if_splits prod.splits)

lemma copy_node_whole: "copy_node env fs p = (ops, None) \<Longrightarrow> \<exists>data. fs p = Some (NFile data) \<and> body_of ops = data"
  by (auto simp: copy_node_def concat_chunks dest: copy_chunks_body split: option.splits node.splits)

lemma setMeta_body [simp]: "body_of (setMeta env fs path fname archive) = []"
  by (simp add: setMeta_def split: option.split)

lemma open_loop_last: "open_loop cfg ul env n h path s = (Inr p, h', s') \<Longrightarrow> os_Open (ns_fs s') path = Opened p"
  by (induction n arbitrary: h s) (auto simp: Let_def split: kres.splits if_splits prod.splits option.splits)

lemma Open_at_once: "os_Open (ns_fs s) path = Opened p \<Longrightarrow> Open cfg ul env path s = (Inr p, 0, s)"
  by (simp add: Open_def maxResolveHops_def numeral_eq_Suc)

lemma serve_path_whole:
  assumes "serve_path cfg ul env pre path fname archive s = ((ops, None), s')" and "body_of pre = []"
  shows "\<exists>p data. os_Open (ns_fs s') path = Opened p \<and> ns_fs s' p = Some (NFile data) \<and> body_of ops = data"
  using assms open_loop_last [of cfg ul env maxResolveHops 0 path s]
  by (auto simp: serve_path_def Open_def dest!: copy_node_whole split: sum.splits prod.splits)

lemma entry_body: "store_entry cfg env b s = (pre, r, s') \<Longrightarrow> body_of pre = []"
  by (auto simp: store_entry_def sendEarlyHints_def Let_def split: if_splits sum.splits prod.splits option.splits)

text \<open>C17. A source request that names a store path cannot leave that store path by its name: however
  many \<open>..\<close> it carries, what is opened is the mount root, one component that is a store hash and a
  name, and plain components below it; and when the handler reports no error the body it wrote is
  the whole of the regular file the kernel finds at that path.\<close>
theorem GetSource_store_path:
  assumes "is_abs (nc_mountRoot cfg)" and "is_abs path"
    and "splitStorePath cfg ul (clean path) = (sp, rest)" and "sp \<noteq> []"
    and "GetSource cfg ul env b path s = ((ops, None), s')"
  shows "\<exists>h pkg qs p data. isStoreHash h \<and> slash \<notin> set pkg \<and> list_all plain qs \<and>
    raw_parts (path_join [sp, rest]) = clean_comps (nc_mountRoot cfg) @ (h @ ''-'' @ pkg) # qs \<and>
    os_Open (ns_fs s') (path_join [sp, rest]) = Opened p \<and> ns_fs s' p = Some (NFile data) \<and> body_of ops = data"
proof -
  from splitStorePath_shape [OF assms(3,4)] obtain h pkg h0 where
    sh: "isStoreHash h" "slash \<notin> set pkg" "sp = path_join [nc_mountRoot cfg, h @ ''-'' @ pkg]" and
    t: "clean path = nc_mountRoot cfg @ ''/'' @ h0 @ ''-'' @ pkg @ ''/'' @ rest \<or> rest = []" by blast
  have r: "x = [] \<or> plain x" if "x \<in> set (split_on slash rest)" for x
  proof (cases "rest = []")
    case True
    with that show ?thesis by simp
  next
    case False
    with t have "clean path = (nc_mountRoot cfg @ ''/'' @ h0 @ ''-'' @ pkg) @ slash # rest" by simp
    then have "set (split_on slash rest) \<subseteq> set (split_on slash (clean path))"
      by (simp only: split_on_append set_append Un_upper2)
    then have "x \<in> set (split_on slash (clean path))" using that by blast
    then show ?thesis by (rule parts_clean_plain [OF assms(2)])
  qed
  note pj = path_join_comps [OF assms(1), of "[h @ ''-'' @ pkg]"]
  have spc: "clean_comps sp = clean_comps (nc_mountRoot cfg) @ [h @ ''-'' @ pkg]" "is_abs sp"
    using pj store_name_plain [OF sh(1,2)] sh(3) by simp_all
  obtain qs where qs: "list_all plain qs" "raw_parts (path_join [sp, rest]) = clean_comps sp @ qs"
    using path_join_rest [OF spc(2) r] by blast
  have "serve_path cfg ul env [] (path_join [sp, rest]) (\<lambda>_. clean path) sp s = ((ops, None), s')"
    using assms(3-5) by (simp add: GetSource_def)
  from serve_path_whole [OF this] show ?thesis using sh(1,2) qs spc(1) by fastforce
qed

text \<open>C38. A build ID request that reports no error wrote a whole file: for the debug info the regular
  file the kernel finds at the member's path of the build ID's own archive, for the executable the
  one behind the member's \<open>.executable\<close> sibling.\<close>
theorem build_id_whole:
  assumes "handle cfg ul env rq s = ((ops, None), s')"
  shows "case rq of
      Source b path \<Rightarrow> True
    | Debuginfo b \<Rightarrow> \<exists>pre r s1 p data. store_entry cfg env b s = (pre, Inr r, s1) \<and>
        os_Open (ns_fs s') (path_join [er_point r, er_member r]) = Opened p \<and>
        ns_fs s' p = Some (NFile data) \<and> body_of ops = data
    | Executable b \<Rightarrow> \<exists>pre r s1 p data. store_entry cfg env b s = (pre, Inr r, s1) \<and>
        os_Open (ns_fs s') (path_join [er_point r, trim_suffix (er_member r) ''.debug'' @ ''.executable'']) = Opened p \<and>
        ns_fs s' p = Some (NFile data) \<and> body_of ops = data"
proof (cases rq)
  case (Debuginfo b)
  with assms obtain pre r s1 where e: "store_entry cfg env b s = (pre, Inr r, s1)"
    and sp: "serve_path cfg ul env pre (path_join [er_point r, er_member r])
       (\<lambda>fs. executableTarget fs (er_point r) (er_member r)) (er_archive r) s1 = ((ops, None), s')"
    by (auto simp: GetDebuginfo_def split: prod.splits sum.splits)
  from serve_path_whole [OF sp entry_body [OF e]] e Debuginfo show ?thesis by simp
next
  case (Executable b)
  with assms obtain pre r s1 where e: "store_entry cfg env b s = (pre, Inr r, s1)"
    and sp: "serve_path cfg ul env pre (path_join [er_point r, trim_suffix (er_member r) ''.debug'' @ ''.executable''])
       (\<lambda>fs. executableTarget fs (er_point r) (er_member r)) (er_archive r) s1 = ((ops, None), s')"
    by (auto simp: GetExecutable_def split: prod.splits sum.splits)
  from serve_path_whole [OF sp entry_body [OF e]] e Executable show ?thesis by simp
qed simp

section \<open>Concrete runs\<close>

definition demo_cfg :: nix_cfg where
  "demo_cfg = \<lparr>nc_imageDir = ''/img'', nc_mountRoot = ''/nix/store'', nc_entryRoot = ''/entries''\<rparr>"

definition demo_key :: string where "demo_key = ''0a1b2c3d4e5f6g7h8i9j''"
definition demo_nar :: string where "demo_nar = ''nar/'' @ demo_key @ ''.nar.xz''"
definition demo_path :: string where "demo_path = ''/nix/store/00000000000000000000000000000000-x/f''"

definition demo_img :: nfs where
  "demo_img = (\<lambda>q. if q = [''f''] then Some (NFile ''int f;'') else if q = [] then Some NDir else None)"

definition demo_entry :: nfs where
  "demo_entry = (\<lambda>q. if q = [''lib'', ''debug'', ''.build-id'', ''ab'', ''cd.debug''] then Some (NFile ''ELF'')
     else if take (length q) [''lib'', ''debug'', ''.build-id'', ''ab''] = q then Some NDir else None)"

definition demo_env :: nix_env where
  "demo_env = \<lparr>ne_store = (\<lambda>_. Inr demo_img), ne_meta = (\<lambda>_. Inr (demo_nar, [])),
     ne_archive = (\<lambda>_. Inr demo_entry), ne_mkdir = (\<lambda>_. True), ne_file_mount = (\<lambda>_. Some ENOTBLK),
     ne_loop_mount = (\<lambda>_. True), ne_slot = True, ne_others = (\<lambda>_. None), ne_temp = True, ne_rename = True,
     ne_write_name = True, ne_link_dir = True, ne_symlink = True, ne_link_rename = True,
     ne_tree = (\<lambda>_. \<lparr>eval_symlinks = (\<lambda>_. None), walk_dir = (\<lambda>_. [])\<rparr>), ne_dir_size = 0,
     ne_conn = (\<lambda>_. \<lparr>we_now = 0, we_accept = None\<rparr>)\<rparr>"

definition demo_store :: nstore where
  "demo_store = \<lparr>ns_fs = (\<lambda>q. if take (length q) [''nix'', ''store''] = q then Some NDir else None), ns_image = Map.empty, ns_name = Map.empty,
     ns_link = Map.empty, ns_mounted = Map.empty, ns_idx = Map.empty\<rparr>"

definition demo_point :: string where "demo_point = ''/nix/store/00000000000000000000000000000000-x''"

definition demo_history :: "(nix_env \<times> nix_request) list" where
  "demo_history = [(demo_env, Source ''abcd'' demo_path)]"

lemma demo_ok: "cfg_ok demo_cfg" "ns_mounted demo_store = Map.empty" "mounts_ok demo_cfg demo_store"
  subgoal by code_simp
  by (simp_all add: demo_store_def mounts_ok_def isMounted_def)

lemma Source_state:
  assumes "splitStorePath cfg ul (clean p) = (sp, rest)" and "sp \<noteq> []"
  shows "snd (handle cfg ul env (Source b p) s) = snd (snd (Open cfg ul env (path_join [sp, rest]) s))"
  using assms by (simp add: GetSource_def serve_path_def split: prod.splits sum.splits)

lemma demo_split: "splitStorePath demo_cfg id (clean demo_path) = (demo_point, ''f'')"
  by code_simp

lemma demo_join: "path_join [demo_point, ''f''] = demo_path"
  by code_simp

lemma demo_state: "snd (handle demo_cfg id env (Source b demo_path) s) = snd (snd (Open demo_cfg id env demo_path s))"
  using Source_state [OF demo_split] by (simp add: demo_join) (simp add: demo_point_def)

lemma demo_mounts: "isMounted (nix_run demo_cfg id demo_history demo_store) demo_point"
proof -
  have "isMounted (snd (snd (Open demo_cfg id demo_env demo_path demo_store))) demo_point" by code_simp
  then show ?thesis by (simp add: demo_history_def demo_state del: handle.simps)
qed

lemma demo_open: "fst (snd (Open demo_cfg id demo_env demo_path demo_store)) = 1"
  by code_simp

lemma demo_archive: "fst (archiveFor demo_env ''abcd'' demo_store) = Inr (demo_key, demo_nar)"
  by code_simp

theorem mounts_show_images_witness:
  "\<exists>root name img. point_name demo_cfg demo_point root name \<and>
    ns_image (nix_run demo_cfg id demo_history demo_store) (image_of demo_cfg root name) = Some img \<and>
    (\<forall>rel. ns_fs (nix_run demo_cfg id demo_history demo_store)
        (clean_comps demo_point @ rel) = img rel)"
  by (rule mounts_show_images [OF demo_ok(1,2) demo_mounts])

theorem nix_host_untouched_witness:
  "\<forall>q. below_roots demo_cfg q \<or>
     ns_fs (nix_run demo_cfg id demo_history demo_store) q = ns_fs demo_store q \<or>
     (ns_fs demo_store q = None \<and> ns_fs (nix_run demo_cfg id demo_history demo_store) q = Some NDir)"
  by (rule nix_host_untouched [OF demo_ok(1,2), THEN conjunct1])

theorem Open_counts_witness:
  "card (dom (ns_mounted (snd (snd (Open demo_cfg id demo_env demo_path demo_store)))) - dom (ns_mounted demo_store)) = 1"
  using Open_counts [OF demo_ok(1,3) prod.collapse [symmetric, THEN trans], of id demo_env demo_path] demo_open
  by (metis prod.collapse)

theorem archive_remembered_witness:
  "\<exists>a. archiveFor demo_env ''abcd'' (snd (archiveFor demo_env ''abcd'' demo_store)) =
     (Inr (demo_key, a), snd (archiveFor demo_env ''abcd'' demo_store))"
proof -
  have "archiveFor demo_env ''abcd'' demo_store =
      (Inr (demo_key, demo_nar), snd (archiveFor demo_env ''abcd'' demo_store))"
    using demo_archive by (metis prod.collapse)
  from archive_remembered [OF this] show ?thesis by (simp add: demo_env_def)
qed

lemma demo_source: "fst (GetSource demo_cfg id demo_env ''abcd'' demo_path demo_store) =
    ([SetHeader ''x-debuginfod-size'' ''6'', SetHeader ''x-debuginfod-file'' demo_path,
      SetHeader ''x-debuginfod-archive'' demo_point, WriteBody \<lparr>we_now = 0, we_accept = None\<rparr> ''int f;''], None)"
proof -
  obtain r h S where e: "Open demo_cfg id demo_env demo_path demo_store = (r, h, S)" by (metis prod_cases3)
  then have S: "S = snd (snd (Open demo_cfg id demo_env demo_path demo_store))"
    and r: "r = fst (Open demo_cfg id demo_env demo_path demo_store)" by simp_all
  have o: "r = Inr [''nix'', ''store'', ''00000000000000000000000000000000-x'', ''f'']"
    unfolding r by code_simp
  have f: "ns_fs S [''nix'', ''store'', ''00000000000000000000000000000000-x'', ''f''] = Some (NFile ''int f;'')"
    unfolding S by code_simp
  have k: "os_Open (ns_fs S) demo_path = Opened [''nix'', ''store'', ''00000000000000000000000000000000-x'', ''f'']"
    unfolding S by code_simp
  have c: "clean demo_path = demo_path" by code_simp
  have n: "demo_point \<noteq> []" "demo_path \<noteq> []" "int_str 6 = ''6''" "chunks 32768 ''int f;'' = [''int f;'']"
    by (simp add: demo_point_def, simp add: demo_path_def, code_simp, simp add: chunks.simps)
  have w: "ne_conn demo_env 0 = \<lparr>we_now = 0, we_accept = None\<rparr>" by (simp add: demo_env_def)
  show ?thesis
    using demo_split n
    by (simp add: GetSource_def Let_def serve_path_def demo_join e [unfolded o] copy_node_def f setMeta_def stat_size_def k c w)
qed

theorem GetSource_store_path_witness:
  "\<exists>h pkg qs. isStoreHash h \<and> slash \<notin> set pkg \<and> list_all plain qs \<and>
     raw_parts (path_join [demo_point, ''f'']) = clean_comps (nc_mountRoot demo_cfg) @ (h @ ''-'' @ pkg) # qs"
proof -
  have a: "is_abs (nc_mountRoot demo_cfg)" "is_abs demo_path" "demo_point \<noteq> []"
    by (simp_all add: demo_cfg_def demo_path_def demo_point_def)
  have "GetSource demo_cfg id demo_env ''abcd'' demo_path demo_store =
      ((fst (fst (GetSource demo_cfg id demo_env ''abcd'' demo_path demo_store)), None),
       snd (GetSource demo_cfg id demo_env ''abcd'' demo_path demo_store))"
    using demo_source by (simp add: prod_eq_iff)
  from GetSource_store_path [OF a(1,2) demo_split a(3) this] show ?thesis by blast
qed

definition demo_epoint :: string where "demo_epoint = ''/entries/'' @ demo_key"
definition demo_mname :: string where "demo_mname = ''lib/debug/.build-id/ab/cd.debug''"
definition demo_mpath :: string where "demo_mpath = demo_epoint @ ''/'' @ demo_mname"

definition demo_fs :: nfs where
  "demo_fs = mount_over [''entries'', demo_key] demo_entry (make_dirs [''entries'', demo_key] (ns_fs demo_store))"

definition demo_entry_ref :: entry_ref where
  "demo_entry_ref = \<lparr>er_point = demo_epoint, er_member = demo_mname,
     er_archive = demo_nar\<rparr>"

lemma demo_strings: "path_join [''/entries'', demo_key] = demo_epoint"
  "clean_comps demo_epoint = [''entries'', demo_key]"
  "path_join [er_point demo_entry_ref, er_member demo_entry_ref] = demo_mpath"
  by code_simp+

lemma demo_entry_mount:
  assumes "ns_fs s = ns_fs demo_store" "ns_image s = Map.empty" "ns_mounted s = Map.empty"
  shows "\<exists>s2. mount_entry demo_env ''abcd'' demo_key demo_nar demo_epoint s = (None, s2) \<and>
    ns_fs s2 = demo_fs"
  using assms by (simp add: mount_entry_def buildOnce_def build_archive_def demo_env_def mount_def mountErofs_def
    isMounted_def demo_strings demo_fs_def Let_def)

lemma demo_member: "ns_fs s = demo_fs \<Longrightarrow> memberIn s demo_epoint ''abcd'' = Inr demo_mname"
proof -
  have p: "path_join [''lib'', ''debug'', ''.build-id'', ''ab'', ''cd''] = ''lib/debug/.build-id/ab/cd''" by code_simp
  have l: "os_Lstat demo_fs (path_join [demo_epoint, demo_mname]) = Some (NFile ''ELF'')"
    by code_simp
  assume "ns_fs s = demo_fs"
  moreover have "take 2 ''abcd'' = ''ab''" "drop 2 ''abcd'' = ''cd''" "''lib/debug/.build-id/ab/cd'' @ ''.debug'' = demo_mname"
    by (simp_all add: demo_mname_def)
  ultimately show ?thesis unfolding memberIn_def p by (simp only: Let_def find.simps l option.case node.case if_True sum.case p)
qed

lemma demo_entry_run: "\<exists>pre s2. store_entry demo_cfg demo_env ''abcd'' demo_store = (pre, Inr demo_entry_ref, s2) \<and> ns_fs s2 = demo_fs"
proof -
  obtain S where a: "archiveFor demo_env ''abcd'' demo_store = (Inr (demo_key, demo_nar), S)"
    using demo_archive by (metis prod.collapse)
  have s: "ns_fs S = ns_fs demo_store" "ns_image S = Map.empty" "ns_mounted S = Map.empty"
    using archiveFor_same [OF a] by (simp_all add: demo_store_def)
  obtain s2 where m: "mount_entry demo_env ''abcd'' demo_key demo_nar demo_epoint S = (None, s2)" "ns_fs s2 = demo_fs"
    using demo_entry_mount [OF s] by blast
  have "path_join [nc_entryRoot demo_cfg, demo_key] = demo_epoint" "demo_nar \<noteq> []" "\<not> length ''abcd'' < 3"
    using demo_strings(1) by (simp_all add: demo_cfg_def demo_nar_def)
  with m show ?thesis
    unfolding store_entry_def a demo_entry_ref_def by (simp add: Let_def demo_member entry_archive_def)
qed

lemma demo_debuginfo: "\<exists>ops s'. handle demo_cfg id demo_env (Debuginfo ''abcd'') demo_store = ((ops, None), s')"
proof -
  obtain pre s2 where e: "store_entry demo_cfg demo_env ''abcd'' demo_store = (pre, Inr demo_entry_ref, s2)" and f: "ns_fs s2 = demo_fs"
    using demo_entry_run by blast
  have o: "os_Open demo_fs demo_mpath =
      Opened [''entries'', demo_key, ''lib'', ''debug'', ''.build-id'', ''ab'', ''cd.debug'']" by code_simp
  have n: "demo_fs [''entries'', demo_key, ''lib'', ''debug'', ''.build-id'', ''ab'', ''cd.debug''] = Some (NFile ''ELF'')" by code_simp
  have c: "chunks 32768 ''ELF'' = [''ELF'']" by (simp add: chunks.simps)
  have w: "we_accept (ne_conn demo_env 0) = None" by (simp add: demo_env_def)
  have "\<exists>ops s'. serve_path demo_cfg id demo_env pre (path_join [er_point demo_entry_ref, er_member demo_entry_ref])
      fn ar s2 = ((ops, None), s')" for fn ar
    unfolding serve_path_def demo_strings(3)
    using Open_at_once [of s2, unfolded f, OF o] by (simp add: f n copy_node_def c w)
  then show ?thesis by (simp add: GetDebuginfo_def e)
qed

theorem build_id_whole_witness:
  "\<exists>pre r s1 p data. store_entry demo_cfg demo_env ''abcd'' demo_store = (pre, Inr r, s1) \<and>
     os_Open (ns_fs (snd (handle demo_cfg id demo_env (Debuginfo ''abcd'') demo_store))) (path_join [er_point r, er_member r]) = Opened p \<and>
     ns_fs (snd (handle demo_cfg id demo_env (Debuginfo ''abcd'') demo_store)) p = Some (NFile data) \<and>
     body_of (fst (fst (handle demo_cfg id demo_env (Debuginfo ''abcd'') demo_store))) = data"
proof -
  obtain ops s' where h: "handle demo_cfg id demo_env (Debuginfo ''abcd'') demo_store = ((ops, None), s')"
    using demo_debuginfo by blast
  from build_id_whole [OF h] show ?thesis unfolding h by simp
qed

subsection \<open>What goes wrong\<close>

definition no_mount_env :: nix_env where
  "no_mount_env = demo_env\<lparr>ne_file_mount := (\<lambda>_. Some EOther)\<rparr>"

text \<open>A mount that fails once leaves its empty directory behind; from then on the path of the store
  itself opens without being mounted, although every system call now succeeds.\<close>
lemma failed_mount_shadows:
  "case Open demo_cfg id no_mount_env ''/nix/store/00000000000000000000000000000000-x'' demo_store of (_, _, s) \<Rightarrow>
   (case Open demo_cfg id demo_env ''/nix/store/00000000000000000000000000000000-x'' s of (r, h, s2) \<Rightarrow>
      r = Inr [''nix'', ''store'', ''00000000000000000000000000000000-x''] \<and> h = 0 \<and>
      \<not> isMounted s2 ''/nix/store/00000000000000000000000000000000-x'')"
  by code_simp

text \<open>The name after the hash is the client's: every name mounts the same image once more.\<close>
lemma alias_mounts:
  "let s = snd (snd (Open demo_cfg id demo_env demo_path demo_store));
       s2 = snd (snd (Open demo_cfg id demo_env ''/nix/store/00000000000000000000000000000000-y/f'' s))
   in isMounted s2 demo_point \<and> isMounted s2 ''/nix/store/00000000000000000000000000000000-y''"
  by code_simp

end
