(* ===== verification/NixProbe.thy ===== *)
theory NixProbe
  imports NixSafety
begin

text \<open>
  Two services at once: what the proxy's \<open>Probe\<close> (\<open>cmd/proxy/finder.go\<close>) concludes from the response
  the nix backend's middleware and store give to a debuginfo request, early hints included.
\<close>

section \<open>The response on the wire\<close>

text \<open>A handler that returned without a status gets 200 from \<open>net/http\<close>; an aborted connection has no
  final response unless one was sent before.\<close>

definition exchange_of :: "nix_lrw \<times> accessLogEntry \<times> bool \<Rightarrow> exchange" where
  "exchange_of r = (case r of (w, en, aborted) \<Rightarrow>
     (cn_interim (lw_conn w), case cn_sent (lw_conn w) of
        Some x \<Rightarrow> Inr x
      | None \<Rightarrow> if aborted then Inl ''EOF'' else Inr (200, cn_header (lw_conn w))))"

definition probe_nix :: "nix_cfg \<Rightarrow> (string \<Rightarrow> string) \<Rightarrow> nix_env \<Rightarrow> menv \<Rightarrow> request \<Rightarrow> string \<Rightarrow> nstore \<Rightarrow> proxy_err + stateHeaders" where
  "probe_nix cfg ul env m r b s =
     Probe (exchange_of (nix_Middleware m ''debuginfo'' r (fst (GetDebuginfo cfg ul env b s)) new_conn))"

lemmas nix_ops = nix_op_def nix_WriteHeader_def nix_Write_def lrw_count_def http_Write_def http_WriteHeader_def edit_header_def

lemma nix_op_interim: "\<exists>xs. cn_interim (lw_conn (nix_op op w)) = cn_interim (lw_conn w) @ xs"
  by (cases op) (auto simp: nix_ops Let_def)

lemma fold_interim: "\<exists>xs. cn_interim (lw_conn (fold nix_op ops w)) = cn_interim (lw_conn w) @ xs"
proof (induction ops arbitrary: w)
  case (Cons op ops)
  from Cons [of "nix_op op w"] nix_op_interim [of op w] show ?case by (metis append.assoc fold_simps(2))
qed simp

fun quiet :: "w_op \<Rightarrow> bool" where
  "quiet (SetHeader k v) = (k \<noteq> ''x-status'')" | "quiet _ = True"

definition no_status :: "nix_lrw \<Rightarrow> bool" where
  "no_status w \<longleftrightarrow> cn_header (lw_conn w) ''x-status'' = None \<and>
     (case cn_sent (lw_conn w) of None \<Rightarrow> True | Some (code, h) \<Rightarrow> h ''x-status'' = None)"

lemma quiet_op: "quiet op \<Longrightarrow> no_status w \<Longrightarrow> no_status (nix_op op w)"
  by (cases op) (auto simp: nix_ops no_status_def Let_def split: option.splits)

lemma quiet_run: "list_all quiet ops \<Longrightarrow> no_status w \<Longrightarrow> no_status (fold nix_op ops w)"
  by (induction ops arbitrary: w) (auto simp: quiet_op)

lemma quiet_error: "list_all quiet (error_ops nix_answer e err c)"
  by (auto simp: error_ops_def http_Error_def split: option.split)

lemma quiet_copy: "copy_chunks conn i bs = (ops, err) \<Longrightarrow> list_all quiet ops"
  by (induction bs arbitrary: i ops) (auto split: if_splits prod.splits)

lemma quiet_serve:
  assumes "serve_path cfg ul env pre path fname archive s = ((ops, err), s')"
  shows "\<exists>rest. ops = pre @ rest \<and> list_all quiet rest"
  using assms quiet_copy
  by (auto simp: serve_path_def copy_node_def setMeta_def split: sum.splits prod.splits option.splits node.splits)

lemma failed_run:
  "code = 404 \<or> code = 500 \<Longrightarrow>
   cn_interim (lw_conn (fold nix_op (http_Error e msg code) (new_nix_lrw t new_conn))) = [] \<and>
   (\<exists>h. cn_sent (lw_conn (fold nix_op (http_Error e msg code) (new_nix_lrw t new_conn))) = Some (code, h))"
  by (elim disjE) (simp_all add: http_Error_def nix_ops new_nix_lrw_def new_conn_def Let_def)

section \<open>What the proxy learns\<close>

definition hinted :: "string \<Rightarrow> headers" where
  "hinted archive = (if archive \<noteq> [] then [''x-status'' \<mapsto> ''200'', ''x-debuginfod-archive'' \<mapsto> archive] else [''x-status'' \<mapsto> ''200''])"

lemma hints_run:
  "cn_interim (lw_conn (fold nix_op (sendEarlyHints archive) (new_nix_lrw t new_conn))) = [(103, hinted archive)] \<and>
   no_status (fold nix_op (sendEarlyHints archive) (new_nix_lrw t new_conn))"
  by (auto simp: sendEarlyHints_def nix_ops new_nix_lrw_def new_conn_def hinted_def no_status_def fun_eq_iff)

lemma GetDebuginfo_ops:
  assumes "3 \<le> length b" and "archiveFor env b s = (Inr (key, archive), s1)"
  shows "\<exists>rest err s'. GetDebuginfo cfg ul env b s = ((sendEarlyHints archive @ rest, err), s') \<and> list_all quiet rest"
proof -
  obtain pre q s2 where e: "store_entry cfg env b s = (pre, q, s2)" by (metis prod_cases3)
  then have pre: "pre = sendEarlyHints archive"
    using assms by (auto simp: store_entry_def Let_def split: option.splits sum.splits prod.splits if_splits)
  show ?thesis
  proof (cases q)
    case (Inl x)
    with e pre show ?thesis by (simp add: GetDebuginfo_def)
  next
    case (Inr er)
    obtain ops err s' where g: "GetDebuginfo cfg ul env b s = ((ops, err), s')" by (metis prod.collapse)
    with e Inr have "serve_path cfg ul env pre (path_join [er_point er, er_member er])
       (\<lambda>fs. executableTarget fs (er_point er) (er_member er)) (er_archive er) s2 = ((ops, err), s')"
      by (simp add: GetDebuginfo_def)
    from quiet_serve [OF this] g pre show ?thesis by auto
  qed
qed

lemma GetDebuginfo_fails:
  assumes "3 \<le> length b" and "archiveFor env b s = (Inl e, s1)"
  shows "GetDebuginfo cfg ul env b s = (([], Some e), s1)"
  using assms by (simp add: GetDebuginfo_def store_entry_def)

text \<open>C15. The early hint and the proxy agree: probing the nix backend for a build ID succeeds exactly
  when the backend knows the archive that holds it, with that archive in the recorded headers,
  before anything is downloaded or built and whatever happens then; otherwise the proxy gets the
  error of the backend's final status, not found for not found.\<close>
theorem nix_probe_answers:
  assumes "3 \<le> length b"
  shows "probe_nix cfg ul env m r b s = (case archiveFor env b s of
     (Inr (key, archive), s1) \<Rightarrow> Inr (state_headers (hinted archive))
   | (Inl e, s1) \<Rightarrow> Inl (status_err (fst (nix_answer e))))"
proof (cases "fst (archiveFor env b s)")
  case (Inl e)
  then obtain s1 where a: "archiveFor env b s = (Inl e, s1)" by (metis prod.collapse)
  have c: "fst (nix_answer e) = 404 \<or> fst (nix_answer e) = 500" by (simp add: nix_answer_def)
  obtain h where h: "cn_interim (lw_conn (fold nix_op (http_Error (me_write m) (snd (nix_answer e)) (fst (nix_answer e))) (new_nix_lrw (me_start m) new_conn))) = []"
    "cn_sent (lw_conn (fold nix_op (http_Error (me_write m) (snd (nix_answer e)) (fst (nix_answer e))) (new_nix_lrw (me_start m) new_conn))) = Some (fst (nix_answer e), h)"
    using failed_run [OF c, of "me_write m" "snd (nix_answer e)" "me_start m"] by blast
  have "fst (nix_answer e) \<noteq> 200" using c by auto
  moreover have "exchange_of (nix_Middleware m ''debuginfo'' r (fst (GetDebuginfo cfg ul env b s)) new_conn) =
      ([], Inr (fst (nix_answer e), h))"
    unfolding GetDebuginfo_fails [OF assms a] fst_conv nix_Middleware_def exchange_of_def Let_def prod.case
    by (simp add: error_ops_def new_nix_lrw_def [of "me_start m" new_conn, THEN arg_cong, of lw_wrote] h)
  ultimately show ?thesis using a by (simp add: probe_nix_def Probe_def)
next
  case (Inr ka)
  then obtain key archive s1 where a: "archiveFor env b s = (Inr (key, archive), s1)" by (metis prod.collapse)
  obtain rest err s' where g: "GetDebuginfo cfg ul env b s = ((sendEarlyHints archive @ rest, err), s')"
    using GetDebuginfo_ops [OF assms a] by blast
  let ?w0 = "fold nix_op (sendEarlyHints archive) (new_nix_lrw (me_start m) new_conn)"
  define w1 where "w1 = fold nix_op rest ?w0"
  define w2 where "w2 = fold nix_op (error_ops nix_answer (me_write m) err (lw_wrote w1)) w1"
  obtain xs where "cn_interim (lw_conn w2) = cn_interim (lw_conn ?w0) @ xs"
    unfolding w2_def w1_def using fold_interim [of _ "fold nix_op rest ?w0"] fold_interim [of rest ?w0] by (metis append.assoc)
  then have i: "cn_interim (lw_conn w2) = (103, hinted archive) # xs" using hints_run by simp
  have h: "probe_hint (103, hinted archive)" by (simp add: probe_hint_def hinted_def http_get_def)
  have "fst (exchange_of (nix_Middleware m ''debuginfo'' r (fst (GetDebuginfo cfg ul env b s)) new_conn)) = cn_interim (lw_conn w2)"
    by (simp add: g nix_Middleware_def exchange_of_def Let_def w1_def w2_def)
  with i h a show ?thesis by (simp add: probe_nix_def Probe_def)
qed

theorem nix_probe_answers_witness:
  "probe_nix demo_cfg id demo_env ex_menv ex_request ''abcd'' demo_store = Inr (state_headers (hinted demo_nar))"
proof -
  obtain s1 where "archiveFor demo_env ''abcd'' demo_store = (Inr (demo_key, demo_nar), s1)"
    using demo_archive by (metis prod.collapse)
  then show ?thesis using nix_probe_answers [of "''abcd''" demo_cfg id demo_env ex_menv ex_request demo_store] by simp
qed

lemma final_quiet:
  assumes "3 \<le> length b"
    and "nix_Middleware m ''debuginfo'' r (fst (GetDebuginfo cfg ul env b s)) new_conn = (w, en, ab)"
  shows "no_status w"
proof -
  have "no_status (fold nix_op (fst (fst (GetDebuginfo cfg ul env b s))) (new_nix_lrw (me_start m) new_conn))"
  proof (cases "fst (archiveFor env b s)")
    case (Inl e)
    then have "archiveFor env b s = (Inl e, snd (archiveFor env b s))" by (metis prod.collapse)
    from GetDebuginfo_fails [OF assms(1) this] show ?thesis
      by (simp add: no_status_def new_nix_lrw_def new_conn_def)
  next
    case (Inr ka)
    then have "archiveFor env b s = (Inr (fst ka, snd ka), snd (archiveFor env b s))" by (metis prod.collapse)
    from GetDebuginfo_ops [OF assms(1) this] obtain rest err s' where
      "GetDebuginfo cfg ul env b s = ((sendEarlyHints (snd ka) @ rest, err), s')" "list_all quiet rest" by blast
    then show ?thesis using hints_run quiet_run by simp
  qed
  then show ?thesis
    using assms(2) quiet_run [OF quiet_error] by (auto simp: nix_Middleware_def Let_def split: prod.splits)
qed

text \<open>The hint may turn out wrong: the archive is known, its image cannot be built, and the final
  status is 500; the probe has succeeded.\<close>
lemma hint_without_answer:
  "archiveFor (demo_env\<lparr>ne_temp := False\<rparr>) ''abcd'' demo_store = (Inr (demo_key, demo_nar), s1) \<Longrightarrow>
   GetDebuginfo demo_cfg ul (demo_env\<lparr>ne_temp := False\<rparr>) ''abcd'' demo_store =
     ((sendEarlyHints demo_nar, Some (NErrorf ''temporary file'')), s1)"
  using archiveFor_same [of "demo_env\<lparr>ne_temp := False\<rparr>" "''abcd''" demo_store _ s1]
  by (auto simp: GetDebuginfo_def store_entry_def mount_entry_def buildOnce_def Let_def demo_env_def demo_store_def)

end
