(* ===== verification/Stats.thy ===== *)
theory Stats
  imports GoFacts "HOL-Library.AList" "HOL-Library.Product_Lexorder"
begin

text \<open>
  \<open>cmd/proxy/stats.go\<close>: the statistics snapshot, collected once over the longest window from the
  rows the database answers, and the shorter views cut out of it. A Go map is an association list,
  whose order stands for the order an iteration happens to take; days are numbers, a date string
  being a name for one; floating-point arithmetic is a parameter.
\<close>

section \<open>Data\<close>

definition statsEndpoints :: "string list" where
  "statsEndpoints = [''debuginfo'', ''executable'', ''source'']"

definition unresolvedLabel :: string where "unresolvedLabel = ''unresolved''"

record statusCounts =
  st_served :: u64
  st_aborted :: u64
  st_notfound :: u64
  st_err5xx :: u64

definition st_total :: "statusCounts \<Rightarrow> u64" where
  "st_total c = st_served c + st_aborted c + st_notfound c + st_err5xx c"

definition no_counts :: statusCounts where
  "no_counts = \<lparr>st_served = 0, st_aborted = 0, st_notfound = 0, st_err5xx = 0\<rparr>"

record probeDay =
  pd_ok :: u64
  pd_fail :: u64
  pd_p50 :: u32
  pd_p95 :: u32
  pd_fail_p50 :: u32
  pd_fail_p95 :: u32

definition no_probes :: probeDay where
  "no_probes = \<lparr>pd_ok = 0, pd_fail = 0, pd_p50 = 0, pd_p95 = 0, pd_fail_p50 = 0, pd_fail_p95 = 0\<rparr>"

record 'f thruDay =
  td_n :: u64
  td_p50 :: 'f
  td_p90 :: 'f

text \<open>IEEE operations the collectors use.\<close>

record 'f floats =
  f_zero :: 'f
  f_one :: 'f
  f_add :: "'f \<Rightarrow> 'f \<Rightarrow> 'f"
  f_div :: "'f \<Rightarrow> 'f \<Rightarrow> 'f"
  f_less :: "'f \<Rightarrow> 'f \<Rightarrow> bool"
  f_nat :: "nat \<Rightarrow> 'f"
  f_u64 :: "u64 \<Rightarrow> 'f"

record cacheUsage =
  cu_timestamp :: time
  cu_entries :: u64
  cu_bytes :: u64
  cu_apparent :: u64
  cu_tmp :: u64
  cu_fs_total :: u64
  cu_fs_free :: u64

type_synonym 'a gomap = "(string \<times> 'a) list"
type_synonym quad = "u64 \<times> u64 \<times> u64 \<times> u64"

record 'f statsSnapshot =
  sn_days :: "int list"
  sn_smooth :: nat
  sn_views :: "int list"
  sn_traffic :: "statusCounts list gomap gomap"
  sn_hosts :: "string list"
  sn_clients :: "u64 list"
  sn_buildids :: "u64 list"
  sn_requests :: "u64 list"
  sn_bytes :: "quad gomap"
  sn_bytes_total :: quad
  sn_probes :: "probeDay list gomap"
  sn_probe_hosts :: "string list"
  sn_probe_total :: u64
  sn_probe_ok :: u64
  sn_recent :: "u64 gomap"
  sn_recent_total :: u64
  sn_thru :: "'f thruDay list gomap"
  sn_thru_hosts :: "string list"
  sn_thru_max :: 'f
  sn_country :: "u64 list gomap"
  sn_country_clients :: "u64 list gomap"
  sn_countries :: "string list"
  sn_has_cache :: bool
  sn_cache_bytes :: "'f list"
  sn_cache_tmp :: "'f list"
  sn_cache_entries :: "'f list"
  sn_fs_free :: "'f list"
  sn_cache_last :: "cacheUsage option"
  sn_cache_max :: u64

section \<open>Helpers\<close>

definition the_default :: "'a \<Rightarrow> 'a option \<Rightarrow> 'a" where
  "the_default d x = (case x of None \<Rightarrow> d | Some y \<Rightarrow> y)"

text \<open>The time axis: \<open>days + 1\<close> days ending today, and a day's position on it.\<close>

definition axis :: "int \<Rightarrow> nat \<Rightarrow> int list" where
  "axis today days = map (\<lambda>i. today - int i) (rev [0..<Suc days])"

definition idx_of :: "int list \<Rightarrow> int \<Rightarrow> nat option" where
  "idx_of ds d = (if d \<in> set ds then Some (length (takeWhile (\<lambda>x. x \<noteq> d) ds)) else None)"

definition smoothWindowFor :: "nat \<Rightarrow> nat" where
  "smoothWindowFor days = (if days \<le> 14 then 1 else if days \<le> 60 then 3 else 7)"

definition sumU :: "u64 list \<Rightarrow> u64" where
  "sumU v = fold (\<lambda>x s. s + x) v 0"

definition sortHostsByVolume :: "string list \<Rightarrow> (string \<Rightarrow> u64) \<Rightarrow> string list" where
  "sortHostsByVolume hosts weight = sort_key (\<lambda>h. (h \<noteq> unresolvedLabel, - uint (weight h), h)) hosts"

definition sortCountries :: "u64 list gomap \<Rightarrow> string list \<Rightarrow> string list" where
  "sortCountries country cs = sort_key (\<lambda>c. (- uint (sumU (the_default [] (map_of country c))), c)) cs"

definition smoothPairs :: "'f floats \<Rightarrow> nat \<Rightarrow> ('f \<times> 'f) list \<Rightarrow> ('f \<times> 'f) list" where
  "smoothPairs F win0 vals =
     (let win = max 1 win0 in
      map (\<lambda>i. let lo = i + 1 - win;
                   w = take (i + 1 - lo) (drop lo vals);
                   a = fold (\<lambda>v s. f_add F s (fst v)) w (f_zero F);
                   b = fold (\<lambda>v s. f_add F s (snd v)) w (f_zero F);
                   cnt = f_nat F (i + 1 - lo)
               in (f_div F a cnt, f_div F b cnt)) [0..<length vals])"

definition thruPairs :: "'f thruDay list \<Rightarrow> ('f \<times> 'f) list" where
  "thruPairs series = map (\<lambda>t. (td_p50 t, td_p90 t)) series"

definition traffic_weight :: "statusCounts list gomap gomap \<Rightarrow> string \<Rightarrow> u64" where
  "traffic_weight t h = sum_list (map (\<lambda>(ep, series). sum_list (map st_total series)) (the_default [] (map_of t h)))"

definition probe_weight :: "probeDay list gomap \<Rightarrow> string \<Rightarrow> u64" where
  "probe_weight t h = sum_list (map (\<lambda>p. pd_ok p + pd_fail p) (the_default [] (map_of t h)))"

definition thru_weight :: "'f thruDay list gomap \<Rightarrow> string \<Rightarrow> u64" where
  "thru_weight t h = sum_list (map td_n (the_default [] (map_of t h)))"

text \<open>The common Y scale of the throughput panels.\<close>

definition thru_max :: "'f floats \<Rightarrow> nat \<Rightarrow> 'f thruDay list gomap \<Rightarrow> 'f" where
  "thru_max F win t =
     (let m = fold (\<lambda>(h, series) m. fold (\<lambda>v m. if f_less F m (snd v) then snd v else m)
                (smoothPairs F win (thruPairs series)) m) t (f_zero F)
      in if m = f_zero F then f_one F else m)"

section \<open>Collecting\<close>

text \<open>What the database answers for a window of \<open>days\<close>: the rows of each query or an error, of the
  query, of a scan or of the end of the rows; all of them end the collection.\<close>

record 'f stats_db =
  db_traffic :: "nat \<Rightarrow> string + (int \<times> string \<times> string \<times> statusCounts) list"
  db_clients :: "nat \<Rightarrow> string + (int \<times> u64 \<times> u64 \<times> u64) list"
  db_bytes :: "nat \<Rightarrow> string + (string \<times> quad) list"
  db_probes :: "nat \<Rightarrow> string + (int \<times> string \<times> probeDay) list"
  db_thru :: "nat \<Rightarrow> string + (int \<times> string \<times> 'f thruDay) list"
  db_countries :: "nat \<Rightarrow> string + (int \<times> string \<times> u64 \<times> u64) list"
  db_recent :: "string + (string \<times> u64) list"
  db_cache :: "nat \<Rightarrow> string + (int \<times> u64 \<times> u64 \<times> u64 \<times> u64) list"
  db_cache_last :: "string + cacheUsage"

text \<open>One row into the series of a key, made on first use.\<close>

definition put_row :: "int list \<Rightarrow> 'a \<Rightarrow> string \<Rightarrow> int \<Rightarrow> 'a \<Rightarrow> 'a list gomap \<Rightarrow> 'a list gomap" where
  "put_row ds zero key d v m = (case idx_of ds d of
     None \<Rightarrow> m
   | Some i \<Rightarrow> AList.update key ((the_default (replicate (length ds) zero) (map_of m key))[i := v]) m)"

fun traffic_row :: "int list \<Rightarrow> int \<times> string \<times> string \<times> statusCounts \<Rightarrow> statusCounts list gomap gomap
    \<Rightarrow> statusCounts list gomap gomap" where
  "traffic_row ds (d, host, ep, c) m = (case idx_of ds d of
     None \<Rightarrow> m
   | Some i \<Rightarrow>
       (let byEp = the_default [] (map_of m host);
            series = the_default (replicate (length ds) no_counts) (map_of byEp ep)
        in AList.update host (AList.update ep (series[i := c]) byEp) m))"

definition collectTraffic :: "(int \<times> string \<times> string \<times> statusCounts) list \<Rightarrow> 'f statsSnapshot \<Rightarrow> 'f statsSnapshot" where
  "collectTraffic rows s =
     (let t = fold (traffic_row (sn_days s)) rows (sn_traffic s)
      in s\<lparr>sn_traffic := t, sn_hosts := sortHostsByVolume (map fst t) (traffic_weight t)\<rparr>)"

definition put_day :: "int list \<Rightarrow> int \<Rightarrow> 'a \<Rightarrow> 'a list \<Rightarrow> 'a list" where
  "put_day ds d v xs = (case idx_of ds d of None \<Rightarrow> xs | Some i \<Rightarrow> xs[i := v])"

definition collectClients :: "(int \<times> u64 \<times> u64 \<times> u64) list \<Rightarrow> 'f statsSnapshot \<Rightarrow> 'f statsSnapshot" where
  "collectClients rows s =
     (let z = replicate (length (sn_days s)) 0; put = (\<lambda>f. fold (\<lambda>r. put_day (sn_days s) (fst r) (f (snd r))) rows z)
      in s\<lparr>sn_clients := put (\<lambda>(ips, b, q). ips), sn_buildids := put (\<lambda>(ips, b, q). b),
           sn_requests := put (\<lambda>(ips, b, q). q)\<rparr>)"

fun add_quad :: "quad \<Rightarrow> quad \<Rightarrow> quad" where
  "add_quad (a, b, c, d) (a', b', c', d') = (a + a', b + b', c + c', d + d')"

definition collectBytes :: "(string \<times> quad) list \<Rightarrow> 'f statsSnapshot \<Rightarrow> 'f statsSnapshot" where
  "collectBytes rows s =
     s\<lparr>sn_bytes := fold (\<lambda>(h, q). AList.update h q) rows (sn_bytes s),
       sn_bytes_total := fold (\<lambda>(h, q) t. add_quad t q) rows (sn_bytes_total s)\<rparr>"

definition on_axis :: "int list \<Rightarrow> int \<times> 'a \<Rightarrow> bool" where
  "on_axis ds r \<longleftrightarrow> idx_of ds (fst r) \<noteq> None"

definition collectProbes :: "(int \<times> string \<times> probeDay) list \<Rightarrow> 'f statsSnapshot \<Rightarrow> 'f statsSnapshot" where
  "collectProbes rows s =
     (let ds = sn_days s;
          t = fold (\<lambda>(d, h, p). put_row ds no_probes h d p) rows (sn_probes s);
          kept = filter (on_axis ds) rows
      in s\<lparr>sn_probes := t,
           sn_probe_total := fold (\<lambda>(d, h, p) n. n + (pd_ok p + pd_fail p)) kept (sn_probe_total s),
           sn_probe_ok := fold (\<lambda>(d, h, p) n. n + pd_ok p) kept (sn_probe_ok s),
           sn_probe_hosts := sortHostsByVolume (map fst t) (probe_weight t)\<rparr>)"

definition collectThroughput :: "'f floats \<Rightarrow> (int \<times> string \<times> 'f thruDay) list \<Rightarrow> 'f statsSnapshot \<Rightarrow> 'f statsSnapshot" where
  "collectThroughput F rows s =
     (let ds = sn_days s;
          t = fold (\<lambda>(d, h, p). put_row ds \<lparr>td_n = 0, td_p50 = f_zero F, td_p90 = f_zero F\<rparr> h d p) rows (sn_thru s)
      in s\<lparr>sn_thru := t, sn_thru_hosts := sortHostsByVolume (map fst t) (thru_weight t),
           sn_thru_max := thru_max F (sn_smooth s) t\<rparr>)"

definition collectCountries :: "(int \<times> string \<times> u64 \<times> u64) list \<Rightarrow> 'f statsSnapshot \<Rightarrow> 'f statsSnapshot" where
  "collectCountries rows s =
     (let ds = sn_days s;
          c = fold (\<lambda>(d, k, q, u). put_row ds 0 k d q) rows (sn_country s);
          cc = fold (\<lambda>(d, k, q, u). put_row ds 0 k d u) rows (sn_country_clients s)
      in s\<lparr>sn_country := c, sn_country_clients := cc, sn_countries := sortCountries c (map fst c)\<rparr>)"

definition collectProbeRecent :: "(string \<times> u64) list \<Rightarrow> 'f statsSnapshot \<Rightarrow> 'f statsSnapshot" where
  "collectProbeRecent rows s =
     s\<lparr>sn_recent := fold (\<lambda>(h, n). AList.update h n) rows (sn_recent s),
       sn_recent_total := fold (\<lambda>(h, n) t. t + n) rows (sn_recent_total s)\<rparr>"

definition collectCacheUsage :: "'f floats \<Rightarrow> string + cacheUsage \<Rightarrow> (int \<times> u64 \<times> u64 \<times> u64 \<times> u64) list
    \<Rightarrow> 'f statsSnapshot \<Rightarrow> string + 'f statsSnapshot" where
  "collectCacheUsage F now rows s =
     (let ds = sn_days s; z = replicate (length ds) (f_zero F);
          put = (\<lambda>f. fold (\<lambda>r. put_day ds (fst r) (f (snd r))) rows z);
          mib = (\<lambda>x. f_div F (f_u64 F x) (f_u64 F 1048576));
          s1 = s\<lparr>sn_cache_entries := put (\<lambda>(e, b, t, f). f_u64 F e), sn_cache_bytes := put (\<lambda>(e, b, t, f). mib b),
                 sn_cache_tmp := put (\<lambda>(e, b, t, f). mib t), sn_fs_free := put (\<lambda>(e, b, t, f). mib f),
                 sn_has_cache := sn_has_cache s \<or> list_ex (on_axis ds) rows\<rparr>
      in if \<not> sn_has_cache s1 then Inr s1
         else (case now of Inl e \<Rightarrow> Inl e | Inr u \<Rightarrow> Inr (s1\<lparr>sn_cache_last := Some u\<rparr>)))"

definition empty_snapshot :: "'f floats \<Rightarrow> int \<Rightarrow> nat \<Rightarrow> 'f statsSnapshot" where
  "empty_snapshot F today days =
     \<lparr>sn_days = axis today days, sn_smooth = smoothWindowFor days, sn_views = [], sn_traffic = [], sn_hosts = [],
      sn_clients = [], sn_buildids = [], sn_requests = [], sn_bytes = [], sn_bytes_total = (0, 0, 0, 0),
      sn_probes = [], sn_probe_hosts = [], sn_probe_total = 0, sn_probe_ok = 0, sn_recent = [], sn_recent_total = 0,
      sn_thru = [], sn_thru_hosts = [], sn_thru_max = f_zero F, sn_country = [], sn_country_clients = [],
      sn_countries = [], sn_has_cache = False, sn_cache_bytes = [], sn_cache_tmp = [], sn_cache_entries = [],
      sn_fs_free = [], sn_cache_last = None, sn_cache_max = 0\<rparr>"

definition stats_step :: "string \<Rightarrow> string + 'r \<Rightarrow> ('r \<Rightarrow> 's \<Rightarrow> string + 's) \<Rightarrow> string + 's \<Rightarrow> string + 's" where
  "stats_step name q f st = (case st of Inl e \<Rightarrow> Inl e | Inr s \<Rightarrow> (case q of
     Inl e \<Rightarrow> Inl (name @ '': '' @ e)
   | Inr rows \<Rightarrow> (case f rows s of Inl e \<Rightarrow> Inl (name @ '': '' @ e) | Inr s2 \<Rightarrow> Inr s2)))"

definition CollectStats :: "'f floats \<Rightarrow> 'f stats_db \<Rightarrow> int \<Rightarrow> nat \<Rightarrow> string + 'f statsSnapshot" where
  "CollectStats F db today days =
     stats_step ''cache usage'' (db_cache db days) (collectCacheUsage F (db_cache_last db))
     (stats_step ''recent probes'' (db_recent db) (\<lambda>r s. Inr (collectProbeRecent r s))
     (stats_step ''countries'' (db_countries db days) (\<lambda>r s. Inr (collectCountries r s))
     (stats_step ''throughput'' (db_thru db days) (\<lambda>r s. Inr (collectThroughput F r s))
     (stats_step ''probes'' (db_probes db days) (\<lambda>r s. Inr (collectProbes r s))
     (stats_step ''bytes'' (db_bytes db days) (\<lambda>r s. Inr (collectBytes r s))
     (stats_step ''clients'' (db_clients db days) (\<lambda>r s. Inr (collectClients r s))
     (stats_step ''traffic'' (db_traffic db days) (\<lambda>r s. Inr (collectTraffic r s))
       (Inr (empty_snapshot F today days)))))))))"

section \<open>Shorter views\<close>

definition cutU :: "nat \<Rightarrow> nat \<Rightarrow> 'a list \<Rightarrow> 'a list" where
  "cutU from n v = (if length v < n then v else drop from v)"

definition sliceSnapshot :: "'f floats \<Rightarrow> 'f statsSnapshot \<Rightarrow> nat \<Rightarrow> 'f statsSnapshot" where
  "sliceSnapshot F src days =
     (let n = length (sn_days src); keep = days + 1 in
      if keep \<ge> n then src\<lparr>sn_smooth := smoothWindowFor days\<rparr>
      else
        (let from = n - keep; cut = (\<lambda>v. cutU from n v);
             t = map (\<lambda>(h, byEp). (h, map (\<lambda>(ep, s). (ep, cutU from n s)) byEp)) (sn_traffic src);
             p = map (\<lambda>(h, s). (h, cutU from n s)) (sn_probes src);
             th = map (\<lambda>(h, s). (h, cutU from n s)) (sn_thru src);
             c = map (\<lambda>(k, s). (k, cut s)) (sn_country src);
             cc = map (\<lambda>(k, s). (k, cut (the_default [] (map_of (sn_country_clients src) k)))) (sn_country src)
         in src\<lparr>sn_days := drop from (sn_days src), sn_smooth := smoothWindowFor days,
                sn_traffic := t, sn_hosts := sortHostsByVolume (sn_hosts src) (traffic_weight t),
                sn_clients := cut (sn_clients src), sn_buildids := cut (sn_buildids src), sn_requests := cut (sn_requests src),
                sn_probes := p, sn_probe_total := sum_list (map (\<lambda>(h, s). sum_list (map (\<lambda>x. pd_ok x + pd_fail x) s)) p),
                sn_probe_ok := sum_list (map (\<lambda>(h, s). sum_list (map pd_ok s)) p),
                sn_probe_hosts := sortHostsByVolume (sn_probe_hosts src) (probe_weight p),
                sn_thru := th, sn_thru_max := thru_max F (smoothWindowFor days) th,
                sn_thru_hosts := sortHostsByVolume (sn_thru_hosts src) (thru_weight th),
                sn_country := c, sn_country_clients := cc, sn_countries := sortCountries c (sn_countries src),
                sn_cache_bytes := cutU from n (sn_cache_bytes src), sn_cache_tmp := cutU from n (sn_cache_tmp src),
                sn_cache_entries := cutU from n (sn_cache_entries src), sn_fs_free := cutU from n (sn_fs_free src)\<rparr>))"

text \<open>Hosts that stopped being probed.\<close>

definition isOffline :: "'f statsSnapshot \<Rightarrow> string \<Rightarrow> bool" where
  "isOffline s host =
     (if sn_recent_total s = 0 \<or> host = [] \<or> host = unresolvedLabel then False
      else if map_of (sn_probes s) host = None then False
      else the_default 0 (map_of (sn_recent s) host) = 0)"

definition offlineCount :: "'f statsSnapshot \<Rightarrow> nat" where
  "offlineCount s = length (filter (isOffline s) (sn_probe_hosts s))"

end
