(* ===== verification/StatsViews.thy ===== *)
theory StatsViews
  imports Stats "HOL-Library.Multiset"
begin

text \<open>
  What a snapshot says and what a shorter view keeps of it: every series is, day by day, the row
  the database had for that day or zero, and cutting a view out of a long snapshot gives the
  numbers a collection over the shorter window would have given.
\<close>

section \<open>The time axis\<close>

lemma axis_props: "distinct (axis today days)" "length (axis today days) = Suc days"
  "d \<in> set (axis today days) \<longleftrightarrow> today - int days \<le> d \<and> d \<le> today"
proof -
  show "distinct (axis today days)" by (auto simp: axis_def distinct_map inj_on_def)
  show "length (axis today days) = Suc days" by (simp add: axis_def)
  show "d \<in> set (axis today days) \<longleftrightarrow> today - int days \<le> d \<and> d \<le> today"
  proof
    assume "today - int days \<le> d \<and> d \<le> today"
    then have "d = today - int (nat (today - d))" and "nat (today - d) \<in> set (rev [0..<Suc days])" by auto
    then show "d \<in> set (axis today days)" unfolding axis_def set_map by (rule image_eqI)
  qed (auto simp: axis_def)
qed

lemma axis_drop:
  assumes "v \<le> n"
  shows "drop (n - v) (axis today n) = axis today v"
proof -
  have "[0..<Suc n] = [0..<Suc v] @ [Suc v..<Suc n]"
    using upt_add_eq_append [of 0 "Suc v" "n - v"] assms by (simp del: upt_Suc)
  then have "axis today n = map (\<lambda>i. today - int i) (rev [Suc v..<Suc n]) @ axis today v"
    by (simp add: axis_def del: upt_Suc)
  then show ?thesis by (simp del: upt_Suc)
qed

lemma the_default_simps [simp]: "the_default d None = d" "the_default d (Some x) = x"
  by (simp_all add: the_default_def)

lemma takeWhile_index: "d \<in> set ds \<Longrightarrow> length (takeWhile (\<lambda>x. x \<noteq> d) ds) < length ds \<and> ds ! length (takeWhile (\<lambda>x. x \<noteq> d) ds) = d"
  by (induction ds) auto

lemma idx_of_Some: "idx_of ds d = Some i \<Longrightarrow> i < length ds \<and> ds ! i = d"
  using takeWhile_index [of d ds] by (auto simp: idx_of_def split: if_splits)

lemma idx_of_None: "idx_of ds d = None \<longleftrightarrow> d \<notin> set ds"
  by (simp add: idx_of_def)

section \<open>Series\<close>

text \<open>The value a list of keyed rows has for a key and a day.\<close>

definition cell :: "'a \<Rightarrow> (int \<times> 'k \<times> 'a) list \<Rightarrow> 'k \<Rightarrow> int \<Rightarrow> 'a" where
  "cell zero rows k d = fold (\<lambda>(d', k', v) acc. if d' = d \<and> k' = k then v else acc) rows zero"

definition row_series :: "int list \<Rightarrow> 'a \<Rightarrow> (int \<times> 'k \<times> 'a) list \<Rightarrow> 'k \<Rightarrow> 'a list" where
  "row_series ds zero rows k = map (cell zero rows k) ds"

definition has_row :: "int list \<Rightarrow> (int \<times> 'k \<times> 'a) list \<Rightarrow> 'k \<Rightarrow> bool" where
  "has_row ds rows k \<longleftrightarrow> (\<exists>d v. (d, k, v) \<in> set rows \<and> d \<in> set ds)"

lemma cell_snoc: "cell zero (rows @ [(d', k', v)]) k d = (if d' = d \<and> k' = k then v else cell zero rows k d)"
  by (simp add: cell_def)

lemma cell_Nil [simp]: "cell zero [] k d = zero"
  by (simp add: cell_def)

lemma cell_none: "\<forall>v. (d, k, v) \<notin> set rows \<Longrightarrow> cell zero rows k d = zero"
proof (induction rows rule: rev_induct)
  case (snoc r rows)
  then show ?case by (cases r) (auto simp: cell_snoc)
qed simp

lemma row_series_none: "\<not> has_row ds rows k \<Longrightarrow> row_series ds zero rows k = replicate (length ds) zero"
  unfolding row_series_def has_row_def map_replicate_const [symmetric]
  by (intro map_cong refl cell_none) blast

lemma row_series_snoc:
  assumes "distinct ds"
  shows "row_series ds zero (rows @ [(d, k', v)]) k =
    (case idx_of ds d of Some i \<Rightarrow> if k' = k then (row_series ds zero rows k)[i := v] else row_series ds zero rows k
     | None \<Rightarrow> row_series ds zero rows k)"
proof (cases "idx_of ds d")
  case None
  then have "d \<notin> set ds" by (simp add: idx_of_None)
  with None show ?thesis by (auto simp: row_series_def cell_snoc)
next
  case (Some i)
  then have i: "i < length ds" "ds ! i = d" by (auto dest: idx_of_Some)
  have "j < length ds \<Longrightarrow> ds ! j = d \<longleftrightarrow> j = i" for j using i assms nth_eq_iff_index_eq by blast
  with Some i show ?thesis by (auto simp: row_series_def cell_snoc list_eq_iff_nth_eq nth_list_update)
qed

text \<open>The collectors' folds.\<close>

abbreviation put_rows :: "int list \<Rightarrow> 'a \<Rightarrow> (int \<times> string \<times> 'a) list \<Rightarrow> 'a list gomap" where
  "put_rows ds zero rows \<equiv> fold (\<lambda>(d, h, p). put_row ds zero h d p) rows []"

lemma put_rows_map_of:
  assumes "distinct ds"
  shows "map_of (put_rows ds zero rows) k = (if has_row ds rows k then Some (row_series ds zero rows k) else None)"
proof (induction rows arbitrary: k rule: rev_induct)
  case Nil
  then show ?case by (simp add: has_row_def)
next
  case (snoc r rows)
  obtain d h p where r: "r = (d, h, p)" by (cases r)
  show ?case
  proof (cases "idx_of ds d")
    case None
    then have "has_row ds (rows @ [r]) k = has_row ds rows k" by (auto simp: has_row_def r idx_of_None)
    with None snoc show ?thesis by (simp add: r put_row_def row_series_snoc [OF assms])
  next
    case (Some i)
    then have d: "d \<in> set ds" by (auto dest: idx_of_Some)
    have e: "the_default (replicate (length ds) zero) (map_of (put_rows ds zero rows) h) = row_series ds zero rows h"
      using snoc [of h] row_series_none [of ds rows h zero] by (auto simp: the_default_def)
    have st: "put_rows ds zero (rows @ [r]) = AList.update h ((row_series ds zero rows h)[i := p]) (put_rows ds zero rows)"
      using Some e by (simp add: r put_row_def)
    have "has_row ds (rows @ [r]) k \<longleftrightarrow> has_row ds rows k \<or> h = k" using d by (auto simp: has_row_def r)
    with Some snoc show ?thesis
      unfolding st by (auto simp: r row_series_snoc [OF assms] AList.update_conv')
  qed
qed

lemma put_rows_distinct: "distinct (map fst (put_rows ds zero rows))"
  by (induction rows rule: rev_induct) (auto simp: put_row_def AList.distinct_update split: option.split)

lemma key_iff: "k \<in> set (map fst m) \<longleftrightarrow> map_of m k \<noteq> None"
  by (simp add: map_of_eq_None_iff)

lemma put_rows_keys: "distinct ds \<Longrightarrow> set (map fst (put_rows ds zero rows)) = {k. has_row ds rows k}"
  by (rule set_eqI) (simp only: key_iff put_rows_map_of mem_Collect_eq, simp)

lemma put_day_rows:
  assumes "distinct ds"
  shows "fold (\<lambda>r. put_day ds (fst r) (f (snd r))) rows (replicate (length ds) zero) =
    row_series ds zero (map (\<lambda>r. (fst r, (), f (snd r))) rows) ()"
proof (induction rows rule: rev_induct)
  case Nil
  then show ?case by (simp add: row_series_none has_row_def)
next
  case (snoc r rows)
  then show ?case by (auto simp: put_day_def row_series_snoc [OF assms] split: option.split)
qed

section \<open>Cutting\<close>

text \<open>A window of the rows: what the database answers for fewer days.\<close>

definition recent :: "int \<Rightarrow> nat \<Rightarrow> (int \<times> 'r) list \<Rightarrow> (int \<times> 'r) list" where
  "recent today days rows = filter (\<lambda>r. today - int days \<le> fst r) rows"

lemma cell_recent: "today - int v \<le> d \<Longrightarrow> cell zero (recent today v rows) k d = cell zero rows k d"
  by (induction rows rule: rev_induct) (auto simp: recent_def cell_def)

lemma row_series_recent:
  "row_series (axis today v) zero (recent today v rows) k = row_series (axis today v) zero rows k"
  by (auto simp: row_series_def axis_props cell_recent)

lemma has_row_recent: "has_row (axis today v) (recent today v rows) k \<longleftrightarrow> has_row (axis today v) rows k"
  by (auto simp: has_row_def recent_def axis_props)

lemma cut_series:
  assumes "v \<le> n"
  shows "cutU (Suc n - Suc v) (Suc n) (row_series (axis today n) zero rows k) = row_series (axis today v) zero rows k"
  using assms by (simp add: cutU_def row_series_def axis_props drop_map [symmetric] axis_drop del: drop_map)
    (simp add: drop_map axis_drop)

lemma has_row_longer: "v \<le> n \<Longrightarrow> has_row (axis today v) rows k \<Longrightarrow> has_row (axis today n) rows k"
  unfolding has_row_def axis_props by (metis order.trans diff_left_mono of_nat_mono)

lemma cut_lookup:
  assumes "v \<le> n"
  shows "the_default (replicate (Suc v) zero)
      (map_of (map (\<lambda>(h, s). (h, cutU (n - v) (Suc n) s)) (put_rows (axis today n) zero rows)) k) =
    row_series (axis today v) zero rows k"
proof (cases "has_row (axis today n) rows k")
  case True
  then show ?thesis using cut_series [OF assms, of today zero rows k]
    by (simp add: map_of_map put_rows_map_of axis_props)
next
  case False
  then have "\<not> has_row (axis today v) rows k" using has_row_longer [OF assms, of today rows k] by blast
  with False show ?thesis by (simp add: map_of_map put_rows_map_of axis_props row_series_none)
qed

lemma short_lookup:
  "the_default (replicate (Suc v) zero) (map_of (put_rows (axis today v) zero (recent today v rows)) k) =
    row_series (axis today v) zero rows k"
  using row_series_none [of "axis today v" rows k zero]
  by (auto simp: put_rows_map_of axis_props has_row_recent row_series_recent)

section \<open>Sums\<close>

lemma sum_cells:
  fixes f :: "'a \<Rightarrow> 'b::comm_monoid_add"
  assumes "finite K" "finite D" "f zero = 0" "distinct (map (\<lambda>(d, k, v). (d, k)) rows)"
    and "\<And>d k v. (d, k, v) \<in> set rows \<Longrightarrow> d \<in> D \<Longrightarrow> k \<in> K"
  shows "(\<Sum>k\<in>K. \<Sum>d\<in>D. f (cell zero rows k d)) = sum_list (map (\<lambda>(d, k, v). f v) (filter (\<lambda>r. fst r \<in> D) rows))"
  using assms(4,5)
proof (induction rows rule: rev_induct)
  case Nil
  then show ?case using assms(3) by simp
next
  case (snoc r rows)
  obtain d' k' v where r: "r = (d', k', v)" by (cases r)
  have z: "cell zero rows k' d' = zero"
    using snoc.prems(1) by (intro cell_none) (force simp: r)
  have "f (cell zero (rows @ [r]) k d) = f (cell zero rows k d) + (if d = d' then if k = k' then f v else 0 else 0)" for k d
    using z assms(3) by (auto simp: r cell_snoc)
  then have "(\<Sum>k\<in>K. \<Sum>d\<in>D. f (cell zero (rows @ [r]) k d)) =
      (\<Sum>k\<in>K. \<Sum>d\<in>D. f (cell zero rows k d)) + (\<Sum>k\<in>K. \<Sum>d\<in>D. if d = d' then if k = k' then f v else 0 else 0)"
    by (simp add: sum.distrib)
  also have "(\<Sum>k\<in>K. \<Sum>d\<in>D. if d = d' then if k = k' then f v else 0 else 0) = (if d' \<in> D \<and> k' \<in> K then f v else 0)"
    using assms(1,2) by (cases "d' \<in> D") (simp_all add: sum.delta)
  also have "(if d' \<in> D \<and> k' \<in> K then f v else 0) = (if d' \<in> D then f v else 0)"
    using snoc.prems(2) [of d' k' v] by (auto simp: r)
  finally show ?case using snoc.IH snoc.prems by (force simp: r)
qed

lemma sum_entries:
  fixes G :: "'a \<Rightarrow> 'b::comm_monoid_add"
  assumes "distinct (map fst m)"
  shows "sum_list (map (\<lambda>(k, s). G s) m) = (\<Sum>k \<in> set (map fst m). G (the (map_of m k)))"
proof -
  have "map (\<lambda>(k, s). G s) m = map (\<lambda>k. G (the (map_of m k))) (map fst m)"
    using assms by (auto intro!: map_cong simp: comp_def split: prod.splits)
  then show ?thesis using sum_list_distinct_conv_sum_set [OF assms] by metis
qed

lemma sum_series: "distinct ds \<Longrightarrow> sum_list (map f (row_series ds zero rows k)) = (\<Sum>d\<in>set ds. f (cell zero rows k d))"
  by (simp add: row_series_def comp_def sum_list_distinct_conv_sum_set)

lemma fold_plus: "fold (\<lambda>(d, h, p) n. n + g p) rows (a::'b::comm_monoid_add) = a + sum_list (map (\<lambda>(d, h, p). g p) rows)"
  by (induction rows arbitrary: a) (auto simp: add.assoc)

section \<open>Orders\<close>

lemma sort_key_unique:
  assumes "distinct xs" "distinct ys" "set xs = set ys" "inj_on f (set xs)" and "\<And>x. x \<in> set ys \<Longrightarrow> f x = g x"
  shows "sort_key f xs = sort_key g ys"
proof -
  have m: "mset xs = mset (sort_key g ys)" using assms(1-3) set_eq_iff_mset_eq_distinct by force
  have e: "map f (sort_key g ys) = map g (sort_key g ys)" using assms(5) by (intro map_cong) auto
  have "sorted (map f (sort_key g ys))" unfolding e by simp
  from sort_key_inj_key_eq [OF m assms(4) this] show ?thesis .
qed

text \<open>The ranking does not depend on the order in which the keys of a map come.\<close>

lemma hosts_unique:
  "distinct xs \<Longrightarrow> distinct ys \<Longrightarrow> set xs = set ys \<Longrightarrow> (\<And>h. h \<in> set ys \<Longrightarrow> w h = w' h) \<Longrightarrow>
   sortHostsByVolume xs w = sortHostsByVolume ys w'"
  unfolding sortHostsByVolume_def by (rule sort_key_unique) (auto intro: inj_onI)

lemma hosts_restrict:
  assumes "distinct long" "distinct short" "set short \<subseteq> set long" and "\<And>h. h \<in> set short \<Longrightarrow> w h = w' h"
  shows "filter (\<lambda>h. h \<in> set (sortHostsByVolume short w')) (sortHostsByVolume (sortHostsByVolume long u) w) = sortHostsByVolume short w'"
proof -
  have "filter (\<lambda>h. h \<in> set short) (sortHostsByVolume (sortHostsByVolume long u) w) =
      sortHostsByVolume (filter (\<lambda>h. h \<in> set short) (sortHostsByVolume long u)) w"
    by (simp add: sortHostsByVolume_def filter_sort)
  also have "\<dots> = sortHostsByVolume short w'"
    using assms by (intro hosts_unique) (auto simp: sortHostsByVolume_def)
  finally show ?thesis by (simp add: sortHostsByVolume_def)
qed

lemma countries_restrict:
  assumes "distinct long" "distinct short" "set short \<subseteq> set long"
    and "\<And>c. c \<in> set short \<Longrightarrow> sumU (the_default [] (map_of m c)) = sumU (the_default [] (map_of m' c))"
  shows "filter (\<lambda>c. c \<in> set (sortCountries m' short)) (sortCountries m (sortCountries u long)) = sortCountries m' short"
proof -
  have "filter (\<lambda>c. c \<in> set short) (sortCountries m (sortCountries u long)) =
      sortCountries m (filter (\<lambda>c. c \<in> set short) (sortCountries u long))"
    by (simp add: sortCountries_def filter_sort)
  also have "\<dots> = sortCountries m' short"
    unfolding sortCountries_def using assms by (intro sort_key_unique) (auto intro: inj_onI)
  finally show ?thesis by (simp add: sortCountries_def)
qed

section \<open>Traffic, by host and endpoint\<close>

type_synonym traffic_rows = "(int \<times> string \<times> string \<times> statusCounts) list"

definition host_rows :: "string \<Rightarrow> traffic_rows \<Rightarrow> (int \<times> string \<times> statusCounts) list" where
  "host_rows h rows = map (\<lambda>(d, h, e, c). (d, e, c)) (filter (\<lambda>(d, h', e, c). h' = h) rows)"

lemma put_rows_Nil: "(\<And>r. r \<in> set rows \<Longrightarrow> fst r \<notin> set ds) \<Longrightarrow> put_rows ds zero rows = []"
  by (induction rows rule: rev_induct) (force simp: put_row_def idx_of_def)+

lemma traffic_rows:
  "map_of (fold (traffic_row ds) rows []) h =
    (if has_row ds rows h then Some (put_rows ds no_counts (host_rows h rows)) else None)"
proof (induction rows arbitrary: h rule: rev_induct)
  case Nil
  then show ?case by (simp add: has_row_def)
next
  case (snoc r rows)
  obtain d h' e c where r: "r = (d, h', e, c)" by (cases r)
  show ?case
  proof (cases "idx_of ds d")
    case None
    then have d: "d \<notin> set ds" by (simp add: idx_of_None)
    then have "has_row ds (rows @ [r]) h = has_row ds rows h" by (auto simp: has_row_def r)
    moreover have "put_rows ds no_counts (host_rows h (rows @ [r])) = put_rows ds no_counts (host_rows h rows)"
      using None by (simp add: host_rows_def r put_row_def)
    ultimately show ?thesis using None snoc by (simp add: r)
  next
    case (Some i)
    then have d: "d \<in> set ds" by (auto dest: idx_of_Some)
    have e: "the_default [] (map_of (fold (traffic_row ds) rows []) h') = put_rows ds no_counts (host_rows h' rows)"
    proof (cases "has_row ds rows h'")
      case False
      then have "put_rows ds no_counts (host_rows h' rows) = []"
        by (intro put_rows_Nil) (fastforce simp: has_row_def host_rows_def)
      with False snoc show ?thesis by simp
    qed (simp add: snoc)
    have st: "fold (traffic_row ds) (rows @ [r]) [] =
        AList.update h' (put_row ds no_counts e d c (put_rows ds no_counts (host_rows h' rows))) (fold (traffic_row ds) rows [])"
      using Some by (simp add: r e put_row_def Let_def)
    have hr: "host_rows h (rows @ [r]) = host_rows h rows @ (if h' = h then [(d, e, c)] else [])"
      by (simp add: host_rows_def r)
    have "has_row ds (rows @ [r]) h \<longleftrightarrow> has_row ds rows h \<or> h' = h" using d by (auto simp: has_row_def r)
    with snoc show ?thesis unfolding st hr by (auto simp: AList.update_conv')
  qed
qed

lemma traffic_distinct: "distinct (map fst (fold (traffic_row ds) rows []))"
proof (induction rows rule: rev_induct)
  case (snoc r rows)
  then show ?case by (cases r) (auto simp: AList.distinct_update Let_def split: option.split)
qed simp

section \<open>Collections\<close>

text \<open>The rows a successful collection read, and what it made of them.\<close>

definition no_thru :: "'f floats \<Rightarrow> 'f thruDay" where
  "no_thru F = \<lparr>td_n = 0, td_p50 = f_zero F, td_p90 = f_zero F\<rparr>"

definition column :: "('r \<Rightarrow> 'a) \<Rightarrow> (int \<times> 'r) list \<Rightarrow> (int \<times> unit \<times> 'a) list" where
  "column f rows = map (\<lambda>r. (fst r, (), f (snd r))) rows"

lemma collectClients_columns:
  assumes "distinct (sn_days s)"
  shows "collectClients rows s = s\<lparr>sn_clients := row_series (sn_days s) 0 (column (\<lambda>(ips, b, q). ips) rows) (),
    sn_buildids := row_series (sn_days s) 0 (column (\<lambda>(ips, b, q). b) rows) (),
    sn_requests := row_series (sn_days s) 0 (column (\<lambda>(ips, b, q). q) rows) ()\<rparr>"
  unfolding collectClients_def Let_def put_day_rows [OF assms] column_def by simp

lemma CollectStats_rows:
  assumes "CollectStats F db today days = Inr s"
  shows "\<exists>t cl by p th co ca. db_traffic db days = Inr t \<and> db_clients db days = Inr cl \<and> db_bytes db days = Inr by \<and>
    db_probes db days = Inr p \<and> db_thru db days = Inr th \<and> db_countries db days = Inr co \<and> db_cache db days = Inr ca \<and>
    sn_days s = axis today days \<and> sn_smooth s = smoothWindowFor days \<and>
    sn_traffic s = fold (traffic_row (axis today days)) t [] \<and>
    sn_hosts s = sortHostsByVolume (map fst (sn_traffic s)) (traffic_weight (sn_traffic s)) \<and>
    sn_clients s = row_series (axis today days) 0 (column (\<lambda>(ips, b, q). ips) cl) () \<and>
    sn_buildids s = row_series (axis today days) 0 (column (\<lambda>(ips, b, q). b) cl) () \<and>
    sn_requests s = row_series (axis today days) 0 (column (\<lambda>(ips, b, q). q) cl) () \<and>
    sn_probes s = put_rows (axis today days) no_probes p \<and>
    sn_probe_total s = sum_list (map (\<lambda>(d, h, p). pd_ok p + pd_fail p) (filter (on_axis (axis today days)) p)) \<and>
    sn_probe_ok s = sum_list (map (\<lambda>(d, h, p). pd_ok p) (filter (on_axis (axis today days)) p)) \<and>
    sn_probe_hosts s = sortHostsByVolume (map fst (sn_probes s)) (probe_weight (sn_probes s)) \<and>
    sn_thru s = put_rows (axis today days) (no_thru F) th \<and>
    sn_thru_hosts s = sortHostsByVolume (map fst (sn_thru s)) (thru_weight (sn_thru s)) \<and>
    sn_country s = put_rows (axis today days) 0 (map (\<lambda>(d, k, q, u). (d, k, q)) co) \<and>
    sn_country_clients s = put_rows (axis today days) 0 (map (\<lambda>(d, k, q, u). (d, k, u)) co) \<and>
    sn_countries s = sortCountries (sn_country s) (map fst (sn_country s))"
proof -
  have fm: "fold (\<lambda>(d, k, q, u). put_row ds 0 k d q) rows m = fold (\<lambda>(d, h, p). put_row ds 0 h d p) (map (\<lambda>(d, k, q, u). (d, k, q)) rows) m"
    "fold (\<lambda>(d, k, q, u). put_row ds 0 k d u) rows m = fold (\<lambda>(d, h, p). put_row ds 0 h d p) (map (\<lambda>(d, k, q, u). (d, k, u)) rows) m"
    for ds rows and m :: "u64 list gomap"
    by (induction rows arbitrary: m) auto
  from assms obtain t where t: "db_traffic db days = Inr t"
    by (cases "db_traffic db days") (simp_all add: CollectStats_def stats_step_def)
  from assms t obtain cl where cl: "db_clients db days = Inr cl"
    by (cases "db_clients db days") (simp_all add: CollectStats_def stats_step_def)
  from assms t cl obtain byt where byt: "db_bytes db days = Inr byt"
    by (cases "db_bytes db days") (simp_all add: CollectStats_def stats_step_def)
  from assms t cl byt obtain p where p: "db_probes db days = Inr p"
    by (cases "db_probes db days") (simp_all add: CollectStats_def stats_step_def)
  from assms t cl byt p obtain th where th: "db_thru db days = Inr th"
    by (cases "db_thru db days") (simp_all add: CollectStats_def stats_step_def)
  from assms t cl byt p th obtain co where co: "db_countries db days = Inr co"
    by (cases "db_countries db days") (simp_all add: CollectStats_def stats_step_def)
  from assms t cl byt p th co obtain re where re: "db_recent db = Inr re"
    by (cases "db_recent db") (simp_all add: CollectStats_def stats_step_def)
  from assms t cl byt p th co re obtain ca where ca: "db_cache db days = Inr ca"
    by (cases "db_cache db days") (simp_all add: CollectStats_def stats_step_def)
  define s0 where "s0 = collectProbeRecent re (collectCountries co (collectThroughput F th (collectProbes p (collectBytes byt
      (collectClients cl (collectTraffic t (empty_snapshot F today days)))))))"
  have s0: "collectCacheUsage F (db_cache_last db) ca s0 = Inr s"
    using assms t cl byt p th co re ca
    by (simp add: CollectStats_def stats_step_def s0_def split: sum.splits)
  then have view: "sn_days s = sn_days s0" "sn_smooth s = sn_smooth s0" "sn_traffic s = sn_traffic s0" "sn_hosts s = sn_hosts s0"
    "sn_clients s = sn_clients s0" "sn_buildids s = sn_buildids s0" "sn_requests s = sn_requests s0" "sn_probes s = sn_probes s0"
    "sn_probe_total s = sn_probe_total s0" "sn_probe_ok s = sn_probe_ok s0" "sn_probe_hosts s = sn_probe_hosts s0"
    "sn_thru s = sn_thru s0" "sn_thru_hosts s = sn_thru_hosts s0" "sn_country s = sn_country s0"
    "sn_country_clients s = sn_country_clients s0" "sn_countries s = sn_countries s0"
    by (auto simp: collectCacheUsage_def Let_def split: if_splits sum.splits)
  have ds: "sn_days (collectTraffic t (empty_snapshot F today days)) = axis today days"
    by (simp add: collectTraffic_def empty_snapshot_def Let_def)
  have cs: "collectClients cl (collectTraffic t (empty_snapshot F today days)) =
      (collectTraffic t (empty_snapshot F today days))\<lparr>sn_clients := row_series (axis today days) 0 (column (\<lambda>(ips, b, q). ips) cl) (),
        sn_buildids := row_series (axis today days) 0 (column (\<lambda>(ips, b, q). b) cl) (),
        sn_requests := row_series (axis today days) 0 (column (\<lambda>(ips, b, q). q) cl) ()\<rparr>"
    using collectClients_columns [of "collectTraffic t (empty_snapshot F today days)" cl] by (simp add: ds axis_props(1))
  show ?thesis
    unfolding view t cl byt p th co ca s0_def cs
    by (simp add: empty_snapshot_def collectTraffic_def collectBytes_def collectProbes_def collectThroughput_def
        collectCountries_def collectProbeRecent_def Let_def fold_plus fm no_thru_def)
qed

section \<open>Cutting is collecting\<close>

text \<open>What a series map says of a key, zeros when it has no series.\<close>

definition series_at :: "nat \<Rightarrow> 'a \<Rightarrow> 'a list gomap \<Rightarrow> string \<Rightarrow> 'a list" where
  "series_at n zero m k = the_default (replicate n zero) (map_of m k)"

definition ranked_alike :: "string list \<Rightarrow> string list \<Rightarrow> bool" where
  "ranked_alike long short \<longleftrightarrow> filter (\<lambda>h. h \<in> set short) long = short"

text \<open>A view and a snapshot agree when the axis, the daily columns, every series, the probe totals
  and the ranking of the hosts and countries the snapshot has are the same.\<close>

definition view_agrees :: "'f floats \<Rightarrow> 'f statsSnapshot \<Rightarrow> 'f statsSnapshot \<Rightarrow> bool" where
  "view_agrees F w s \<longleftrightarrow>
     (let n = length (sn_days s) in
      sn_days w = sn_days s \<and> sn_smooth w = sn_smooth s \<and>
      sn_clients w = sn_clients s \<and> sn_buildids w = sn_buildids s \<and> sn_requests w = sn_requests s \<and>
      (\<forall>h e. series_at n no_counts (the_default [] (map_of (sn_traffic w) h)) e =
             series_at n no_counts (the_default [] (map_of (sn_traffic s) h)) e) \<and>
      ranked_alike (sn_hosts w) (sn_hosts s) \<and>
      (\<forall>h. series_at n no_probes (sn_probes w) h = series_at n no_probes (sn_probes s) h) \<and>
      sn_probe_total w = sn_probe_total s \<and> sn_probe_ok w = sn_probe_ok s \<and>
      ranked_alike (sn_probe_hosts w) (sn_probe_hosts s) \<and>
      (\<forall>h. series_at n (no_thru F) (sn_thru w) h = series_at n (no_thru F) (sn_thru s) h) \<and>
      ranked_alike (sn_thru_hosts w) (sn_thru_hosts s) \<and>
      (\<forall>k. series_at n 0 (sn_country w) k = series_at n 0 (sn_country s) k \<and>
           series_at n 0 (sn_country_clients w) k = series_at n 0 (sn_country_clients s) k) \<and>
      ranked_alike (sn_countries w) (sn_countries s))"

text \<open>The database: a query over fewer days answers the rows of the longer one that are recent
  enough, and the probe query groups by day and host.\<close>

definition db_windows :: "'f stats_db \<Rightarrow> int \<Rightarrow> bool" where
  "db_windows db today \<longleftrightarrow> (\<forall>n v. v \<le> n \<longrightarrow>
     db_traffic db v = map_sum id (recent today v) (db_traffic db n) \<and>
     db_clients db v = map_sum id (recent today v) (db_clients db n) \<and>
     db_probes db v = map_sum id (recent today v) (db_probes db n) \<and>
     db_thru db v = map_sum id (recent today v) (db_thru db n) \<and>
     db_countries db v = map_sum id (recent today v) (db_countries db n)) \<and>
   (\<forall>n. case db_probes db n of Inr p \<Rightarrow> distinct (map (\<lambda>(d, h, p). (d, h)) p) | Inl e \<Rightarrow> True)"

lemma ranked_alike_refl: "ranked_alike xs xs"
  by (simp add: ranked_alike_def filter_id_conv)

lemma cut_column:
  "v \<le> n \<Longrightarrow> cutU (n - v) (Suc n) (row_series (axis today n) zero (column f rows) k) =
    row_series (axis today v) zero (column f (recent today v rows)) k"
proof -
  assume v: "v \<le> n"
  have "column f (recent today v rows) = recent today v (column f rows)"
    by (simp add: column_def recent_def filter_map comp_def)
  with cut_series [OF v, of today zero "column f rows" k] show ?thesis by (simp add: row_series_recent)
qed

lemma cut_keys: "map fst (map (\<lambda>(h, s). (h, f s)) m) = map fst m"
  by (simp add: comp_def case_prod_beta)

lemma short_keys:
  assumes "v \<le> n"
  shows "set (map fst (put_rows (axis today v) zero (recent today v rows))) \<subseteq> set (map fst (put_rows (axis today n) zero rows))"
  unfolding put_rows_keys [OF axis_props(1)] by (auto simp: has_row_recent dest: has_row_longer [OF assms])

lemma lookup_agree:
  assumes "v \<le> n"
  shows "series_at (Suc v) zero (map (\<lambda>(h, s). (h, cutU (n - v) (Suc n) s)) (put_rows (axis today n) zero rows)) k =
    series_at (Suc v) zero (put_rows (axis today v) zero (recent today v rows)) k"
  unfolding series_at_def cut_lookup [OF assms] short_lookup ..

lemma key_lookup:
  "k \<in> set (map fst m) \<Longrightarrow> the_default d (map_of m k) = series_at n zero m k"
  unfolding series_at_def key_iff by auto

text \<open>One ranked table: its long version is cut, its short one collected.\<close>

lemma ranked_cut:
  assumes v: "v \<le> n"
    and w: "\<And>m h. weight m h = W (the_default [] (map_of m h))"
  shows "ranked_alike
    (sortHostsByVolume (sortHostsByVolume (map fst (put_rows (axis today n) zero rows)) u)
       (weight (map (\<lambda>(h, s). (h, cutU (n - v) (Suc n) s)) (put_rows (axis today n) zero rows))))
    (sortHostsByVolume (map fst (put_rows (axis today v) zero (recent today v rows)))
       (weight (put_rows (axis today v) zero (recent today v rows))))"
  unfolding ranked_alike_def
proof (rule hosts_restrict [OF put_rows_distinct put_rows_distinct short_keys [OF v]])
  fix h
  let ?l = "map (\<lambda>(h, s). (h, cutU (n - v) (Suc n) s)) (put_rows (axis today n) zero rows)"
  let ?s = "put_rows (axis today v) zero (recent today v rows)"
  assume h: "h \<in> set (map fst ?s)"
  then have "h \<in> set (map fst ?l)" unfolding cut_keys by (rule subsetD [OF short_keys [OF v]])
  then show "weight ?l h = weight ?s h"
    unfolding w key_lookup [OF h, of "[]" "Suc v" zero] key_lookup [of h ?l "[]" "Suc v" zero, OF \<open>h \<in> set (map fst ?l)\<close>]
    by (simp only: lookup_agree [OF v])
qed

lemma sum_put_rows:
  fixes f :: "'a \<Rightarrow> 'b::comm_monoid_add"
  assumes "distinct ds"
  shows "sum_list (map (\<lambda>(k, s). sum_list (map f s)) (put_rows ds zero rows)) =
    (\<Sum>k \<in> {k. has_row ds rows k}. \<Sum>d \<in> set ds. f (cell zero rows k d))"
proof -
  have "sum_list (map (\<lambda>(k, s). sum_list (map f s)) (put_rows ds zero rows)) =
      (\<Sum>k \<in> {k. has_row ds rows k}. sum_list (map f (the (map_of (put_rows ds zero rows) k))))"
    unfolding sum_entries [OF put_rows_distinct, of "\<lambda>s. sum_list (map f s)"] put_rows_keys [OF assms] ..
  also have "\<dots> = (\<Sum>k \<in> {k. has_row ds rows k}. \<Sum>d \<in> set ds. f (cell zero rows k d))"
    by (rule sum.cong) (simp_all add: put_rows_map_of [OF assms] sum_series [OF assms])
  finally show ?thesis .
qed

lemma finite_has_row: "finite {k. has_row ds rows k}"
proof -
  have "{k. has_row ds rows k} \<subseteq> (\<lambda>r. fst (snd r)) ` set rows" by (force simp: has_row_def)
  then show ?thesis by (rule finite_subset) simp
qed

text \<open>Totals of a cut map are totals of the collected one: the keys that fell out have only zeros.\<close>

lemma sum_cut:
  fixes f :: "'a \<Rightarrow> 'b::comm_monoid_add"
  assumes v: "v \<le> n" and z: "f zero = 0"
  shows "sum_list (map (\<lambda>(k, s). sum_list (map f s)) (map (\<lambda>(h, s). (h, cutU (n - v) (Suc n) s)) (put_rows (axis today n) zero rows))) =
    sum_list (map (\<lambda>(k, s). sum_list (map f s)) (put_rows (axis today v) zero (recent today v rows)))"
proof -
  let ?l = "put_rows (axis today n) zero rows"
  let ?g = "\<lambda>k. \<Sum>d \<in> set (axis today v). f (cell zero rows k d)"
  have d: "distinct (map fst (map (\<lambda>(h, s). (h, cutU (n - v) (Suc n) s)) ?l))"
    unfolding cut_keys by (rule put_rows_distinct)
  have "sum_list (map (\<lambda>(k, s). sum_list (map f s)) (map (\<lambda>(h, s). (h, cutU (n - v) (Suc n) s)) ?l)) =
      (\<Sum>k \<in> {k. has_row (axis today n) rows k}. sum_list (map f (the (map_of (map (\<lambda>(h, s). (h, cutU (n - v) (Suc n) s)) ?l) k))))"
    unfolding sum_entries [OF d, of "\<lambda>s. sum_list (map f s)"] unfolding cut_keys put_rows_keys [OF axis_props(1)] ..
  also have "\<dots> = sum ?g {k. has_row (axis today n) rows k}"
    using cut_series [OF v, of today zero rows]
    by (intro sum.cong) (simp_all add: map_of_map put_rows_map_of axis_props sum_series)
  also have "\<dots> = sum ?g {k. has_row (axis today v) rows k}"
  proof (rule sum.mono_neutral_right [OF finite_has_row])
    show "{k. has_row (axis today v) rows k} \<subseteq> {k. has_row (axis today n) rows k}" using has_row_longer [OF v, of today rows] by blast
    show "\<forall>k \<in> {k. has_row (axis today n) rows k} - {k. has_row (axis today v) rows k}. ?g k = 0"
    proof
      fix k
      assume "k \<in> {k. has_row (axis today n) rows k} - {k. has_row (axis today v) rows k}"
      then have "cell zero rows k d = zero" if "d \<in> set (axis today v)" for d
        using that by (intro cell_none) (auto simp: has_row_def)
      with z show "?g k = 0" by (intro sum.neutral) simp
    qed
  qed
  also have "\<dots> = sum_list (map (\<lambda>(k, s). sum_list (map f s)) (put_rows (axis today v) zero (recent today v rows)))"
    unfolding sum_put_rows [OF axis_props(1)] has_row_recent
    by (intro sum.cong refl) (simp_all add: cell_recent axis_props)
  finally show ?thesis .
qed

lemma on_axis_eq: "on_axis ds = (\<lambda>r. fst r \<in> set ds)"
  by (auto simp: on_axis_def idx_of_def fun_eq_iff)

lemma probe_totals:
  fixes f :: "'a \<Rightarrow> 'b::comm_monoid_add"
  assumes "f zero = 0" and "distinct (map (\<lambda>(d, h, p). (d, h)) rows)"
  shows "sum_list (map (\<lambda>(d, h, p). f p) (filter (on_axis (axis today v)) (recent today v rows))) =
    sum_list (map (\<lambda>(k, s). sum_list (map f s)) (put_rows (axis today v) zero (recent today v rows)))"
proof -
  let ?r = "recent today v rows"
  have d: "distinct (map (\<lambda>(d, h, p). (d, h)) ?r)"
    using assms(2) unfolding recent_def by (rule distinct_map_filter)
  have "(\<Sum>k\<in>{k. has_row (axis today v) ?r k}. \<Sum>d\<in>set (axis today v). f (cell zero ?r k d)) =
      sum_list (map (\<lambda>(d, h, p). f p) (filter (\<lambda>r. fst r \<in> set (axis today v)) ?r))"
    by (rule sum_cells [OF finite_has_row _ _ d, of "set (axis today v)" f zero, OF _ assms(1)]) (auto simp: has_row_def)
  then show ?thesis unfolding on_axis_eq by (simp only: sum_put_rows [OF axis_props(1)])
qed

lemma traffic_host: "the_default [] (map_of (fold (traffic_row ds) rows []) h) = put_rows ds no_counts (host_rows h rows)"
proof (cases "has_row ds rows h")
  case False
  then have "put_rows ds no_counts (host_rows h rows) = []"
    by (intro put_rows_Nil) (fastforce simp: has_row_def host_rows_def)
  with False show ?thesis by (simp add: traffic_rows)
qed (simp add: traffic_rows)

lemma host_rows_recent: "host_rows h (recent today v rows) = recent today v (host_rows h rows)"
  by (induction rows) (auto simp: host_rows_def recent_def)

lemma traffic_keys: "set (map fst (fold (traffic_row ds) rows [])) = {h. has_row ds rows h}"
  by (rule set_eqI) (simp only: key_iff traffic_rows mem_Collect_eq, simp)

lemma cut_host:
  "the_default [] (map_of (map (\<lambda>(h, byEp). (h, map (\<lambda>(ep, s). (ep, cutU a b s)) byEp)) m) h) =
    map (\<lambda>(ep, s). (ep, cutU a b s)) (the_default [] (map_of m h))"
  by (cases "map_of m h") (simp_all add: map_of_map)

lemma st_total_zero: "st_total no_counts = 0"
  by (simp add: st_total_def no_counts_def)

lemma traffic_ranked:
  assumes v: "v \<le> n"
  shows "ranked_alike
    (sortHostsByVolume (sortHostsByVolume (map fst (fold (traffic_row (axis today n)) t [])) u)
      (traffic_weight (map (\<lambda>(h, byEp). (h, map (\<lambda>(ep, s). (ep, cutU (n - v) (Suc n) s)) byEp)) (fold (traffic_row (axis today n)) t []))))
    (sortHostsByVolume (map fst (fold (traffic_row (axis today v)) (recent today v t) []))
      (traffic_weight (fold (traffic_row (axis today v)) (recent today v t) [])))"
  unfolding ranked_alike_def
proof (rule hosts_restrict [OF traffic_distinct traffic_distinct])
  show "set (map fst (fold (traffic_row (axis today v)) (recent today v t) [])) \<subseteq> set (map fst (fold (traffic_row (axis today n)) t []))"
    unfolding traffic_keys by (auto simp: has_row_recent dest: has_row_longer [OF v])
  show "traffic_weight (map (\<lambda>(h, byEp). (h, map (\<lambda>(ep, s). (ep, cutU (n - v) (Suc n) s)) byEp)) (fold (traffic_row (axis today n)) t [])) h =
      traffic_weight (fold (traffic_row (axis today v)) (recent today v t) []) h" for h
    unfolding traffic_weight_def cut_host traffic_host host_rows_recent
    by (rule sum_cut [OF v, of st_total no_counts, OF st_total_zero])
qed

lemma map_of_keyed: "map_of (map (\<lambda>(k, s). (k, G k)) m) c = (if c \<in> set (map fst m) then Some (G c) else None)"
  by (induction m) auto

lemma clients_cut:
  assumes v: "v \<le> n"
  shows "series_at (Suc v) 0 (map (\<lambda>(k, s). (k, cutU (n - v) (Suc n)
      (the_default [] (map_of (put_rows (axis today n) 0 (map (\<lambda>(d, k, q, u). (d, k, u)) co)) k))))
      (put_rows (axis today n) 0 (map (\<lambda>(d, k, q, u). (d, k, q)) co))) c =
    series_at (Suc v) 0 (put_rows (axis today v) 0 (recent today v (map (\<lambda>(d, k, q, u). (d, k, u)) co))) c"
    (is "series_at _ _ (map ?f ?q) c = _")
proof -
  let ?u = "put_rows (axis today n) 0 (map (\<lambda>(d, k, q, u). (d, k, u)) co)"
  have same: "has_row (axis today n) (map (\<lambda>(d, k, q, u). (d, k, q)) co) c \<longleftrightarrow>
      has_row (axis today n) (map (\<lambda>(d, k, q, u). (d, k, u)) co) c"
    by (force simp: has_row_def)
  have m: "map_of (map ?f ?q) c = (if c \<in> set (map fst ?q) then Some (cutU (n - v) (Suc n) (the_default [] (map_of ?u c))) else None)"
    by (rule map_of_keyed)
  have "series_at (Suc v) 0 (map ?f ?q) c =
      series_at (Suc v) 0 (map (\<lambda>(h, s). (h, cutU (n - v) (Suc n) s)) ?u) c"
    using same unfolding series_at_def m put_rows_keys [OF axis_props(1)]
    by (simp add: map_of_map put_rows_map_of axis_props)
  then show ?thesis by (simp only: lookup_agree [OF v])
qed

lemma countries_cut:
  assumes v: "v \<le> n"
  shows "ranked_alike
    (sortCountries (map (\<lambda>(h, s). (h, cutU (n - v) (Suc n) s)) (put_rows (axis today n) 0 rows))
      (sortCountries u (map fst (put_rows (axis today n) 0 rows))))
    (sortCountries (put_rows (axis today v) 0 (recent today v rows)) (map fst (put_rows (axis today v) 0 (recent today v rows))))"
  unfolding ranked_alike_def
proof (rule countries_restrict)
  let ?l = "map (\<lambda>(h, s). (h, cutU (n - v) (Suc n) s)) (put_rows (axis today n) 0 rows)"
  let ?s = "put_rows (axis today v) 0 (recent today v rows)"
  fix c
  assume c: "c \<in> set (map fst ?s)"
  have l: "c \<in> set (map fst ?l)" unfolding cut_keys by (rule subsetD [OF short_keys [OF v] c])
  show "sumU (the_default [] (map_of ?l c)) = sumU (the_default [] (map_of ?s c))"
    unfolding key_lookup [OF c, of "[]" "Suc v" 0] key_lookup [OF l, of "[]" "Suc v" 0]
    by (simp only: lookup_agree [OF v])
qed (rule put_rows_distinct, rule put_rows_distinct, rule short_keys [OF v])

lemma slice_agrees:
  assumes v: "v \<le> n" and db: "db_windows db today"
    and l: "CollectStats F db today n = Inr l" and s: "CollectStats F db today v = Inr s"
  shows "view_agrees F (sliceSnapshot F l v) s"
proof (cases "v = n")
  case True
  with l s have "s = l" by simp
  moreover have "sn_smooth l = smoothWindowFor n" "length (sn_days l) = Suc n"
    using CollectStats_rows [OF l] by (auto simp: axis_props)
  ultimately show ?thesis using True by (simp add: view_agrees_def sliceSnapshot_def Let_def ranked_alike_refl)
next
  case False
  then have lt: "(Suc n \<le> v + 1) = False" "Suc n - (v + 1) = n - v" using v by auto
  from CollectStats_rows [OF l] obtain t cl p th co where
    q: "db_traffic db n = Inr t" "db_clients db n = Inr cl" "db_probes db n = Inr p" "db_thru db n = Inr th" "db_countries db n = Inr co"
    and L: "sn_days l = axis today n" "sn_traffic l = fold (traffic_row (axis today n)) t []"
    "sn_hosts l = sortHostsByVolume (map fst (sn_traffic l)) (traffic_weight (sn_traffic l))"
    "sn_clients l = row_series (axis today n) 0 (column (\<lambda>(ips, b, q). ips) cl) ()"
    "sn_buildids l = row_series (axis today n) 0 (column (\<lambda>(ips, b, q). b) cl) ()"
    "sn_requests l = row_series (axis today n) 0 (column (\<lambda>(ips, b, q). q) cl) ()"
    "sn_probes l = put_rows (axis today n) no_probes p"
    "sn_probe_hosts l = sortHostsByVolume (map fst (sn_probes l)) (probe_weight (sn_probes l))"
    "sn_thru l = put_rows (axis today n) (no_thru F) th"
    "sn_thru_hosts l = sortHostsByVolume (map fst (sn_thru l)) (thru_weight (sn_thru l))"
    "sn_country l = put_rows (axis today n) 0 (map (\<lambda>(d, k, q, u). (d, k, q)) co)"
    "sn_country_clients l = put_rows (axis today n) 0 (map (\<lambda>(d, k, q, u). (d, k, u)) co)"
    "sn_countries l = sortCountries (sn_country l) (map fst (sn_country l))"
    by blast
  have q': "db_traffic db v = Inr (recent today v t)" "db_clients db v = Inr (recent today v cl)"
    "db_probes db v = Inr (recent today v p)" "db_thru db v = Inr (recent today v th)"
    "db_countries db v = Inr (recent today v co)" and dp: "distinct (map (\<lambda>(d, h, p). (d, h)) p)"
    using db v q unfolding db_windows_def by (auto split: sum.splits dest!: spec [of _ n])
  from CollectStats_rows [OF s] have
    S: "sn_days s = axis today v" "sn_smooth s = smoothWindowFor v"
    "sn_traffic s = fold (traffic_row (axis today v)) (recent today v t) []"
    "sn_hosts s = sortHostsByVolume (map fst (sn_traffic s)) (traffic_weight (sn_traffic s))"
    "sn_clients s = row_series (axis today v) 0 (column (\<lambda>(ips, b, q). ips) (recent today v cl)) ()"
    "sn_buildids s = row_series (axis today v) 0 (column (\<lambda>(ips, b, q). b) (recent today v cl)) ()"
    "sn_requests s = row_series (axis today v) 0 (column (\<lambda>(ips, b, q). q) (recent today v cl)) ()"
    "sn_probes s = put_rows (axis today v) no_probes (recent today v p)"
    "sn_probe_total s = sum_list (map (\<lambda>(d, h, p). pd_ok p + pd_fail p) (filter (on_axis (axis today v)) (recent today v p)))"
    "sn_probe_ok s = sum_list (map (\<lambda>(d, h, p). pd_ok p) (filter (on_axis (axis today v)) (recent today v p)))"
    "sn_probe_hosts s = sortHostsByVolume (map fst (sn_probes s)) (probe_weight (sn_probes s))"
    "sn_thru s = put_rows (axis today v) (no_thru F) (recent today v th)"
    "sn_thru_hosts s = sortHostsByVolume (map fst (sn_thru s)) (thru_weight (sn_thru s))"
    "sn_country s = put_rows (axis today v) 0 (recent today v (map (\<lambda>(d, k, q, u). (d, k, q)) co))"
    "sn_country_clients s = put_rows (axis today v) 0 (recent today v (map (\<lambda>(d, k, q, u). (d, k, u)) co))"
    "sn_countries s = sortCountries (sn_country s) (map fst (sn_country s))"
    using q' by (auto simp: recent_def filter_map comp_def case_prod_beta)
  note sl = sliceSnapshot_def [of F l v, unfolded Let_def L(1) axis_props(2) lt if_False]
  have zp: "pd_ok no_probes + pd_fail no_probes = 0" "pd_ok no_probes = 0" by (simp_all add: no_probes_def)
  show ?thesis
    unfolding view_agrees_def Let_def S(1) axis_props(2)
  proof (intro conjI allI)
    show "sn_days (sliceSnapshot F l v) = axis today v" by (simp add: sl axis_drop [OF v])
    show "sn_smooth (sliceSnapshot F l v) = sn_smooth s" by (simp add: sl S(2))
    show "sn_clients (sliceSnapshot F l v) = sn_clients s" by (simp add: sl L(4) S(5) cut_column [OF v])
    show "sn_buildids (sliceSnapshot F l v) = sn_buildids s" by (simp add: sl L(5) S(6) cut_column [OF v])
    show "sn_requests (sliceSnapshot F l v) = sn_requests s" by (simp add: sl L(6) S(7) cut_column [OF v])
    show "series_at (Suc v) no_counts (the_default [] (map_of (sn_traffic (sliceSnapshot F l v)) h)) e =
        series_at (Suc v) no_counts (the_default [] (map_of (sn_traffic s) h)) e" for h e
      by (simp add: sl L(2) S(3) cut_host traffic_host host_rows_recent lookup_agree [OF v])
    show "ranked_alike (sn_hosts (sliceSnapshot F l v)) (sn_hosts s)"
      unfolding S(4) S(3) sl using traffic_ranked [OF v, of today t] by (simp add: L(3) L(2))
    show "series_at (Suc v) no_probes (sn_probes (sliceSnapshot F l v)) h = series_at (Suc v) no_probes (sn_probes s) h" for h
      by (simp add: sl L(7) S(8) lookup_agree [OF v])
    show "sn_probe_total (sliceSnapshot F l v) = sn_probe_total s"
      using sum_cut [OF v, of "\<lambda>x. pd_ok x + pd_fail x" no_probes today p, OF zp(1)]
        probe_totals [of "\<lambda>x. pd_ok x + pd_fail x" no_probes p today v, OF zp(1) dp]
      by (simp add: sl L(7) S(9))
    show "sn_probe_ok (sliceSnapshot F l v) = sn_probe_ok s"
      using sum_cut [OF v, of pd_ok no_probes today p, OF zp(2)] probe_totals [of pd_ok no_probes p today v, OF zp(2) dp]
      by (simp add: sl L(7) S(10))
    show "ranked_alike (sn_probe_hosts (sliceSnapshot F l v)) (sn_probe_hosts s)"
      unfolding S(11) S(8) sl
      using ranked_cut [OF v, of probe_weight "\<lambda>x. sum_list (map (\<lambda>p. pd_ok p + pd_fail p) x)" today no_probes p, OF probe_weight_def]
      by (simp add: L(8) L(7))
    show "series_at (Suc v) (no_thru F) (sn_thru (sliceSnapshot F l v)) h = series_at (Suc v) (no_thru F) (sn_thru s) h" for h
      by (simp add: sl L(9) S(12) lookup_agree [OF v])
    show "ranked_alike (sn_thru_hosts (sliceSnapshot F l v)) (sn_thru_hosts s)"
      unfolding S(13) S(12) sl
      using ranked_cut [OF v, of thru_weight "\<lambda>x. sum_list (map td_n x)" today "no_thru F" th, OF thru_weight_def]
      by (simp add: L(10) L(9))
    show "series_at (Suc v) 0 (sn_country (sliceSnapshot F l v)) k = series_at (Suc v) 0 (sn_country s) k" for k
      by (simp add: sl L(11) S(14) lookup_agree [OF v])
    show "series_at (Suc v) 0 (sn_country_clients (sliceSnapshot F l v)) k = series_at (Suc v) 0 (sn_country_clients s) k" for k
      using clients_cut [OF v, of today co k] by (simp add: sl L(11,12) S(15))
    show "ranked_alike (sn_countries (sliceSnapshot F l v)) (sn_countries s)"
      unfolding ranked_alike_def S(16) S(14) sl
      by (simp add: L(13) L(11))
        (rule countries_cut [OF v, unfolded ranked_alike_def])
  qed
qed


definition ex_floats :: "int floats" where
  "ex_floats = \<lparr>f_zero = 0, f_one = 1, f_add = (+), f_div = (div), f_less = (<), f_nat = int, f_u64 = uint\<rparr>"

definition ex_counts :: "u64 \<Rightarrow> statusCounts" where "ex_counts n = no_counts\<lparr>st_served := n\<rparr>"

definition ex_db :: "int stats_db" where
  "ex_db = \<lparr>
     db_traffic = (\<lambda>n. Inr (recent 100 n [(80, ''fedora'', ''source'', ex_counts 9), (99, ''debian'', ''debuginfo'', ex_counts 4)])),
     db_clients = (\<lambda>n. Inr (recent 100 n [(80, 2, 2, 9), (99, 1, 1, 4)])),
     db_bytes = (\<lambda>n. Inr [(''debian'', 1, 2, 3, 4)]),
     db_probes = (\<lambda>n. Inr (recent 100 n [(80, ''fedora'', no_probes\<lparr>pd_ok := 5\<rparr>), (99, ''debian'', no_probes\<lparr>pd_ok := 2, pd_fail := 1\<rparr>)])),
     db_thru = (\<lambda>n. Inr (recent 100 n [(99, ''debian'', \<lparr>td_n = 1, td_p50 = 2, td_p90 = 3\<rparr>)])),
     db_countries = (\<lambda>n. Inr (recent 100 n [(80, ''PL'', 9, 2), (99, ''DE'', 4, 1)])),
     db_recent = Inr [(''debian'', 3)],
     db_cache = (\<lambda>n. Inr []), db_cache_last = Inl ''no rows''\<rparr>"

lemma recent_recent: "v \<le> n \<Longrightarrow> recent today v (recent today n rows) = recent today v rows"
  unfolding recent_def filter_filter by (intro filter_cong refl) auto

lemma ex_windows: "db_windows ex_db 100"
  unfolding db_windows_def ex_db_def
  by (auto simp: recent_recent) (auto simp: recent_def)

lemma ex_collects: "\<exists>s. CollectStats ex_floats ex_db 100 n = Inr s \<and> \<not> sn_has_cache s"
  by (simp add: CollectStats_def stats_step_def ex_db_def collectCacheUsage_def collectProbeRecent_def collectCountries_def
      collectThroughput_def collectProbes_def collectBytes_def collectClients_def collectTraffic_def empty_snapshot_def Let_def)

lemma ex_short: "map_sum id (\<lambda>s. (sn_probe_total s, length (sn_countries s), sn_hosts s)) (CollectStats ex_floats ex_db 100 7) =
    Inr (3, 1, [''debian''])"
  by code_simp


text \<open>What is not cut: the list of countries keeps the ones the shorter window has no request from.
  Here the view of the last week has one country with requests and lists two.\<close>
lemma sliced_countries_stay:
  "map_sum id (\<lambda>l. (length (sn_countries (sliceSnapshot ex_floats l 7)),
      map_of (sn_country (sliceSnapshot ex_floats l 7)) ''PL'')) (CollectStats ex_floats ex_db 100 30) =
   Inr (2, Some [0, 0, 0, 0, 0, 0, 0, 0])"
  by code_simp

end
