(* ===== verification/StatsPages.thy ===== *)
theory StatsPages
  imports Stats RespWriter
begin

text \<open>
  The statistics pages of \<open>cmd/proxy/stats.go\<close> and \<open>cmd/releases/stats.go\<close>: a worker rebuilds one
  finished page per window length and publishes them together, the handler serves one of them.
  The renderer, the collection and the time format are arguments.
\<close>

section \<open>The worker\<close>

record statsPage =
  pg_html :: bytes
  pg_generated :: time
  pg_etag :: string

type_synonym pages = "int \<Rightarrow> statsPage option"

definition statsViewLengths :: "int list" where
  "statsViewLengths = [7, 30, 180, 360]"

definition stats_views :: "int \<Rightarrow> int list" where
  "stats_views days = sort (fold (\<lambda>v vs. if v > 0 \<and> v \<le> days \<and> v \<notin> set vs then vs @ [v] else vs)
     (statsViewLengths @ [days]) [])"

definition defaultView :: "int list \<Rightarrow> int \<Rightarrow> int" where
  "defaultView views days = (if views = [] then days else last views)"

definition rel_defaultView :: "int list \<Rightarrow> int" where
  "rel_defaultView views = (if views = [] then 0 else last views)"

definition stats_page :: "time \<Rightarrow> int \<Rightarrow> bytes \<Rightarrow> statsPage" where
  "stats_page gen v body = \<lparr>pg_html = body, pg_generated = gen,
     pg_etag = ''W/'' @ [CHR 0x22] @ int_str (gen div second) @ ''-'' @ int_str v @ ''-'' @ int_str (int (length body)) @ [CHR 0x22]\<rparr>"

text \<open>\<open>refresh\<close> of the proxy: one collection, every view cut out of it.\<close>

definition refresh :: "'f floats \<Rightarrow> ('f statsSnapshot \<Rightarrow> bytes) \<Rightarrow> int \<Rightarrow> int list \<Rightarrow> time \<times> (string + 'f statsSnapshot)
    \<Rightarrow> pages option \<Rightarrow> pages option" where
  "refresh F renderStats maxBytes views collected old = (case collected of
     (gen, Inl e) \<Rightarrow> old
   | (gen, Inr snap0) \<Rightarrow>
       (let snap = (if maxBytes > 0 then snap0\<lparr>sn_cache_max := word_of_int maxBytes\<rparr> else snap0)\<lparr>sn_views := views\<rparr> in
        Some (fold (\<lambda>v pages. pages(v \<mapsto> stats_page gen v (renderStats ((sliceSnapshot F snap (nat v))\<lparr>sn_views := views\<rparr>))))
          views Map.empty)))"

text \<open>\<open>refresh\<close> of the release pages: a collection per view; the first failure gives the round up.\<close>

fun rel_collect :: "(int \<Rightarrow> time \<times> (string + 's)) \<Rightarrow> ('s \<Rightarrow> bytes) \<Rightarrow> int list \<Rightarrow> pages \<Rightarrow> pages option" where
  "rel_collect collect renderStats [] pages = Some pages"
| "rel_collect collect renderStats (v # vs) pages = (case collect v of
     (gen, Inl e) \<Rightarrow> None
   | (gen, Inr snap) \<Rightarrow> rel_collect collect renderStats vs (pages(v \<mapsto> stats_page gen v (renderStats snap))))"

definition rel_refresh :: "(int \<Rightarrow> time \<times> (string + 's)) \<Rightarrow> ('s \<Rightarrow> bytes) \<Rightarrow> int list \<Rightarrow> pages option \<Rightarrow> pages option" where
  "rel_refresh collect renderStats views old = (case rel_collect collect renderStats views Map.empty of
     None \<Rightarrow> old | Some pages \<Rightarrow> Some pages)"

section \<open>The handler\<close>

definition viewFromRequest :: "int \<Rightarrow> string \<Rightarrow> pages \<Rightarrow> int" where
  "viewFromRequest dflt raw pages =
     (if raw \<noteq> [] then (case parse_int raw of Some v \<Rightarrow> if pages v \<noteq> None then v else dflt | None \<Rightarrow> dflt) else dflt)"

definition current_page :: "int \<Rightarrow> string \<Rightarrow> pages option \<Rightarrow> statsPage option" where
  "current_page dflt raw ptr = (case ptr of None \<Rightarrow> None | Some pages \<Rightarrow> pages (viewFromRequest dflt raw pages))"

definition serve_page :: "wenv \<Rightarrow> (time \<Rightarrow> string) \<Rightarrow> w_op list \<Rightarrow> string \<Rightarrow> statsPage option \<Rightarrow> w_op list" where
  "serve_page env fmt extra noneMatch page = (case page of
     None \<Rightarrow> SetHeader ''retry-after'' ''30'' # http_Error env ''stats not generated yet'' 503
   | Some p \<Rightarrow>
       SetHeader ''content-type'' ''text/html; charset=utf-8'' # extra @
       [SetHeader ''etag'' (pg_etag p), SetHeader ''last-modified'' (fmt (pg_generated p)),
        SetHeader ''cache-control'' ''public, max-age=300''] @
       (if noneMatch = pg_etag p then [WriteHeader 304] else [WriteHeader 200, WriteBody env (pg_html p)]))"

definition stats_Handler :: "wenv \<Rightarrow> (time \<Rightarrow> string) \<Rightarrow> int list \<Rightarrow> int \<Rightarrow> pages option \<Rightarrow> string \<Rightarrow> string \<Rightarrow> w_op list" where
  "stats_Handler env fmt views days ptr raw noneMatch =
     serve_page env fmt [] noneMatch (current_page (defaultView views days) raw ptr)"

text \<open>\<open>hostMatches\<close>: \<open>split\<close> is \<open>net.SplitHostPort\<close>, \<open>uf\<close> the Unicode part of \<open>EqualFold\<close>.\<close>

definition hostMatches :: "(string \<Rightarrow> string option) \<Rightarrow> (string \<Rightarrow> string \<Rightarrow> bool) \<Rightarrow> string \<Rightarrow> bool" where
  "hostMatches splitHost uf host =
     equal_fold uf (case splitHost host of Some h \<Rightarrow> h | None \<Rightarrow> host) ''releases.pwndbg.re''"

definition not_found :: "wenv \<Rightarrow> w_op list" where
  "not_found env = http_Error env ''404 page not found'' 404"

definition rel_Handler :: "wenv \<Rightarrow> (time \<Rightarrow> string) \<Rightarrow> string \<Rightarrow> int list \<Rightarrow> bool \<Rightarrow> pages option \<Rightarrow> string \<Rightarrow> string \<Rightarrow> w_op list" where
  "rel_Handler env fmt csp views host_ok ptr raw noneMatch =
     (if \<not> host_ok then not_found env
      else serve_page env fmt [SetHeader ''content-security-policy'' csp, SetHeader ''x-content-type-options'' ''nosniff'',
             SetHeader ''referrer-policy'' ''no-referrer''] noneMatch (current_page (rel_defaultView views) raw ptr))"

section \<open>Properties\<close>

lemma fold_views: "fold (\<lambda>v pages. pages(v \<mapsto> f v)) vs m = (\<lambda>v. if v \<in> set vs then Some (f v) else m v)"
  by (induction vs arbitrary: m) (auto simp: fun_eq_iff)

lemma rel_collect_dom:
  "rel_collect collect r vs pages = Some p \<Longrightarrow> dom p = dom pages \<union> set vs"
  by (induction vs arbitrary: pages) (auto split: prod.splits sum.splits)

definition view_step :: "int \<Rightarrow> int \<Rightarrow> int list \<Rightarrow> int list" where
  "view_step days v vs = (if v > 0 \<and> v \<le> days \<and> v \<notin> set vs then vs @ [v] else vs)"

lemma stats_views_step: "stats_views days = sort (fold (view_step days) (statsViewLengths @ [days]) [])"
  by (simp add: stats_views_def view_step_def [abs_def])

lemma view_steps:
  "distinct vs \<Longrightarrow> \<forall>v \<in> set vs. 0 < v \<and> v \<le> days \<Longrightarrow>
   distinct (fold (view_step days) ws vs) \<and> set (fold (view_step days) ws vs) = set vs \<union> {v \<in> set ws. 0 < v \<and> v \<le> days}"
proof (induction ws arbitrary: vs)
  case (Cons w ws)
  have "distinct (view_step days w vs)" "\<forall>v \<in> set (view_step days w vs). 0 < v \<and> v \<le> days"
    "set (view_step days w vs) = set vs \<union> (if 0 < w \<and> w \<le> days then {w} else {})"
    using Cons.prems by (auto simp: view_step_def)
  from Cons.IH [OF this(1,2)] this(3) show ?case by auto
qed simp

lemma stats_views_props:
  "distinct (stats_views days)" "sorted (stats_views days)"
  "set (stats_views days) = {v \<in> set (statsViewLengths @ [days]). 0 < v \<and> v \<le> days}"
  unfolding stats_views_step using view_steps [of "[]" days "statsViewLengths @ [days]"] by (simp_all del: fold_append)

lemma sorted_last: "sorted (xs::int list) \<Longrightarrow> x \<in> set xs \<Longrightarrow> x \<le> last xs"
  by (induction xs) auto

lemma default_is_days:
  assumes "0 < days"
  shows "stats_views days \<noteq> []" "last (stats_views days) = days"
proof -
  have d: "days \<in> set (stats_views days)" using assms by (simp add: stats_views_props(3))
  then show ne: "stats_views days \<noteq> []" by auto
  have "last (stats_views days) \<in> set (stats_views days)" using ne by simp
  then have "last (stats_views days) \<le> days" by (simp add: stats_views_props(3))
  with sorted_last [OF stats_views_props(2) d] show "last (stats_views days) = days" by simp
qed

text \<open>The set of published views, through any history of rounds.\<close>

definition published :: "int list \<Rightarrow> pages option \<Rightarrow> bool" where
  "published views ptr \<longleftrightarrow> (case ptr of None \<Rightarrow> True | Some p \<Rightarrow> dom p = set views)"

lemma refresh_published:
  "published views old \<Longrightarrow> published views (refresh F r mb views c old)"
  "published views old \<Longrightarrow> refresh F r mb views c old = None \<longleftrightarrow> old = None \<and> isl (snd c)"
  by (cases c; cases "snd c"; auto simp: refresh_def published_def fold_views Let_def dom_def split: if_splits)+

lemma rel_refresh_published: "published views old \<Longrightarrow> published views (rel_refresh collect r views old)"
proof (cases "rel_collect collect r views Map.empty")
  case (Some p)
  then show ?thesis using rel_collect_dom [OF Some] by (simp add: rel_refresh_def published_def)
qed (simp add: rel_refresh_def)

fun worker :: "'f floats \<Rightarrow> ('f statsSnapshot \<Rightarrow> bytes) \<Rightarrow> int \<Rightarrow> int list \<Rightarrow> (time \<times> (string + 'f statsSnapshot)) list
    \<Rightarrow> pages option \<Rightarrow> pages option" where
  "worker F r mb views [] ptr = ptr"
| "worker F r mb views (c # cs) ptr = worker F r mb views cs (refresh F r mb views c ptr)"

lemma worker_published:
  "published views ptr \<Longrightarrow> published views (worker F r mb views cs ptr) \<and>
   (worker F r mb views cs ptr = None \<longleftrightarrow> ptr = None \<and> list_all (\<lambda>c. isl (snd c)) cs)"
proof (induction cs arbitrary: ptr)
  case (Cons c cs)
  from Cons.IH [OF refresh_published(1) [OF Cons.prems, of F r mb c]] refresh_published(2) [OF Cons.prems, of F r mb c]
  show ?case by auto
qed simp

text \<open>C39. The statistics page stays up: with a positive window, once one collection of the worker has
  succeeded every request, whatever its \<open>days\<close> parameter says, is answered with a finished page of
  one of the offered windows (or with 304 when the client has it), collections that fail later
  included; before the first success every request gets a 503 with \<open>Retry-After\<close>.\<close>
theorem stats_page_stays:
  assumes "0 < days"
  shows "let ptr = worker F r mb (stats_views days) cs None; ops = stats_Handler env fmt (stats_views days) days ptr raw noneMatch in
    if list_all (\<lambda>c. isl (snd c)) cs
    then ops = SetHeader ''retry-after'' ''30'' # http_Error env ''stats not generated yet'' 503
    else (\<exists>p v page. ptr = Some p \<and> v \<in> set (stats_views days) \<and> p v = Some page \<and>
      ops = serve_page env fmt [] noneMatch (Some page) \<and>
      last ops = (if noneMatch = pg_etag page then WriteHeader 304 else WriteBody env (pg_html page)))"
proof -
  let ?vs = "stats_views days" and ?ptr = "worker F r mb (stats_views days) cs None"
  note days = assms(1)
  have pub: "published ?vs ?ptr" "?ptr = None \<longleftrightarrow> list_all (\<lambda>c. isl (snd c)) cs"
    using worker_published [of ?vs None] by (auto simp: published_def)
  show ?thesis
  proof (cases ?ptr)
    case None
    with pub(2) show ?thesis by (simp add: stats_Handler_def serve_page_def current_page_def)
  next
    case (Some p)
    let ?v = "viewFromRequest (defaultView ?vs days) raw p"
    have d: "dom p = set ?vs" using pub(1) Some by (simp add: published_def)
    have "days \<in> set ?vs" using default_is_days [OF days] last_in_set by metis
    then have "?v \<in> set ?vs"
      using d default_is_days [OF days] by (auto simp: viewFromRequest_def defaultView_def split: option.splits)
    then obtain page where "p ?v = Some page" using d by blast
    with Some pub(2) \<open>?v \<in> set ?vs\<close> show ?thesis
      by (auto simp: stats_Handler_def current_page_def Let_def serve_page_def)
  qed
qed

definition demo_floats :: "int floats" where
  "demo_floats = \<lparr>f_zero = 0, f_one = 1, f_add = (+), f_div = (div), f_less = (<), f_nat = int, f_u64 = uint\<rparr>"

definition demo_rounds :: "(time \<times> (string + int statsSnapshot)) list" where
  "demo_rounds = [(5, Inr (empty_snapshot demo_floats 100 30)), (6, Inl ''down'')]"

text \<open>A success followed by a failure: a request for an unknown window still gets a page.\<close>

theorem stats_page_stays_witness:
  "\<exists>p v page. worker demo_floats (\<lambda>_. ''<html>'') 0 (stats_views 30) demo_rounds None = Some p \<and>
     v \<in> set (stats_views 30) \<and> p v = Some page \<and>
     last (stats_Handler \<lparr>we_now = 0, we_accept = None\<rparr> (\<lambda>_. ''now'') (stats_views 30) 30
       (worker demo_floats (\<lambda>_. ''<html>'') 0 (stats_views 30) demo_rounds None) ''99999'' ''x'') =
     (if ''x'' = pg_etag page then WriteHeader 304 else WriteBody \<lparr>we_now = 0, we_accept = None\<rparr> (pg_html page))"
proof -
  have "\<not> list_all (\<lambda>c. isl (snd c)) demo_rounds" by (simp add: demo_rounds_def)
  with stats_page_stays [of 30 demo_floats "\<lambda>_. ''<html>''" 0 demo_rounds
      "\<lparr>we_now = 0, we_accept = None\<rparr>" "\<lambda>_. ''now''" "''99999''" "''x''"]
  show ?thesis unfolding Let_def by (simp only: if_False) fastforce
qed

end
