(* ===== verification/Releases.thy ===== *)
theory Releases
  imports StatsPages
begin

text \<open>
  \<open>cmd/releases\<close>: the redirect, the classification of asset names (\<open>assets.go\<close>) and what the
  collectors of \<open>stats.go\<close> compute in Go from the rows the database answers. Counters are
  \<open>uint64\<close>; the conversion of a curve to \<open>float64\<close> is exact below 2^53 downloads and not modelled.
\<close>

section \<open>The redirect\<close>

definition release_target :: "string \<Rightarrow> string \<Rightarrow> string" where
  "release_target version name =
     ''https://github.com/pwndbg/pwndbg/releases/download/'' @ version @ ''/'' @ name"

definition redirectRelease :: "wenv \<Rightarrow> (string \<Rightarrow> w_op list) \<Rightarrow> bool \<Rightarrow> string \<Rightarrow> string \<Rightarrow> w_op list" where
  "redirectRelease env redirect host_ok version name =
     (if \<not> host_ok then not_found env else redirect (release_target version name))"

section \<open>Asset names\<close>

record assetClass =
  ac_variant :: string
  ac_platform :: string
  ac_format :: string

definition unknownBucket :: string where "unknownBucket = ''other''"

definition knownVariants :: "(string \<times> string) list" where
  "knownVariants = [(''pwndbg'', ''pwndbg-gdb''), (''pwndbg-gdb'', ''pwndbg-gdb''), (''pwndbg-lldb'', ''pwndbg-lldb'')]"

definition knownFormats :: "string list" where
  "knownFormats = [''.tar.xz'', ''.tar.gz'', ''.tar.zst'', ''.tar.bz2'', ''.AppImage'', ''.sha256'', ''.deb'',
     ''.rpm'', ''.apk'', ''.zip'', ''.sig'']"

definition asset_platform :: "string list \<Rightarrow> string" where
  "asset_platform parts =
     (let plat0 = trim_suffix (join_with ''_'' (drop 2 parts)) ''-portable'';
          (osName, plat) = (case cut_prefix plat0 ''macos_'' of
             Some rest \<Rightarrow> (''macos'', rest)
           | None \<Rightarrow> (case cut_prefix plat0 ''darwin_'' of Some rest \<Rightarrow> (''macos'', rest) | None \<Rightarrow> (''linux'', plat0)))
      in if plat \<in> {''x86_64'', ''amd64'', ''x64''} then osName @ ''/x86_64''
         else if plat \<in> {''arm64'', ''aarch64''} then osName @ ''/arm64''
         else if plat = [] then ''any''
         else unknownBucket)"

definition classifyAsset :: "string \<Rightarrow> assetClass" where
  "classifyAsset name =
     (if name = [] then \<lparr>ac_variant = unknownBucket, ac_platform = unknownBucket, ac_format = unknownBucket\<rparr>
      else
        (let (fmt, base) = (case find (has_suffix name) knownFormats of
               Some f \<Rightarrow> (f, trim_suffix name f) | None \<Rightarrow> (unknownBucket, name));
             parts = split_on (CHR ''_'') base;
             variant = (case map_of knownVariants (hd parts) of Some v \<Rightarrow> v | None \<Rightarrow> unknownBucket)
         in \<lparr>ac_variant = variant,
             ac_platform = (if length parts < 3 then unknownBucket else asset_platform parts),
             ac_format = fmt\<rparr>))"

section \<open>Ranked lists\<close>

record labelCount =
  lc_label :: string
  lc_n :: u64

definition label_key :: "labelCount \<Rightarrow> int \<times> string" where
  "label_key c = (- uint (lc_n c), lc_label c)"

fun add_to_other :: "u64 \<Rightarrow> labelCount list \<Rightarrow> labelCount list" where
  "add_to_other rest [] = [\<lparr>lc_label = unknownBucket, lc_n = rest\<rparr>]"
| "add_to_other rest (c # cs) =
     (if lc_label c = unknownBucket then c\<lparr>lc_n := lc_n c + rest\<rparr> # cs else c # add_to_other rest cs)"

definition topN :: "labelCount list \<Rightarrow> nat \<Rightarrow> labelCount list" where
  "topN items0 n =
     (let items = sort_key label_key items0 in
      if length items \<le> n then items
      else add_to_other (fold (\<lambda>c s. s + lc_n c) (drop n items) 0) (take n items))"

definition mapToCounts :: "u64 gomap \<Rightarrow> labelCount list" where
  "mapToCounts m = map (\<lambda>(k, v). \<lparr>lc_label = k, lc_n = v\<rparr>) m"

definition add_count :: "string \<Rightarrow> u64 \<Rightarrow> u64 gomap \<Rightarrow> u64 gomap" where
  "add_count k n m = AList.update k (the_default 0 (map_of m k) + n) m"

text \<open>\<open>collectAssets\<close>: assets, platforms, variants and formats.\<close>

definition collectAssets :: "(string \<times> u64) list \<Rightarrow> labelCount list \<times> labelCount list \<times> labelCount list \<times> labelCount list" where
  "collectAssets rows =
     (topN (map (\<lambda>(name, n). \<lparr>lc_label = name, lc_n = n\<rparr>) rows) 10,
      topN (mapToCounts (fold (\<lambda>(name, n). add_count (ac_platform (classifyAsset name)) n) rows [])) 8,
      topN (mapToCounts (fold (\<lambda>(name, n). add_count (ac_variant (classifyAsset name)) n) rows [])) 6,
      topN (mapToCounts (fold (\<lambda>(name, n). add_count (ac_format (classifyAsset name)) n) rows [])) 6)"

section \<open>Curves\<close>

definition curveHorizon :: nat where "curveHorizon = 30"
definition maxCurves :: nat where "maxCurves = 5"

record releaseCurve =
  rc_tag :: string
  rc_series :: "u64 list"
  rc_total :: u64
  rc_at_horizon :: u64
  rc_reached :: bool

record raw_curve =
  cv_first :: int
  cv_pts :: "nat \<Rightarrow> u64 option"
  cv_last :: nat

text \<open>A row: tag, day and total, a tag's rows by increasing day.\<close>

definition curve_row :: "string \<times> int \<times> u64 \<Rightarrow> raw_curve gomap \<Rightarrow> raw_curve gomap" where
  "curve_row row m = (case row of (tag, d, n) \<Rightarrow>
     (let r = the_default \<lparr>cv_first = d, cv_pts = Map.empty, cv_last = 0\<rparr> (map_of m tag);
          i = nat (d - cv_first r)
      in AList.update tag (r\<lparr>cv_pts := (cv_pts r)(i \<mapsto> n), cv_last := max (cv_last r) i\<rparr>) m))"

fun curve_walk :: "(nat \<Rightarrow> u64 option) \<Rightarrow> u64 \<Rightarrow> u64 \<Rightarrow> nat list \<Rightarrow> u64 list" where
  "curve_walk pts baseline running [] = []"
| "curve_walk pts baseline running (i # js) =
     (let r1 = (case pts i of Some v \<Rightarrow> if v > running then v else running | None \<Rightarrow> running);
          r2 = (if r1 < baseline then baseline else r1)
      in (r2 - baseline) # curve_walk pts baseline r2 js)"

definition release_curve :: "string \<Rightarrow> raw_curve \<Rightarrow> releaseCurve option" where
  "release_curve tag r =
     (if cv_last r = 0 then None
      else
        (let baseline = the_default 0 (cv_pts r 0);
             series = curve_walk (cv_pts r) baseline 0 [0..<Suc (cv_last r)];
             lst = last series;
             reached = cv_last r \<ge> curveHorizon
         in Some \<lparr>rc_tag = tag, rc_series = take (Suc curveHorizon) series, rc_total = lst,
              rc_at_horizon = (if reached then series ! curveHorizon else lst), rc_reached = reached\<rparr>))"

text \<open>\<open>collectCurves\<close>: the last five tags by first day; \<open>order\<close> is the order \<open>sort.Slice\<close> leaves
  tags of the same first day in.\<close>

definition collectCurves :: "(string \<Rightarrow> nat) \<Rightarrow> (string \<times> int \<times> u64) list \<Rightarrow> releaseCurve list \<times> nat" where
  "collectCurves order rows =
     (let byTag = fold curve_row rows [];
          tags = sort_key (\<lambda>t. (case map_of byTag t of Some r \<Rightarrow> cv_first r | None \<Rightarrow> 0, order t)) (map fst byTag);
          kept = drop (length tags - maxCurves) tags;
          curves = List.map_filter (\<lambda>t. case map_of byTag t of Some r \<Rightarrow> release_curve t r | None \<Rightarrow> None) kept
      in (curves, fold (\<lambda>c m. max m (length (rc_series c))) curves 0))"

section \<open>The vocabulary is closed\<close>

definition platforms :: "string list" where
  "platforms = [''linux/x86_64'', ''linux/arm64'', ''macos/x86_64'', ''macos/arm64'', ''any'', unknownBucket]"

definition well_classified :: "assetClass \<Rightarrow> bool" where
  "well_classified c \<longleftrightarrow> ac_variant c \<in> set [''pwndbg-gdb'', ''pwndbg-lldb'', unknownBucket] \<and>
     ac_platform c \<in> set platforms \<and> ac_format c \<in> set (unknownBucket # knownFormats)"

lemma known_variant: "map_of knownVariants x = Some v \<Longrightarrow> v = ''pwndbg-gdb'' \<or> v = ''pwndbg-lldb''"
  by (auto simp: knownVariants_def split: if_splits)

lemma asset_platform_known: "asset_platform parts \<in> set platforms"
  by (auto simp: asset_platform_def platforms_def Let_def split: option.splits prod.splits)

lemma find_mem: "find P xs = Some x \<Longrightarrow> x \<in> set xs \<and> P x"
  by (induction xs) (auto split: if_splits)

lemma classify_known: "well_classified (classifyAsset name)"
proof (cases "name = []")
  case False
  have f: "(case find (has_suffix name) knownFormats of Some f \<Rightarrow> f | None \<Rightarrow> unknownBucket) \<in> set (unknownBucket # knownFormats)"
    by (auto dest: find_mem split: option.splits)
  have v: "(case map_of knownVariants x of Some v \<Rightarrow> v | None \<Rightarrow> unknownBucket) \<in> set [''pwndbg-gdb'', ''pwndbg-lldb'', unknownBucket]" for x
    using known_variant by (auto split: option.splits)
  have p: "(if length ps < 3 then unknownBucket else asset_platform ps) \<in> set platforms" for ps
    using asset_platform_known by (auto simp: platforms_def)
  show ?thesis
    using f v p False unfolding classifyAsset_def well_classified_def
    by (cases "find (has_suffix name) knownFormats") (simp_all add: Let_def)
qed (simp add: classifyAsset_def well_classified_def platforms_def)

lemma add_count_keys: "set (map fst (add_count k n m)) = insert k (set (map fst m))"
  unfolding add_count_def by (induction m) auto

lemma counts_keys: "set (map fst (fold (\<lambda>(name, n). add_count (g name) n) rows m)) = set (map fst m) \<union> (\<lambda>(name, n). g name) ` set rows"
proof (induction rows arbitrary: m)
  case (Cons r rows)
  show ?case using Cons [of "add_count (g (fst r)) (snd r) m"] add_count_keys [of "g (fst r)" "snd r" m] by (cases r) auto
qed simp

lemma add_to_other_labels: "lc_label ` set (add_to_other rest cs) \<subseteq> insert unknownBucket (lc_label ` set cs)"
  by (induction cs) auto

lemma topN_labels: "lc_label ` set (topN items n) \<subseteq> insert unknownBucket (lc_label ` set items)"
proof (cases "length items \<le> n")
  case False
  have "lc_label ` set (topN items n) \<subseteq> insert unknownBucket (lc_label ` set (take n (sort_key label_key items)))"
    using False add_to_other_labels by (simp add: topN_def Let_def)
  then show ?thesis using set_take_subset [of n "sort_key label_key items"] by auto
qed (auto simp: topN_def Let_def)

lemma bars_known:
  assumes "\<And>name. g (classifyAsset name) \<in> insert unknownBucket X"
  shows "lc_label ` set (topN (mapToCounts (fold (\<lambda>(name, n). add_count (g (classifyAsset name)) n) rows [])) k) \<subseteq> insert unknownBucket X"
proof -
  have "lc_label ` set (mapToCounts m) = set (map fst m)" for m by (force simp: mapToCounts_def)
  then have "lc_label ` set (mapToCounts (fold (\<lambda>(name, n). add_count (g (classifyAsset name)) n) rows [])) \<subseteq> insert unknownBucket X"
    using assms counts_keys [of "\<lambda>name. g (classifyAsset name)" rows "[]"] by auto
  with topN_labels show ?thesis by blast
qed

text \<open>Whatever the asset names in the table are, every label of the platform, variant and format
  charts is one of the fixed buckets.\<close>

theorem bars_closed_vocabulary:
  "case collectAssets rows of (assets, plats, variants, formats) \<Rightarrow>
     lc_label ` set plats \<subseteq> set platforms \<and>
     lc_label ` set variants \<subseteq> {''pwndbg-gdb'', ''pwndbg-lldb'', unknownBucket} \<and>
     lc_label ` set formats \<subseteq> set (unknownBucket # knownFormats)"
proof -
  have k: "ac_platform (classifyAsset name) \<in> set platforms"
    "ac_variant (classifyAsset name) \<in> insert unknownBucket {''pwndbg-gdb'', ''pwndbg-lldb''}"
    "ac_format (classifyAsset name) \<in> insert unknownBucket (set knownFormats)" for name
    using classify_known [of name] by (auto simp: well_classified_def)
  have u: "insert unknownBucket (set platforms) = set platforms" by (auto simp: platforms_def)
  show ?thesis
    using bars_known [of ac_platform "set platforms" rows 8] bars_known [of ac_variant "{''pwndbg-gdb'', ''pwndbg-lldb''}" rows 6]
      bars_known [of ac_format "set knownFormats" rows 6] k u
    by (simp add: collectAssets_def insert_commute)
qed

section \<open>Nothing is dropped from a chart\<close>

lemma sum_add_to_other: "sum_list (map lc_n (add_to_other rest cs)) = sum_list (map lc_n cs) + rest"
  by (induction cs) (auto simp: add.assoc add.commute add.left_commute)

lemma fold_sum: "fold (\<lambda>c s. s + lc_n c) cs a = a + sum_list (map lc_n cs)"
  by (induction cs arbitrary: a) (auto simp: add.assoc)

lemma sum_sort: "sum_list (map lc_n (sort_key f cs)) = sum_list (map lc_n cs)"
  by (metis mset_map mset_sort sum_mset_sum_list)

text \<open>\<open>topN\<close> folds the tail: the bars always add up to the total (on \<open>uint64\<close>, wrap-around
  included) and there is at most one more bar than asked for.\<close>
theorem topN_total:
  "sum_list (map lc_n (topN items n)) = sum_list (map lc_n items) \<and> length (topN items n) \<le> Suc n"
proof (intro conjI)
  let ?s = "sort_key label_key items"
  have "sum_list (map lc_n (take n ?s)) + sum_list (map lc_n (drop n ?s)) = sum_list (map lc_n ?s)"
    by (metis append_take_drop_id map_append sum_list_append)
  then show "sum_list (map lc_n (topN items n)) = sum_list (map lc_n items)"
    by (simp add: topN_def Let_def sum_add_to_other fold_sum sum_sort)
  have "length (add_to_other r cs) \<le> Suc (length cs)" for r cs by (induction cs) auto
  from this [of _ "take n ?s"] show "length (topN items n) \<le> Suc n"
    by (auto simp: topN_def Let_def intro: order_trans)
qed

lemma topN_order:
  assumes "mset items = mset items2" and "inj_on label_key (set items)"
  shows "topN items n = topN items2 n"
proof -
  have "sort_key label_key items = sort_key label_key items2"
    using sort_key_inj_key_eq [of items "sort_key label_key items2" label_key] assms by simp
  then show ?thesis by (simp add: topN_def)
qed

section \<open>Curves never fall\<close>

lemma curve_walk_sorted:
  "baseline \<le> running \<or> running = 0 \<Longrightarrow>
   sorted (curve_walk pts baseline running js) \<and> length (curve_walk pts baseline running js) = length js \<and>
   (\<forall>x \<in> set (curve_walk pts baseline running js). (if running < baseline then 0 else running - baseline) \<le> x)"
proof (induction js arbitrary: running)
  case (Cons i js)
  define r1 where "r1 = (case pts i of Some v \<Rightarrow> if v > running then v else running | None \<Rightarrow> running)"
  define r2 where "r2 = (if r1 < baseline then baseline else r1)"
  have b: "baseline \<le> r2" "running \<le> r1" "r1 \<le> r2" by (auto simp: r1_def r2_def split: option.splits)
  then have "\<not> r2 < baseline" by (simp add: not_less)
  with Cons.IH [of r2] b have ih: "sorted (curve_walk pts baseline r2 js)" "length (curve_walk pts baseline r2 js) = length js"
    "\<forall>x \<in> set (curve_walk pts baseline r2 js). r2 - baseline \<le> x" by auto
  have le: "(if running < baseline then 0 else running - baseline) \<le> r2 - baseline"
  proof (cases "running < baseline")
    case False
    then have "uint baseline \<le> uint running" "uint running \<le> uint r2"
      using order_trans [OF b(2,3)] by (simp_all add: word_le_def word_less_def)
    then have "uint (running - baseline) \<le> uint (r2 - baseline)"
      using uint_sub_lem [of baseline running] uint_sub_lem [of baseline r2] by simp
    then have "running - baseline \<le> r2 - baseline" by (simp add: word_le_def)
    with False show ?thesis by simp
  qed simp
  have "curve_walk pts baseline running (i # js) = (r2 - baseline) # curve_walk pts baseline r2 js"
    by (simp add: r1_def r2_def Let_def)
  with ih le show ?case by (auto intro: order_trans)
qed simp

text \<open>A release's curve is monotonic whatever the counter did (revisions downwards, gaps in the
  polling), has one point per day up to the horizon, and its value at the horizon is at most its
  total.\<close>
theorem curve_monotone:
  "case release_curve tag r of None \<Rightarrow> cv_last r = 0
   | Some c \<Rightarrow> sorted (rc_series c) \<and> length (rc_series c) = min 31 (Suc (cv_last r)) \<and> rc_at_horizon c \<le> rc_total c"
proof (cases "cv_last r = 0")
  case False
  let ?b = "the_default 0 (cv_pts r 0)"
  let ?s = "curve_walk (cv_pts r) ?b 0 [0..<Suc (cv_last r)]"
  have s: "sorted ?s" "length ?s = Suc (cv_last r)"
    using curve_walk_sorted [of ?b 0 "cv_pts r" "[0..<Suc (cv_last r)]"] by (simp_all del: upt_Suc)
  have "?s ! curveHorizon \<le> last ?s" if "curveHorizon \<le> cv_last r"
    using sorted_nth_mono [OF s(1), of curveHorizon "cv_last r"] that s(2) last_conv_nth [of ?s] by force
  with False s show ?thesis
    by (auto simp: release_curve_def Let_def sorted_wrt_take curveHorizon_def simp del: upt_Suc)
qed (simp add: release_curve_def)

end
