(* ===== verification/Html.thy ===== *)
theory Html
  imports GoFacts
begin

text \<open>
  What a rendered page is to a browser, as far as the statistics pages use it: a tokenizer that
  follows tags, attribute values, raw text of style and script elements and the stack of open
  elements. A page is well formed when it ends outside every tag with every element closed.
  The theory also has the two ways a piece of text can be harmless: \<open>quiet\<close> text contains none of the
  four characters that end or begin markup, a \<open>nested\<close> fragment leaves the tokenizer as it found it.
\<close>

section \<open>The tokenizer\<close>

datatype hmode = HText | HTag string | HAttrs string bool | HDq string | HSq string
  | HRaw string | HRawEnd string string | HBad

type_synonym hstate = "hmode \<times> string list"

definition void_elements :: "string list" where
  "void_elements = [''!doctype'', ''meta'', ''br'']"

definition raw_elements :: "string list" where
  "raw_elements = [''style'', ''script'']"

text \<open>The end of a tag: its name, and whether a slash stood before the bracket.\<close>

fun tag_end :: "string \<Rightarrow> bool \<Rightarrow> string list \<Rightarrow> hstate" where
  "tag_end nm sl st =
     (case nm of
        [] \<Rightarrow> (HBad, st)
      | c # rest \<Rightarrow>
          if c = slash then (case st of t # ts \<Rightarrow> if t = rest then (HText, ts) else (HBad, st) | [] \<Rightarrow> (HBad, st))
          else if sl \<or> nm \<in> set void_elements then (HText, st)
          else if nm \<in> set raw_elements then (HRaw nm, nm # st)
          else (HText, nm # st))"

fun hstep :: "hstate \<Rightarrow> char \<Rightarrow> hstate" where
  "hstep (HText, st) c = (if c = CHR ''<'' then (HTag [], st) else (HText, st))"
| "hstep (HTag nm, st) c =
     (if c = CHR ''>'' then tag_end nm False st
      else if c = CHR '' '' then (HAttrs nm False, st)
      else if c = CHR ''<'' \<or> c = CHR 0x22 \<or> c = CHR 0x27 then (HBad, st)
      else (HTag (nm @ [c]), st))"
| "hstep (HAttrs nm sl, st) c =
     (if c = CHR ''>'' then tag_end nm sl st
      else if c = CHR 0x22 then (HDq nm, st)
      else if c = CHR 0x27 then (HSq nm, st)
      else if c = CHR ''<'' then (HBad, st)
      else (HAttrs nm (c = slash), st))"
| "hstep (HDq nm, st) c = (if c = CHR 0x22 then (HAttrs nm False, st) else (HDq nm, st))"
| "hstep (HSq nm, st) c = (if c = CHR 0x27 then (HAttrs nm False, st) else (HSq nm, st))"
| "hstep (HRaw nm, st) c = (if c = CHR ''<'' then (HRawEnd nm [], st) else (HRaw nm, st))"
| "hstep (HRawEnd nm acc, st) c =
     (if c = CHR ''>'' \<and> acc = slash # nm then (HText, tl st)
      else if c = CHR ''<'' then (HRawEnd nm [], st)
      else if has_prefix (slash # nm) (acc @ [c]) then (HRawEnd nm (acc @ [c]), st)
      else (HRaw nm, st))"
| "hstep (HBad, st) c = (HBad, st)"

definition hrun :: "string \<Rightarrow> hstate \<Rightarrow> hstate" where
  "hrun s q = foldl hstep q s"

definition well_formed :: "string \<Rightarrow> bool" where
  "well_formed page \<longleftrightarrow> hrun page (HText, []) = (HText, [])"

section \<open>Harmless text\<close>

definition is_delim :: "char \<Rightarrow> bool" where
  "is_delim c \<longleftrightarrow> c = CHR ''<'' \<or> c = CHR ''>'' \<or> c = CHR 0x22 \<or> c = CHR 0x27"

definition delims :: "string \<Rightarrow> string" where
  "delims s = filter is_delim s"

definition quiet :: "string \<Rightarrow> bool" where
  "quiet s \<longleftrightarrow> delims s = []"

definition single_quote_free :: "string \<Rightarrow> bool" where
  "single_quote_free s \<longleftrightarrow> CHR 0x27 \<notin> set s"

definition nested :: "string \<Rightarrow> bool" where
  "nested s \<longleftrightarrow> (\<forall>st. hrun s (HText, st) = (HText, st))"

section \<open>Facts\<close>

lemma hrun_Nil [simp]: "hrun [] q = q"
  by (simp add: hrun_def)

lemma hrun_Cons [simp]: "hrun (c # s) q = hrun s (hstep q c)"
  by (simp add: hrun_def)

lemma hrun_append [simp]: "hrun (s @ t) q = hrun t (hrun s q)"
  by (simp add: hrun_def)

lemma delims_Nil [simp]: "delims [] = []"
  by (simp add: delims_def)

lemma delims_append [simp]: "delims (s @ t) = delims s @ delims t"
  by (simp add: delims_def)

lemma delims_Cons: "delims (c # s) = (if is_delim c then c # delims s else delims s)"
  by (simp add: delims_def)

lemma delims_concat [simp]: "delims (concat ss) = concat (map delims ss)"
  by (induction ss) simp_all

lemma quiet_Nil [simp]: "quiet []"
  by (simp add: quiet_def)

lemma quiet_append [simp]: "quiet (s @ t) \<longleftrightarrow> quiet s \<and> quiet t"
  by (simp add: quiet_def)

lemma quiet_Cons [simp]: "quiet (c # s) \<longleftrightarrow> \<not> is_delim c \<and> quiet s"
  by (simp add: quiet_def delims_Cons)

lemma quiet_concat: "(\<And>s. s \<in> set ss \<Longrightarrow> quiet s) \<Longrightarrow> quiet (concat ss)"
  by (induction ss) simp_all

lemma quiet_delims: "quiet s \<Longrightarrow> delims s = []"
  by (simp add: quiet_def)

lemma quiet_iff: "quiet s \<longleftrightarrow> (\<forall>c\<in>set s. \<not> is_delim c)"
  by (auto simp: quiet_def delims_def filter_empty_conv)

lemma quiet_escape [simp]: "quiet (html_escape s)"
  using html_escape_safe [of s] by (auto simp: quiet_iff is_delim_def)

lemma quiet_tok:
  "quiet s \<Longrightarrow> hrun s (HText, st) = (HText, st)"
  "quiet s \<Longrightarrow> hrun s (HDq nm, st) = (HDq nm, st)"
  "quiet s \<Longrightarrow> hrun s (HSq nm, st) = (HSq nm, st)"
  by (induction s) (auto simp: is_delim_def)

lemma sq_free_run: "single_quote_free s \<Longrightarrow> hrun s (HSq nm, st) = (HSq nm, st)"
  by (induction s) (auto simp: single_quote_free_def)

lemma sq_free_simps [simp]:
  "single_quote_free []" "single_quote_free (c # s) \<longleftrightarrow> c \<noteq> CHR 0x27 \<and> single_quote_free s"
  "single_quote_free (s @ t) \<longleftrightarrow> single_quote_free s \<and> single_quote_free t"
  by (auto simp: single_quote_free_def)

lemma sq_free_concat: "(\<And>s. s \<in> set ss \<Longrightarrow> single_quote_free s) \<Longrightarrow> single_quote_free (concat ss)"
  by (induction ss) simp_all

lemma sq_free_quiet: "quiet s \<Longrightarrow> single_quote_free s"
  by (auto simp: quiet_iff single_quote_free_def is_delim_def)

lemma nested_run: "nested s \<Longrightarrow> hrun s (HText, st) = (HText, st)"
  by (simp add: nested_def)

lemma nested_Nil [simp]: "nested []"
  by (simp add: nested_def)

lemma nested_append [intro]: "nested s \<Longrightarrow> nested t \<Longrightarrow> nested (s @ t)"
  by (simp add: nested_def)

lemma nested_concat: "(\<And>s. s \<in> set ss \<Longrightarrow> nested s) \<Longrightarrow> nested (concat ss)"
  by (induction ss) (auto simp: nested_def)

lemma nested_concat_map: "(\<And>x. x \<in> set xs \<Longrightarrow> nested (f x)) \<Longrightarrow> nested (concat (map f xs))"
  by (rule nested_concat) auto

lemma quiet_concat_map: "(\<And>x. x \<in> set xs \<Longrightarrow> quiet (f x)) \<Longrightarrow> quiet (concat (map f xs))"
  by (rule quiet_concat) auto

lemma quiet_nested: "quiet s \<Longrightarrow> nested s"
  by (simp add: nested_def quiet_tok)

text \<open>Raw text without a left angle bracket is passed over.\<close>

lemma raw_run: "CHR ''<'' \<notin> set s \<Longrightarrow> hrun s (HRaw nm, st) = (HRaw nm, st)"
  by (induction s) auto

lemma tag_end_open [simp]:
  "tag_end (c # nm) sl st =
     (if c = slash then (case st of t # ts \<Rightarrow> if t = nm then (HText, ts) else (HBad, st) | [] \<Rightarrow> (HBad, st))
      else if sl \<or> c # nm \<in> set void_elements then (HText, st)
      else if c # nm \<in> set raw_elements then (HRaw (c # nm), (c # nm) # st)
      else (HText, (c # nm) # st))"
  by simp

lemmas delims_eval = delims_Cons is_delim_def

lemmas html_defs = void_elements_def raw_elements_def is_delim_def

section \<open>An element around a fragment\<close>

lemma example_page: "well_formed ''<!doctype html><p class=x>a &amp; b</p><br>''"
  by (simp add: well_formed_def html_defs)

lemma example_injection: "\<not> well_formed (''<p>'' @ ''</p><script>'' @ ''</p>'')"
  by (simp add: well_formed_def html_defs has_prefix_def)

end
