(* ===== verification/RenderKit.thy ===== *)
theory RenderKit
  imports Stats Html "HOL-Library.Monad_Syntax"
begin

text \<open>
  What the two statistics pages share (\<open>stats_render.go\<close> and the end of \<open>stats.go\<close> in \<open>cmd/proxy\<close> and
  \<open>cmd/releases\<close>): number formatting, the geometry of a panel, the pieces of SVG and the little
  helpers. Floating-point operations and the formatting of a float are a parameter; an index out of
  range is \<open>None\<close>, the panic it is in the code.
\<close>

section \<open>Floating point as the renderer uses it\<close>

record 'f rfloats =
  rf :: "'f floats"
  r_sub :: "'f \<Rightarrow> 'f \<Rightarrow> 'f"
  r_mul :: "'f \<Rightarrow> 'f \<Rightarrow> 'f"
  r_le :: "'f \<Rightarrow> 'f \<Rightarrow> bool"
  r_maximum :: "'f \<Rightarrow> 'f \<Rightarrow> 'f"
  r_round :: "'f \<Rightarrow> 'f"
  r_dec :: "nat \<Rightarrow> nat \<Rightarrow> 'f"
  r_trunc :: "'f \<Rightarrow> u64"
  r_fix :: "nat \<Rightarrow> 'f \<Rightarrow> string"
  r_short :: "'f \<Rightarrow> string"
  r_g2 :: "'f \<Rightarrow> string"

text \<open>\<open>strconv\<close> and \<open>fmt\<close> print a float with digits, letters, a sign and a point.\<close>

definition number_char :: "char \<Rightarrow> bool" where
  "number_char c \<longleftrightarrow> is_digit c \<or> is_lower c \<or> is_upper c \<or> c \<in> set ''+-.''"

definition formats_ok :: "'f rfloats \<Rightarrow> bool" where
  "formats_ok F \<longleftrightarrow> (\<forall>n x. list_all number_char (r_fix F n x)) \<and> (\<forall>x. list_all number_char (r_short F x))
     \<and> (\<forall>x. list_all number_char (r_g2 F x))"

definition whole :: "'f rfloats \<Rightarrow> nat \<Rightarrow> 'f" where
  "whole F n = f_nat (rf F) n"

definition toFloats :: "'f rfloats \<Rightarrow> u64 list \<Rightarrow> 'f list" where
  "toFloats F v = map (f_u64 (rf F)) v"

definition anyPositive :: "'f rfloats \<Rightarrow> 'f list \<Rightarrow> bool" where
  "anyPositive F v = list_ex (\<lambda>x. f_less (rf F) (f_zero (rf F)) x) v"

definition maxOf :: "'f rfloats \<Rightarrow> 'f list \<Rightarrow> 'f" where
  "maxOf F v = fold (\<lambda>x m. if f_less (rf F) m x then x else m) v (f_zero (rf F))"

definition smoothOne :: "'f rfloats \<Rightarrow> 'f list \<Rightarrow> nat \<Rightarrow> 'f list" where
  "smoothOne F vals win0 =
     (let win = max 1 win0 in
      map (\<lambda>i. let lo = i + 1 - win
               in f_div (rf F) (fold (\<lambda>v s. f_add (rf F) s v) (take (i + 1 - lo) (drop lo vals)) (f_zero (rf F)))
                    (whole F (i + 1 - lo))) [0..<length vals])"

section \<open>Numbers as text\<close>

definition trimZero :: "string \<Rightarrow> string" where
  "trimZero s = trim_suffix s ''.0''"

definition u64_str :: "u64 \<Rightarrow> string" where
  "u64_str n = nat_str (unat n)"

definition fmtCount :: "'f rfloats \<Rightarrow> u64 \<Rightarrow> string" where
  "fmtCount F n =
     (if n \<ge> 1000000 then trimZero (r_fix F 1 (f_div (rf F) (f_u64 (rf F) n) (whole F 1000000))) @ ''M''
      else if n \<ge> 1000 then trimZero (r_fix F 1 (f_div (rf F) (f_u64 (rf F) n) (whole F 1000))) @ ''k''
      else u64_str n)"

fun fmt_units :: "'f rfloats \<Rightarrow> string list \<Rightarrow> 'f \<Rightarrow> string" where
  "fmt_units F [] v = r_fix F 1 v @ '' PiB''"
| "fmt_units F (unit # us) v =
     (if f_less (rf F) v (whole F 1024)
      then (if unit = ''B'' then r_fix F 0 v @ '' B'' else r_fix F 1 v @ '' '' @ unit)
      else fmt_units F us (f_div (rf F) v (whole F 1024)))"

definition fmtBytes :: "'f rfloats \<Rightarrow> u64 \<Rightarrow> string" where
  "fmtBytes F n = fmt_units F [''B'', ''KiB'', ''MiB'', ''GiB'', ''TiB''] (f_u64 (rf F) n)"

definition pct :: "'f rfloats \<Rightarrow> u64 \<Rightarrow> u64 \<Rightarrow> string" where
  "pct F part most =
     (if most = 0 then ''0%''
      else r_fix F 0 (f_div (rf F) (r_mul F (whole F 100) (f_u64 (rf F) part)) (f_u64 (rf F) most)) @ ''%'')"

definition fmtNum :: "'f rfloats \<Rightarrow> 'f \<Rightarrow> string" where
  "fmtNum F v = r_short F (f_div (rf F) (r_round F (r_mul F v (whole F 100))) (whole F 100))"

section \<open>Geometry\<close>

definition panelW :: nat where "panelW = 340"
definition panelH :: nat where "panelH = 96"
definition padTop :: nat where "padTop = 8"
definition padBot :: nat where "padBot = 14"

text \<open>\<open>x\<close> of point \<open>i\<close> of \<open>n\<close>.\<close>

definition geom_x :: "'f rfloats \<Rightarrow> nat \<Rightarrow> nat \<Rightarrow> 'f" where
  "geom_x F n i =
     (if n \<le> 1 then whole F 2
      else f_add (rf F) (whole F 2)
             (f_div (rf F) (r_mul F (whole F i) (whole F (panelW - 6))) (whole F (n - 1))))"

definition geom_y :: "'f rfloats \<Rightarrow> 'f \<Rightarrow> 'f \<Rightarrow> 'f" where
  "geom_y F v0 max0 =
     (let mx = (if r_le F max0 (f_zero (rf F)) then f_one (rf F) else max0);
          v = (if f_less (rf F) mx v0 then mx else v0);
          ph = whole F (panelH - padTop - padBot)
      in r_sub F (f_add (rf F) (whole F padTop) ph) (r_mul F (f_div (rf F) v mx) ph))"

definition geom_base :: "'f rfloats \<Rightarrow> 'f" where
  "geom_base F = geom_y F (f_zero (rf F)) (f_one (rf F))"

section \<open>Pieces of SVG\<close>

text \<open>\<open>%.1f,%.1f\<close>: a point.\<close>

definition point :: "'f rfloats \<Rightarrow> 'f \<Rightarrow> 'f \<Rightarrow> string" where
  "point F x y = r_fix F 1 x @ '','' @ r_fix F 1 y"

definition svgHead :: "string \<Rightarrow> string" where
  \<open>svgHead aria =
     ''<svg class="spark" viewBox="0 0 '' @ nat_str panelW @ '' '' @ nat_str panelH @
     ''" preserveAspectRatio="none" role="img" aria-label="'' @ html_escape aria @ ''">''\<close>

definition svgTail :: "'f rfloats \<Rightarrow> nat \<Rightarrow> string" where
  \<open>svgTail F n =
     ''<line class="axis" x1="'' @ r_fix F 1 (geom_x F n 0) @ ''" y1="'' @ r_fix F 1 (geom_base F) @
     ''" x2="'' @ r_fix F 1 (geom_x F n (n - 1)) @ ''" y2="'' @ r_fix F 1 (geom_base F) @ ''"/>'' @
     ''<line class="cross" x1="0" y1="'' @ nat_str padTop @ ''" x2="0" y2="'' @ r_fix F 1 (geom_base F) @
     ''" style="display:none"/></svg>''\<close>

definition points :: "'f rfloats \<Rightarrow> nat \<Rightarrow> string \<Rightarrow> string \<Rightarrow> 'f list \<Rightarrow> 'f \<Rightarrow> string" where
  "points F n before after vals mx =
     concat (map (\<lambda>(i, v). before @ point F (geom_x F n i) (geom_y F v mx) @ after) (enumerate 0 vals))"

definition polygon :: "'f rfloats \<Rightarrow> nat \<Rightarrow> 'f list \<Rightarrow> 'f \<Rightarrow> string \<Rightarrow> string" where
  \<open>polygon F n vals mx class =
     (if \<not> anyPositive F vals then []
      else ''<polygon class="'' @ class @ ''" points="'' @ point F (geom_x F n 0) (geom_base F) @ '' '' @
           points F n [] '' '' vals mx @ point F (geom_x F n (n - 1)) (geom_base F) @ ''"/>'')\<close>

definition polyline :: "'f rfloats \<Rightarrow> nat \<Rightarrow> 'f list \<Rightarrow> 'f \<Rightarrow> string \<Rightarrow> string" where
  \<open>polyline F n vals mx class =
     (case vals of
        [] \<Rightarrow> []
      | v # vs \<Rightarrow>
          ''<path class="'' @ class @ ''" d="M'' @ point F (geom_x F n 0) (geom_y F v mx) @
          points F n ''L'' [] vals mx @ ''"/>'')\<close>

section \<open>Attribute data\<close>

text \<open>One row per day; a column shorter than the axis is an index out of range.\<close>

definition json_row :: "'f rfloats \<Rightarrow> 'f list list \<Rightarrow> nat \<Rightarrow> string \<Rightarrow> string" where
  \<open>json_row F cols i d = ''["'' @ d @ ''"'' @ concat (map (\<lambda>c. '','' @ fmtNum F (c ! i)) cols) @ '']''\<close>

definition seriesJSON :: "'f rfloats \<Rightarrow> string list \<Rightarrow> 'f list list \<Rightarrow> string option" where
  \<open>seriesJSON F days cols =
     (if list_all (\<lambda>c. length days \<le> length c) cols
      then Some (''['' @ join_with '','' (map (\<lambda>(i, d). json_row F cols i d) (enumerate 0 days)) @ '']'')
      else None)\<close>

definition kpi :: "string \<Rightarrow> string \<Rightarrow> string" where
  \<open>kpi label v = ''<div class="kpi"><div class="k">'' @ label @ ''</div><div class="v">'' @ v @ ''</div></div>''\<close>

definition view_link :: "int \<Rightarrow> int \<Rightarrow> string" where
  \<open>view_link current v =
     (let label = int_str v @ ''d'' in
      if v = current then ''<span class="on" aria-current="page">'' @ label @ ''</span>''
      else ''<a href="?days='' @ int_str v @ ''">'' @ label @ ''</a>'')\<close>

definition viewSwitch :: "int list \<Rightarrow> int \<Rightarrow> string" where
  \<open>viewSwitch views current =
     (if length views < 2 then []
      else ''<nav class="views">'' @
           concat (map (view_link current) views) @ ''</nav>'')\<close>

text \<open>The insertion sort of the renderer: \<open>lt a b\<close> lets \<open>a\<close> pass \<open>b\<close> on the way to the front. The
  sorted part is kept with its last element first.\<close>

fun sink :: "('a \<Rightarrow> 'a \<Rightarrow> bool) \<Rightarrow> 'a \<Rightarrow> 'a list \<Rightarrow> 'a list" where
  "sink lt x [] = [x]"
| "sink lt x (y # ys) = (if lt x y then y # sink lt x ys else x # y # ys)"

definition insertion_sort :: "('a \<Rightarrow> 'a \<Rightarrow> bool) \<Rightarrow> 'a list \<Rightarrow> 'a list" where
  "insertion_sort lt xs = rev (fold (sink lt) xs [])"

section \<open>What a page is rendered with\<close>

record 'f page_env =
  pe_fl :: "'f rfloats"
  pe_day :: "int \<Rightarrow> string"
  pe_generated :: string
  pe_took :: string

abbreviation F_of :: "'f page_env \<Rightarrow> 'f rfloats" where "F_of E \<equiv> pe_fl E"

text \<open>The panels of a row, one after another; one panic ends the page.\<close>

definition all_of :: "string option list \<Rightarrow> string option" where
  "all_of os = map_option concat (those os)"

end
