(* ===== verification/PageAssets.thy ===== *)
theory PageAssets
  imports Html
begin

text \<open>
  The style sheets and scripts of the statistics pages, \<open>statsCSS\<close> and \<open>statsJS\<close> of
  \<open>cmd/proxy/stats_render.go\<close> and \<open>cmd/releases/stats_render.go\<close>, and that a browser reads them to the
  end: no style sheet opens a tag, and no script contains its own end tag.
\<close>

definition unlines :: "string list \<Rightarrow> string" where
  "unlines ls = concat (map (\<lambda>l. l @ [CHR 0x0A]) ls)"

definition statsCSS :: string where
  \<open>statsCSS = CHR 0x0A # unlines [
    ''.viz-root{color-scheme:light;'',
    '' --surface-1:#fcfcfb;--plane:#f9f9f7;--text-primary:#0b0b0b;--text-secondary:#52514e;'',
    '' --muted:#898781;--grid:#e1e0d9;--axis:#c3c2b7;--border:rgba(11,11,11,.10);'',
    '' --served:#2a78d6;--aborted:#eda100;--notfound:#898781;--err:#e34948;'',
    '' --band:#86b6ef;--errband:#ec8a8a;--ident:#1baf7a}'',
    ''@media (prefers-color-scheme:dark){:root:where(:not([data-theme="light"])) .viz-root{color-scheme:dark;'',
    '' --surface-1:#1a1a19;--plane:#0d0d0d;--text-primary:#fff;--text-secondary:#c3c2b7;'',
    '' --muted:#898781;--grid:#2c2c2a;--axis:#383835;--border:rgba(255,255,255,.10);'',
    '' --served:#3987e5;--aborted:#c98500;--notfound:#c3c2b7;--err:#d03b3b;'',
    '' --band:#256abf;--errband:#9c3232;--ident:#199e70}}'',
    '':root[data-theme="dark"] .viz-root{color-scheme:dark;'',
    '' --surface-1:#1a1a19;--plane:#0d0d0d;--text-primary:#fff;--text-secondary:#c3c2b7;'',
    '' --muted:#898781;--grid:#2c2c2a;--axis:#383835;--border:rgba(255,255,255,.10);'',
    '' --served:#3987e5;--aborted:#c98500;--notfound:#c3c2b7;--err:#d03b3b;'',
    '' --band:#256abf;--errband:#9c3232;--ident:#199e70}'',
    ''*{box-sizing:border-box}'',
    ''body{margin:0;font:14px/1.5 system-ui,-apple-system,"Segoe UI",sans-serif}'',
    ''.viz-root{background:var(--plane);color:var(--text-primary);min-height:100vh;padding:28px 20px 56px}'',
    ''.wrap{max-width:1160px;margin:0 auto}'',
    ''h1{font-size:20px;margin:0 0 4px;letter-spacing:-.01em}'',
    ''h2.sec{font-size:15px;margin:30px 0 12px;letter-spacing:-.01em}'',
    ''.sub{color:var(--text-secondary);margin:0 0 20px;font-size:13px}'',
    ''.sub code{font-size:12px}'',
    ''.head{display:flex;align-items:baseline;gap:14px;flex-wrap:wrap}'',
    ''.views{margin-left:auto;display:flex;gap:2px;background:var(--surface-1);'',
    '' border:1px solid var(--border);border-radius:8px;padding:2px}'',
    ''.views a,.views span{font-size:12.5px;padding:3px 10px;border-radius:6px;text-decoration:none;'',
    '' color:var(--text-secondary);line-height:1.4}'',
    ''.views a:hover{background:var(--grid);color:var(--text-primary)}'',
    ''.views .on{background:var(--served);color:#fff;font-weight:600}'',
    ''.kpis{display:flex;flex-wrap:wrap;gap:10px;margin-bottom:18px}'',
    ''.kpi{flex:1 1 150px;background:var(--surface-1);border:1px solid var(--border);border-radius:10px;padding:12px 14px}'',
    ''.kpi .k{color:var(--text-secondary);font-size:12px}'',
    ''.kpi .v{font-size:24px;font-weight:600;letter-spacing:-.02em;margin-top:2px}'',
    ''.legend{display:flex;flex-wrap:wrap;gap:14px;align-items:center;margin:0 0 14px;font-size:12.5px;color:var(--text-secondary)}'',
    ''.sw{display:inline-block;width:11px;height:11px;border-radius:3px;margin-right:6px;vertical-align:-1px}'',
    ''.hostrow{margin:0 0 20px}'',
    ''.rowhead{display:flex;flex-wrap:wrap;align-items:baseline;gap:8px;margin:0 2px 7px}'',
    ''.row3{display:grid;grid-template-columns:repeat(3,1fr);gap:12px}'',
    ''@media (max-width:820px){.row3{grid-template-columns:1fr}}'',
    ''.card{margin:0;background:var(--surface-1);border:1px solid var(--border);border-radius:10px;padding:10px 11px 9px}'',
    ''figcaption{display:flex;flex-wrap:wrap;align-items:baseline;gap:6px;margin-bottom:4px}'',
    ''.epname{font-size:12px;font-weight:600;color:var(--text-primary)}'',
    ''.hname{font-weight:600;font-size:13.5px}'',
    ''.hstat{margin-left:auto;color:var(--text-secondary);font-size:12px}'',
    ''.hstat b{color:var(--text-primary);font-weight:600}'',
    ''.tag{font-size:11px;color:var(--muted);border:1px solid var(--border);border-radius:20px;padding:1px 8px}'',
    ''.plot{position:relative}'',
    ''.spark{display:block;width:100%;height:96px}'',
    ''.a{stroke:var(--surface-1);stroke-width:.6;vector-effect:non-scaling-stroke}'',
    ''.s0{fill:var(--served)}.s1{fill:var(--aborted)}.s2{fill:var(--notfound)}.s3{fill:var(--err)}'',
    ''.band{fill:var(--band)}'',
    ''.card.fail .band{fill:var(--errband)}'',
    ''.card.fail .ln50{stroke:var(--err)}'',
    ''.ln50{fill:none;stroke:var(--served);stroke-width:1.6;vector-effect:non-scaling-stroke}'',
    ''.ln{fill:none;stroke-width:1.7;vector-effect:non-scaling-stroke}'',
    ''.c-ip{stroke:var(--served)}.c-bid{stroke:var(--ident)}'',
    ''.axis{stroke:var(--axis);stroke-width:1;vector-effect:non-scaling-stroke}'',
    ''.thr{stroke:var(--muted);stroke-width:1;stroke-dasharray:3 3;vector-effect:non-scaling-stroke}'',
    ''.swline{display:inline-block;width:14px;height:0;border-top:1px dashed var(--muted);margin-right:6px;vertical-align:3px}'',
    ''.cross{stroke:var(--text-secondary);stroke-width:1;vector-effect:non-scaling-stroke;opacity:.6}'',
    ''.brow{display:flex;align-items:center;gap:10px;padding:3px 0}'',
    ''.blab{flex:0 0 128px;font-size:12.5px;color:var(--text-secondary)}'',
    ''.btrack{flex:1;height:14px;background:var(--grid);border-radius:4px;overflow:hidden}'',
    ''.bfill{display:block;height:100%;background:var(--served);border-radius:4px}'',
    ''.bval{flex:0 0 78px;text-align:right;font-size:12.5px;font-variant-numeric:tabular-nums}'',
    ''.bsub{flex:0 0 92px;text-align:right;font-size:12px;color:var(--text-muted);font-variant-numeric:tabular-nums}'',
    ''.btail{padding:7px 0 1px;font-size:12px;color:var(--text-muted);border-top:1px solid var(--grid);margin-top:5px}'',
    ''.off{margin-left:6px;padding:0 5px;border-radius:9px;font-size:10.5px;font-weight:600;letter-spacing:.02em;'',
    ''     color:var(--err);border:1px solid var(--err);vertical-align:1px;white-space:nowrap}'',
    ''.tip{position:absolute;pointer-events:none;background:var(--surface-1);border:1px solid var(--border);'',
    '' border-radius:8px;padding:6px 9px;font-size:12px;box-shadow:0 4px 14px rgba(0,0,0,.14);'',
    '' white-space:nowrap;z-index:5;font-variant-numeric:tabular-nums;line-height:1.45}'',
    ''.tip i{display:inline-block;width:8px;height:8px;border-radius:2px;margin-right:5px}'',
    ''.foot{color:var(--muted);font-size:11.5px;margin-top:20px;max-width:74ch}'']\<close>

definition statsJS :: string where
  \<open>statsJS = CHR 0x0A # unlines [
    ''document.querySelectorAll('.card[data-series]').forEach(card=>{'',
    '' const data=JSON.parse(card.dataset.series);'',
    '' const names=JSON.parse(card.dataset.labels), vars=JSON.parse(card.dataset.vars);'',
    '' const svg=card.querySelector('svg'), tip=card.querySelector('.tip');'',
    '' const cross=card.querySelector('.cross'), plot=card.querySelector('.plot');'',
    '' const vbW=svg.viewBox.baseVal.width;'',
    '' plot.addEventListener('pointermove',e=>{'',
    ''  const r=plot.getBoundingClientRect();'',
    ''  const f=Math.min(1,Math.max(0,(e.clientX-r.left)/r.width));'',
    ''  const i=Math.round(f*(data.length-1)), row=data[i];'',
    ''  let h='<b>'+row[0]+'</b>';'',
    ''  for(let k=0;k<names.length;k++)'',
    ''   h+='<br><i style="background:var('+vars[k]+')"></i>'+names[k]+' '+row[k+1].toLocaleString('en');'',
    ''  tip.innerHTML=h; tip.hidden=false;'',
    ''  const x=(i/(data.length-1))*r.width;'',
    ''  tip.style.left=Math.min(r.width-tip.offsetWidth-4,Math.max(0,x-tip.offsetWidth/2))+'px';'',
    ''  tip.style.top='-6px';'',
    ''  cross.style.display='' @ [CHR 0x27, CHR 0x27] @ ''; const vx=(i/(data.length-1))*vbW;'',
    ''  cross.setAttribute('x1',vx); cross.setAttribute('x2',vx);'',
    '' });'',
    '' plot.addEventListener('pointerleave',()=>{tip.hidden=true;cross.style.display='none'});'',
    ''});'']\<close>

definition rel_statsCSS :: string where
  \<open>rel_statsCSS = CHR 0x0A # unlines [
    ''.viz-root{color-scheme:light;'',
    '' --surface-1:#fcfcfb;--plane:#f9f9f7;--text-primary:#0b0b0b;--text-secondary:#52514e;'',
    '' --muted:#898781;--grid:#e1e0d9;--axis:#c3c2b7;--border:rgba(11,11,11,.10);'',
    '' --served:#2a78d6;--band:#86b6ef;--ident:#1baf7a;--warn:#eda100;--err:#e34948;'',
    '' --r0:#2a78d6;--r1:#1baf7a;--r2:#eda100;--r3:#e34948;--r4:#898781}'',
    ''@media (prefers-color-scheme:dark){:root:where(:not([data-theme="light"])) .viz-root{color-scheme:dark;'',
    '' --surface-1:#1a1a19;--plane:#0d0d0d;--text-primary:#fff;--text-secondary:#c3c2b7;'',
    '' --muted:#898781;--grid:#2c2c2a;--axis:#383835;--border:rgba(255,255,255,.10);'',
    '' --served:#3987e5;--band:#256abf;--ident:#199e70;--warn:#c98500;--err:#d03b3b;'',
    '' --r0:#3987e5;--r1:#199e70;--r2:#c98500;--r3:#d03b3b;--r4:#c3c2b7}}'',
    '':root[data-theme="dark"] .viz-root{color-scheme:dark;'',
    '' --surface-1:#1a1a19;--plane:#0d0d0d;--text-primary:#fff;--text-secondary:#c3c2b7;'',
    '' --muted:#898781;--grid:#2c2c2a;--axis:#383835;--border:rgba(255,255,255,.10);'',
    '' --served:#3987e5;--band:#256abf;--ident:#199e70;--warn:#c98500;--err:#d03b3b;'',
    '' --r0:#3987e5;--r1:#199e70;--r2:#c98500;--r3:#d03b3b;--r4:#c3c2b7}'',
    ''*{box-sizing:border-box}'',
    ''body{margin:0;font:14px/1.5 system-ui,-apple-system,"Segoe UI",sans-serif}'',
    ''.viz-root{background:var(--plane);color:var(--text-primary);min-height:100vh;padding:28px 20px 56px}'',
    ''.wrap{max-width:1160px;margin:0 auto}'',
    ''h1{font-size:20px;margin:0 0 4px;letter-spacing:-.01em}'',
    ''h2.sec{font-size:15px;margin:30px 0 4px;letter-spacing:-.01em}'',
    ''.sub{color:var(--text-secondary);margin:0 0 18px;font-size:13px;max-width:88ch}'',
    ''.head{display:flex;align-items:baseline;gap:14px;flex-wrap:wrap}'',
    ''.views{margin-left:auto;display:flex;gap:2px;background:var(--surface-1);'',
    '' border:1px solid var(--border);border-radius:8px;padding:2px}'',
    ''.views a,.views span{font-size:12.5px;padding:3px 10px;border-radius:6px;text-decoration:none;'',
    '' color:var(--text-secondary);line-height:1.4}'',
    ''.views a:hover{background:var(--grid);color:var(--text-primary)}'',
    ''.views .on{background:var(--served);color:#fff;font-weight:600}'',
    ''.kpis{display:flex;flex-wrap:wrap;gap:10px;margin-bottom:18px}'',
    ''.kpi{flex:1 1 150px;background:var(--surface-1);border:1px solid var(--border);border-radius:10px;padding:12px 14px}'',
    ''.kpi .k{color:var(--text-secondary);font-size:12px}'',
    ''.kpi .v{font-size:24px;font-weight:600;letter-spacing:-.02em;margin-top:2px}'',
    ''.legend{display:flex;flex-wrap:wrap;gap:14px;align-items:center;margin:0 0 12px;font-size:12.5px;color:var(--text-secondary)}'',
    ''.sw{display:inline-block;width:11px;height:11px;border-radius:3px;margin-right:6px;vertical-align:-1px}'',
    ''.swl{display:inline-block;width:14px;height:0;border-top:2px solid var(--ident);margin-right:6px;vertical-align:4px}'',
    ''.row2{display:grid;grid-template-columns:repeat(2,1fr);gap:12px}'',
    ''.row3{display:grid;grid-template-columns:repeat(3,1fr);gap:12px}'',
    ''@media (max-width:820px){.row2,.row3{grid-template-columns:1fr}}'',
    ''.card{margin:0 0 12px;background:var(--surface-1);border:1px solid var(--border);border-radius:10px;padding:10px 12px 10px}'',
    ''figcaption{display:flex;flex-wrap:wrap;align-items:baseline;gap:6px;margin-bottom:6px}'',
    ''.epname{font-size:12.5px;font-weight:600;color:var(--text-primary)}'',
    ''.hstat{margin-left:auto;color:var(--text-secondary);font-size:12px;font-variant-numeric:tabular-nums}'',
    ''.hstat b{color:var(--text-primary);font-weight:600}'',
    ''.plot{position:relative}'',
    ''.spark{display:block;width:100%;height:96px}'',
    ''.band{fill:var(--band)}'',
    ''.ln{fill:none;stroke-width:1.8;vector-effect:non-scaling-stroke}'',
    ''.c-ip{stroke:var(--ident)}'',
    ''.c-gh{stroke:var(--warn)}'',
    ''.c-r0{stroke:var(--r0)}.c-r1{stroke:var(--r1)}.c-r2{stroke:var(--r2)}'',
    ''.c-r3{stroke:var(--r3)}.c-r4{stroke:var(--r4)}'',
    ''.thr{stroke:var(--muted);stroke-width:1;stroke-dasharray:3 3;vector-effect:non-scaling-stroke}'',
    ''.tall{height:150px}'',
    ''.axis{stroke:var(--axis);stroke-width:1;vector-effect:non-scaling-stroke}'',
    ''.cross{stroke:var(--text-secondary);stroke-width:1;vector-effect:non-scaling-stroke;opacity:.6}'',
    ''.brow{display:flex;align-items:center;gap:10px;padding:2.5px 0}'',
    ''.blab{flex:0 0 128px;font-size:12.5px;color:var(--text-secondary);overflow:hidden;'',
    '' text-overflow:ellipsis;white-space:nowrap}'',
    ''.blab.wide{flex-basis:290px}'',
    ''.btrack{flex:1;height:14px;background:var(--grid);border-radius:4px;overflow:hidden}'',
    ''.bfill{display:block;height:100%;background:var(--served);border-radius:4px}'',
    ''.bval{flex:0 0 104px;text-align:right;font-size:12.5px;font-variant-numeric:tabular-nums;color:var(--text-secondary)}'',
    ''.bval b{color:var(--text-primary);font-weight:600}'',
    ''.empty{color:var(--muted);font-size:12.5px;padding:6px 0}'',
    ''.tip{position:absolute;pointer-events:none;background:var(--surface-1);border:1px solid var(--border);'',
    '' border-radius:8px;padding:6px 9px;font-size:12px;box-shadow:0 4px 14px rgba(0,0,0,.14);'',
    '' white-space:nowrap;z-index:5;font-variant-numeric:tabular-nums;line-height:1.45}'',
    ''.tip i{display:inline-block;width:8px;height:8px;border-radius:2px;margin-right:5px}'',
    ''.foot{color:var(--muted);font-size:11.5px;margin-top:22px;max-width:80ch}'']\<close>

definition rel_statsJS :: string where
  \<open>rel_statsJS = CHR 0x0A # unlines [
    ''document.querySelectorAll('.card[data-series]').forEach(card=>{'',
    '' const data=JSON.parse(card.dataset.series);'',
    '' const names=JSON.parse(card.dataset.labels), vars=JSON.parse(card.dataset.vars);'',
    '' const svg=card.querySelector('svg'), tip=card.querySelector('.tip');'',
    '' const cross=card.querySelector('.cross'), plot=card.querySelector('.plot');'',
    '' if(!data.length) return;'',
    '' const vbW=svg.viewBox.baseVal.width;'',
    '' plot.addEventListener('pointermove',e=>{'',
    ''  const r=plot.getBoundingClientRect();'',
    ''  const f=Math.min(1,Math.max(0,(e.clientX-r.left)/r.width));'',
    ''  const i=Math.round(f*(data.length-1)), row=data[i];'',
    ''  const frag=document.createDocumentFragment();'',
    ''  const hd=document.createElement('b'); hd.textContent=row[0]; frag.append(hd);'',
    ''  for(let k=0;k<names.length;k++){'',
    ''   frag.append(document.createElement('br'));'',
    ''   const sw=document.createElement('i'); sw.style.background='var('+vars[k]+')'; frag.append(sw);'',
    ''   frag.append(document.createTextNode(names[k]+' '+row[k+1].toLocaleString('en')));'',
    ''  }'',
    ''  tip.replaceChildren(frag); tip.hidden=false;'',
    ''  const x=(i/(data.length-1))*r.width;'',
    ''  tip.style.left=Math.min(r.width-tip.offsetWidth-4,Math.max(0,x-tip.offsetWidth/2))+'px';'',
    ''  tip.style.top='-6px';'',
    ''  cross.style.display='' @ [CHR 0x27, CHR 0x27] @ ''; const vx=(i/(data.length-1))*vbW;'',
    ''  cross.setAttribute('x1',vx); cross.setAttribute('x2',vx);'',
    '' });'',
    '' plot.addEventListener('pointerleave',()=>{tip.hidden=true;cross.style.display='none'});'',
    ''});'']\<close>

lemma unlines_raw: "list_all (list_all (\<lambda>c. c \<noteq> CHR ''<'')) ls \<Longrightarrow> CHR ''<'' \<notin> set (unlines ls)"
  by (auto simp: unlines_def list_all_iff)

lemma css_run: "hrun statsCSS (HRaw nm, st) = (HRaw nm, st)"
  unfolding statsCSS_def by (rule raw_run) (simp add: unlines_raw)

lemma rel_css_run: "hrun rel_statsCSS (HRaw nm, st) = (HRaw nm, st)"
  unfolding rel_statsCSS_def by (rule raw_run) (simp add: unlines_raw)

lemma js_run: "hrun statsJS (HRaw ''script'', st) = (HRaw ''script'', st)"
  by (simp add: statsJS_def unlines_def has_prefix_def)

lemma rel_js_run: "hrun rel_statsJS (HRaw ''script'', st) = (HRaw ''script'', st)"
  by (simp add: rel_statsJS_def unlines_def has_prefix_def)

end
