(* ===== verification/StatsRender.thy ===== *)
theory StatsRender
  imports RenderKit PageAssets
begin

text \<open>
  \<open>cmd/proxy/stats_render.go\<close>: the statistics page as a function of a snapshot. Strings are the
  text the code writes; \<open>None\<close> is the panic of an index out of range. The time stamps of the
  snapshot and the names of days are given as text.
\<close>

section \<open>Panels\<close>

text \<open>Four layers at once: the values of a day are a list of four.\<close>

definition smoothQuad :: "'f rfloats \<Rightarrow> 'f list list \<Rightarrow> nat \<Rightarrow> 'f list list" where
  "smoothQuad F vals win0 =
     (let win = max 1 win0 in
      map (\<lambda>i. let lo = i + 1 - win;
                   acc = fold (\<lambda>v s. map2 (f_add (rf F)) s v) (take (i + 1 - lo) (drop lo vals)) (replicate 4 (f_zero (rf F)))
               in map (\<lambda>a. f_div (rf F) a (whole F (i + 1 - lo))) acc) [0..<length vals])"

definition layer :: "nat \<Rightarrow> 'f list list \<Rightarrow> 'f list" where
  "layer k sm = map (\<lambda>v. v ! k) sm"

definition traffic_quad :: "'f rfloats \<Rightarrow> statusCounts \<Rightarrow> 'f list" where
  "traffic_quad F c = map (f_u64 (rf F))
     [st_served c, st_served c + st_aborted c, st_served c + st_aborted c + st_notfound c, st_total c]"

definition rare_ticks :: "'f rfloats \<Rightarrow> nat \<Rightarrow> ('f \<times> 'f) list \<Rightarrow> string" where
  \<open>rare_ticks F n raw =
     (let pos = f_less (rf F) (f_zero (rf F)); y1 = f_add (rf F) (geom_base F) (whole F 3);
          x = (\<lambda>i. r_sub F (geom_x F n i) (r_dec F 9 1))
      in if \<not> list_ex (\<lambda>(a, e). pos a \<or> pos e) raw then []
         else concat (map (\<lambda>(i, a, e).
           (if pos a then ''<rect class="s1" x="'' @ r_fix F 1 (x i) @ ''" y="'' @ r_fix F 1 y1 @ ''" width="1.8" height="2.6"/>'' else []) @
           (if pos e then ''<rect class="s3" x="'' @ r_fix F 1 (x i) @ ''" y="'' @ r_fix F 1 (f_add (rf F) y1 (r_dec F 36 1)) @
              ''" width="1.8" height="2.6"/>'' else [])) (enumerate 0 raw)))\<close>

definition trafficPanel :: "'f rfloats \<Rightarrow> statusCounts list \<Rightarrow> 'f \<Rightarrow> string \<Rightarrow> nat \<Rightarrow> string" where
  \<open>trafficPanel F series mx aria win =
     (let n = length series;
          raw = map (\<lambda>c. (f_u64 (rf F) (st_aborted c), f_u64 (rf F) (st_err5xx c))) series;
          sm = smoothQuad F (map (traffic_quad F) series) win
      in svgHead aria @
         concat (map (\<lambda>k. polygon F n (layer k sm) mx (''a s'' @ nat_str k)) [3, 2, 1, 0]) @
         rare_ticks F n raw @ svgTail F n)\<close>

definition threshold_line :: "'f rfloats \<Rightarrow> nat \<Rightarrow> 'f \<Rightarrow> 'f \<Rightarrow> string" where
  \<open>threshold_line F n threshold mx =
     (if f_less (rf F) (f_zero (rf F)) threshold \<and> r_le F threshold mx
      then (let y = geom_y F threshold mx in
            ''<line class="thr" x1="'' @ r_fix F 1 (geom_x F n 0) @ ''" y1="'' @ r_fix F 1 y @
            ''" x2="'' @ r_fix F 1 (geom_x F n (n - 1)) @ ''" y2="'' @ r_fix F 1 y @ ''"/>'')
      else [])\<close>

definition bandPanel :: "'f rfloats \<Rightarrow> ('f \<times> 'f) list \<Rightarrow> 'f \<Rightarrow> string \<Rightarrow> 'f \<Rightarrow> nat \<Rightarrow> string" where
  "bandPanel F pairs mx aria threshold win =
     (let n = length pairs; sm = smoothPairs (rf F) win pairs; lo = map fst sm; hi = map snd sm
      in svgHead aria @
         (if anyPositive F hi
          then polygon F n hi mx ''band'' @ polyline F n lo mx ''ln50'' @ threshold_line F n threshold mx
          else []) @ svgTail F n)"

text \<open>The scale starts at the largest smoothed value and is stretched to the threshold.\<close>

definition linesPanel :: "'f rfloats \<Rightarrow> 'f list list \<Rightarrow> string list \<Rightarrow> string \<Rightarrow> 'f \<Rightarrow> nat \<Rightarrow> (string \<times> 'f) option" where
  "linesPanel F sets classes aria threshold win =
     (case sets of
        [] \<Rightarrow> None
      | s0 # _ \<Rightarrow>
          if length classes < length sets then None
          else
            (let n = length s0; smoothed = map (\<lambda>s. smoothOne F s win) sets;
                 m0 = maxOf F (concat smoothed);
                 m1 = (if m0 = f_zero (rf F) then f_one (rf F) else m0);
                 mx = (if f_less (rf F) (f_zero (rf F)) threshold \<and> f_less (rf F) m1 threshold then threshold else m1)
             in Some (svgHead aria @
                  concat (map (\<lambda>(s, class). polyline F n s mx (''ln '' @ class)) (zip smoothed classes)) @
                  threshold_line F n threshold mx @ svgTail F n, mx)))"

section \<open>Cards\<close>

definition jsonStrings :: "string list \<Rightarrow> string" where
  \<open>jsonStrings items = ''['' @ join_with '','' (map (\<lambda>s. ''"'' @ s @ ''"'') items) @ '']''\<close>

definition statCard :: "string \<Rightarrow> string \<Rightarrow> string \<Rightarrow> string \<Rightarrow> string \<Rightarrow> string \<Rightarrow> string \<Rightarrow> string" where
  \<open>statCard title stat svg data labels vars extraClass =
     ''<figure class="card'' @ extraClass @ ''" data-series='' @ [CHR 0x27] @ data @ [CHR 0x27] @
     '' data-labels='' @ [CHR 0x27] @ labels @ [CHR 0x27] @ '' data-vars='' @ [CHR 0x27] @ vars @ [CHR 0x27] @ ''>'' @
     ''<figcaption><span class="epname">'' @ title @ ''</span><span class="hstat">'' @ stat @ ''</span></figcaption>'' @
     ''<div class="plot">'' @ svg @ ''<div class="tip" hidden></div></div></figure>''\<close>

definition swatch :: "string \<Rightarrow> string \<Rightarrow> string" where
  \<open>swatch cssVar label = ''<span><span class="sw" style="background:var('' @ cssVar @ '')"></span>'' @ label @ ''</span>''\<close>

definition offlineBadge :: "bool \<Rightarrow> string" where
  \<open>offlineBadge off =
     (if \<not> off then []
      else ''<span class="off" title="no probe in the last 24 h - this upstream is no longer '' @
           ''in the servers map">offline</span>'')\<close>

section \<open>Numeric helpers\<close>

definition pairCol :: "('f \<times> 'f) list \<Rightarrow> nat \<Rightarrow> 'f list" where
  "pairCol p k = map (if k = 0 then fst else snd) p"

definition maxPairHi :: "'f rfloats \<Rightarrow> ('f \<times> 'f) list \<Rightarrow> 'f" where
  "maxPairHi F p =
     (let m = fold (\<lambda>v m. if f_less (rf F) m (snd v) then snd v else m) p (f_zero (rf F))
      in if m = f_zero (rf F) then f_one (rf F) else m)"

definition ratio :: "'f rfloats \<Rightarrow> 'f list \<Rightarrow> 'f list \<Rightarrow> 'f list option" where
  "ratio F a b =
     (if length b < length a then None
      else Some (map2 (\<lambda>x y. if f_less (rf F) (f_zero (rf F)) y then f_div (rf F) x y else f_zero (rf F)) a b))"

definition median :: "'f rfloats \<Rightarrow> 'f list \<Rightarrow> 'f" where
  "median F v =
     (let nz = insertion_sort (f_less (rf F)) (filter (f_less (rf F) (f_zero (rf F))) v)
      in if nz = [] then f_zero (rf F) else nz ! (length nz div 2))"

definition maxU :: "u64 list \<Rightarrow> u64" where
  "maxU v = fold (\<lambda>x m. if x > m then x else m) v 0"

section \<open>Sections of the page\<close>

definition day_names :: "'f page_env \<Rightarrow> 'f statsSnapshot \<Rightarrow> string list" where
  "day_names E s = map (pe_day E) (sn_days s)"

definition resolutionBudgetMs :: "'f rfloats \<Rightarrow> 'f" where
  "resolutionBudgetMs F = whole F 5000"

definition renderClients :: "'f page_env \<Rightarrow> 'f statsSnapshot \<Rightarrow> string option" where
  \<open>renderClients E s =
     (let F = F_of E; days = day_names E s; z = f_zero (rf F);
          ips = toFloats F (sn_clients s); bids = toFloats F (sn_buildids s); req = toFloats F (sn_requests s)
      in do {
        rpc \<leftarrow> ratio F req ips;
        rpb \<leftarrow> ratio F req bids;
        (svg1, m1) \<leftarrow> linesPanel F [ips, bids] [''c-ip'', ''c-bid''] ''Unique clients and build IDs per day'' z (sn_smooth s);
        j1 \<leftarrow> seriesJSON F days [ips, bids];
        (svg2, m2) \<leftarrow> linesPanel F [rpc] [''c-ip''] ''Requests per client per day'' z (sn_smooth s);
        j2 \<leftarrow> seriesJSON F days [rpc];
        (svg3, m3) \<leftarrow> linesPanel F [rpb] [''c-bid''] ''Requests per build ID per day'' z (sn_smooth s);
        j3 \<leftarrow> seriesJSON F days [rpb];
        Some (''<h2 class="sec">Who is making these requests</h2>'' @
          ''<p class="sub">Unique clients (by <code>remote_ip</code> behind Cloudflare) and unique build IDs '' @
          ''per day, so the counts below read as load from many clients rather than one busy client.</p>'' @
          ''<div class="legend">'' @ swatch ''--served'' ''clients'' @ swatch ''--ident'' ''build IDs'' @ ''</div>'' @
          ''<div class="row3" style="margin-bottom:18px">'' @
          statCard ''unique per day'' (''median <b>'' @ r_fix F 0 (median F ips) @ ''</b> clients &middot; <b>'' @
              r_fix F 0 (median F bids) @ ''</b> build IDs'') svg1 j1
            (jsonStrings [''clients'', ''build IDs'']) (jsonStrings [''--served'', ''--ident'']) [] @
          statCard ''requests per client'' (''median <b>'' @ r_fix F 0 (median F rpc) @ ''</b> &middot; peak '' @
              r_fix F 0 (maxOf F rpc)) svg2 j2
            (jsonStrings [''requests / client'']) (jsonStrings [''--served'']) [] @
          statCard ''requests per build ID'' (''median <b>'' @ r_fix F 0 (median F rpb) @ ''</b> &middot; peak '' @
              r_fix F 0 (maxOf F rpb)) svg3 j3
            (jsonStrings [''requests / build ID'']) (jsonStrings [''--ident'']) [] @
          ''</div>'')
      })\<close>

definition add_counts :: "statusCounts \<Rightarrow> statusCounts \<Rightarrow> statusCounts" where
  "add_counts c t = \<lparr>st_served = st_served t + st_served c, st_aborted = st_aborted t + st_aborted c,
     st_notfound = st_notfound t + st_notfound c, st_err5xx = st_err5xx t + st_err5xx c\<rparr>"

text \<open>The scale of a host's row.\<close>

definition traffic_max :: "'f rfloats \<Rightarrow> nat \<Rightarrow> statusCounts list gomap \<Rightarrow> 'f" where
  "traffic_max F win byEp =
     (let quads = (\<lambda>series. map (\<lambda>c. [f_zero (rf F), f_zero (rf F), f_zero (rf F), f_u64 (rf F) (st_total c)]) series);
          m = maxOf F (concat (map (\<lambda>ep. case map_of byEp ep of None \<Rightarrow> []
                 | Some series \<Rightarrow> layer 3 (smoothQuad F (quads series) win)) statsEndpoints))
      in if m = f_zero (rf F) then f_one (rf F) else m)"

definition traffic_tag :: "'f statsSnapshot \<Rightarrow> string \<Rightarrow> string" where
  \<open>traffic_tag s host =
     (if host = unresolvedLabel then ''<span class="tag">never reached an upstream</span>''
      else offlineBadge (isOffline s host))\<close>

definition traffic_card :: "'f page_env \<Rightarrow> 'f statsSnapshot \<Rightarrow> string \<Rightarrow> 'f \<Rightarrow> statusCounts list gomap \<Rightarrow> string \<Rightarrow> string option" where
  \<open>traffic_card E s host mx byEp ep =
     (let F = F_of E;
          series = (case map_of byEp ep of None \<Rightarrow> replicate (length (sn_days s)) no_counts | Some xs \<Rightarrow> xs);
          epTot = fold add_counts series no_counts;
          col = (\<lambda>f. map (\<lambda>c. f_u64 (rf F) (f c)) series);
          stat = (if st_total epTot > 0
                  then fmtCount F (st_total epTot) @ '' &middot; '' @ pct F (st_served epTot) (st_total epTot) @ '' served''
                  else ''no traffic'')
      in do {
        j \<leftarrow> seriesJSON F (day_names E s) [col st_served, col st_aborted, col st_notfound, col st_err5xx];
        Some (statCard ep stat
          (trafficPanel F series mx (''Daily '' @ ep @ '' traffic for '' @ host) (sn_smooth s)) j
          (jsonStrings [''served'', ''aborted'', ''not found'', ''5xx''])
          (jsonStrings [''--served'', ''--aborted'', ''--notfound'', ''--err'']) [])
      })\<close>

definition traffic_row_of :: "'f page_env \<Rightarrow> 'f statsSnapshot \<Rightarrow> string \<Rightarrow> string option" where
  \<open>traffic_row_of E s host =
     (let F = F_of E; byEp = the_default [] (map_of (sn_traffic s) host);
          mx = traffic_max F (sn_smooth s) byEp;
          tot = fold add_counts (concat (map (\<lambda>ep. the_default [] (map_of byEp ep)) statsEndpoints)) no_counts
      in do {
        cards \<leftarrow> all_of (map (traffic_card E s host mx byEp) statsEndpoints);
        Some (''<section class="hostrow"><div class="rowhead"><span class="hname">'' @ html_escape host @ ''</span>'' @
          traffic_tag s host @
          ''<span class="hstat"><b>'' @ fmtCount F (st_total tot) @ ''</b> requests &middot; <b>'' @
          pct F (st_served tot) (st_total tot) @ ''</b> served &middot; shared Y, peak '' @ fmtCount F (r_trunc F mx) @ ''/day'' @
          ''</span></div><div class="row3">'' @ cards @ ''</div></section>'')
      })\<close>

definition renderTraffic :: "'f page_env \<Rightarrow> 'f statsSnapshot \<Rightarrow> string option" where
  \<open>renderTraffic E s = do {
     hosts \<leftarrow> all_of (map (traffic_row_of E s) (sn_hosts s));
     Some (''<h2 class="sec">Traffic by upstream and endpoint</h2>'' @ hosts)
   }\<close>

definition quad_list :: "quad \<Rightarrow> u64 list" where
  "quad_list q = (case q of (a, b, c, d) \<Rightarrow> [a, b, c, d])"

definition bytes_bar :: "'f rfloats \<Rightarrow> 'f statsSnapshot \<Rightarrow> u64 \<Rightarrow> string \<times> u64 \<Rightarrow> string" where
  \<open>bytes_bar F s mx r =
     ''<div class="brow"><span class="blab">'' @ html_escape (fst r) @ offlineBadge (isOffline s (fst r)) @ ''</span>'' @
     ''<span class="btrack"><span class="bfill" style="width:'' @
     r_fix F 2 (f_div (rf F) (r_mul F (whole F 100) (f_u64 (rf F) (snd r))) (f_u64 (rf F) mx)) @ ''%"></span></span>'' @
     ''<span class="bval">'' @ fmtBytes F (snd r) @ ''</span></div>''\<close>

definition renderBytes :: "'f page_env \<Rightarrow> 'f statsSnapshot \<Rightarrow> string" where
  \<open>renderBytes E s =
     (let F = F_of E;
          rows0 = filter (\<lambda>r. snd r \<noteq> 0) (map (\<lambda>(h, v). (h, quad_list v ! 3)) (sn_bytes s));
          mx = maxU (map snd rows0);
          rows = insertion_sort (\<lambda>a b. snd a > snd b) rows0
      in ''<h2 class="sec">Bytes served</h2><div class="kpis">'' @
         concat (map (\<lambda>(i, label). kpi label (fmtBytes F (quad_list (sn_bytes_total s) ! i)))
           (enumerate 0 [''Last 24 h'', ''Last 7 days'', ''Last 30 days'', ''Full range''])) @ ''</div>'' @
         (if rows = [] then []
          else ''<div class="card"><figcaption><span class="epname">By upstream</span>'' @
            ''<span class="hstat">total <b>'' @ fmtBytes F (quad_list (sn_bytes_total s) ! 3) @ ''</b></span></figcaption>'' @
            concat (map (bytes_bar F s mx) rows) @ ''</div>''))\<close>

definition offlineNote :: "'f statsSnapshot \<Rightarrow> string" where
  \<open>offlineNote s =
     (let n = offlineCount s in
      if n = 0 then []
      else '' <b>'' @ nat_str n @ ''</b> of these went unprobed in the last 24 h and '' @ (if n > 1 then ''are'' else ''is'') @
        '' marked <span class="off">offline</span> &mdash; '' @ (if n > 1 then ''they are'' else ''it is'') @
        '' charted because there is history, not because anything is still asking.'')\<close>

definition probe_quad :: "'f rfloats \<Rightarrow> probeDay \<Rightarrow> 'f list" where
  "probe_quad F p = [f_u64 (rf F) (pd_ok p), f_zero (rf F), f_zero (rf F), f_u64 (rf F) (pd_ok p + pd_fail p)]"

definition probe_row_of :: "'f page_env \<Rightarrow> 'f statsSnapshot \<Rightarrow> string \<Rightarrow> string option" where
  \<open>probe_row_of E s host =
     (let F = F_of E; days = day_names E s; win = sn_smooth s;
          series = the_default [] (map_of (sn_probes s) host); n = length series;
          ok = sum_list (map pd_ok series); fail = sum_list (map pd_fail series);
          ms = (\<lambda>w. whole F (unat w));
          okPairs = map (\<lambda>p. (ms (pd_p50 p), ms (pd_p95 p))) series;
          failPairs = map (\<lambda>p. (ms (pd_fail_p50 p), ms (pd_fail_p95 p))) series;
          sm = smoothQuad F (map (probe_quad F) series) win;
          p0 = maxOf F (layer 3 sm);
          pmax = (if p0 = f_zero (rf F) then f_one (rf F) else p0);
          svg = svgHead (''Daily resolution probes for '' @ host) @ polygon F n (layer 3 sm) pmax ''a s2'' @
            polygon F n (layer 0 sm) pmax ''a s0'' @ svgTail F n;
          okMax = maxPairHi F (smoothPairs (rf F) win okPairs);
          failMax = maxPairHi F (smoothPairs (rf F) win failPairs);
          slab = (if ok > 0 then ''p95 peak '' @ r_fix F 0 okMax @ '' ms'' else ''no successful probes'');
          flab = (if fail > 0 then ''p95 peak '' @ r_fix F 0 failMax @ '' ms'' else ''no failed probes'')
      in do {
        j1 \<leftarrow> seriesJSON F days [toFloats F (map pd_ok series), toFloats F (map pd_fail series)];
        j2 \<leftarrow> seriesJSON F days [pairCol okPairs 0, pairCol okPairs 1];
        j3 \<leftarrow> seriesJSON F days [pairCol failPairs 0, pairCol failPairs 1];
        Some (''<section class="hostrow"><div class="rowhead"><span class="hname">'' @ html_escape host @ ''</span>'' @
          offlineBadge (isOffline s host) @
          ''<span class="hstat"><b>'' @ fmtCount F (ok + fail) @ ''</b> probes &middot; <b>'' @ fmtCount F ok @
          ''</b> resolved ('' @ pct F ok (ok + fail) @ '')</span></div><div class="row3">'' @
          statCard ''probes'' (''peak '' @ fmtCount F (r_trunc F pmax) @ ''/day'') svg j1
            (jsonStrings [''resolved'', ''no answer'']) (jsonStrings [''--served'', ''--notfound'']) [] @
          statCard ''latency, successful'' slab
            (bandPanel F okPairs okMax (''Successful probe latency for '' @ host) (resolutionBudgetMs F) win) j2
            (jsonStrings [''p50 ms'', ''p95 ms'']) (jsonStrings [''--served'', ''--band'']) [] @
          statCard ''latency, failed'' flab
            (bandPanel F failPairs failMax (''Failed probe latency for '' @ host) (resolutionBudgetMs F) win) j3
            (jsonStrings [''p50 ms'', ''p95 ms'']) (jsonStrings [''--err'', ''--errband'']) '' fail'' @
          ''</div></section>'')
      })\<close>

definition renderProbes :: "'f page_env \<Rightarrow> 'f statsSnapshot \<Rightarrow> string option" where
  \<open>renderProbes E s =
     (let F = F_of E in do {
        rows \<leftarrow> all_of (map (probe_row_of E s) (sn_probe_hosts s));
        Some (''<h2 class="sec">Resolution probes &mdash; per debuginfod backend</h2>'' @
          ''<p class="sub">From <code>resolve_logs</code>: every cold build ID is probed at <em>all</em> '' @
          ''upstreams concurrently, so each backend sees roughly the same probe count. Latency is measured separately '' @
          ''on probes that answered and on those that did not. '' @ fmtCount F (sn_probe_total s) @ '' probes &middot; '' @
          fmtCount F (sn_probe_ok s) @ '' resolved ('' @ pct F (sn_probe_ok s) (sn_probe_total s) @ '').'' @ offlineNote s @ ''</p>'' @
          ''<div class="legend">'' @ swatch ''--served'' ''resolved / p50'' @
          swatch ''--notfound'' ''no answer'' @ swatch ''--band'' ''p95 band, successful'' @
          swatch ''--err'' ''failed probe latency'' @
          ''<span><span class="swline"></span>5s resolution budget</span>'' @ ''</div>'' @ rows)
      })\<close>

definition thru_card :: "'f page_env \<Rightarrow> 'f statsSnapshot \<Rightarrow> string \<Rightarrow> string option" where
  \<open>thru_card E s host =
     (let F = F_of E; series = the_default [] (map_of (sn_thru s) host);
          p50 = map td_p50 series; p90 = map td_p90 series
      in do {
        j \<leftarrow> seriesJSON F (day_names E s) [p50, p90];
        Some (statCard (html_escape host @ offlineBadge (isOffline s host))
          (fmtCount F (sum_list (map td_n series)) @ '' transfers &middot; median <b>'' @ r_fix F 2 (median F p50) @ ''</b> MiB/s'')
          (bandPanel F (thruPairs series) (sn_thru_max s) (''Upstream throughput for '' @ host) (f_zero (rf F)) (sn_smooth s)) j
          (jsonStrings [''p50 MiB/s'', ''p90 MiB/s'']) (jsonStrings [''--served'', ''--band'']) [])
      })\<close>

definition renderThroughput :: "'f page_env \<Rightarrow> 'f statsSnapshot \<Rightarrow> string option" where
  \<open>renderThroughput E s =
     (if sn_thru_hosts s = [] then Some []
      else do {
        cards \<leftarrow> all_of (map (thru_card E s) (sn_thru_hosts s));
        Some (''<h2 class="sec">Upstream throughput &mdash; cache misses only</h2>'' @
          ''<p class="sub">Bytes delivered per second over responses above 100&nbsp;KiB that were '' @
          ''<em>not</em> served from cache. Throughput rather than raw duration, because <code>duration_ms</code> '' @
          ''grows with file size and cannot be compared between hosts. <b>All panels share one Y scale</b>, capped '' @
          ''at '' @ r_fix (F_of E) 1 (sn_thru_max s) @ '' MiB/s.</p>'' @
          ''<div class="legend">'' @ swatch ''--served'' ''p50 MiB/s'' @ swatch ''--band'' ''p90 band'' @ ''</div>'' @
          ''<div class="row3">'' @ cards @ ''</div>'')
      })\<close>

section \<open>Countries\<close>

definition countryRows :: nat where "countryRows = 12"

text \<open>The regional indicator of a letter in UTF-8: U+1F1E6 is F0 9F 87 A6.\<close>

definition indicator :: "char \<Rightarrow> string" where
  "indicator c = [CHR 0xF0, CHR 0x9F, CHR 0x87, char_of (0xA6 + (of_char c - 65 :: nat))]"

definition flagFor :: "string \<Rightarrow> string" where
  "flagFor code =
     (if length code \<noteq> 2 \<or> code = ''XX'' \<or> code = ''T1'' then []
      else if \<not> list_all is_upper code then []
      else concat (map indicator code))"

definition countryLabel :: "string \<Rightarrow> string" where
  "countryLabel code =
     (if flagFor code \<noteq> [] then flagFor code @ '' '' @ html_escape code else html_escape code)"

record countryRow =
  cr_label :: string
  cr_requests :: u64
  cr_peak :: u64
  cr_n :: nat

fun sumTop :: "countryRow list \<Rightarrow> nat \<Rightarrow> u64" where
  "sumTop [] k = 0"
| "sumTop (r # rs) 0 = 0"
| "sumTop (r # rs) (Suc k) = (if cr_n r > 1 then 0 else cr_requests r + sumTop rs k)"

definition country_requests :: "'f statsSnapshot \<Rightarrow> string \<Rightarrow> u64" where
  "country_requests s c = sumU (the_default [] (map_of (sn_country s) c))"

definition country_rows :: "'f statsSnapshot \<Rightarrow> countryRow list" where
  "country_rows s =
     map (\<lambda>c. \<lparr>cr_label = c, cr_requests = country_requests s c,
                cr_peak = maxU (the_default [] (map_of (sn_country_clients s) c)), cr_n = 1\<rparr>)
       (filter (\<lambda>c. country_requests s c \<noteq> 0) (take countryRows (sn_countries s)))"

definition country_bar :: "'f rfloats \<Rightarrow> u64 \<Rightarrow> countryRow \<Rightarrow> string" where
  \<open>country_bar F best r =
     ''<div class="brow"><span class="blab">'' @ countryLabel (cr_label r) @ ''</span>'' @
     ''<span class="btrack"><span class="bfill" style="width:'' @
     r_fix F 2 (f_div (rf F) (r_mul F (whole F 100) (f_u64 (rf F) (cr_requests r))) (f_u64 (rf F) best)) @ ''%"></span></span>'' @
     ''<span class="bval">'' @ fmtCount F (cr_requests r) @ ''</span><span class="bsub">'' @ fmtCount F (cr_peak r) @
     '' clients</span></div>''\<close>

definition renderCountries :: "'f page_env \<Rightarrow> 'f statsSnapshot \<Rightarrow> string" where
  \<open>renderCountries E s =
     (let F = F_of E; most = sum_list (map (country_requests s) (sn_countries s));
          others = filter (\<lambda>c. country_requests s c \<noteq> 0) (drop countryRows (sn_countries s));
          otherReq = sum_list (map (country_requests s) others); rows = country_rows s
      in if sn_countries s = [] \<or> most = 0 then []
         else (case rows of
             [] \<Rightarrow> []
           | r # rs \<Rightarrow>
               ''<h2 class="sec">Where requests come from</h2><div class="kpis">'' @
               kpi ''Countries'' (fmtCount F (of_nat (length (sn_countries s)))) @
               kpi ''Top country'' (countryLabel (cr_label r) @ '' '' @ pct F (cr_requests r) most) @
               kpi ''Top 5 share'' (pct F (sumTop rows 5) most) @ ''</div>'' @
               ''<div class="card"><figcaption><span class="epname">By country</span>'' @
               ''<span class="hstat">requests &middot; peak clients/day</span></figcaption>'' @
               concat (map (country_bar F (cr_requests r)) rows) @
               (if others = [] then []
                else ''<div class="btail">+ '' @ nat_str (length others) @ '' more countries &middot; '' @ fmtCount F otherReq @
                  '' requests ('' @ pct F otherReq most @ '')</div>'') @
               ''</div>''))\<close>

section \<open>Cache and the whole page\<close>

definition no_usage :: cacheUsage where
  "no_usage = \<lparr>cu_timestamp = 0, cu_entries = 0, cu_bytes = 0, cu_apparent = 0, cu_tmp = 0, cu_fs_total = 0, cu_fs_free = 0\<rparr>"

definition budget_note :: "'f rfloats \<Rightarrow> u64 \<Rightarrow> string" where
  \<open>budget_note F limit =
     (if limit = 0 then []
      else '' The dashed line is <code>CACHE_MAX_BYTES</code> ('' @ fmtBytes F limit @ ''); eviction targets a '' @
        ''fraction below it, so the curve should ride under the line rather than touch it.'')\<close>

definition shape_note :: "'f rfloats \<Rightarrow> cacheUsage \<Rightarrow> string" where
  \<open>shape_note F u =
     (if cu_apparent u > 0 \<and> cu_bytes u > 0
      then (let q = f_div (rf F) (f_u64 (rf F) (cu_apparent u)) (f_u64 (rf F) (cu_bytes u)) in
        if f_less (rf F) q (r_dec F 97 2) \<or> f_less (rf F) (r_dec F 103 2) q
        then '' Files are '' @ fmtBytes F (cu_apparent u) @ '' long but occupy '' @ fmtBytes F (cu_bytes u) @
          '' on disk ('' @ r_fix F 0 (f_div (rf F) (whole F 100) q) @ ''%), the difference '' @
          ''being filesystem compression and block rounding.''
        else [])
      else [])\<close>

definition cache_section :: "'f page_env \<Rightarrow> 'f statsSnapshot \<Rightarrow> string option" where
  \<open>cache_section E s =
        (let F = F_of E; u = the_default no_usage (sn_cache_last s); days = day_names E s; z = f_zero (rf F);
             budgetMiB = f_div (rf F) (f_u64 (rf F) (sn_cache_max s)) (whole F 1048576);
             free = (if cu_fs_total u > 0 then ''now <b>'' @ fmtBytes F (cu_fs_free u) @ ''</b> free'' else ''no statfs'')
         in do {
           (svg1, m1) \<leftarrow> linesPanel F [sn_cache_bytes s] [''c-ip''] ''Cache size on disk'' budgetMiB (sn_smooth s);
           j1 \<leftarrow> seriesJSON F days [sn_cache_bytes s];
           (svg2, m2) \<leftarrow> linesPanel F [sn_fs_free s] [''c-bid''] ''Free space on the partition'' z (sn_smooth s);
           j2 \<leftarrow> seriesJSON F days [sn_fs_free s];
           (svg3, m3) \<leftarrow> linesPanel F [sn_cache_tmp s] [''c-ip''] ''Abandoned temp files'' z (sn_smooth s);
           j3 \<leftarrow> seriesJSON F days [sn_cache_tmp s];
           Some (''<h2 class="sec">Cache and disk</h2><div class="kpis">'' @
             kpi ''Cache on disk'' (fmtBytes F (cu_bytes u)) @ kpi ''Blobs'' (fmtCount F (cu_entries u)) @
             (if cu_fs_total u > 0
              then kpi ''Partition free'' (fmtBytes F (cu_fs_free u)) @
                kpi ''Partition used'' (pct F (cu_fs_total u - cu_fs_free u) (cu_fs_total u))
              else kpi ''Abandoned .tmp'' (fmtBytes F (cu_tmp u))) @ ''</div>'' @
             ''<p class="sub">Measured every <code>CACHE_STATS_INTERVAL</code> by walking '' @
             ''<code>CACHE_PATH</code>; each point is the last measurement of that day. Size is the space '' @
             ''actually allocated (<code>st_blocks</code>), not the sum of file lengths.'' @ shape_note F u @ '' Free space is '' @
             ''<code>statfs</code> <em>Bavail</em>, so it excludes the reserve only root can use.'' @
             budget_note F (sn_cache_max s) @ ''</p>'' @
             ''<p class="sub" style="margin-top:-14px">On btrfs, treat free space as an estimate: it moves '' @
             ''with the data profile, and a filesystem can hit <code>ENOSPC</code> through exhausted '' @
             ''metadata chunks while this number still looks comfortable. Falling free space here is a '' @
             ''reliable signal; a healthy-looking number is not a guarantee.</p>'' @
             ''<div class="row3">'' @
             statCard ''cache size, MiB'' (''now <b>'' @ fmtBytes F (cu_bytes u) @ ''</b>'') svg1 j1
               (jsonStrings [''MiB'']) (jsonStrings [''--served'']) [] @
             statCard ''partition free, MiB'' free svg2 j2 (jsonStrings [''MiB free'']) (jsonStrings [''--ident'']) [] @
             statCard ''abandoned .tmp, MiB'' (''now <b>'' @ fmtBytes F (cu_tmp u) @ ''</b>'') svg3 j3
               (jsonStrings [''MiB'']) (jsonStrings [''--served'']) [] @
             ''</div>'')
         })\<close>

definition renderCache :: "'f page_env \<Rightarrow> 'f statsSnapshot \<Rightarrow> string option" where
  "renderCache E s = (if \<not> sn_has_cache s then Some [] else cache_section E s)"

definition grand_total :: "'f statsSnapshot \<Rightarrow> statusCounts" where
  "grand_total s = fold add_counts (concat (map (\<lambda>(h, byEp). concat (map snd byEp)) (sn_traffic s))) no_counts"

definition page_head :: "'f page_env \<Rightarrow> 'f statsSnapshot \<Rightarrow> string \<Rightarrow> string \<Rightarrow> string" where
  \<open>page_head E s first final =
     (let F = F_of E; cur = int (length (sn_days s)) - 1; grand = grand_total s in
      ''<!doctype html><html lang="en"><head><meta charset="utf-8">'' @
      ''<meta name="viewport" content="width=device-width,initial-scale=1">'' @
      ''<meta name="robots" content="noindex">'' @
      ''<title>debuginfod.pwndbg.re stats</title><style>'' @ statsCSS @ ''</style></head><body>'' @
      ''<div class="viz-root"><div class="wrap">'' @
      ''<div class="head"><h1>debuginfod.pwndbg.re &mdash; last '' @ int_str cur @ '' days</h1>'' @
      viewSwitch (sn_views s) cur @ ''</div>'' @
      ''<p class="sub">'' @ first @ '' &rarr; '' @ final @ '' &middot; '' @
      (if sn_smooth s > 1 then nat_str (sn_smooth s) @ ''-day moving average'' else ''raw daily values'') @
      '' &middot; generated '' @ pe_generated E @ '' UTC in '' @ pe_took E @ ''</p>'' @
      ''<div class="kpis">'' @ kpi ''Requests'' (fmtCount F (st_total grand)) @
      kpi ''Served complete'' (fmtCount F (st_served grand)) @
      kpi ''Client aborted'' (fmtCount F (st_aborted grand)) @
      kpi ''Server errors 5xx'' (fmtCount F (st_err5xx grand)) @ ''</div>'' @
      ''<div class="legend">'' @ swatch ''--served'' ''served &mdash; 200, complete'' @
      swatch ''--aborted'' ''aborted &mdash; 200, client disconnected'' @
      swatch ''--notfound'' ''not found &mdash; 404 / 501 / 503'' @
      swatch ''--err'' ''5xx &mdash; server error'' @ ''</div>'' @
      ''<p class="sub">'' @
      (if sn_smooth s > 1 then ''Areas are '' @ nat_str (sn_smooth s) @ ''-day moving averages.'' else ''Areas are raw daily values.'') @
      '' The three panels in a row share one Y scale, '' @
      ''so endpoints are comparable within a host; scales differ between hosts. Aborted and 5xx are a fraction '' @
      ''of a percent of traffic, so they are also drawn as per-day ticks below the axis &mdash; a stack segment '' @
      ''that size cannot be rendered.</p>'')\<close>

definition page_foot :: string where
  \<open>page_foot =
     ''<p class="foot">Y scale is shared across a host&rsquo;s three panels but independent between '' @
     ''hosts, because host volumes span several orders of magnitude &mdash; compare shape between rows, not '' @
     ''height. &ldquo;Aborted&rdquo; is a response that started with 200 and then failed mid-transfer, so it '' @
     ''counts as a failure even though the status line says success. &ldquo;Not found&rdquo; also covers 503: '' @
     ''that status comes from an upstream this proxy has deliberately marked down, so it is a resolution '' @
     ''outcome rather than a server fault, and only genuine 5xx are counted as errors. Byte counts are bytes '' @
     ''<em>as sent</em>, i.e. compressed.</p>'' @
     ''</div></div><script>'' @ statsJS @ ''</script></body></html>''\<close>

definition renderStats :: "'f page_env \<Rightarrow> 'f statsSnapshot \<Rightarrow> string option" where
  "renderStats E s =
     (case day_names E s of
        [] \<Rightarrow> None
      | d # ds \<Rightarrow> do {
          clients \<leftarrow> renderClients E s;
          traffic \<leftarrow> renderTraffic E s;
          probes \<leftarrow> renderProbes E s;
          thru \<leftarrow> renderThroughput E s;
          cache \<leftarrow> renderCache E s;
          Some (page_head E s d (last (d # ds)) @ clients @ traffic @ renderBytes E s @ probes @ thru @
            renderCountries E s @ cache @ page_foot)
        })"

end
