(* ===== verification/RenderFacts.thy ===== *)
theory RenderFacts
  imports RenderKit
begin

text \<open>
  The pieces both pages are built from are harmless: numbers are quiet text whatever their value,
  and every piece of SVG, every card heading and every link leaves the tokenizer as it found it.
\<close>

section \<open>Numbers are quiet\<close>

lemma number_quiet: "list_all number_char s \<Longrightarrow> quiet s"
  by (auto simp: quiet_iff list_all_iff number_char_def is_delim_def is_digit_def is_lower_def is_upper_def)

lemma digit_quiet: "n < 10 \<Longrightarrow> \<not> is_delim (char_of (48 + n :: nat))"
  by (auto simp: is_delim_def dest!: arg_cong [where f = "of_char :: char \<Rightarrow> nat"])

lemma nat_str_quiet [simp]: "quiet (nat_str n)"
proof (induction n rule: nat_str.induct)
  case (1 n)
  then show ?case by (subst nat_str.simps) (auto simp: digit_quiet)
qed

lemma int_str_quiet [simp]: "quiet (int_str i)"
  by (simp add: int_str_def is_delim_def)

lemma formats_quiet:
  assumes "formats_ok F"
  shows "quiet (r_fix F n x)" "quiet (r_short F x)" "quiet (r_g2 F x)"
  using assms number_quiet unfolding formats_ok_def by blast+

lemma trimZero_quiet: "quiet s \<Longrightarrow> quiet (trimZero s)"
  by (auto simp: trimZero_def trim_suffix_def cut_suffix_Some split: option.split)

lemma fmtCount_quiet: "formats_ok F \<Longrightarrow> quiet (fmtCount F n)"
  by (simp add: fmtCount_def u64_str_def trimZero_quiet formats_quiet is_delim_def)

lemma fmt_units_quiet: "formats_ok F \<Longrightarrow> list_all quiet us \<Longrightarrow> quiet (fmt_units F us v)"
  by (induction us arbitrary: v) (auto simp: formats_quiet is_delim_def)

lemma fmtBytes_quiet: "formats_ok F \<Longrightarrow> quiet (fmtBytes F n)"
  unfolding fmtBytes_def by (rule fmt_units_quiet) (auto simp: is_delim_def)

lemma pct_quiet: "formats_ok F \<Longrightarrow> quiet (pct F a b)"
  by (simp add: pct_def formats_quiet is_delim_def)

lemma fmtNum_quiet: "formats_ok F \<Longrightarrow> quiet (fmtNum F v)"
  by (simp add: fmtNum_def formats_quiet)

lemmas numbers_quiet = formats_quiet fmtCount_quiet fmtBytes_quiet pct_quiet fmtNum_quiet

lemma point_quiet: "formats_ok F \<Longrightarrow> quiet (point F x y)"
  by (simp add: point_def formats_quiet is_delim_def)

lemma points_quiet: "formats_ok F \<Longrightarrow> quiet before \<Longrightarrow> quiet after \<Longrightarrow> quiet (points F n before after vals mx)"
  unfolding points_def by (rule quiet_concat) (auto simp: point_quiet)

section \<open>SVG\<close>

lemma svgHead_run: "hrun (svgHead aria) (HText, st) = (HText, ''svg'' # st)"
  by (simp add: svgHead_def html_defs quiet_tok)

lemma svgTail_run: "formats_ok F \<Longrightarrow> hrun (svgTail F n) (HText, ''svg'' # st) = (HText, st)"
  by (simp add: svgTail_def html_defs quiet_tok formats_quiet)

lemma polygon_nested: "formats_ok F \<Longrightarrow> quiet class \<Longrightarrow> nested (polygon F n vals mx class)"
  by (simp add: polygon_def nested_def html_defs quiet_tok point_quiet points_quiet)

lemma polyline_nested: "formats_ok F \<Longrightarrow> quiet class \<Longrightarrow> nested (polyline F n vals mx class)"
  by (simp add: polyline_def nested_def html_defs quiet_tok point_quiet points_quiet split: list.split)

lemma svg_nested: "formats_ok F \<Longrightarrow> nested body \<Longrightarrow> nested (svgHead aria @ body @ svgTail F n)"
  by (simp add: nested_def svgHead_run svgTail_run)

section \<open>Attribute data and headings\<close>

lemma sq_free_join: "(\<And>s. s \<in> set ss \<Longrightarrow> single_quote_free s) \<Longrightarrow> single_quote_free sep \<Longrightarrow> single_quote_free (join_with sep ss)"
  by (induction sep ss rule: join_with.induct) auto

lemma json_row_sq: "formats_ok F \<Longrightarrow> single_quote_free d \<Longrightarrow> single_quote_free (json_row F cols i d)"
  by (simp add: json_row_def sq_free_quiet quiet_concat_map fmtNum_quiet is_delim_def)

lemma enumerate_el: "(i, d) \<in> set (enumerate n xs) \<Longrightarrow> d \<in> set xs"
  by (auto simp: enumerate_eq_zip dest: set_zip_rightD)

lemma seriesJSON_sq:
  assumes "formats_ok F" "list_all single_quote_free days" "seriesJSON F days cols = Some j"
  shows "single_quote_free j"
proof -
  have "single_quote_free r" if "r \<in> set (map (\<lambda>(i, d). json_row F cols i d) (enumerate 0 days))" for r
    using that assms(2) json_row_sq [OF assms(1)] enumerate_el by (fastforce simp: list_all_iff)
  then have "single_quote_free (join_with '','' (map (\<lambda>(i, d). json_row F cols i d) (enumerate 0 days)))"
    by (rule sq_free_join) simp_all
  with assms(3) show ?thesis by (auto simp: seriesJSON_def split: if_splits)
qed

lemma kpi_nested: "nested label \<Longrightarrow> nested v \<Longrightarrow> nested (kpi label v)"
  by (simp add: kpi_def nested_def html_defs)

lemma view_link_nested: "nested (view_link cur v)"
  by (simp add: view_link_def nested_def html_defs quiet_tok Let_def)

lemma viewSwitch_nested: "nested (viewSwitch views cur)"
  using nested_concat_map [of views "view_link cur"] view_link_nested [of cur]
  by (simp add: viewSwitch_def nested_def html_defs)

section \<open>Computations of a fragment\<close>

definition page_env_ok :: "'f page_env \<Rightarrow> bool" where
  "page_env_ok E \<longleftrightarrow> formats_ok (pe_fl E) \<and> (\<forall>d. quiet (pe_day E d)) \<and> quiet (pe_generated E) \<and> quiet (pe_took E)"

lemma page_env_okD:
  assumes "page_env_ok E"
  shows "formats_ok (pe_fl E)" "quiet (pe_day E d)" "quiet (pe_generated E)" "quiet (pe_took E)"
  using assms by (auto simp: page_env_ok_def)

text \<open>A computation of a fragment, if it returns, returns a nested one; the rules follow the steps of
  the renderer.\<close>

definition gives_nested :: "string option \<Rightarrow> bool" where
  "gives_nested m \<longleftrightarrow> (\<forall>h. m = Some h \<longrightarrow> nested h)"

lemma gives_Some [simp]: "gives_nested (Some h) \<longleftrightarrow> nested h"
  by (simp add: gives_nested_def)

lemma gives_nestedD: "gives_nested m \<Longrightarrow> m = Some h \<Longrightarrow> nested h"
  by (simp add: gives_nested_def)

lemma gives_bind: "(\<And>x. m = Some x \<Longrightarrow> gives_nested (f x)) \<Longrightarrow> gives_nested (m \<bind> f)"
  by (auto simp: gives_nested_def bind_eq_Some_conv)

lemma gives_fragment: "gives_nested m \<Longrightarrow> (\<And>h. nested h \<Longrightarrow> gives_nested (f h)) \<Longrightarrow> gives_nested (m \<bind> f)"
  by (auto simp: gives_nested_def bind_eq_Some_conv)

lemma gives_json:
  assumes "formats_ok F" "list_all single_quote_free days" "\<And>j. single_quote_free j \<Longrightarrow> gives_nested (f j)"
  shows "gives_nested (seriesJSON F days cols \<bind> f)"
  using assms seriesJSON_sq [OF assms(1,2)] by (intro gives_bind) auto

lemma gives_all: "(\<And>x. x \<in> set xs \<Longrightarrow> gives_nested (f x)) \<Longrightarrow> gives_nested (all_of (map f xs))"
proof (induction xs)
  case Nil
  then show ?case by (simp add: all_of_def)
next
  case (Cons x xs)
  then have "gives_nested (f x)" "gives_nested (all_of (map f xs))" by auto
  then show ?case by (auto simp: all_of_def gives_nested_def split: option.splits)
qed

section \<open>Fragments with the same markup\<close>

definition alike :: "string option \<Rightarrow> string option \<Rightarrow> bool" where
  "alike m m' \<longleftrightarrow> map_option delims m = map_option delims m'"

lemma alike_refl [simp]: "alike m m"
  by (simp add: alike_def)

lemma alike_Some [simp]: "alike (Some h) (Some h') \<longleftrightarrow> delims h = delims h'"
  by (simp add: alike_def)

lemma alike_bind: "(\<And>x. alike (f x) (f' x)) \<Longrightarrow> alike (m \<bind> f) (m \<bind> f')"
  by (cases m) simp_all

lemma alike_fragment:
  "alike m m' \<Longrightarrow> (\<And>h h'. delims h = delims h' \<Longrightarrow> alike (f h) (f' h')) \<Longrightarrow> alike (m \<bind> f) (m' \<bind> f')"
  by (cases m; cases m') (simp_all add: alike_def)

lemma all_of_Cons: "all_of (m # ms) = m \<bind> (\<lambda>h. all_of ms \<bind> (\<lambda>hs. Some (h @ hs)))"
  by (cases m; cases "those ms") (simp_all add: all_of_def)

lemma alike_all:
  assumes "\<And>x. x \<in> set xs \<Longrightarrow> alike (f x) (f' (r x))"
  shows "alike (all_of (map f xs)) (all_of (map f' (map r xs)))"
  using assms by (induction xs) (auto simp: all_of_Cons intro!: alike_fragment)

lemma alike_same:
  "(\<And>x. x \<in> set xs \<Longrightarrow> alike (f x) (f' x)) \<Longrightarrow> alike (all_of (map f xs)) (all_of (map f' xs))"
  by (induction xs) (auto simp: all_of_Cons intro!: alike_fragment)

lemma delims_html_escape [simp]: "delims (html_escape s) = []"
  by (rule quiet_delims) simp

lemma delims_aria [simp]: "delims (svgHead aria) = CHR ''<'' # replicate 10 (CHR 0x22) @ ''>''"
  by (simp add: svgHead_def delims_eval quiet_delims eval_nat_numeral)

section \<open>Computations that return\<close>

definition renders :: "'a option \<Rightarrow> bool" where
  "renders m \<longleftrightarrow> m \<noteq> None"

lemma renders_Some [simp]: "renders (Some x)"
  by (simp add: renders_def)

lemma renders_bind: "m = Some x \<Longrightarrow> renders (f x) \<Longrightarrow> renders (m \<bind> f)"
  by simp

lemma renders_any: "renders m \<Longrightarrow> (\<And>x. renders (f x)) \<Longrightarrow> renders (m \<bind> f)"
  by (auto simp: renders_def)

lemma renders_json:
  assumes "list_all (\<lambda>c. length days \<le> length c) cols" "\<And>j. renders (f j)"
  shows "renders (seriesJSON F days cols \<bind> f)"
  using assms by (simp add: seriesJSON_def)

lemma renders_all: "(\<And>x. x \<in> set xs \<Longrightarrow> renders (f x)) \<Longrightarrow> renders (all_of (map f xs))"
proof (induction xs)
  case Nil
  then show ?case by (simp add: all_of_def)
next
  case (Cons x xs)
  then have "renders (f x)" "renders (all_of (map f xs))" by auto
  then show ?case by (auto simp: all_of_def renders_def split: option.splits)
qed

end
