(* ===== verification/StatsPageSafe.thy ===== *)
theory StatsPageSafe
  imports StatsRender RenderFacts
begin

text \<open>
  The statistics page of the proxy is a well-formed document whatever the hosts, countries and
  numbers are: every section leaves the tokenizer as it found it.
\<close>

section \<open>Panels and cards\<close>

lemma rare_ticks_nested:
  assumes "formats_ok F"
  shows "nested (rare_ticks F n raw)"
  unfolding rare_ticks_def
  by (auto simp: Let_def intro!: nested_concat_map)
     (auto simp: nested_def html_defs quiet_tok formats_quiet [OF assms])

lemmas piece_runs = svgHead_run svgTail_run polygon_nested [THEN nested_run] polyline_nested [THEN nested_run]
  rare_ticks_nested [THEN nested_run]

lemma trafficPanel_nested: "formats_ok F \<Longrightarrow> nested (trafficPanel F series mx aria win)"
  by (simp add: trafficPanel_def Let_def nested_def piece_runs is_delim_def)

lemma threshold_nested: "formats_ok F \<Longrightarrow> nested (threshold_line F n t mx)"
  by (simp add: threshold_line_def Let_def nested_def html_defs quiet_tok formats_quiet)

lemma bandPanel_nested: "formats_ok F \<Longrightarrow> nested (bandPanel F pairs mx aria t win)"
  unfolding bandPanel_def Let_def
  by (rule svg_nested) (auto simp: threshold_nested is_delim_def intro!: polygon_nested polyline_nested nested_append)

lemma linesPanel_nested:
  assumes "formats_ok F" "list_all quiet classes" "linesPanel F sets classes aria t win = Some (svg, m)"
  shows "nested svg"
proof -
  have body: "nested (concat (map (\<lambda>(s, class). polyline F n s mx (''ln '' @ class)) (zip ss classes)) @ threshold_line F n t mx)" for n ss mx
    using assms(1,2)
    by (auto simp: threshold_nested is_delim_def list_all_iff
        intro!: nested_append nested_concat_map polyline_nested dest: set_zip_rightD)
  from assms(3) show ?thesis
    using svg_nested [OF assms(1) body] by (auto simp: linesPanel_def Let_def split: list.splits if_splits)
qed

lemma jsonStrings_sq: "list_all single_quote_free items \<Longrightarrow> single_quote_free (jsonStrings items)"
  unfolding jsonStrings_def by (auto simp: list_all_iff intro!: sq_free_join)

lemma statCard_run:
  assumes "nested title" "nested stat" "nested svg" "single_quote_free data" "single_quote_free labels"
    "single_quote_free vars" "quiet cls"
  shows "hrun (statCard title stat svg data labels vars cls) (HText, st) = (HText, st)"
  using assms by (simp add: nested_def statCard_def html_defs sq_free_run quiet_tok)

lemma swatch_run: "quiet v \<Longrightarrow> nested label \<Longrightarrow> hrun (swatch v label) (HText, st) = (HText, st)"
  by (simp add: swatch_def nested_def html_defs quiet_tok)

lemma offlineBadge_nested: "nested (offlineBadge off)"
  by (simp add: offlineBadge_def nested_def html_defs)

lemma gives_lines:
  assumes "formats_ok F" "list_all quiet classes" "\<And>svg m. nested svg \<Longrightarrow> gives_nested (f svg m)"
  shows "gives_nested (linesPanel F sets classes aria t win \<bind> (\<lambda>(svg, m). f svg m))"
  using assms linesPanel_nested [OF assms(1,2)] by (intro gives_bind) auto

lemma days_sq: "page_env_ok E \<Longrightarrow> list_all single_quote_free (day_names E s)"
  by (auto simp: day_names_def list_all_iff page_env_okD intro: sq_free_quiet)

section \<open>Sections\<close>

lemmas run_simps = nested_def html_defs quiet_tok statCard_run swatch_run

lemma kpi_run: "nested label \<Longrightarrow> nested v \<Longrightarrow> hrun (kpi label v) (HText, st) = (HText, st)"
  by (rule nested_run) (rule kpi_nested)

lemma renderClients_nested:
  assumes "page_env_ok E"
  shows "gives_nested (renderClients E s)"
proof -
  note ok = page_env_okD [OF assms]
  show ?thesis unfolding renderClients_def Let_def
    by (intro gives_lines gives_json gives_bind ok days_sq assms)
       (simp_all add: run_simps formats_quiet ok jsonStrings_sq)
qed

lemma quiet_run_escape [simp]: "hrun (html_escape s) (HText, st) = (HText, st)"
  by (simp add: quiet_tok)

lemma badge_run [simp]: "hrun (offlineBadge off) (HText, st) = (HText, st)"
  by (rule nested_run) (rule offlineBadge_nested)

lemma tag_run [simp]: "hrun (traffic_tag s host) (HText, st) = (HText, st)"
  by (simp add: traffic_tag_def html_defs)

lemma traffic_card_nested:
  assumes "page_env_ok E" "ep \<in> set statsEndpoints"
  shows "gives_nested (traffic_card E s host mx byEp ep)"
proof -
  note ok = page_env_okD [OF assms(1)]
  have ep: "quiet ep" using assms(2) by (auto simp: statsEndpoints_def is_delim_def)
  show ?thesis unfolding traffic_card_def Let_def
    by (intro gives_json ok days_sq assms)
       (simp add: run_simps ep trafficPanel_nested [OF ok(1), THEN nested_run] numbers_quiet ok jsonStrings_sq)
qed

lemma renderTraffic_nested:
  assumes "page_env_ok E"
  shows "gives_nested (renderTraffic E s)"
proof -
  note ok = page_env_okD [OF assms]
  have "gives_nested (traffic_row_of E s host)" for host
    unfolding traffic_row_of_def Let_def
    by (rule gives_fragment, rule gives_all, erule traffic_card_nested [OF assms])
       (simp add: run_simps numbers_quiet ok)
  then show ?thesis unfolding renderTraffic_def
    by (intro gives_fragment gives_all) (simp_all add: run_simps)
qed

lemma bytes_bar_nested: "formats_ok F \<Longrightarrow> nested (bytes_bar F s mx r)"
  by (simp add: bytes_bar_def run_simps numbers_quiet)

lemma bytes_bars_nested: "formats_ok F \<Longrightarrow> nested (concat (map (bytes_bar F s mx) rows))"
  by (rule nested_concat_map) (rule bytes_bar_nested)

lemma renderBytes_nested:
  assumes "page_env_ok E"
  shows "nested (renderBytes E s)"
proof -
  note ok = page_env_okD [OF assms]
  show ?thesis unfolding renderBytes_def Let_def
    by (simp add: run_simps kpi_run numbers_quiet ok nested_run [OF bytes_bars_nested])
qed

lemma offlineNote_run [simp]: "hrun (offlineNote s) (HText, st) = (HText, st)"
  by (simp add: offlineNote_def Let_def html_defs quiet_tok)

lemma probe_row_nested:
  assumes "page_env_ok E"
  shows "gives_nested (probe_row_of E s host)"
proof -
  note ok = page_env_okD [OF assms]
  show ?thesis unfolding probe_row_of_def Let_def
    by (intro gives_json ok days_sq assms)
       (simp add: run_simps piece_runs bandPanel_nested [OF ok(1), THEN nested_run] numbers_quiet ok jsonStrings_sq)
qed

lemma renderProbes_nested:
  assumes "page_env_ok E"
  shows "gives_nested (renderProbes E s)"
  unfolding renderProbes_def Let_def
  by (intro gives_fragment gives_all probe_row_nested assms)
     (simp add: run_simps numbers_quiet page_env_okD [OF assms])

lemma renderThroughput_nested:
  assumes "page_env_ok E"
  shows "gives_nested (renderThroughput E s)"
proof -
  note ok = page_env_okD [OF assms]
  have "gives_nested (thru_card E s host)" for host
    unfolding thru_card_def Let_def
    by (intro gives_json ok days_sq assms)
       (simp add: run_simps bandPanel_nested [OF ok(1), THEN nested_run] numbers_quiet ok jsonStrings_sq)
  then show ?thesis unfolding renderThroughput_def
    by (auto intro!: gives_fragment gives_all) (simp add: run_simps numbers_quiet ok)
qed

lemma indicator_quiet: "is_upper c \<Longrightarrow> quiet (indicator c)"
  by (auto simp: indicator_def is_upper_def is_delim_def dest!: arg_cong [where f = "of_char :: char \<Rightarrow> nat"])

lemma flagFor_quiet: "quiet (flagFor code)"
  by (auto simp: flagFor_def list_all_iff intro!: quiet_concat_map indicator_quiet)

lemma countryLabel_quiet [simp]: "quiet (countryLabel code)"
  by (simp add: countryLabel_def flagFor_quiet is_delim_def)

lemma country_bar_nested: "formats_ok F \<Longrightarrow> nested (country_bar F best r)"
  by (simp add: country_bar_def run_simps numbers_quiet)

lemma country_bars_nested: "formats_ok F \<Longrightarrow> nested (concat (map (country_bar F best) rows))"
  by (rule nested_concat_map) (rule country_bar_nested)

lemma renderCountries_nested:
  assumes "page_env_ok E"
  shows "nested (renderCountries E s)"
proof -
  note ok = page_env_okD [OF assms]
  show ?thesis unfolding renderCountries_def Let_def
    by (simp add: run_simps kpi_run numbers_quiet ok nested_run [OF country_bar_nested] nested_run [OF country_bars_nested] split: list.split)
qed

lemma budget_note_run: "formats_ok F \<Longrightarrow> hrun (budget_note F limit) (HText, st) = (HText, st)"
  by (simp add: budget_note_def html_defs quiet_tok numbers_quiet)

lemma shape_note_run: "formats_ok F \<Longrightarrow> hrun (shape_note F u) (HText, st) = (HText, st)"
  by (simp add: shape_note_def Let_def html_defs quiet_tok numbers_quiet)

lemma renderCache_nested:
  assumes "page_env_ok E"
  shows "gives_nested (renderCache E s)"
proof -
  note ok = page_env_okD [OF assms]
  have "gives_nested (cache_section E s)" unfolding cache_section_def Let_def
    by (intro gives_lines gives_json ok days_sq assms)
       (simp_all add: run_simps kpi_run budget_note_run shape_note_run numbers_quiet ok jsonStrings_sq)
  then show ?thesis by (simp add: renderCache_def)
qed

section \<open>The page\<close>

lemma page_head_run:
  assumes "page_env_ok E" "quiet d" "quiet e"
  shows "hrun (page_head E s d e) (HText, []) = (HText, [''div'', ''div'', ''body'', ''html''])"
  using assms(2,3)
  by (simp add: page_head_def Let_def run_simps kpi_run numbers_quiet page_env_okD [OF assms(1)]
      css_run has_prefix_def nested_run [OF viewSwitch_nested])

lemma page_foot_run: "hrun page_foot (HText, [''div'', ''div'', ''body'', ''html'']) = (HText, [])"
  by (simp add: page_foot_def html_defs js_run has_prefix_def)

text \<open>Whatever hosts, countries and numbers a snapshot has, the page rendered from it is a well-formed
  document.\<close>

lemma stats_page_well_formed:
  assumes "page_env_ok E" "renderStats E s = Some page"
  shows "well_formed page"
proof -
  obtain d ds where days: "day_names E s = d # ds"
    using assms(2) by (cases "day_names E s") (auto simp: renderStats_def)
  have q: "quiet x" if "x \<in> set (d # ds)" for x
    using that days page_env_okD(2) [OF assms(1)] by (metis (no_types, lifting) day_names_def ex_map_conv)
  obtain clients traffic probes thru cache where
    parts: "renderClients E s = Some clients" "renderTraffic E s = Some traffic" "renderProbes E s = Some probes"
      "renderThroughput E s = Some thru" "renderCache E s = Some cache"
    and page: "page = page_head E s d (last (d # ds)) @ clients @ traffic @ renderBytes E s @ probes @ thru @
      renderCountries E s @ cache @ page_foot"
    using assms(2) days by (auto simp: renderStats_def bind_eq_Some_conv)
  have "nested clients" "nested traffic" "nested probes" "nested thru" "nested cache"
    using parts assms(1) by (blast intro: gives_nestedD renderClients_nested renderTraffic_nested renderProbes_nested
        renderThroughput_nested renderCache_nested)+
  then show ?thesis
    unfolding well_formed_def page
    using q [of d] q [OF last_in_set [of "d # ds"]]
    by (simp add: page_head_run [OF assms(1)] page_foot_run nested_run renderBytes_nested renderCountries_nested assms(1)
        del: last.simps)
qed

end
