(* ===== verification/StatsPageTotal.thy ===== *)
theory StatsPageTotal
  imports StatsPageSafe StatsPages StatsViews
begin

text \<open>
  Rendering runs on the worker's goroutine, where a panic ends the process. A snapshot that was
  collected, and every view cut out of it, has all its series as long as its time axis, and such a
  snapshot renders: no index of the renderer is out of range.
\<close>

section \<open>Series as long as the axis\<close>

definition keyed :: "nat \<Rightarrow> 'a list gomap \<Rightarrow> string \<Rightarrow> bool" where
  "keyed n m k \<longleftrightarrow> (case map_of m k of None \<Rightarrow> False | Some xs \<Rightarrow> length xs = n)"

definition sized :: "nat \<Rightarrow> 'a list gomap \<Rightarrow> bool" where
  "sized n m \<longleftrightarrow> list_all (\<lambda>(k, xs). length xs = n) m"

definition shaped :: "nat \<Rightarrow> 'f statsSnapshot \<Rightarrow> bool" where
  "shaped n s \<longleftrightarrow> 0 < n \<and> length (sn_days s) = n \<and>
     length (sn_clients s) = n \<and> length (sn_buildids s) = n \<and> length (sn_requests s) = n \<and>
     list_all (\<lambda>(h, byEp). sized n byEp) (sn_traffic s) \<and>
     list_all (keyed n (sn_probes s)) (sn_probe_hosts s) \<and>
     list_all (keyed n (sn_thru s)) (sn_thru_hosts s) \<and>
     length (sn_cache_bytes s) = n \<and> length (sn_fs_free s) = n \<and> length (sn_cache_tmp s) = n"

section \<open>Such a snapshot renders\<close>

lemma renders_lines:
  assumes "sets \<noteq> []" "length sets \<le> length classes" "\<And>svg m. renders (f svg m)"
  shows "renders (linesPanel F sets classes aria t win \<bind> (\<lambda>(svg, m). f svg m))"
  using assms by (cases sets) (auto simp: linesPanel_def Let_def not_less)

lemma length_days [simp]: "length (day_names E s) = length (sn_days s)"
  by (simp add: day_names_def)

lemma ratio_length: "ratio F a b = Some c \<Longrightarrow> length c = length a"
  by (auto simp: ratio_def split: if_splits)

lemma renders_ratio:
  assumes "length a \<le> length b" "\<And>c. length c = length a \<Longrightarrow> renders (f c)"
  shows "renders (ratio F a b \<bind> f)"
  using assms ratio_length by (auto simp: ratio_def)

lemmas render_rules = renders_lines renders_json renders_ratio

lemma renderClients_renders: "shaped n s \<Longrightarrow> renders (renderClients E s)"
  unfolding renderClients_def Let_def
  by (intro render_rules) (auto simp: shaped_def toFloats_def)

lemma traffic_series_length:
  assumes "shaped n s"
  shows "case map_of (the_default [] (map_of (sn_traffic s) host)) ep of None \<Rightarrow> True | Some xs \<Rightarrow> length xs = n"
  using assms
  by (auto simp: shaped_def sized_def list_all_iff the_default_def split: option.splits dest!: map_of_SomeD)

lemma traffic_card_renders:
  assumes "shaped n s"
  shows "renders (traffic_card E s host mx (the_default [] (map_of (sn_traffic s) host)) ep)"
  using traffic_series_length [OF assms, of host ep] assms unfolding traffic_card_def Let_def
  by (intro render_rules) (auto simp: shaped_def split: option.splits)

lemma renderTraffic_renders: "shaped n s \<Longrightarrow> renders (renderTraffic E s)"
  unfolding renderTraffic_def traffic_row_of_def Let_def
  by (intro renders_any renders_all renders_Some traffic_card_renders)

lemma probe_row_renders:
  assumes "shaped n s" "host \<in> set (sn_probe_hosts s)"
  shows "renders (probe_row_of E s host)"
proof -
  obtain xs where "map_of (sn_probes s) host = Some xs" "length xs = n"
    using assms by (auto simp: shaped_def list_all_iff keyed_def split: option.splits)
  then show ?thesis using assms unfolding probe_row_of_def Let_def
    by (intro render_rules renders_Some) (auto simp: shaped_def toFloats_def pairCol_def the_default_def)
qed

lemma renderProbes_renders: "shaped n s \<Longrightarrow> renders (renderProbes E s)"
  unfolding renderProbes_def Let_def
  by (intro renders_any renders_all renders_Some probe_row_renders)

lemma thru_card_renders:
  assumes "shaped n s" "host \<in> set (sn_thru_hosts s)"
  shows "renders (thru_card E s host)"
proof -
  obtain xs where "map_of (sn_thru s) host = Some xs" "length xs = n"
    using assms by (auto simp: shaped_def list_all_iff keyed_def split: option.splits)
  then show ?thesis using assms unfolding thru_card_def Let_def
    by (intro render_rules renders_Some) (auto simp: shaped_def the_default_def)
qed

lemma renderThroughput_renders: "shaped n s \<Longrightarrow> renders (renderThroughput E s)"
  unfolding renderThroughput_def
  by (auto intro!: renders_any renders_all thru_card_renders)

lemma renderCache_renders: "shaped n s \<Longrightarrow> renders (renderCache E s)"
  unfolding renderCache_def cache_section_def Let_def
  by (auto intro!: render_rules simp: shaped_def)

lemma renderStats_renders:
  assumes "shaped n s"
  shows "renders (renderStats E s)"
proof -
  have "day_names E s \<noteq> []" using assms by (auto simp: shaped_def day_names_def)
  then show ?thesis
    using renderClients_renders [OF assms, of E] renderTraffic_renders [OF assms, of E] renderProbes_renders [OF assms, of E]
      renderThroughput_renders [OF assms, of E] renderCache_renders [OF assms, of E]
    unfolding renderStats_def by (cases "day_names E s") (auto simp: renders_def)
qed

section \<open>Collected snapshots and their views have that shape\<close>

lemma put_rows_keyed:
  assumes "distinct ds"
  shows "list_all (keyed (length ds) (put_rows ds zero rows)) (map fst (put_rows ds zero rows))"
proof -
  have "keyed (length ds) (put_rows ds zero rows) k" if "(k, xs) \<in> set (put_rows ds zero rows)" for k xs
    using map_of_is_SomeI [OF put_rows_distinct that]
    by (auto simp: keyed_def put_rows_map_of [OF assms] row_series_def split: if_splits)
  then show ?thesis by (auto simp: list_all_iff)
qed

lemma hosts_list_all: "list_all P (sortHostsByVolume hs w) \<longleftrightarrow> list_all P hs"
  by (simp add: sortHostsByVolume_def list_all_iff)

lemma put_rows_sized:
  assumes "distinct ds"
  shows "sized (length ds) (put_rows ds zero rows)"
proof -
  have "length xs = length ds" if "(k, xs) \<in> set (put_rows ds zero rows)" for k xs
    using map_of_is_SomeI [OF put_rows_distinct that] by (auto simp: put_rows_map_of [OF assms] row_series_def split: if_splits)
  then show ?thesis by (auto simp: sized_def list_all_iff)
qed

lemma traffic_sized:
  assumes "distinct ds" "(h, byEp) \<in> set (fold (traffic_row ds) rows [])"
  shows "sized (length ds) byEp"
  using map_of_is_SomeI [OF traffic_distinct assms(2)] put_rows_sized [OF assms(1)]
  by (auto simp: traffic_rows split: if_splits)

lemma length_put_days: "length (fold (\<lambda>r. put_day ds (g r) (f r)) rows z) = length z"
  by (induction rows arbitrary: z) (auto simp: put_day_def split: option.split)

lemma stats_step_Inr: "stats_step nm q f st = Inr s \<Longrightarrow> \<exists>rows s0. q = Inr rows \<and> st = Inr s0 \<and> f rows s0 = Inr s"
  by (auto simp: stats_step_def split: sum.splits)

lemma collected_cache:
  assumes "CollectStats F db today days = Inr s"
  shows "length (sn_cache_bytes s) = length (sn_days s)" "length (sn_fs_free s) = length (sn_days s)"
    "length (sn_cache_tmp s) = length (sn_days s)"
proof -
  obtain ca s0 where "collectCacheUsage F (db_cache_last db) ca s0 = Inr s"
    using stats_step_Inr [OF assms [unfolded CollectStats_def]] by blast
  then show "length (sn_cache_bytes s) = length (sn_days s)" "length (sn_fs_free s) = length (sn_days s)"
    "length (sn_cache_tmp s) = length (sn_days s)"
    by (auto simp: collectCacheUsage_def Let_def length_put_days split: if_splits sum.splits)
qed

lemma collected_shaped:
  assumes "CollectStats F db today days = Inr s"
  shows "shaped (Suc days) s"
proof -
  have ax: "distinct (axis today days)" "length (axis today days) = Suc days" by (simp_all add: axis_props)
  obtain t cl p th where s: "sn_days s = axis today days" "sn_traffic s = fold (traffic_row (axis today days)) t []"
      "sn_clients s = row_series (axis today days) 0 (column (\<lambda>(ips, b, q). ips) cl) ()"
      "sn_buildids s = row_series (axis today days) 0 (column (\<lambda>(ips, b, q). b) cl) ()"
      "sn_requests s = row_series (axis today days) 0 (column (\<lambda>(ips, b, q). q) cl) ()"
      "sn_probes s = put_rows (axis today days) no_probes p"
      "sn_probe_hosts s = sortHostsByVolume (map fst (sn_probes s)) (probe_weight (sn_probes s))"
      "sn_thru s = put_rows (axis today days) (no_thru F) th"
      "sn_thru_hosts s = sortHostsByVolume (map fst (sn_thru s)) (thru_weight (sn_thru s))"
    using CollectStats_rows [OF assms] by blast
  have tr: "list_all (\<lambda>(h, byEp). sized (Suc days) byEp) (sn_traffic s)"
    unfolding s(2) using traffic_sized [OF ax(1)] by (auto simp: list_all_iff ax(2))
  have keys: "list_all (keyed (Suc days) (sn_probes s)) (sn_probe_hosts s)" "list_all (keyed (Suc days) (sn_thru s)) (sn_thru_hosts s)"
    unfolding s(6-9) hosts_list_all using put_rows_keyed [OF ax(1)] ax(2) by metis+
  show ?thesis
    using tr keys collected_cache [OF assms] by (simp add: shaped_def s(1,3-5) ax row_series_def)
qed

lemma cutU_length: "length v = n \<Longrightarrow> k \<le> n \<Longrightarrow> length (cutU (n - k) n v) = k"
  by (simp add: cutU_def)

lemma keyed_cut: "keyed n m h \<Longrightarrow> k \<le> n \<Longrightarrow> keyed k (map (\<lambda>(h, s). (h, cutU (n - k) n s)) m) h"
  by (auto simp: keyed_def map_of_map cutU_length split: option.splits)

lemma keyed_cut_all:
  "list_all (keyed n m) hs \<Longrightarrow> k \<le> n \<Longrightarrow> list_all (keyed k (map (\<lambda>(h, s). (h, cutU (n - k) n s)) m)) hs"
  by (auto simp: list_all_iff intro: keyed_cut)

lemma sized_cut: "sized n m \<Longrightarrow> k \<le> n \<Longrightarrow> sized k (map (\<lambda>(h, s). (h, cutU (n - k) n s)) m)"
  by (auto simp: sized_def list_all_iff cutU_length)

lemma slice_shaped:
  assumes "shaped n s"
  shows "shaped (if Suc v < n then Suc v else n) (sliceSnapshot F s v)"
proof (cases "Suc v < n")
  case False
  with assms show ?thesis by (simp add: sliceSnapshot_def Let_def shaped_def)
next
  case True
  then have v: "Suc v \<le> n" "\<not> n \<le> v + 1" by auto
  have len: "length (sn_days s) = n" using assms by (simp add: shaped_def)
  note sl = sliceSnapshot_def [of F s v, unfolded Let_def len, simplified v(2) if_False]
  have cut: "length (cutU (n - Suc v) n xs) = Suc v" if "length xs = n" for xs :: "'x list"
    using cutU_length [OF that v(1)] .
  have "list_all (keyed (Suc v) (sn_probes (sliceSnapshot F s v))) (sn_probe_hosts (sliceSnapshot F s v))"
    "list_all (keyed (Suc v) (sn_thru (sliceSnapshot F s v))) (sn_thru_hosts (sliceSnapshot F s v))"
    using assms by (simp_all add: sl hosts_list_all shaped_def keyed_cut_all [OF _ v(1)])
  moreover have "list_all (\<lambda>(h, byEp). sized (Suc v) byEp) (sn_traffic (sliceSnapshot F s v))"
    using assms sized_cut [OF _ v(1)] by (fastforce simp: sl shaped_def list_all_iff)
  ultimately show ?thesis
    using assms True by (simp add: shaped_def sl cut)
qed

text \<open>C21. A successful refresh publishes for every window the page its view renders to: rendering never
  panics, and each page is a well-formed document.\<close>

theorem refresh_pages_render:
  assumes "page_env_ok E" "CollectStats (rf (pe_fl E)) db today days = Inr snap" "v \<in> set views"
  shows "\<exists>view body pages. refresh (rf (pe_fl E)) (\<lambda>s. the (renderStats E s)) maxBytes views (gen, Inr snap) old = Some pages \<and>
    renderStats E view = Some body \<and> pages v = Some (stats_page gen v body) \<and> well_formed body \<and>
    view = (sliceSnapshot (rf (pe_fl E)) ((if maxBytes > 0 then snap\<lparr>sn_cache_max := word_of_int maxBytes\<rparr> else snap)\<lparr>sn_views := views\<rparr>)
      (nat v))\<lparr>sn_views := views\<rparr>"
proof -
  define s1 where "s1 = (if maxBytes > 0 then snap\<lparr>sn_cache_max := word_of_int maxBytes\<rparr> else snap)\<lparr>sn_views := views\<rparr>"
  define view where "view = (sliceSnapshot (rf (pe_fl E)) s1 (nat v))\<lparr>sn_views := views\<rparr>"
  have "shaped (Suc days) s1" using collected_shaped [OF assms(2)] by (simp add: s1_def shaped_def)
  from slice_shaped [OF this, of "nat v" "rf (pe_fl E)"] have "\<exists>n. shaped n view"
    unfolding view_def by (auto simp: shaped_def split: if_splits)
  then obtain body where b: "renderStats E view = Some body"
    using renderStats_renders [of _ view E] by (auto simp: renders_def)
  have "\<exists>pages. refresh (rf (pe_fl E)) (\<lambda>s. the (renderStats E s)) maxBytes views (gen, Inr snap) old = Some pages \<and>
      pages v = Some (stats_page gen v (the (renderStats E view)))"
    using assms(3) by (simp add: refresh_def Let_def fold_views view_def s1_def)
  with b stats_page_well_formed [OF assms(1) b] show ?thesis
    unfolding view_def s1_def by auto
qed

end
