(* ===== verification/StatsPageInert.thy ===== *)
theory StatsPageInert
  imports StatsPageTotal
begin

text \<open>
  Names on the statistics page cannot become markup: whatever other names the hosts and countries of
  a snapshot are given, the page has the same angle brackets and quotes in the same order. Two
  snapshots that differ in names only are rendered side by side.
\<close>

section \<open>Other names\<close>

definition rekey :: "(string \<Rightarrow> string) \<Rightarrow> 'a gomap \<Rightarrow> 'a gomap" where
  "rekey f m = map (\<lambda>(k, x). (f k, x)) m"

definition rename_snapshot :: "(string \<Rightarrow> string) \<Rightarrow> (string \<Rightarrow> string) \<Rightarrow> 'f statsSnapshot \<Rightarrow> 'f statsSnapshot" where
  "rename_snapshot f g s = s\<lparr>
     sn_traffic := rekey f (sn_traffic s), sn_hosts := map f (sn_hosts s), sn_bytes := rekey f (sn_bytes s),
     sn_probes := rekey f (sn_probes s), sn_probe_hosts := map f (sn_probe_hosts s), sn_recent := rekey f (sn_recent s),
     sn_thru := rekey f (sn_thru s), sn_thru_hosts := map f (sn_thru_hosts s),
     sn_country := rekey g (sn_country s), sn_country_clients := rekey g (sn_country_clients s),
     sn_countries := map g (sn_countries s)\<rparr>"

text \<open>Names stay different, and the label of unresolved requests and the empty name stay what they are.\<close>

definition renaming :: "(string \<Rightarrow> string) \<Rightarrow> bool" where
  "renaming f \<longleftrightarrow> inj f \<and> f unresolvedLabel = unresolvedLabel \<and> f [] = []"

lemma rekey_lookup: "inj f \<Longrightarrow> map_of (rekey f m) (f k) = map_of m k"
  by (induction m) (auto simp: rekey_def inj_eq)

lemma renaming_simps:
  assumes "renaming f"
  shows "f h = unresolvedLabel \<longleftrightarrow> h = unresolvedLabel" "f h = [] \<longleftrightarrow> h = []" "map_of (rekey f m) (f h) = map_of m h"
proof -
  have f: "inj f" "f unresolvedLabel = unresolvedLabel" "f [] = []" using assms by (auto simp: renaming_def)
  show "f h = unresolvedLabel \<longleftrightarrow> h = unresolvedLabel" using inj_eq [OF f(1), of h unresolvedLabel] f(2) by simp
  show "f h = [] \<longleftrightarrow> h = []" using inj_eq [OF f(1), of h "[]"] f(3) by simp
  show "map_of (rekey f m) (f h) = map_of m h" by (rule rekey_lookup [OF f(1)])
qed

lemma rename_sel [simp]:
  "sn_traffic (rename_snapshot f g s) = rekey f (sn_traffic s)" "sn_hosts (rename_snapshot f g s) = map f (sn_hosts s)"
  "sn_bytes (rename_snapshot f g s) = rekey f (sn_bytes s)" "sn_bytes_total (rename_snapshot f g s) = sn_bytes_total s"
  "sn_probes (rename_snapshot f g s) = rekey f (sn_probes s)" "sn_probe_hosts (rename_snapshot f g s) = map f (sn_probe_hosts s)"
  "sn_probe_total (rename_snapshot f g s) = sn_probe_total s" "sn_probe_ok (rename_snapshot f g s) = sn_probe_ok s"
  "sn_recent (rename_snapshot f g s) = rekey f (sn_recent s)" "sn_recent_total (rename_snapshot f g s) = sn_recent_total s"
  "sn_thru (rename_snapshot f g s) = rekey f (sn_thru s)" "sn_thru_hosts (rename_snapshot f g s) = map f (sn_thru_hosts s)"
  "sn_thru_max (rename_snapshot f g s) = sn_thru_max s"
  "sn_country (rename_snapshot f g s) = rekey g (sn_country s)"
  "sn_country_clients (rename_snapshot f g s) = rekey g (sn_country_clients s)"
  "sn_countries (rename_snapshot f g s) = map g (sn_countries s)"
  "sn_days (rename_snapshot f g s) = sn_days s" "sn_smooth (rename_snapshot f g s) = sn_smooth s"
  "sn_views (rename_snapshot f g s) = sn_views s" "sn_clients (rename_snapshot f g s) = sn_clients s"
  "sn_buildids (rename_snapshot f g s) = sn_buildids s" "sn_requests (rename_snapshot f g s) = sn_requests s"
  "sn_has_cache (rename_snapshot f g s) = sn_has_cache s" "sn_cache_bytes (rename_snapshot f g s) = sn_cache_bytes s"
  "sn_cache_tmp (rename_snapshot f g s) = sn_cache_tmp s" "sn_fs_free (rename_snapshot f g s) = sn_fs_free s"
  "sn_cache_last (rename_snapshot f g s) = sn_cache_last s" "sn_cache_max (rename_snapshot f g s) = sn_cache_max s"
  by (simp_all add: rename_snapshot_def)

lemma day_names_rename [simp]: "day_names E (rename_snapshot f g s) = day_names E s"
  by (simp add: day_names_def)

lemma isOffline_rename: "renaming f \<Longrightarrow> isOffline (rename_snapshot f g s) (f h) = isOffline s h"
  by (simp add: isOffline_def renaming_simps)

lemma offlineCount_rename: "renaming f \<Longrightarrow> offlineCount (rename_snapshot f g s) = offlineCount s"
  by (simp add: offlineCount_def filter_map o_def isOffline_rename)

section \<open>Markup of the names\<close>

lemma delims_flag [simp]: "delims (countryLabel code) = []"
  by (rule quiet_delims) simp

text \<open>Literals stay as they are: only the shape of the concatenation is compared.\<close>

lemmas shape_simps = alike_Some delims_append delims_html_escape delims_flag delims_aria statCard_def kpi_def
  bandPanel_def trafficPanel_def Let_def

section \<open>Section by section\<close>

lemma renderClients_rename: "renderClients E (rename_snapshot f g s) = renderClients E s"
  by (simp add: renderClients_def)

lemma traffic_card_rename:
  "alike (traffic_card E s host mx byEp ep) (traffic_card E (rename_snapshot f g s) host' mx byEp ep)"
  unfolding traffic_card_def Let_def rename_sel day_names_rename
  by (intro alike_bind) (simp only: shape_simps)

lemma traffic_tag_rename: "renaming f \<Longrightarrow> traffic_tag (rename_snapshot f g s) (f h) = traffic_tag s h"
  by (simp add: traffic_tag_def renaming_simps isOffline_rename)

lemma traffic_row_rename:
  assumes "renaming f"
  shows "alike (traffic_row_of E s h) (traffic_row_of E (rename_snapshot f g s) (f h))"
proof -
  have cards: "alike (all_of (map (traffic_card E s h mx byEp) statsEndpoints))
      (all_of (map (traffic_card E (rename_snapshot f g s) (f h) mx byEp) statsEndpoints))" for mx byEp
    by (rule alike_same) (rule traffic_card_rename)
  show ?thesis
    unfolding traffic_row_of_def Let_def rename_sel traffic_tag_rename [OF assms] renaming_simps(3) [OF assms]
    by (rule alike_fragment [OF cards]) (simp only: shape_simps)
qed

lemma renderTraffic_rename: "renaming f \<Longrightarrow> alike (renderTraffic E s) (renderTraffic E (rename_snapshot f g s))"
  unfolding renderTraffic_def rename_sel
  by (intro alike_fragment alike_all traffic_row_rename) (simp_all only: shape_simps)

lemma probe_row_rename:
  assumes "renaming f"
  shows "alike (probe_row_of E s h) (probe_row_of E (rename_snapshot f g s) (f h))"
  unfolding probe_row_of_def Let_def rename_sel day_names_rename renaming_simps(3) [OF assms] isOffline_rename [OF assms]
  by (intro alike_bind) (simp only: shape_simps)

lemma renderProbes_rename:
  assumes "renaming f"
  shows "alike (renderProbes E s) (renderProbes E (rename_snapshot f g s))"
proof -
  have "offlineNote (rename_snapshot f g s) = offlineNote s" by (simp add: offlineNote_def offlineCount_rename [OF assms])
  then show ?thesis
    unfolding renderProbes_def Let_def rename_sel
    by (intro alike_fragment alike_all probe_row_rename [OF assms]) (simp only: shape_simps)
qed

lemma thru_card_rename:
  assumes "renaming f"
  shows "alike (thru_card E s h) (thru_card E (rename_snapshot f g s) (f h))"
  unfolding thru_card_def Let_def rename_sel day_names_rename renaming_simps(3) [OF assms] isOffline_rename [OF assms]
  by (intro alike_bind) (simp only: shape_simps)

lemma renderThroughput_rename:
  assumes "renaming f"
  shows "alike (renderThroughput E s) (renderThroughput E (rename_snapshot f g s))"
proof (cases "sn_thru_hosts s = []")
  case False
  show ?thesis
    unfolding renderThroughput_def rename_sel map_is_Nil_conv if_not_P [OF False]
    by (intro alike_fragment alike_all thru_card_rename [OF assms]) (simp only: shape_simps)
qed (simp add: renderThroughput_def)

lemma insertion_sort_map:
  assumes "\<And>a b. lt' (r a) (r b) = lt a b"
  shows "insertion_sort lt' (map r xs) = map r (insertion_sort lt xs)"
proof -
  have s: "sink lt' (r x) (map r ys) = map r (sink lt x ys)" for x ys
    by (induction ys) (simp_all add: assms)
  have "fold (sink lt') (map r xs) (map r acc) = map r (fold (sink lt) xs acc)" for acc
    by (induction xs arbitrary: acc) (simp_all add: s)
  from this [of "[]"] show ?thesis by (simp add: insertion_sort_def rev_map)
qed

lemma renderBytes_rename:
  assumes "renaming f"
  shows "delims (renderBytes E (rename_snapshot f g s)) = delims (renderBytes E s)"
proof -
  let ?r = "\<lambda>r. (f (fst r), snd r)"
  let ?rows = "\<lambda>s. filter (\<lambda>r. snd r \<noteq> 0) (map (\<lambda>(h, v). (h, quad_list v ! 3)) (sn_bytes s))"
  have rows: "?rows (rename_snapshot f g s) = map ?r (?rows s)"
    by (simp add: rekey_def filter_map o_def split_beta)
  have srt: "insertion_sort (\<lambda>a b. snd b < snd a) (map ?r xs) = map ?r (insertion_sort (\<lambda>a b. snd b < snd a) xs)" for xs :: "(string \<times> u64) list"
    by (rule insertion_sort_map) simp
  have bar: "delims (bytes_bar F (rename_snapshot f g s) mx (?r r)) = delims (bytes_bar F s mx r)" for F mx r
    by (simp add: bytes_bar_def isOffline_rename [OF assms] delims_eval)
  show ?thesis
    unfolding renderBytes_def Let_def rows srt
    by (simp add: bar o_def delims_eval)
qed

lemma country_rows_rename:
  assumes "inj g"
  shows "country_rows (rename_snapshot f g s) = map (\<lambda>r. r\<lparr>cr_label := g (cr_label r)\<rparr>) (country_rows s)"
    "country_requests (rename_snapshot f g s) (g c) = country_requests s c"
  by (simp_all add: country_rows_def country_requests_def rekey_lookup [OF assms] take_map filter_map o_def)

lemma sumTop_rename: "sumTop (map (\<lambda>r. r\<lparr>cr_label := g (cr_label r)\<rparr>) rs) k = sumTop rs k"
  by (induction rs k rule: sumTop.induct) simp_all

lemma label_upd: "cr_requests (r\<lparr>cr_label := l\<rparr>) = cr_requests r" "cr_peak (r\<lparr>cr_label := l\<rparr>) = cr_peak r"
  by (cases r, simp)+

lemma country_bar_rename: "delims (country_bar F best (r\<lparr>cr_label := l\<rparr>)) = delims (country_bar F best r)"
  by (simp only: country_bar_def shape_simps label_upd)

lemma renderCountries_rename:
  assumes "inj g"
  shows "delims (renderCountries E (rename_snapshot f g s)) = delims (renderCountries E s)"
proof -
  have most: "map (country_requests (rename_snapshot f g s)) (map g cs) = map (country_requests s) cs" for cs
    by (simp add: country_rows_rename(2) [OF assms])
  have others: "filter (\<lambda>c. country_requests (rename_snapshot f g s) c \<noteq> 0) (drop countryRows (map g cs)) =
      map g (filter (\<lambda>c. country_requests s c \<noteq> 0) (drop countryRows cs))" for cs
    by (simp add: country_rows_rename(2) [OF assms] drop_map filter_map o_def)
  have bars: "map delims (map (country_bar F b) (map (\<lambda>r. r\<lparr>cr_label := g (cr_label r)\<rparr>) rs)) =
      map delims (map (country_bar F b) rs)" for F b rs
    by (simp add: country_bar_rename)
  show ?thesis
  proof (cases "country_rows s")
    case (Cons r rs)
    show ?thesis
      unfolding renderCountries_def Let_def country_rows_rename(1) [OF assms] sumTop_rename rename_sel others most Cons
        map_is_Nil_conv length_map list.case if_distrib [of delims]
      by (simp only: shape_simps delims_concat bars list.map list.case label_upd country_bar_rename
          sumTop_rename [of g "r # rs", unfolded list.map] if_distrib [of delims])
  qed (simp add: renderCountries_def country_rows_rename(1) [OF assms] Let_def)
qed

lemma renderCache_rename: "renderCache E (rename_snapshot f g s) = renderCache E s"
  by (simp add: renderCache_def cache_section_def)

text \<open>C19. Names of hosts and countries cannot become markup: under other names the page has the same
  angle brackets and quotes, in the same order, and it renders under the same conditions.\<close>

theorem stats_page_inert:
  assumes "renaming f" "inj g"
  shows "map_option delims (renderStats E (rename_snapshot f g s)) = map_option delims (renderStats E s)"
proof (cases "day_names E s")
  case (Cons d ds)
  have total: "grand_total (rename_snapshot f g s) = grand_total s"
    by (simp add: grand_total_def rekey_def o_def case_prod_unfold)
  have head: "page_head E (rename_snapshot f g s) a b = page_head E s a b" for a b
    by (simp only: page_head_def rename_sel total)
  note parts = renderTraffic_rename [OF assms(1), of E s g] renderProbes_rename [OF assms(1), of E s g]
    renderThroughput_rename [OF assms(1), of E s g]
  have "alike (renderStats E s) (renderStats E (rename_snapshot f g s))"
    unfolding renderStats_def day_names_rename Cons list.case renderClients_rename renderCache_rename head
    by (intro alike_bind alike_fragment parts)
       (simp only: alike_Some delims_append renderBytes_rename [OF assms(1)] renderCountries_rename [OF assms(2)])
  then show ?thesis by (simp add: alike_def)
qed (simp add: renderStats_def)

section \<open>Examples\<close>

definition ex_rfloats :: "int rfloats" where
  "ex_rfloats = \<lparr>rf = ex_floats, r_sub = (-), r_mul = (*), r_le = (\<le>), r_maximum = max, r_round = id,
     r_dec = (\<lambda>m k. int m), r_trunc = word_of_int, r_fix = (\<lambda>n. int_str), r_short = int_str, r_g2 = int_str\<rparr>"

definition ex_env :: "int page_env" where
  "ex_env = \<lparr>pe_fl = ex_rfloats, pe_day = int_str, pe_generated = ''2026-01-01 00:00'', pe_took = ''5ms''\<rparr>"

lemma nat_str_digits: "list_all is_digit (nat_str n)"
proof (induction n rule: nat_str.induct)
  case (1 n)
  have d: "is_digit (char_of (48 + k))" if "k < 10" for k :: nat
    using that by (simp add: is_digit_def)
  from 1 show ?case by (subst nat_str.simps) (auto simp: d)
qed

lemma int_str_number: "list_all number_char (int_str i)"
proof -
  have "list_all number_char (nat_str n)" for n
    using nat_str_digits [of n] by (auto simp: list_all_iff number_char_def)
  then show ?thesis by (simp add: int_str_def number_char_def)
qed

lemma ex_env_ok: "page_env_ok ex_env"
  by (simp add: page_env_ok_def formats_ok_def ex_env_def ex_rfloats_def int_str_number is_delim_def)

lemma ex_env_floats: "rf (pe_fl ex_env) = ex_floats"
  by (simp add: ex_env_def ex_rfloats_def)

theorem refresh_pages_render_witness:
  "\<exists>snap view body pages. CollectStats ex_floats ex_db 100 30 = Inr snap \<and>
     refresh ex_floats (\<lambda>s. the (renderStats ex_env s)) 0 [7, 30] (0, Inr snap) None = Some pages \<and>
     renderStats ex_env view = Some body \<and> pages 7 = Some (stats_page 0 7 body) \<and> well_formed body"
proof -
  obtain snap where s: "CollectStats ex_floats ex_db 100 30 = Inr snap" using ex_collects by blast
  from refresh_pages_render [OF ex_env_ok s [folded ex_env_floats], of 7 "[7, 30]" 0 0 None]
  show ?thesis unfolding ex_env_floats using s by auto
qed

text \<open>Two hosts change places, one of them with a name made of markup.\<close>

definition ex_rename :: "string \<Rightarrow> string" where
  "ex_rename h = (if h = ''debian'' then ''<script>'' else if h = ''<script>'' then ''debian'' else h)"

lemma ex_renaming: "renaming ex_rename" "inj ex_rename"
  by (auto simp: renaming_def inj_def ex_rename_def unresolvedLabel_def)

theorem stats_page_inert_witness:
  "\<exists>snap. CollectStats ex_floats ex_db 100 30 = Inr snap \<and>
     map_option delims (renderStats ex_env (rename_snapshot ex_rename ex_rename snap)) = map_option delims (renderStats ex_env snap)"
proof -
  obtain snap where "CollectStats ex_floats ex_db 100 30 = Inr snap" using ex_collects by blast
  with stats_page_inert [OF ex_renaming] show ?thesis by blast
qed

end
