(* ===== verification/ReleaseStats.thy ===== *)
theory ReleaseStats
  imports Releases
begin

text \<open>
  \<open>CollectStats\<close> of \<open>cmd/releases/stats.go\<close>: one window collected from the rows of the access log and
  of GitHub's download counters. A query is its rows or an error; the two GitHub totals may be
  missing, which is not an error.
\<close>

record releaseStats =
  rs_days :: "int list"
  rs_redirects :: "u64 list"
  rs_rejected :: "u64 list"
  rs_ips :: "u64 list"
  rs_total :: u64
  rs_uniq_ips :: u64
  rs_uniq_countries :: u64
  rs_platforms :: "labelCount list"
  rs_variants :: "labelCount list"
  rs_formats :: "labelCount list"
  rs_assets :: "labelCount list"
  rs_countries :: "labelCount list"
  rs_clients :: "labelCount list"
  rs_versions :: "labelCount list"
  rs_curves :: "releaseCurve list"
  rs_curve_days :: nat
  rs_gh_daily :: "u64 list"
  rs_gh_tag :: string
  rs_gh_tag_total :: u64
  rs_gh_total :: u64
  rs_window :: nat
  rs_views :: "int list"

record rel_db =
  rdb_daily :: "nat \<Rightarrow> string + (int \<times> u64 \<times> u64 \<times> u64) list"
  rdb_totals :: "nat \<Rightarrow> string + (u64 \<times> u64 \<times> u64)"
  rdb_countries :: "nat \<Rightarrow> string + (string \<times> u64) list"
  rdb_versions :: "nat \<Rightarrow> string + (string \<times> u64) list"
  rdb_clients :: "nat \<Rightarrow> string + (string \<times> u64) list"
  rdb_gh_total :: "u64 option"
  rdb_gh_latest :: "(string \<times> u64) option"
  rdb_gh_daily :: "nat \<Rightarrow> string + (int \<times> int) list"
  rdb_assets :: "string + (string \<times> u64) list"
  rdb_curves :: "string + (string \<times> int \<times> u64) list"

definition empty_release :: "int \<Rightarrow> nat \<Rightarrow> releaseStats" where
  "empty_release today days =
     (let z = replicate (length (axis today days)) 0 in
      \<lparr>rs_days = axis today days, rs_redirects = z, rs_rejected = z, rs_ips = z, rs_total = 0, rs_uniq_ips = 0,
       rs_uniq_countries = 0, rs_platforms = [], rs_variants = [], rs_formats = [], rs_assets = [], rs_countries = [],
       rs_clients = [], rs_versions = [], rs_curves = [], rs_curve_days = 0, rs_gh_daily = z, rs_gh_tag = [],
       rs_gh_tag_total = 0, rs_gh_total = 0, rs_window = days, rs_views = []\<rparr>)"

definition collectDaily :: "(int \<times> u64 \<times> u64 \<times> u64) list \<Rightarrow> releaseStats \<Rightarrow> releaseStats" where
  "collectDaily rows s =
     (let put = (\<lambda>f xs. fold (\<lambda>r. put_day (rs_days s) (fst r) (f (snd r))) rows xs)
      in s\<lparr>rs_redirects := put (\<lambda>(ok, bad, ips). ok) (rs_redirects s),
           rs_rejected := put (\<lambda>(ok, bad, ips). bad) (rs_rejected s),
           rs_ips := put (\<lambda>(ok, bad, ips). ips) (rs_ips s)\<rparr>)"

definition collectTotals :: "u64 \<times> u64 \<times> u64 \<Rightarrow> releaseStats \<Rightarrow> releaseStats" where
  "collectTotals t s = (case t of (n, ips, cs) \<Rightarrow> s\<lparr>rs_total := n, rs_uniq_ips := ips, rs_uniq_countries := cs\<rparr>)"

definition label_rows :: "(string \<times> u64) list \<Rightarrow> labelCount list" where
  "label_rows rows = map (\<lambda>(k, n). \<lparr>lc_label = k, lc_n = n\<rparr>) rows"

text \<open>Three queries in a row; the first error ends the loop.\<close>

definition collectDimensions :: "rel_db \<Rightarrow> nat \<Rightarrow> releaseStats \<Rightarrow> string + releaseStats" where
  "collectDimensions db days s = (case rdb_countries db days of
     Inl e \<Rightarrow> Inl e
   | Inr cs \<Rightarrow> (case rdb_versions db days of
       Inl e \<Rightarrow> Inl e
     | Inr vs \<Rightarrow> (case rdb_clients db days of
         Inl e \<Rightarrow> Inl e
       | Inr ks \<Rightarrow> Inr (s\<lparr>rs_countries := topN (label_rows cs) 12, rs_versions := topN (label_rows vs) 8,
                            rs_clients := topN (label_rows ks) 10\<rparr>))))"

definition collectGitHub :: "rel_db \<Rightarrow> nat \<Rightarrow> releaseStats \<Rightarrow> string + releaseStats" where
  "collectGitHub db days s0 =
     (let s = (case rdb_gh_total db of None \<Rightarrow> s0 | Some t \<Rightarrow> s0\<lparr>rs_gh_total := t\<rparr>) in
      case rdb_gh_latest db of
        None \<Rightarrow> Inr s
      | Some (tag, t) \<Rightarrow>
          (let s1 = s\<lparr>rs_gh_tag := tag, rs_gh_tag_total := t\<rparr> in
           case rdb_gh_daily db days of
             Inl e \<Rightarrow> Inl e
           | Inr rows \<Rightarrow> Inr (s1\<lparr>rs_gh_daily := fold (\<lambda>(d, n) xs. if n > 0 then put_day (rs_days s1) d (word_of_int n) xs else xs)
               rows (rs_gh_daily s1)\<rparr>)))"

definition rel_CollectStats :: "(string \<Rightarrow> nat) \<Rightarrow> rel_db \<Rightarrow> int \<Rightarrow> nat \<Rightarrow> string + releaseStats" where
  "rel_CollectStats order db today days =
     stats_step ''curves'' (rdb_curves db) (\<lambda>rows s. case collectCurves order rows of
         (cs, n) \<Rightarrow> Inr (s\<lparr>rs_curves := cs, rs_curve_days := n\<rparr>))
     (stats_step ''assets'' (rdb_assets db) (\<lambda>rows s. case collectAssets rows of
         (a, p, v, f) \<Rightarrow> Inr (s\<lparr>rs_assets := a, rs_platforms := p, rs_variants := v, rs_formats := f\<rparr>))
     (stats_step ''github'' (Inr ()) (\<lambda>_. collectGitHub db days)
     (stats_step ''dimensions'' (Inr ()) (\<lambda>_. collectDimensions db days)
     (stats_step ''totals'' (rdb_totals db days) (\<lambda>t s. Inr (collectTotals t s))
     (stats_step ''daily'' (rdb_daily db days) (\<lambda>rows s. Inr (collectDaily rows s))
       (Inr (empty_release today days)))))))"

section \<open>The shape of a collected window\<close>

text \<open>Daily series have a value per day; every curve has at least two points and none more than
  \<open>CurveDays\<close>.\<close>

definition rel_shaped :: "releaseStats \<Rightarrow> bool" where
  "rel_shaped s \<longleftrightarrow> rs_days s \<noteq> [] \<and> length (rs_redirects s) = length (rs_days s) \<and>
     length (rs_ips s) = length (rs_days s) \<and> length (rs_gh_daily s) = length (rs_days s) \<and>
     list_all (\<lambda>c. rc_series c \<noteq> [] \<and> length (rc_series c) \<le> rs_curve_days s) (rs_curves s)"

lemma length_put_all: "length (fold (\<lambda>r. put_day ds (g r) (f r)) rows z) = length z"
  by (induction rows arbitrary: z) (auto simp: put_day_def split: option.split)

lemma length_put_some:
  "length (fold (\<lambda>(d, n) xs. if n > (0::int) then put_day ds d (h n) xs else xs) rows z) = length z"
  by (induction rows arbitrary: z) (auto simp: put_day_def split: option.split)

definition then_holds :: "('s \<Rightarrow> bool) \<Rightarrow> string + 's \<Rightarrow> bool" where
  "then_holds P m \<longleftrightarrow> (case m of Inl e \<Rightarrow> True | Inr s \<Rightarrow> P s)"

lemma then_holds_simps [simp]: "then_holds P (Inr s) \<longleftrightarrow> P s" "then_holds P (Inl e)"
  by (simp_all add: then_holds_def)

lemma step_holds:
  assumes "then_holds P st" "\<And>rows s. P s \<Longrightarrow> then_holds Q (f rows s)"
  shows "then_holds Q (stats_step nm q f st)"
proof (cases st)
  case (Inr s)
  show ?thesis
  proof (cases q)
    case (Inr rows)
    have "then_holds Q (f rows s)" using assms \<open>st = Inr s\<close> by simp
    then show ?thesis
      using \<open>st = Inr s\<close> Inr by (cases "f rows s") (simp_all add: stats_step_def)
  qed (simp add: stats_step_def Inr)
qed (simp add: stats_step_def)

lemma fold_max_ge: "x \<in> set xs \<Longrightarrow> f x \<le> fold (\<lambda>c m. max m (f c)) xs (a :: nat)"
proof -
  have m: "a \<le> fold (\<lambda>c m. max m (f c)) xs a" for xs a
    by (induction xs arbitrary: a) (auto intro: order_trans [OF max.cobounded1])
  show "x \<in> set xs \<Longrightarrow> f x \<le> fold (\<lambda>c m. max m (f c)) xs a"
    by (induction xs arbitrary: a) (auto intro: order_trans [OF max.cobounded2 m])
qed

lemma curve_points:
  assumes "release_curve tag r = Some c"
  shows "rc_series c \<noteq> []"
proof -
  have "length (curve_walk (cv_pts r) b 0 (0 # [1..<Suc (cv_last r)])) = Suc (cv_last r)" for b
    using curve_walk_sorted [of b 0 "cv_pts r" "0 # [1..<Suc (cv_last r)]"] by simp
  with assms show ?thesis
    by (auto simp: release_curve_def Let_def upt_conv_Cons split: if_splits simp del: upt_Suc)
qed

lemma collectCurves_shape:
  assumes "collectCurves order rows = (cs, n)"
  shows "list_all (\<lambda>c. rc_series c \<noteq> [] \<and> length (rc_series c) \<le> n) cs"
proof -
  have "rc_series c \<noteq> []" if "c \<in> set cs" for c
    using assms that curve_points by (auto simp: collectCurves_def Let_def List.map_filter_def split: option.splits)
  moreover have "length (rc_series c) \<le> n" if "c \<in> set cs" for c
    using assms that fold_max_ge [of c cs "\<lambda>c. length (rc_series c)" 0] by (auto simp: collectCurves_def Let_def)
  ultimately show ?thesis by (simp add: list_all_iff)
qed

definition daily_sized :: "int \<Rightarrow> nat \<Rightarrow> releaseStats \<Rightarrow> bool" where
  "daily_sized today days s \<longleftrightarrow> rs_days s = axis today days \<and> rs_window s = days \<and>
     length (rs_redirects s) = length (rs_days s) \<and> length (rs_ips s) = length (rs_days s) \<and>
     length (rs_gh_daily s) = length (rs_days s)"

lemma steps_sized:
  assumes "daily_sized today days s"
  shows "daily_sized today days (collectDaily rows s)" "daily_sized today days (collectTotals t s)"
    "then_holds (daily_sized today days) (collectDimensions db n s)"
    "then_holds (daily_sized today days) (collectGitHub db n s)"
  using assms
  by (auto simp: daily_sized_def collectDaily_def collectTotals_def collectDimensions_def collectGitHub_def Let_def
      length_put_all length_put_some split: prod.split sum.split option.split)

lemmas step_keeps = step_holds [where P = "daily_sized today days" and Q = "daily_sized today days" for today days]

lemma collected_window:
  "then_holds (\<lambda>s. daily_sized today days s \<and> rel_shaped s) (rel_CollectStats order db today days)"
  unfolding rel_CollectStats_def
proof (rule step_holds [where P = "daily_sized today days"])
  fix rows s
  assume s: "daily_sized today days s"
  obtain cs n where cc: "collectCurves order rows = (cs, n)" by fastforce
  have "axis today days \<noteq> []" by (simp add: axis_def)
  with s collectCurves_shape [OF cc] show "then_holds (\<lambda>s. daily_sized today days s \<and> rel_shaped s)
      (case collectCurves order rows of (cs, n) \<Rightarrow> Inr (s\<lparr>rs_curves := cs, rs_curve_days := n\<rparr>))"
    by (simp add: cc daily_sized_def rel_shaped_def)
next
  have assets: "then_holds (daily_sized today days) (case collectAssets rows of
      (a, p, v, f) \<Rightarrow> Inr (s\<lparr>rs_assets := a, rs_platforms := p, rs_variants := v, rs_formats := f\<rparr>))"
    if "daily_sized today days s" for rows s
    using that by (simp add: daily_sized_def split: prod.split)
  have start: "daily_sized today days (empty_release today days)"
    by (simp add: daily_sized_def empty_release_def Let_def)
  show "then_holds (daily_sized today days)
     (stats_step ''assets'' (rdb_assets db) (\<lambda>rows s. case collectAssets rows of
         (a, p, v, f) \<Rightarrow> Inr (s\<lparr>rs_assets := a, rs_platforms := p, rs_variants := v, rs_formats := f\<rparr>))
     (stats_step ''github'' (Inr ()) (\<lambda>_. collectGitHub db days)
     (stats_step ''dimensions'' (Inr ()) (\<lambda>_. collectDimensions db days)
     (stats_step ''totals'' (rdb_totals db days) (\<lambda>t s. Inr (collectTotals t s))
     (stats_step ''daily'' (rdb_daily db days) (\<lambda>rows s. Inr (collectDaily rows s))
       (Inr (empty_release today days)))))))"
    by (intro step_keeps assets) (simp_all add: steps_sized start)
qed

lemma rel_collected_shaped:
  assumes "rel_CollectStats order db today days = Inr s"
  shows "rel_shaped s" "rs_window s = days" "rs_days s = axis today days"
  using collected_window [of today days order db] unfolding assms by (auto simp: daily_sized_def)

end
