(* ===== verification/ReleaseRender.thy ===== *)
theory ReleaseRender
  imports ReleaseStats RenderKit PageAssets
begin

text \<open>
  \<open>cmd/releases/stats_render.go\<close>: the release page as a function of a collected window. Strings are
  the text the code writes; \<open>None\<close> is the panic of an index out of range. What both pages share is in
  \<open>RenderKit\<close>.
\<close>

section \<open>Panels\<close>

text \<open>A line without a class is an index out of range; a line without a positive value is not drawn.\<close>

definition seriesPanel :: "'f rfloats \<Rightarrow> 'f list \<Rightarrow> 'f list list \<Rightarrow> string list \<Rightarrow> string \<Rightarrow> string option" where
  "seriesPanel F area lns classes aria =
     (if list_ex (\<lambda>(k, l). anyPositive F l \<and> length classes \<le> k) (enumerate 0 lns) then None
      else
        (let n = length area; mx = fold (\<lambda>l m. r_maximum F m (maxOf F l)) lns (maxOf F area)
         in Some (svgHead aria @ polygon F n area mx ''band'' @
              concat (map (\<lambda>(k, l). if anyPositive F l then polyline F n l mx (''ln '' @ classes ! k) else [])
                (enumerate 0 lns)) @ svgTail F n)))"

definition curveClasses :: "string list" where
  "curveClasses = [''c-r0'', ''c-r1'', ''c-r2'', ''c-r3'', ''c-r4'']"

definition curveVars :: "string list" where
  "curveVars = [''--r0'', ''--r1'', ''--r2'', ''--r3'', ''--r4'']"

definition tallHead :: "string \<Rightarrow> string" where
  \<open>tallHead aria =
     ''<svg class="spark tall" viewBox="0 0 '' @ nat_str panelW @ '' '' @ nat_str panelH @
     ''" preserveAspectRatio="none" role="img" aria-label="'' @ html_escape aria @ ''">''\<close>

definition curve_floats :: "'f rfloats \<Rightarrow> releaseCurve \<Rightarrow> 'f list" where
  "curve_floats F c = toFloats F (rc_series c)"

definition curvesPanel :: "'f rfloats \<Rightarrow> releaseCurve list \<Rightarrow> nat \<Rightarrow> string \<Rightarrow> string" where
  "curvesPanel F curves n aria =
     (let mx = fold (\<lambda>c m. r_maximum F m (maxOf F (curve_floats F c))) curves (f_zero (rf F))
      in tallHead aria @
         concat (map (\<lambda>(k, c). if length (rc_series c) < 2 then []
             else polyline F n (curve_floats F c) mx (''ln '' @ curveClasses ! (k mod length curveClasses)))
           (enumerate 0 curves)) @ svgTail F n)"

section \<open>Cards\<close>

definition rel_jsonStrings :: "string list \<Rightarrow> string" where
  \<open>rel_jsonStrings items = ''['' @ join_with '','' (map (\<lambda>s. ''"'' @ html_escape s @ ''"'') items) @ '']''\<close>

definition chartCard :: "string \<Rightarrow> string \<Rightarrow> string \<Rightarrow> string \<Rightarrow> string \<Rightarrow> string \<Rightarrow> string" where
  \<open>chartCard title stat svg data labels vars =
     ''<figure class="card" data-series='' @ [CHR 0x27] @ data @ [CHR 0x27] @ '' data-labels='' @ [CHR 0x27] @
     labels @ [CHR 0x27] @ '' data-vars='' @ [CHR 0x27] @ vars @ [CHR 0x27] @ ''>'' @
     ''<figcaption><span class="epname">'' @ html_escape title @ ''</span><span class="hstat">'' @ stat @
     ''</span></figcaption>'' @ ''<div class="plot">'' @ svg @ ''<div class="tip" hidden></div></div></figure>''\<close>

definition rel_fmtCount :: "'f rfloats \<Rightarrow> u64 \<Rightarrow> string" where
  "rel_fmtCount F n =
     (if n \<ge> 1000000 then trimZero (r_fix F 1 (f_div (rf F) (f_u64 (rf F) n) (whole F 1000000))) @ ''M''
      else if n \<ge> 10000 then trimZero (r_fix F 1 (f_div (rf F) (f_u64 (rf F) n) (whole F 1000))) @ ''k''
      else u64_str n)"

definition rel_pct :: "'f rfloats \<Rightarrow> u64 \<Rightarrow> u64 \<Rightarrow> string" where
  "rel_pct F part most =
     (if most = 0 then ''0%''
      else trimZero (r_fix F 1 (r_mul F (f_div (rf F) (f_u64 (rf F) part) (f_u64 (rf F) most)) (whole F 100))) @ ''%'')"

definition bar_row :: "'f rfloats \<Rightarrow> u64 \<Rightarrow> u64 \<Rightarrow> bool \<Rightarrow> bool \<Rightarrow> labelCount \<Rightarrow> string" where
  \<open>bar_row F sum_n max_n wide showShare it =
     ''<div class="brow"><span class="'' @ (if wide then ''blab wide'' else ''blab'') @ ''" title="'' @
     html_escape (lc_label it) @ ''">'' @ html_escape (lc_label it) @
     ''</span><span class="btrack"><span class="bfill" style="width:'' @
     r_fix F 1 (r_mul F (f_div (rf F) (f_u64 (rf F) (lc_n it)) (f_u64 (rf F) max_n)) (whole F 100)) @
     ''%"></span></span><span class="bval">'' @ ''<b>'' @ rel_fmtCount F (lc_n it) @ ''</b>'' @
     (if showShare then '' &middot; '' @ rel_pct F (lc_n it) sum_n else []) @ ''</span></div>''\<close>

definition barCard :: "'f rfloats \<Rightarrow> string \<Rightarrow> string \<Rightarrow> labelCount list \<Rightarrow> bool \<Rightarrow> bool \<Rightarrow> string" where
  \<open>barCard F title note items wide showShare =
     (let sum_n = fold (\<lambda>it s. s + lc_n it) items 0;
          max_n = fold (\<lambda>it m. if lc_n it > m then lc_n it else m) items 0
      in ''<figure class="card"><figcaption><span class="epname">'' @ html_escape title @ ''</span>'' @
         (if note \<noteq> [] then ''<span class="hstat">'' @ html_escape note @ ''</span>'' else []) @ ''</figcaption>'' @
         (if items = [] \<or> sum_n = 0 then ''<div class="empty">no data in this window</div></figure>''
          else concat (map (bar_row F sum_n max_n wide showShare) items) @ ''</figure>''))\<close>

section \<open>Adoption\<close>

text \<open>The verdict compares the two newest releases at the oldest age both have reached.\<close>

definition adoptionVerdict :: "'f rfloats \<Rightarrow> releaseCurve list \<Rightarrow> string" where
  "adoptionVerdict F curves =
     (case curves of
        newest # prev # _ \<Rightarrow>
          (let reach = min (length (rc_series newest)) (length (rc_series prev)); age = reach - 1;
               a = curve_floats F newest ! age; b = curve_floats F prev ! age
           in if reach < 2 then []
              else if r_le F b (f_zero (rf F)) then ''compared at day '' @ nat_str age
              else ''at day '' @ nat_str age @ '', '' @ html_escape (rc_tag newest) @ '' is '' @
                r_g2 F (f_div (rf F) a b) @ ''x '' @ html_escape (rc_tag prev))
      | _ \<Rightarrow> ''only one release has a curve'')"

text \<open>A curve padded to the shared axis with its last value.\<close>

definition padded_curve :: "'f rfloats \<Rightarrow> nat \<Rightarrow> releaseCurve \<Rightarrow> 'f list" where
  "padded_curve F days c =
     map (\<lambda>i. curve_floats F c ! (if i < length (rc_series c) then i else length (rc_series c) - 1)) [0..<days]"

definition curve_key :: "nat \<times> releaseCurve \<Rightarrow> string" where
  \<open>curve_key kc = (case kc of (k, c) \<Rightarrow>
     ''<span><span class="sw" style="background:var('' @ curveVars ! (k mod length curveVars) @ '')"></span>'' @
     html_escape (rc_tag c) @ ''</span>'')\<close>

definition horizon_row :: "releaseCurve \<Rightarrow> labelCount" where
  "horizon_row c = \<lparr>lc_label = (if rc_reached c then rc_tag c
       else rc_tag c @ '' (only '' @ int_str (int (length (rc_series c)) - 1) @ ''d so far)''), lc_n = rc_at_horizon c\<rparr>"

definition renderAdoption :: "'f rfloats \<Rightarrow> releaseStats \<Rightarrow> string option" where
  \<open>renderAdoption F s =
     (if rs_curves s = []
      then Some (''<figure class="card"><figcaption><span class="epname">Release adoption'' @
        ''</span></figcaption><div class="empty">needs at least one release sampled over '' @
        ''more than a day</div></figure>'')
      else if rs_curve_days s > 0 \<and> list_ex (\<lambda>c. rc_series c = []) (rs_curves s) then None
      else
        (let curves = rev (rs_curves s);
             days = map (\<lambda>i. ''day '' @ nat_str i) [0..<rs_curve_days s]
         in do {
           j \<leftarrow> seriesJSON F days (map (padded_curve F (rs_curve_days s)) curves);
           Some (''<div class="legend">'' @ concat (map curve_key (enumerate 0 curves)) @ ''</div>'' @
             chartCard ''Cumulative downloads by release age''
               (''day 0 &ndash; '' @ nat_str curveHorizon @ '' after each release'')
               (curvesPanel F curves (rs_curve_days s)
                 (''Cumulative downloads per release over the first '' @ nat_str curveHorizon @ '' days after each release''))
               j (rel_jsonStrings (map rc_tag curves))
               (rel_jsonStrings (map (\<lambda>k. curveVars ! (k mod length curveVars)) [0..<length curves])) @
             barCard F (''Downloads in the first '' @ nat_str curveHorizon @ '' days'')
               (adoptionVerdict F curves) (map horizon_row curves) True False)
         }))\<close>

section \<open>The page\<close>

definition rel_day_names :: "'f page_env \<Rightarrow> releaseStats \<Rightarrow> string list" where
  "rel_day_names E s = map (pe_day E) (rs_days s)"

definition rel_page_head :: "'f page_env \<Rightarrow> releaseStats \<Rightarrow> string \<Rightarrow> string \<Rightarrow> string" where
  \<open>rel_page_head E s first final =
     (let F = F_of E in
      ''<!doctype html><html lang="en"><head><meta charset="utf-8">'' @
      ''<meta name="viewport" content="width=device-width,initial-scale=1">'' @
      ''<meta name="robots" content="noindex">'' @
      ''<title>releases.pwndbg.re stats</title><style>'' @ rel_statsCSS @ ''</style></head><body>'' @
      ''<div class="viz-root"><div class="wrap">'' @
      ''<div class="head"><h1>releases.pwndbg.re &mdash; last '' @ nat_str (rs_window s) @ '' days</h1>'' @
      viewSwitch (rs_views s) (int (rs_window s)) @ ''</div>'' @
      ''<p class="sub">'' @ first @ '' &rarr; '' @ final @ '' &middot; generated '' @ pe_generated E @ '' UTC in '' @
      pe_took E @ ''</p>'' @ ''<div class="kpis">'' @ kpi ''Redirects'' (rel_fmtCount F (rs_total s)) @
      kpi ''Unique clients'' (rel_fmtCount F (rs_uniq_ips s)) @
      kpi ''Countries'' (rel_fmtCount F (rs_uniq_countries s)) @
      kpi ''Downloads on GitHub'' (rel_fmtCount F (rs_gh_total s)) @ ''</div>'')\<close>

definition redirects_section :: "'f page_env \<Rightarrow> releaseStats \<Rightarrow> string option" where
  \<open>redirects_section E s =
     (let F = F_of E; redirects = toFloats F (rs_redirects s); ips = toFloats F (rs_ips s) in do {
        svg \<leftarrow> seriesPanel F redirects [ips] [''c-ip''] ''Redirects issued per day, with unique clients per day overlaid'';
        j \<leftarrow> seriesJSON F (rel_day_names E s) [redirects, ips];
        Some (''<h2 class="sec">Redirects issued</h2>'' @
          ''<p class="sub">What this host was asked for. A redirect is not a download: '' @
          ''the client still has to follow it to GitHub, and a resumed or retried transfer asks twice. '' @
          ''People who go to the GitHub releases page directly never appear here at all.</p>'' @
          ''<div class="legend">'' @
          ''<span><span class="sw" style="background:var(--band)"></span>redirects per day</span>'' @
          ''<span><span class="swl"></span>unique clients per day</span></div>'' @
          chartCard ''Redirects and unique clients per day''
            (''<b>'' @ rel_fmtCount F (rs_total s) @ ''</b> redirects &middot; <b>'' @ rel_fmtCount F (rs_uniq_ips s) @
             ''</b> clients'')
            svg j (rel_jsonStrings [''redirects'', ''unique clients'']) (rel_jsonStrings [''--band'', ''--ident'']))
      })\<close>

definition clients_section :: "'f page_env \<Rightarrow> releaseStats \<Rightarrow> string" where
  \<open>clients_section E s =
     ''<h2 class="sec">Who comes through here</h2>'' @
     ''<p class="sub">Things only this host can know: GitHub reports how often a file was '' @
     ''downloaded, never by whom or from where. Homebrew is the reason the client split is worth '' @
     ''having at all &mdash; its architecture is in the User-Agent, because the formula picks the '' @
     ''bottle, so the filename would not tell us.</p>'' @ ''<div class="row3">'' @
     barCard (F_of E) ''Client'' ''unique IPs'' (rs_clients s) False True @
     barCard (F_of E) ''Country'' ''CF-IPCountry'' (rs_countries s) False True @
     barCard (F_of E) ''Version requested'' [] (rs_versions s) False True @ ''</div>''\<close>

definition github_intro :: string where
  \<open>github_intro =
     ''<h2 class="sec">GitHub download counters</h2>'' @
     ''<p class="sub">A different measurement with a different denominator: these are '' @
     ''downloads GitHub itself counted, from every source, not just clients that came through here. '' @
     ''They are cumulative and sampled hourly &mdash; and only for whichever release is '' @
     ''<code>latest</code> at the time, so an older tag freezes at the value it had when its '' @
     ''successor shipped. That is also why releases are compared by <em>age</em> rather than by '' @
     ''total: a tag that stayed current for five months was counted for five months, so its total '' @
     ''measures tenure as much as popularity. Every curve therefore covers the same first '' @
     ''30 days; a line that stops early is a release that is not that old yet.</p>''\<close>

definition artifacts_section :: "'f page_env \<Rightarrow> releaseStats \<Rightarrow> string" where
  \<open>artifacts_section E s =
     (let tag = (if rs_gh_tag s = [] then ''current release'' else rs_gh_tag s) in
      ''<h3 class="sub" style="margin-top:24px;font-weight:600;color:var(--text-primary)">'' @
      ''What people download &mdash; '' @ html_escape tag @ ''</h3>'' @
      ''<p class="sub">One release, so every artifact here has been counted over the same '' @
      ''span. Summed across releases they would not be comparable, because a tag stops being polled '' @
      ''when its successor ships. An <code>other</code> row that is not tiny means the release '' @
      ''naming changed and <code>classifyAsset</code> needs a look.</p>'' @ ''<div class="row3">'' @
      barCard (F_of E) ''Platform'' [] (rs_platforms s) False True @
      barCard (F_of E) ''Variant'' [] (rs_variants s) False True @
      barCard (F_of E) ''Format'' [] (rs_formats s) False True @ ''</div>'' @
      barCard (F_of E) ''Downloads per artifact'' (html_escape tag) (rs_assets s) True True)\<close>

definition daily_section :: "'f page_env \<Rightarrow> releaseStats \<Rightarrow> string option" where
  \<open>daily_section E s =
     (let F = F_of E; gh = toFloats F (rs_gh_daily s);
          stat = (if rs_gh_tag s \<noteq> []
            then html_escape (rs_gh_tag s) @ '' &middot; <b>'' @ rel_fmtCount F (rs_gh_tag_total s) @ ''</b> total''
            else ''no snapshots yet'')
      in do {
        svg \<leftarrow> seriesPanel F gh [] [] (''Downloads per day, differenced from GitHub'' @ [CHR 0x27] @ ''s cumulative counter'');
        j \<leftarrow> seriesJSON F (rel_day_names E s) [gh];
        Some (''<div class="row2">'' @
          chartCard ''Downloads per day (current release)'' stat svg j (rel_jsonStrings [''downloads''])
            (rel_jsonStrings [''--band'']) @ ''</div>'')
      })\<close>

definition rel_page_foot :: string where
  \<open>rel_page_foot =
     ''<p class="foot">The two sections count different populations. Redirects are only '' @
     ''clients that came through this host &mdash; the install script and Homebrew &mdash; so '' @
     ''anyone who opens the GitHub releases page and clicks a file is invisible here; that is why '' @
     ''the artifact breakdown is taken from GitHub&rsquo;s counters rather than from our log. '' @
     ''Per-day GitHub numbers are differences between consecutive hourly '' @
     ''samples of a cumulative counter, so they inherit its gaps: the first sample after a release '' @
     ''is published is dropped rather than attributed to a day, which undercounts exactly the hours '' @
     ''a release is busiest, and a pause in polling lands several hours of downloads on whichever '' @
     ''day the next sample falls. Decreases are discarded. Country comes from Cloudflare&rsquo;s '' @
     ''<code>CF-IPCountry</code> header &mdash; if IP geolocation is off at the edge every row reads '' @
     ''<code>unknown</code>. Client buckets count distinct IPs and therefore do not add up to the '' @
     ''headline figure, since one address can match two buckets over a long window.</p>'' @
     ''</div></div><script>'' @ rel_statsJS @ ''</script></body></html>''\<close>

definition rel_renderStats :: "'f page_env \<Rightarrow> releaseStats \<Rightarrow> string option" where
  "rel_renderStats E s =
     (case rel_day_names E s of
        [] \<Rightarrow> Some ''<!doctype html><title>releases.pwndbg.re stats</title><p>no data''
      | d # ds \<Rightarrow> do {
          redirects \<leftarrow> redirects_section E s;
          adoption \<leftarrow> renderAdoption (F_of E) s;
          daily \<leftarrow> daily_section E s;
          Some (rel_page_head E s d (last (d # ds)) @ redirects @ clients_section E s @ github_intro @ adoption @
            artifacts_section E s @ daily @ rel_page_foot)
        })"

end
