(* ===== verification/ReleasePageSafe.thy ===== *)
theory ReleasePageSafe
  imports ReleaseRender RenderFacts
begin

text \<open>
  The release page: every window that was collected renders without a panic, the page is a
  well-formed document whatever the tags, file names, versions and countries are, and none of those
  names can become markup.
\<close>

section \<open>Panels and cards\<close>

lemma tallHead_run: "hrun (tallHead aria) (HText, st) = (HText, ''svg'' # st)"
  by (simp add: tallHead_def html_defs quiet_tok)

lemma quiet_nth: "list_all quiet cs \<Longrightarrow> k < length cs \<Longrightarrow> quiet (cs ! k)"
  by (simp add: list_all_length)

lemma seriesPanel_nested:
  assumes "formats_ok F" "list_all quiet classes" "seriesPanel F area lns classes aria = Some svg"
  shows "nested svg"
proof -
  have body: "nested (polygon F n area mx ''band'' @
      concat (map (\<lambda>(k, l). if anyPositive F l then polyline F n l mx (''ln '' @ classes ! k) else []) (enumerate 0 lns)))"
    if "\<not> list_ex (\<lambda>(k, l). anyPositive F l \<and> length classes \<le> k) (enumerate 0 lns)" for n mx
  proof -
    have "quiet (classes ! k)" if "(k, l) \<in> set (enumerate 0 lns)" "anyPositive F l" for k l
      using that assms(2) \<open>\<not> list_ex _ _\<close> by (fastforce simp: list_ex_iff intro: quiet_nth)
    then show ?thesis
      using assms(1) by (auto simp: is_delim_def intro!: nested_append nested_concat_map polygon_nested polyline_nested)
  qed
  show ?thesis
    using assms(3) svg_nested [OF assms(1) body] by (auto simp: seriesPanel_def Let_def split: if_splits)
qed

lemma curveClass_quiet [simp]: "quiet (curveClasses ! (k mod length curveClasses))"
  by (rule quiet_nth) (simp_all add: curveClasses_def is_delim_def)

lemma curveVar_quiet [simp]: "quiet (curveVars ! (k mod length curveVars))"
  by (rule quiet_nth) (simp_all add: curveVars_def is_delim_def)

lemma curvesPanel_nested: "formats_ok F \<Longrightarrow> nested (curvesPanel F curves n aria)"
proof -
  assume F: "formats_ok F"
  have "nested (concat (map (\<lambda>(k, c). if length (rc_series c) < 2 then []
             else polyline F n (curve_floats F c) mx (''ln '' @ curveClasses ! (k mod length curveClasses))) xs))" for mx xs
    using F by (auto simp: is_delim_def intro!: nested_concat_map polyline_nested)
  from nested_run [OF this] show ?thesis
    unfolding nested_def curvesPanel_def Let_def by (simp add: tallHead_run svgTail_run F)
qed

lemma rel_jsonStrings_sq: "single_quote_free (rel_jsonStrings items)"
proof -
  have "single_quote_free (html_escape s)" for s by (simp add: sq_free_quiet)
  then show ?thesis unfolding rel_jsonStrings_def by (auto intro!: sq_free_join)
qed

lemma chartCard_run:
  assumes "nested stat" "nested svg" "single_quote_free data" "single_quote_free labels" "single_quote_free vars"
  shows "hrun (chartCard title stat svg data labels vars) (HText, st) = (HText, st)"
  using assms by (simp add: nested_def chartCard_def html_defs sq_free_run quiet_tok)

lemma rel_fmtCount_quiet: "formats_ok F \<Longrightarrow> quiet (rel_fmtCount F n)"
  by (simp add: rel_fmtCount_def u64_str_def trimZero_quiet formats_quiet is_delim_def)

lemma rel_pct_quiet: "formats_ok F \<Longrightarrow> quiet (rel_pct F a b)"
  by (simp add: rel_pct_def formats_quiet trimZero_quiet is_delim_def)

lemmas rel_numbers = formats_quiet rel_fmtCount_quiet rel_pct_quiet

lemma bar_row_nested: "formats_ok F \<Longrightarrow> nested (bar_row F s m wide share it)"
  by (simp add: bar_row_def nested_def html_defs quiet_tok rel_numbers)

lemma bar_rows_nested: "formats_ok F \<Longrightarrow> nested (concat (map (bar_row F s m wide share) items))"
  by (rule nested_concat_map) (rule bar_row_nested)

lemma barCard_nested: "formats_ok F \<Longrightarrow> nested (barCard F title note items wide share)"
  by (simp add: barCard_def Let_def nested_def html_defs quiet_tok nested_run [OF bar_rows_nested])

lemma curve_key_nested: "nested (curve_key kc)"
  by (cases kc) (simp add: curve_key_def nested_def html_defs quiet_tok)

lemma curve_keys_nested: "nested (concat (map curve_key xs))"
  by (rule nested_concat_map) (rule curve_key_nested)

lemma rel_days_sq: "page_env_ok E \<Longrightarrow> list_all single_quote_free (rel_day_names E s)"
  by (auto simp: rel_day_names_def list_all_iff page_env_okD intro: sq_free_quiet)

section \<open>Sections\<close>

lemma gives_series:
  assumes "formats_ok F" "list_all quiet classes" "\<And>svg. nested svg \<Longrightarrow> gives_nested (f svg)"
  shows "gives_nested (seriesPanel F area lns classes aria \<bind> f)"
  using assms seriesPanel_nested [OF assms(1,2)] by (intro gives_bind) auto

lemmas rel_runs = nested_def html_defs quiet_tok chartCard_run rel_numbers rel_jsonStrings_sq
  barCard_nested [THEN nested_run] kpi_nested [THEN nested_run]

lemma redirects_nested:
  assumes "page_env_ok E"
  shows "gives_nested (redirects_section E s)"
proof -
  note ok = page_env_okD [OF assms]
  show ?thesis unfolding redirects_section_def Let_def
    by (intro gives_series gives_json ok rel_days_sq assms) (simp_all add: rel_runs ok)
qed

lemma renderAdoption_nested:
  assumes "formats_ok F"
  shows "gives_nested (renderAdoption F s)"
proof (cases "rs_curves s = []")
  case True
  then show ?thesis by (simp add: renderAdoption_def nested_def html_defs)
next
  case False
  have days: "list_all single_quote_free (map (\<lambda>i. ''day '' @ nat_str i) [0..<n])" for n
    by (auto simp: list_all_iff is_delim_def intro!: sq_free_quiet)
  have "gives_nested None" by (simp add: gives_nested_def)
  moreover have "gives_nested (seriesJSON F (map (\<lambda>i. ''day '' @ nat_str i) [0..<n]) cols \<bind> f)"
    if "\<And>j. single_quote_free j \<Longrightarrow> gives_nested (f j)" for n cols f
    using assms days that by (rule gives_json)
  ultimately show ?thesis
    unfolding renderAdoption_def Let_def if_not_P [OF False]
    by (simp add: rel_runs assms curve_keys_nested [THEN nested_run] curvesPanel_nested [THEN nested_run])
qed

lemma daily_nested:
  assumes "page_env_ok E"
  shows "gives_nested (daily_section E s)"
proof -
  note ok = page_env_okD [OF assms]
  show ?thesis unfolding daily_section_def Let_def
    by (intro gives_series gives_json ok rel_days_sq assms) (simp_all add: rel_runs ok)
qed

lemma plain_sections_nested:
  assumes "page_env_ok E"
  shows "nested (clients_section E s)" "nested (artifacts_section E s)" "nested github_intro"
  by (simp_all add: clients_section_def artifacts_section_def github_intro_def Let_def rel_runs page_env_okD [OF assms])

section \<open>The page\<close>

lemma rel_head_run:
  assumes "page_env_ok E" "quiet d" "quiet e"
  shows "hrun (rel_page_head E s d e) (HText, []) = (HText, [''div'', ''div'', ''body'', ''html''])"
  using assms(2,3)
  by (simp add: rel_page_head_def Let_def rel_runs page_env_okD [OF assms(1)] rel_css_run has_prefix_def
      nested_run [OF viewSwitch_nested])

lemma rel_foot_run: "hrun rel_page_foot (HText, [''div'', ''div'', ''body'', ''html'']) = (HText, [])"
  by (simp add: rel_page_foot_def html_defs rel_js_run has_prefix_def)

lemma rel_page_well_formed:
  assumes "page_env_ok E" "rs_days s \<noteq> []" "rel_renderStats E s = Some page"
  shows "well_formed page"
proof -
  obtain d ds where days: "rel_day_names E s = d # ds"
    using assms(2) by (cases "rs_days s") (auto simp: rel_day_names_def)
  have q: "quiet x" if "x \<in> set (d # ds)" for x
    using that days page_env_okD(2) [OF assms(1)] by (metis (no_types, lifting) rel_day_names_def ex_map_conv)
  obtain redirects adoption daily where
    parts: "redirects_section E s = Some redirects" "renderAdoption (pe_fl E) s = Some adoption"
      "daily_section E s = Some daily"
    and page: "page = rel_page_head E s d (last (d # ds)) @ redirects @ clients_section E s @ github_intro @ adoption @
      artifacts_section E s @ daily @ rel_page_foot"
    using assms(3) days by (auto simp: rel_renderStats_def bind_eq_Some_conv)
  have "nested redirects" "nested adoption" "nested daily"
    using parts assms(1) by (blast intro: gives_nestedD redirects_nested renderAdoption_nested daily_nested page_env_okD)+
  then show ?thesis
    unfolding well_formed_def page
    using q [of d] q [OF last_in_set [of "d # ds"]]
    by (simp add: rel_head_run [OF assms(1)] rel_foot_run nested_run plain_sections_nested [OF assms(1)] del: last.simps)
qed

section \<open>A collected window renders\<close>

lemma renders_series:
  assumes "length lns \<le> length classes" "\<And>svg. renders (f svg)"
  shows "renders (seriesPanel F area lns classes aria \<bind> f)"
proof -
  have "\<not> list_ex (\<lambda>(k, l). anyPositive F l \<and> length classes \<le> k) (enumerate 0 lns)"
    using assms(1) by (auto simp: list_ex_iff in_set_enumerate_eq)
  then show ?thesis using assms(2) by (simp only: seriesPanel_def if_False bind.bind_lunit Let_def)
qed

lemma rel_shaped_renders:
  assumes "rel_shaped s"
  shows "renders (rel_renderStats E s)"
proof -
  have a: "renders (redirects_section E s)" "renders (daily_section E s)"
    using assms unfolding redirects_section_def daily_section_def Let_def
    by (auto intro!: renders_series renders_json simp: rel_shaped_def rel_day_names_def toFloats_def)
  have "\<not> list_ex (\<lambda>c. rc_series c = []) (rs_curves s)"
    using assms by (auto simp: rel_shaped_def list_ex_iff list_all_iff)
  then have "renders (renderAdoption (pe_fl E) s)"
    unfolding renderAdoption_def Let_def
    by (auto intro!: renders_json simp: list_all_iff padded_curve_def)
  with a show ?thesis
    unfolding rel_renderStats_def by (cases "rel_day_names E s") (auto simp: renders_def)
qed

end
