(* ===== verification/ReleasePageInert.thy ===== *)
theory ReleasePageInert
  imports ReleasePageSafe StatsPageInert
begin

text \<open>
  Names on the release page - tags, file names, versions, countries, client and artifact buckets -
  cannot become markup; and the worker publishes a well-formed page for every view or keeps what it
  had.
\<close>

section \<open>Other labels\<close>

definition relabel_count :: "(string \<Rightarrow> string) \<Rightarrow> labelCount \<Rightarrow> labelCount" where
  "relabel_count f c = \<lparr>lc_label = f (lc_label c), lc_n = lc_n c\<rparr>"

definition relabel_curve :: "(string \<Rightarrow> string) \<Rightarrow> releaseCurve \<Rightarrow> releaseCurve" where
  "relabel_curve f c = \<lparr>rc_tag = f (rc_tag c), rc_series = rc_series c, rc_total = rc_total c,
     rc_at_horizon = rc_at_horizon c, rc_reached = rc_reached c\<rparr>"

definition relabel :: "(string \<Rightarrow> string) \<Rightarrow> releaseStats \<Rightarrow> releaseStats" where
  "relabel f s = s\<lparr>rs_platforms := map (relabel_count f) (rs_platforms s),
     rs_variants := map (relabel_count f) (rs_variants s), rs_formats := map (relabel_count f) (rs_formats s),
     rs_assets := map (relabel_count f) (rs_assets s), rs_countries := map (relabel_count f) (rs_countries s),
     rs_clients := map (relabel_count f) (rs_clients s), rs_versions := map (relabel_count f) (rs_versions s),
     rs_curves := map (relabel_curve f) (rs_curves s), rs_gh_tag := f (rs_gh_tag s)\<rparr>"

lemma relabel_sel [simp]:
  "rs_platforms (relabel f s) = map (relabel_count f) (rs_platforms s)"
  "rs_variants (relabel f s) = map (relabel_count f) (rs_variants s)"
  "rs_formats (relabel f s) = map (relabel_count f) (rs_formats s)"
  "rs_assets (relabel f s) = map (relabel_count f) (rs_assets s)"
  "rs_countries (relabel f s) = map (relabel_count f) (rs_countries s)"
  "rs_clients (relabel f s) = map (relabel_count f) (rs_clients s)"
  "rs_versions (relabel f s) = map (relabel_count f) (rs_versions s)"
  "rs_curves (relabel f s) = map (relabel_curve f) (rs_curves s)" "rs_gh_tag (relabel f s) = f (rs_gh_tag s)"
  "rs_days (relabel f s) = rs_days s" "rs_redirects (relabel f s) = rs_redirects s" "rs_ips (relabel f s) = rs_ips s"
  "rs_total (relabel f s) = rs_total s" "rs_uniq_ips (relabel f s) = rs_uniq_ips s"
  "rs_uniq_countries (relabel f s) = rs_uniq_countries s" "rs_curve_days (relabel f s) = rs_curve_days s"
  "rs_gh_daily (relabel f s) = rs_gh_daily s" "rs_gh_tag_total (relabel f s) = rs_gh_tag_total s"
  "rs_gh_total (relabel f s) = rs_gh_total s" "rs_window (relabel f s) = rs_window s" "rs_views (relabel f s) = rs_views s"
  by (simp_all add: relabel_def)

lemma relabel_count_sel [simp]: "lc_n (relabel_count f c) = lc_n c" "lc_label (relabel_count f c) = f (lc_label c)"
  by (simp_all add: relabel_count_def)

lemma relabel_curve_sel [simp]:
  "rc_series (relabel_curve f c) = rc_series c" "rc_tag (relabel_curve f c) = f (rc_tag c)"
  "rc_at_horizon (relabel_curve f c) = rc_at_horizon c" "rc_reached (relabel_curve f c) = rc_reached c"
  by (simp_all add: relabel_curve_def)

lemma relabel_day_names [simp]: "rel_day_names E (relabel f s) = rel_day_names E s"
  by (simp add: rel_day_names_def)

section \<open>Pieces\<close>

lemma delims_map_cong: "(\<And>x. x \<in> set xs \<Longrightarrow> delims (g x) = delims (h x)) \<Longrightarrow> delims (concat (map g xs)) = delims (concat (map h xs))"
  by (induction xs) auto

lemma bar_row_shape: "lc_n it = lc_n it' \<Longrightarrow> delims (bar_row F s m w sh it) = delims (bar_row F s m w sh it')"
  by (simp only: bar_row_def delims_append delims_html_escape)

text \<open>The markup of a bar chart depends on the counts and on whether there is a note.\<close>

lemma barCard_shape:
  assumes "map lc_n items = map lc_n items'" "note = [] \<longleftrightarrow> note' = []"
  shows "delims (barCard F title note items w sh) = delims (barCard F title note' items' w sh)"
proof -
  have fs: "fold (\<lambda>it s. s + lc_n it) items (0 :: u64) = fold (\<lambda>it s. s + lc_n it) items' 0"
    "fold (\<lambda>it m. if lc_n it > m then lc_n it else m) items (0 :: u64) = fold (\<lambda>it m. if lc_n it > m then lc_n it else m) items' 0"
    using arg_cong [OF assms(1), of "\<lambda>ns. fold (\<lambda>n s. s + n) ns (0 :: u64)"]
      arg_cong [OF assms(1), of "\<lambda>ns. fold (\<lambda>n m. if n > m then n else m) ns (0 :: u64)"]
    by (simp_all add: fold_map o_def)
  have rows: "delims (concat (map (bar_row F a b w sh) items)) = delims (concat (map (bar_row F a b w sh) items'))" for a b
    using assms(1)
  proof (induction items arbitrary: items')
    case (Cons it its)
    then obtain it' its' where i: "items' = it' # its'" "lc_n it = lc_n it'" "map lc_n its = map lc_n its'"
      by (cases items') auto
    show ?case
      unfolding i(1) list.map concat.simps delims_append bar_row_shape [OF i(2), of F a b w sh] Cons.IH [OF i(3)] ..
  qed simp
  have e: "items = [] \<longleftrightarrow> items' = []" using assms(1) by (cases items; cases items') auto
  show ?thesis
    unfolding barCard_def Let_def fs e assms(2) if_distrib [of delims]
    by (simp only: delims_append delims_html_escape rows if_distrib [of delims])
qed

lemma barCard_relabel:
  "delims (barCard F title note (map (relabel_count f) items) w sh) = delims (barCard F title note items w sh)"
  by (rule barCard_shape) simp_all

lemma jsonStrings_shape: "length xs = length ys \<Longrightarrow> delims (rel_jsonStrings xs) = delims (rel_jsonStrings ys)"
proof -
  have "delims (rel_jsonStrings xs) = concat (replicate (length xs) [CHR 0x22, CHR 0x22])" for xs
  proof -
    have "delims (join_with '','' (map (\<lambda>s. CHR 0x22 # html_escape s @ [CHR 0x22]) xs)) = concat (replicate (length xs) [CHR 0x22, CHR 0x22])"
    proof (induction xs)
      case (Cons x xs)
      then show ?case by (cases xs) (simp_all add: delims_eval)
    qed simp
    then show ?thesis by (simp add: rel_jsonStrings_def delims_eval)
  qed
  then show "length xs = length ys \<Longrightarrow> ?thesis" by simp
qed

lemma curve_keys_shape:
  "delims (concat (map curve_key (enumerate n (map (relabel_curve f) cs)))) = delims (concat (map curve_key (enumerate n cs)))"
  by (induction cs arbitrary: n) (simp_all add: curve_key_def delims_eval)

lemma curvesPanel_relabel: "curvesPanel F (map (relabel_curve f) cs) n aria = curvesPanel F cs n aria"
proof -
  have c: "curve_floats F (relabel_curve f c) = curve_floats F c" for c by (simp add: curve_floats_def)
  have m: "map (\<lambda>(k, c). h k (length (rc_series c)) (curve_floats F c)) (enumerate i (map (relabel_curve f) cs)) =
      map (\<lambda>(k, c). h k (length (rc_series c)) (curve_floats F c)) (enumerate i cs)" for h i
    by (induction cs arbitrary: i) (simp_all add: c)
  show ?thesis
    using m [of "\<lambda>k l v. if l < 2 then [] else polyline F n v mx (''ln '' @ curveClasses ! (k mod length curveClasses))" 0 for mx]
    by (simp add: curvesPanel_def fold_map o_def c Let_def)
qed

section \<open>Section by section\<close>

lemma verdict_empty: "adoptionVerdict F (map (relabel_curve f) cs) = [] \<longleftrightarrow> adoptionVerdict F cs = []"
  by (cases cs; cases "tl cs") (auto simp: adoptionVerdict_def Let_def curve_floats_def)

lemma redirects_relabel: "redirects_section E (relabel f s) = redirects_section E s"
  by (simp add: redirects_section_def)

lemma clients_relabel: "delims (clients_section E (relabel f s)) = delims (clients_section E s)"
  by (simp only: clients_section_def delims_append barCard_relabel relabel_sel)

lemma tag_note:
  assumes "\<And>t. f t = [] \<longleftrightarrow> t = []"
  shows "html_escape (if f t = [] then ''current release'' else f t) = [] \<longleftrightarrow>
    html_escape (if t = [] then ''current release'' else t) = []"
proof -
  have "html_escape x = [] \<longleftrightarrow> x = []" for x
    by (cases x) (auto simp: html_escape_Cons html_escape_char_def)
  then show ?thesis by (simp add: assms)
qed

lemma artifacts_relabel:
  assumes "\<And>t. f t = [] \<longleftrightarrow> t = []"
  shows "delims (artifacts_section E (relabel f s)) = delims (artifacts_section E s)"
proof -
  note same_note = barCard_shape [OF refl tag_note [of f "rs_gh_tag s", OF assms]]
  show ?thesis
    by (simp only: artifacts_section_def Let_def delims_append barCard_relabel relabel_sel delims_html_escape same_note)
qed

lemma daily_relabel:
  assumes "\<And>t. f t = [] \<longleftrightarrow> t = []"
  shows "alike (daily_section E s) (daily_section E (relabel f s))"
  unfolding daily_section_def Let_def relabel_sel relabel_day_names assms
  by (intro alike_bind) (simp only: alike_Some chartCard_def delims_append delims_html_escape if_distrib [of delims])

lemma adoption_relabel: "alike (renderAdoption F s) (renderAdoption F (relabel f s))"
proof (cases "rs_curves s = []")
  case False
  let ?cs = "rev (rs_curves s)"
  have cs: "rev (rs_curves (relabel f s)) = map (relabel_curve f) ?cs" by (simp add: rev_map)
  have ex: "list_ex (\<lambda>c. rc_series c = []) (rs_curves (relabel f s)) = list_ex (\<lambda>c. rc_series c = []) (rs_curves s)"
    by (simp add: list_ex_iff)
  have pad: "map (padded_curve F n) (map (relabel_curve f) ?cs) = map (padded_curve F n) ?cs" for n
    by (simp add: padded_curve_def curve_floats_def)
  have tags: "delims (rel_jsonStrings (map rc_tag (map (relabel_curve f) ?cs))) = delims (rel_jsonStrings (map rc_tag ?cs))"
    by (rule jsonStrings_shape) simp
  have rows: "map lc_n (map horizon_row (map (relabel_curve f) ?cs)) = map lc_n (map horizon_row ?cs)"
    by (simp add: horizon_row_def)
  note bars = barCard_shape [OF rows verdict_empty]
  have nonempty: "rs_curves (relabel f s) \<noteq> []" using False by simp
  show ?thesis
  proof (cases "0 < rs_curve_days s \<and> list_ex (\<lambda>c. rc_series c = []) (rs_curves s)")
    case True
    show ?thesis
      unfolding renderAdoption_def if_not_P [OF False] if_not_P [OF nonempty] ex relabel_sel(16) if_P [OF True]
      by (rule alike_refl)
  next
    case no_panic: False
    show ?thesis
      unfolding renderAdoption_def Let_def if_not_P [OF False] if_not_P [OF nonempty] cs ex pad
        relabel_sel(16) length_map curvesPanel_relabel if_not_P [OF no_panic]
      by (rule alike_bind) (simp only: alike_Some chartCard_def delims_append curve_keys_shape tags bars)
  qed
qed (simp add: renderAdoption_def)

text \<open>C20. Names on the release page cannot become markup: whatever other tags, file names, versions,
  countries and buckets a window has, the page has the same angle brackets and quotes in the same
  order. Only a name being empty is visible to the renderer.\<close>

theorem release_page_inert:
  assumes "\<And>t. f t = [] \<longleftrightarrow> t = []"
  shows "map_option delims (rel_renderStats E (relabel f s)) = map_option delims (rel_renderStats E s)"
proof (cases "rel_day_names E s")
  case (Cons d ds)
  have head: "rel_page_head E (relabel f s) a b = rel_page_head E s a b" for a b
    by (simp only: rel_page_head_def relabel_sel)
  have "alike (rel_renderStats E s) (rel_renderStats E (relabel f s))"
    unfolding rel_renderStats_def relabel_day_names Cons list.case redirects_relabel head
    by (intro alike_bind alike_fragment adoption_relabel daily_relabel assms)
       (simp only: alike_Some delims_append clients_relabel artifacts_relabel [OF assms])
  then show ?thesis by (simp add: alike_def)
qed (simp add: rel_renderStats_def)

section \<open>The worker's pages\<close>

lemma rel_collect_pages:
  assumes "\<And>v. v \<in> set vs \<Longrightarrow> \<exists>s. collect v = (gen, Inr s)"
  shows "rel_collect collect r vs pages = Some (\<lambda>v. if v \<in> set vs
    then Some (stats_page gen v (r (projr (snd (collect v))))) else pages v)"
  using assms
proof (induction vs arbitrary: pages)
  case (Cons v vs)
  then obtain s where s: "collect v = (gen, Inr s)" by auto
  have "rel_collect collect r (v # vs) pages = rel_collect collect r vs (pages(v \<mapsto> stats_page gen v (r s)))"
    by (simp add: s)
  also have "\<dots> = Some (\<lambda>u. if u \<in> set vs then Some (stats_page gen u (r (projr (snd (collect u)))))
      else (pages(v \<mapsto> stats_page gen v (r s))) u)"
    by (rule Cons.IH) (simp add: Cons.prems)
  finally show ?case by (auto simp: s fun_eq_iff)
qed simp

definition rel_collect_at :: "(string \<Rightarrow> nat) \<Rightarrow> rel_db \<Rightarrow> int \<Rightarrow> time \<Rightarrow> int \<Rightarrow> time \<times> (string + releaseStats)" where
  "rel_collect_at order db today gen v = (gen, rel_CollectStats order db today (nat v))"

definition rel_body :: "'f page_env \<Rightarrow> int list \<Rightarrow> releaseStats \<Rightarrow> string option" where
  "rel_body E views s = rel_renderStats E (s\<lparr>rs_views := views\<rparr>)"

text \<open>C22. The worker of the release page does not panic: when every view was collected, every view is
  published, its page is the rendering of its own window, and it is a well-formed document.\<close>

theorem release_pages_render:
  assumes "page_env_ok E" "\<And>v. v \<in> set views \<Longrightarrow> \<exists>s. rel_CollectStats order db today (nat v) = Inr s" "v \<in> set views"
  shows "\<exists>s body pages. rel_refresh (rel_collect_at order db today gen) (\<lambda>s. the (rel_body E views s)) views old = Some pages \<and>
    rel_CollectStats order db today (nat v) = Inr s \<and> rel_body E views s = Some body \<and>
    pages v = Some (stats_page gen v body) \<and> well_formed body"
proof -
  obtain s where s: "rel_CollectStats order db today (nat v) = Inr s" using assms(2,3) by blast
  have "rel_shaped (s\<lparr>rs_views := views\<rparr>)" using rel_collected_shaped(1) [OF s] by (simp add: rel_shaped_def)
  from rel_shaped_renders [OF this, of E] obtain body where b: "rel_body E views s = Some body"
    by (auto simp: renders_def rel_body_def)
  have wf: "well_formed body"
    using rel_page_well_formed [OF assms(1) _ b [unfolded rel_body_def]] rel_collected_shaped(1) [OF s]
    by (simp add: rel_shaped_def)
  have "\<exists>s. rel_collect_at order db today gen u = (gen, Inr s)" if "u \<in> set views" for u
    using assms(2) [OF that] by (simp add: rel_collect_at_def)
  note all = rel_collect_pages [of views "rel_collect_at order db today gen" gen, OF this]
  have "rel_collect_at order db today gen v = (gen, Inr s)" by (simp add: rel_collect_at_def s)
  then have "\<exists>pages. rel_refresh (rel_collect_at order db today gen)
      (\<lambda>s. the (rel_body E views s)) views old = Some pages \<and> pages v = Some (stats_page gen v body)"
    using assms(3) by (simp add: rel_refresh_def all b)
  with s b wf show ?thesis by blast
qed

section \<open>Examples\<close>

text \<open>A log with a hostile version, two releases in GitHub's counters.\<close>

definition ex_rel_db :: rel_db where
  "ex_rel_db = \<lparr>rdb_daily = (\<lambda>_. Inr [(99, 5, 1, 3)]), rdb_totals = (\<lambda>_. Inr (5, 3, 1)),
     rdb_countries = (\<lambda>_. Inr [(''PL'', 5)]), rdb_versions = (\<lambda>_. Inr [(''<script>'', 5)]),
     rdb_clients = (\<lambda>_. Inr [(''other'', 3)]), rdb_gh_total = Some 100, rdb_gh_latest = Some (''2026.01.01'', 60),
     rdb_gh_daily = (\<lambda>_. Inr [(99, 7)]), rdb_assets = Inr [(''pwndbg_2026_x86_64.deb'', 60)],
     rdb_curves = Inr [(''2025.12.01'', 60, 10), (''2025.12.01'', 70, 40), (''2026.01.01'', 95, 1), (''2026.01.01'', 99, 60)]\<rparr>"

lemma ex_rel_collects: "\<exists>s. rel_CollectStats (\<lambda>_. 0) ex_rel_db 100 (nat v) = Inr s"
  by (simp add: rel_CollectStats_def stats_step_def ex_rel_db_def collectDimensions_def collectGitHub_def Let_def
      split: prod.split)

theorem release_pages_render_witness:
  "\<exists>s body pages. rel_refresh (rel_collect_at (\<lambda>_. 0) ex_rel_db 100 9) (\<lambda>s. the (rel_body ex_env [7, 30] s)) [7, 30] None = Some pages \<and>
    rel_CollectStats (\<lambda>_. 0) ex_rel_db 100 (nat 7) = Inr s \<and> rel_body ex_env [7, 30] s = Some body \<and>
    pages 7 = Some (stats_page 9 7 body) \<and> well_formed body"
  by (rule release_pages_render [OF ex_env_ok ex_rel_collects]) simp

text \<open>Every name made of markup.\<close>

definition ex_relabel :: "string \<Rightarrow> string" where
  "ex_relabel t = (if t = [] then [] else ''<script>'' @ t @ ''</script>'')"

theorem release_page_inert_witness:
  "map_option delims (rel_renderStats ex_env (relabel ex_relabel (projr (rel_CollectStats (\<lambda>_. 0) ex_rel_db 100 7)))) =
   map_option delims (rel_renderStats ex_env (projr (rel_CollectStats (\<lambda>_. 0) ex_rel_db 100 7)))"
  by (rule release_page_inert) (simp add: ex_relabel_def)

end
