(* ===== verification/NixFetch.thy ===== *)
theory NixFetch
  imports NixStore
begin

text \<open>
  \<open>nix/nix.go\<close> and \<open>nix/util.go\<close>: an archive of cache.nixos.org becomes a read-only image. A response
  is sniffed and decompressed, the NAR in it is rewritten as a tar stream, and \<open>mkfs.erofs\<close> reads
  that stream from a pipe. Third-party code is the parameter \<open>nar_world\<close>: the HTTP exchange, the
  decompressors, the NAR reader, the JSON and narinfo parsers, the encoding of a tar header, and
  \<open>mkfs.erofs\<close>.
\<close>

section \<open>Streams and the world\<close>

text \<open>Reading to the end yields the bytes and then the end of file (\<open>None\<close>) or an error.\<close>

record stream =
  st_bytes :: bytes
  st_end :: "nix_err option"

datatype nar_type = NarRegular | NarDirectory | NarSymlink | NarOther

record nar_item =
  ni_path :: string
  ni_type :: nar_type
  ni_link :: string
  ni_size :: int
  ni_exec :: bool
  ni_data :: stream

datatype tar_type = TypeReg | TypeSymlink | TypeDir

record tar_header =
  th_name :: string
  th_link :: string
  th_size :: int
  th_mode :: nat
  th_flag :: tar_type

datatype tar_peek = PeekOk | PeekEof | PeekErr nix_err

text \<open>\<open>nw_peek\<close>: the bytes \<open>tar.Reader.Next\<close> reads and what it says. \<open>nw_takes\<close>: how much of its input
  \<open>mkfs.erofs\<close> reads. \<open>nw_unseen\<close>: the bytes at the end whose writing
  nobody looks at: those still in the buffered writer when the unpacker returns, and the trailer.
  \<open>nw_unpack_first\<close>: which of two errors the group saw first.\<close>

record nar_world =
  nw_get :: "string \<Rightarrow> nix_err + nat \<times> stream"
  nw_json :: "stream \<Rightarrow> nix_err + string \<times> string"
  nw_narinfo :: "stream \<Rightarrow> nix_err + string"
  nw_zstd :: "stream \<Rightarrow> nix_err + stream"
  nw_xz :: "stream \<Rightarrow> nix_err + stream"
  nw_gzip :: "stream \<Rightarrow> nix_err + stream"
  nw_bzip2 :: "stream \<Rightarrow> stream"
  nw_nar :: "stream \<Rightarrow> nix_err + nar_item list \<times> nix_err option"
  nw_peek :: "stream \<Rightarrow> nat \<times> tar_peek"
  nw_cancel :: "nat \<Rightarrow> nix_err option"
  nw_header :: "tar_header \<Rightarrow> nix_err + bytes"
  nw_takes :: "bytes \<Rightarrow> nat"
  nw_unseen :: "bytes \<Rightarrow> nat"
  nw_mkfs :: "bytes \<Rightarrow> nix_err + nfs"
  nw_unpack_first :: bool

section \<open>Requests to the binary cache\<close>

text \<open>\<open>net/url\<close>: the bytes a path keeps, the others become \<open>%XX\<close>.\<close>

definition url_keeps :: "char \<Rightarrow> bool" where
  "url_keeps c \<longleftrightarrow> is_digit c \<or> is_lower c \<or> is_upper c \<or> c \<in> set ''-_.~$&+,/:;=@''"

definition hex_upper :: "nat \<Rightarrow> char" where
  "hex_upper n = ''0123456789ABCDEF'' ! n"

definition url_escape_char :: "char \<Rightarrow> string" where
  "url_escape_char c =
     (if url_keeps c then [c]
      else [CHR 0x25, hex_upper ((of_char c :: nat) div 16 mod 16), hex_upper ((of_char c :: nat) mod 16)])"

definition url_escape :: "string \<Rightarrow> string" where
  "url_escape p = (if p = ''*'' then p else concat (map url_escape_char p))"

definition cacheUrl :: string where "cacheUrl = ''https://cache.nixos.org''"

definition getNixRemoteUrl :: "string list \<Rightarrow> string" where
  "getNixRemoteUrl elems =
     (let p = clean (path_join elems) in cacheUrl @ (if is_abs p then [] else ''/'') @ url_escape p)"

text \<open>The three requests share their answers to a status: 404 is the error callers know, everything
  but 200 an error.\<close>

definition cache_request :: "nar_world \<Rightarrow> string \<Rightarrow> string \<Rightarrow> nix_err + stream" where
  "cache_request w what url = (case nw_get w url of
     Inl e \<Rightarrow> Inl e
   | Inr (status, body) \<Rightarrow>
       if status = 404 then Inl ErrNixDebuginfoNotFound
       else if status \<noteq> 200 then Inl (NErrorf (what @ '' returned status '' @ nat_str status))
       else Inr body)"

definition fetchDebuginfo :: "nar_world \<Rightarrow> string \<Rightarrow> nix_err + string \<times> string" where
  "fetchDebuginfo w buildID = (case cache_request w ''nix debuginfo'' (getNixRemoteUrl [''debuginfo'', buildID]) of
     Inl e \<Rightarrow> Inl e
   | Inr body \<Rightarrow> (case nw_json w body of
       Inl e \<Rightarrow> Inl e
     | Inr (archive, member) \<Rightarrow> Inr (trim_prefix archive ''../'', member)))"

definition DebuginfoMeta :: "nar_world \<Rightarrow> string \<Rightarrow> nix_err + string \<times> string" where
  "DebuginfoMeta w buildID = fetchDebuginfo w buildID"

definition fetchNarInfo :: "nar_world \<Rightarrow> string \<Rightarrow> nix_err + string" where
  "fetchNarInfo w storeHash = (case cache_request w ''nix narinfo'' (getNixRemoteUrl [storeHash @ ''.narinfo'']) of
     Inl e \<Rightarrow> Inl e
   | Inr body \<Rightarrow> nw_narinfo w body)"

definition narMagic :: bytes where
  "narMagic = [CHR 0x0D, CHR 0x00, CHR 0x00, CHR 0x00, CHR 0x00, CHR 0x00, CHR 0x00, CHR 0x00] @ ''nix-archive-1''"

definition xzMagic :: bytes where
  "xzMagic = [CHR 0xFD, CHR ''7'', CHR ''z'', CHR ''X'', CHR ''Z'', CHR 0x00]"

definition zstdMagic :: bytes where
  "zstdMagic = [CHR 0x28, CHR 0xB5, CHR 0x2F, CHR 0xFD]"

text \<open>The format of a body is what its first bytes say. A body that ends early is an error.\<close>

definition sniffNar :: "nar_world \<Rightarrow> string \<Rightarrow> stream \<Rightarrow> nix_err + stream" where
  "sniffNar w relativePath body =
     (let head = take (length narMagic) (st_bytes body) in
      if length head < length narMagic
      then Inl (case st_end body of Some e \<Rightarrow> e | None \<Rightarrow> NErrorf (if head = [] then ''EOF'' else ''unexpected EOF''))
      else if head = narMagic then Inr body
      else if has_prefix head zstdMagic then map_sum (NWrap ''zstd decompressor'') id (nw_zstd w body)
      else if has_prefix head xzMagic then map_sum (NWrap ''xz decompressor'') id (nw_xz w body)
      else Inl (NErrorf (''unrecognised nar encoding for '' @ relativePath)))"

definition fetchNar :: "nar_world \<Rightarrow> string \<Rightarrow> nix_err + stream" where
  "fetchNar w relativePath = (case cache_request w ''nix nar'' (getNixRemoteUrl [relativePath]) of
     Inl e \<Rightarrow> Inl e
   | Inr body \<Rightarrow> sniffNar w relativePath body)"

section \<open>The tar writer\<close>

text \<open>\<open>archive/tar\<close>: the bytes written, what the current entry still wants, its padding.\<close>

record tar_out =
  to_bytes :: bytes
  to_left :: nat
  to_pad :: nat

definition tar_pad :: "nat \<Rightarrow> nat" where
  "tar_pad n = (512 - n mod 512) mod 512"

definition tar_flush :: "tar_out \<Rightarrow> nix_err option \<times> tar_out" where
  "tar_flush t =
     (if to_left t > 0 then (Some (NErrorf ''archive/tar: missed writing''), t)
      else (None, t\<lparr>to_bytes := to_bytes t @ replicate (to_pad t) (CHR 0x00), to_pad := 0\<rparr>))"

definition tar_WriteHeader :: "nar_world \<Rightarrow> tar_header \<Rightarrow> tar_out \<Rightarrow> nix_err option \<times> tar_out" where
  "tar_WriteHeader w h t = (case tar_flush t of
     (Some e, t1) \<Rightarrow> (Some e, t1)
   | (None, t1) \<Rightarrow> (case nw_header w h of
       Inl e \<Rightarrow> (Some e, t1)
     | Inr b \<Rightarrow>
         (let size = (if th_flag h = TypeReg then nat (th_size h) else 0) in
          (None, t1\<lparr>to_bytes := to_bytes t1 @ b, to_left := size, to_pad := tar_pad size\<rparr>))))"

text \<open>\<open>io.Copy\<close> into the writer: an entry takes no more than its header announced. The number of
  bytes written comes with the end.\<close>

definition tar_copy :: "stream \<Rightarrow> tar_out \<Rightarrow> (nix_err + nat) \<times> tar_out" where
  "tar_copy s t =
     (let d = take (to_left t) (st_bytes s);
          t1 = t\<lparr>to_bytes := to_bytes t @ d, to_left := to_left t - length d\<rparr>
      in if length d < length (st_bytes s) then (Inl (NErrorf ''archive/tar: write too long''), t1)
         else (case st_end s of Some e \<Rightarrow> (Inl e, t1) | None \<Rightarrow> (Inr (length d), t1)))"

definition tar_Close :: "tar_out \<Rightarrow> bytes" where
  "tar_Close t = (case tar_flush t of
     (Some e, t1) \<Rightarrow> to_bytes t1
   | (None, t1) \<Rightarrow> to_bytes t1 @ replicate 1024 (CHR 0x00))"

section \<open>From a NAR to a tar stream\<close>

text \<open>Octal 0444, with 0111 added for an executable.\<close>

definition tarHeader :: "nar_item \<Rightarrow> tar_header option" where
  "tarHeader hdr =
     (let mode = (if ni_exec hdr then 365 else 292);
          h = (\<lambda>nm flag. \<lparr>th_name = nm, th_link = ni_link hdr, th_size = ni_size hdr, th_mode = mode, th_flag = flag\<rparr>);
          nm = tl (ni_path hdr)
      in case ni_type hdr of
           NarRegular \<Rightarrow> Some (h nm TypeReg)
         | NarSymlink \<Rightarrow> Some (h nm TypeSymlink)
         | NarDirectory \<Rightarrow> Some (h (nm @ ''/'') TypeDir)
         | NarOther \<Rightarrow> None)"

definition unpack_item :: "nar_world \<Rightarrow> nar_item \<Rightarrow> tar_out \<Rightarrow> nix_err option \<times> tar_out" where
  "unpack_item w hdr t = (case tarHeader hdr of
     None \<Rightarrow> (Some (NErrorf ''unpackNarDirectoryToTarball: invalid nar type''), t)
   | Some h \<Rightarrow> (case tar_WriteHeader w h t of
       (Some e, t1) \<Rightarrow> (Some (NWrap ''unpackNarDirectoryToTarball: writing tar header'' e), t1)
     | (None, t1) \<Rightarrow> (case tar_copy (ni_data hdr) t1 of
         (Inl e, t2) \<Rightarrow> (Some (NWrap ''unpackNarDirectoryToTarball: writing tar contents'' e), t2)
       | (Inr written, t2) \<Rightarrow>
           if int written \<noteq> ni_size hdr then (Some (NErrorf ''unpackNarDirectoryToTarball: expected to write''), t2)
           else (None, t2))))"

text \<open>The loop over the members; \<open>i\<close> numbers its passes, the client may leave before each of them. The
  NAR reader ends with \<open>fin\<close>.\<close>

fun unpack_loop :: "nar_world \<Rightarrow> nat \<Rightarrow> nar_item list \<Rightarrow> nix_err option \<Rightarrow> tar_out \<Rightarrow> nix_err option \<times> tar_out" where
  "unpack_loop w i [] fin t = (case nw_cancel w i of
     Some e \<Rightarrow> (Some e, t)
   | None \<Rightarrow> (map_option (NWrap ''unpackNarDirectoryToTarball: next err'') fin, t))"
| "unpack_loop w i (hdr # hdrs) fin t = (case nw_cancel w i of
     Some e \<Rightarrow> (Some e, t)
   | None \<Rightarrow> (case unpack_item w hdr t of
       (Some e, t1) \<Rightarrow> (Some e, t1)
     | (None, t1) \<Rightarrow> unpack_loop w (Suc i) hdrs fin t1))"

text \<open>The writer is closed on every path, so an aborted archive may still get its trailer.\<close>

definition unpackNarDirectoryToTarball :: "nar_world \<Rightarrow> nar_item list \<Rightarrow> nix_err option \<Rightarrow> nix_err option \<times> bytes" where
  "unpackNarDirectoryToTarball w items fin =
     (case unpack_loop w 0 items fin \<lparr>to_bytes = [], to_left = 0, to_pad = 0\<rparr> of (r, t) \<Rightarrow> (r, tar_Close t))"

definition detectCompression :: "(string \<Rightarrow> string) \<Rightarrow> string \<Rightarrow> string" where
  "detectCompression ul filename =
     (let lower = to_lower ul filename; ends = has_suffix lower in
      if ends ''.tar.xz'' \<or> ends ''.tar.lzma'' \<or> ends ''.txz'' then ''xz''
      else if ends ''.tar.gz'' \<or> ends ''.tgz'' \<or> ends ''.tar.Z'' then ''gzip''
      else if ends ''.tar.bz2'' \<or> ends ''.tbz2'' \<or> ends ''.txz'' then ''bzip2''
      else ''none'')"

text \<open>The bytes the tar reader took are put back in front of what it left.\<close>

definition isTarball :: "nar_world \<Rightarrow> stream \<Rightarrow> nix_err + stream" where
  "isTarball w r = (case nw_peek w r of (n, res) \<Rightarrow>
     (let reverted = r\<lparr>st_bytes := take n (st_bytes r) @ drop n (st_bytes r)\<rparr> in
      case res of PeekErr e \<Rightarrow> Inl e | _ \<Rightarrow> Inr reverted))"

definition decompress_file :: "nar_world \<Rightarrow> (string \<Rightarrow> string) \<Rightarrow> string \<Rightarrow> stream \<Rightarrow> nix_err + stream" where
  "decompress_file w ul filename r =
     (let c = detectCompression ul filename in
      if c = ''xz'' then map_sum (NWrap ''unpackNarFileToTarball: xz decompressor'') id (nw_xz w r)
      else if c = ''bzip2'' then Inr (nw_bzip2 w r)
      else if c = ''gzip'' then map_sum (NWrap ''unpackNarFileToTarball: gzip decompressor'') id (nw_gzip w r)
      else Inr r)"

definition unpackNarFileToTarball :: "nar_world \<Rightarrow> (string \<Rightarrow> string) \<Rightarrow> stream \<Rightarrow> string \<Rightarrow> nix_err option \<times> bytes" where
  "unpackNarFileToTarball w ul r filename = (case decompress_file w ul filename r of
     Inl e \<Rightarrow> (Some e, [])
   | Inr d0 \<Rightarrow> (case isTarball w d0 of
       Inl e \<Rightarrow> (Some (NWrap ''unpackNarFileToTarball: not a tar'' e), [])
     | Inr d \<Rightarrow> (map_option (NWrap ''unpackNarFileToTarball: writing tar contents'') (st_end d), st_bytes d)))"

definition NarUnpackerAsTarball :: "nar_world \<Rightarrow> (string \<Rightarrow> string) \<Rightarrow> stream \<Rightarrow> string \<Rightarrow> nix_err option \<times> bytes" where
  "NarUnpackerAsTarball w ul r filename = (case nw_nar w r of
     Inl e \<Rightarrow> (Some e, [])
   | Inr ([], None) \<Rightarrow> (Some (NErrorf ''NarUnpackerAsTarball: no nar file''), [])
   | Inr ([], Some e) \<Rightarrow> (Some (NWrap ''NarUnpackerAsTarball: reading root header'' e), [])
   | Inr (root # items, fin) \<Rightarrow>
       if ni_path root \<noteq> ''/'' then (Some (NErrorf ''NarUnpackerAsTarball: incorrect nar root file path''), [])
       else if ni_type root = NarRegular then unpackNarFileToTarball w ul (ni_data root) filename
       else if ni_type root = NarDirectory then unpackNarDirectoryToTarball w items fin
       else (Some (NErrorf ''NarUnpackerAsTarball: nar root file type not supported''), []))"

section \<open>The image\<close>

definition TarballToErofs :: "nar_world \<Rightarrow> bytes \<Rightarrow> nix_err + nfs" where
  "TarballToErofs w inp = map_sum (NWrap ''TarballToErofs: mkfs.erofs failed'') id (nw_mkfs w inp)"

text \<open>The two goroutines and the pipe between them. A write after the reader has gone fails, and
  so does the unpacker, unless it was one of the writes at the end whose error is dropped: the deferred
  flush of the buffered writer and the deferred closing of the tar writer.\<close>

definition pack :: "nar_world \<Rightarrow> nix_err option \<times> bytes \<Rightarrow> nix_err + nfs" where
  "pack w u = (case u of (res0, out) \<Rightarrow>
     (let k = min (nw_takes w out) (length out);
          res = (if res0 = None \<and> k < length out - nw_unseen w out
            then Some (NWrap ''writing tar contents'' (NErrorf ''io: read/write on closed pipe'')) else res0)
      in case (res, TarballToErofs w (take k out)) of
           (None, Inr img) \<Rightarrow> Inr img
         | (None, Inl e) \<Rightarrow> Inl e
         | (Some e, Inr img) \<Rightarrow> Inl e
         | (Some e, Inl e') \<Rightarrow> Inl (if nw_unpack_first w then e else e')))"

definition FetchNarByArchive :: "nar_world \<Rightarrow> (string \<Rightarrow> string) \<Rightarrow> string \<Rightarrow> nix_err + nfs" where
  "FetchNarByArchive w ul archive = (case fetchNar w archive of
     Inl e \<Rightarrow> Inl e
   | Inr reader \<Rightarrow> pack w (NarUnpackerAsTarball w ul reader []))"

text \<open>\<open>None\<close> is \<open>log.Fatalf\<close>, the end of the process.\<close>

definition NixStorePathToHash :: "(string \<Rightarrow> string) \<Rightarrow> string \<Rightarrow> (string \<times> string \<times> string) option" where
  "NixStorePathToHash ul originalPath = (case cut (path_base originalPath) (CHR ''-'') of
     (h, fileName, found) \<Rightarrow>
       if \<not> found then None
       else (let storeHash = to_lower ul h in
         Some (path_join [path_dir originalPath, storeHash @ ''-'' @ fileName], storeHash, fileName)))"

definition FetchNarByStorePath :: "nar_world \<Rightarrow> (string \<Rightarrow> string) \<Rightarrow> string \<Rightarrow> (nix_err + nfs) option" where
  "FetchNarByStorePath w ul storePath = (case NixStorePathToHash ul storePath of
     None \<Rightarrow> None
   | Some (_, storeHash, filename) \<Rightarrow> Some (case fetchNarInfo w storeHash of
       Inl e \<Rightarrow> Inl e
     | Inr url \<Rightarrow> (case fetchNar w url of
         Inl e \<Rightarrow> Inl e
       | Inr reader \<Rightarrow> pack w (NarUnpackerAsTarball w ul reader filename))))"

text \<open>The store of \<open>cmd/nix-debuginfod\<close> over this fetcher.\<close>

definition fetch_env :: "(string \<Rightarrow> string) \<Rightarrow> nar_world \<Rightarrow> nix_env \<Rightarrow> nix_env" where
  "fetch_env ul w env = env\<lparr>ne_store := (\<lambda>p. the (FetchNarByStorePath w ul p)),
     ne_meta := DebuginfoMeta w, ne_archive := FetchNarByArchive w ul\<rparr>"

end
