(* ===== verification/NixFetchSafety.thy ===== *)
theory NixFetchSafety
  imports NixFetch NixSafety
begin

text \<open>
  What the image builder promises: requests stay on the binary cache's host, a success means the
  whole archive went into the image, and a store path never ends the process. Together with the
  store: below every mounted point the process sees an image made of one whole archive.
\<close>

section \<open>URLs\<close>

lemma hex_upper_char: "n < 16 \<Longrightarrow> is_digit (hex_upper n) \<or> is_upper (hex_upper n)"
  by (simp add: hex_upper_def eval_nat_numeral less_Suc_eq) (auto simp: is_digit_def is_upper_def)

definition url_char :: "char \<Rightarrow> bool" where
  "url_char c \<longleftrightarrow> url_keeps c \<or> c = CHR 0x25 \<or> c = CHR ''*''"

lemma url_escape_chars: "list_all url_char (url_escape p)"
proof -
  have k: "url_char (hex_upper n)" if "n < 16" for n
    using hex_upper_char [OF that] by (auto simp: url_char_def url_keeps_def)
  have "list_all url_char (url_escape_char c)" for c
    by (auto simp: url_escape_char_def k) (simp_all add: url_char_def)
  then have "list_all url_char (concat (map url_escape_char q))" for q
    by (induction q) auto
  then show ?thesis by (simp add: url_escape_def) (simp add: url_char_def)
qed

section \<open>The tar stream of a NAR\<close>

text \<open>An entry: its header, its content and the padding to a block.\<close>

definition item_tar :: "nar_world \<Rightarrow> nar_item \<Rightarrow> bytes" where
  "item_tar w hdr = (case tarHeader hdr of
     None \<Rightarrow> []
   | Some h \<Rightarrow> (case nw_header w h of
       Inl e \<Rightarrow> []
     | Inr b \<Rightarrow> b @ st_bytes (ni_data hdr) @ replicate (tar_pad (length (st_bytes (ni_data hdr)))) (CHR 0x00)))"

definition item_whole :: "nar_world \<Rightarrow> nar_item \<Rightarrow> bool" where
  "item_whole w hdr \<longleftrightarrow> (case tarHeader hdr of None \<Rightarrow> False | Some h \<Rightarrow> \<not> isl (nw_header w h)) \<and>
     st_end (ni_data hdr) = None \<and> int (length (st_bytes (ni_data hdr))) = ni_size hdr \<and>
     (ni_type hdr \<noteq> NarRegular \<longrightarrow> st_bytes (ni_data hdr) = [])"

definition dir_tar :: "nar_world \<Rightarrow> nar_item list \<Rightarrow> bytes" where
  "dir_tar w items = concat (map (item_tar w) items) @ replicate 1024 (CHR 0x00)"

definition flushed :: "tar_out \<Rightarrow> bytes" where
  "flushed t = to_bytes t @ replicate (to_pad t) (CHR 0x00)"

lemma tarHeader_fields:
  "tarHeader hdr = Some h \<Longrightarrow> th_size h = ni_size hdr \<and> (th_flag h = TypeReg \<longleftrightarrow> ni_type hdr = NarRegular)"
  by (auto simp: tarHeader_def Let_def split: nar_type.splits)

lemma unpack_item_iff:
  assumes "to_left t = 0"
  shows "unpack_item w hdr t = (None, t') \<Longrightarrow> item_whole w hdr \<and> to_left t' = 0 \<and> flushed t' = flushed t @ item_tar w hdr"
    and "item_whole w hdr \<Longrightarrow> fst (unpack_item w hdr t) = None"
proof -
  have pad0: "tar_pad 0 = 0" by (simp add: tar_pad_def)
  show "item_whole w hdr \<and> to_left t' = 0 \<and> flushed t' = flushed t @ item_tar w hdr"
    if u: "unpack_item w hdr t = (None, t')"
  proof -
    obtain h where h: "tarHeader hdr = Some h" using u by (auto simp: unpack_item_def split: option.splits)
    obtain b where b: "nw_header w h = Inr b"
      using u h assms by (auto simp: unpack_item_def tar_WriteHeader_def tar_flush_def split: sum.splits)
    let ?d = "st_bytes (ni_data hdr)"
    let ?n = "if ni_type hdr = NarRegular then nat (ni_size hdr) else 0"
    have r: "length ?d \<le> ?n" "st_end (ni_data hdr) = None" "int (length ?d) = ni_size hdr" "to_left t' = ?n - length ?d"
      "to_bytes t' = flushed t @ b @ ?d" "to_pad t' = tar_pad ?n"
      using u h b assms tarHeader_fields [OF h]
      by (auto simp: unpack_item_def tar_WriteHeader_def tar_flush_def tar_copy_def Let_def flushed_def min_def
          split: if_splits option.splits)
    moreover have "nat (ni_size hdr) = length ?d" using r(3) by simp
    ultimately show ?thesis
      by (auto simp: item_whole_def item_tar_def h b flushed_def pad0 split: if_splits)
  qed
  show "fst (unpack_item w hdr t) = None" if wh: "item_whole w hdr"
  proof -
    obtain h where h0: "tarHeader hdr = Some h" "\<not> isl (nw_header w h)"
      using wh by (auto simp: item_whole_def split: option.splits)
    obtain b where "nw_header w h = Inr b" using h0(2) by (cases "nw_header w h") auto
    note h = h0(1) this
    then show ?thesis
      using wh assms tarHeader_fields [OF h(1)]
      by (auto simp: item_whole_def unpack_item_def tar_WriteHeader_def tar_flush_def tar_copy_def Let_def split: if_splits)
  qed
qed

lemma unpack_loop_iff:
  assumes "to_left t = 0"
  shows "unpack_loop w i items fin t = (None, t') \<Longrightarrow>
      fin = None \<and> list_all (item_whole w) items \<and> (\<forall>j\<le>length items. nw_cancel w (i + j) = None) \<and>
      to_left t' = 0 \<and> flushed t' = flushed t @ concat (map (item_tar w) items)"
    and "fin = None \<Longrightarrow> list_all (item_whole w) items \<Longrightarrow> (\<And>j. j \<le> length items \<Longrightarrow> nw_cancel w (i + j) = None) \<Longrightarrow>
      fst (unpack_loop w i items fin t) = None"
proof -
  show "fin = None \<and> list_all (item_whole w) items \<and> (\<forall>j\<le>length items. nw_cancel w (i + j) = None) \<and>
      to_left t' = 0 \<and> flushed t' = flushed t @ concat (map (item_tar w) items)"
    if "unpack_loop w i items fin t = (None, t')"
    using assms that
  proof (induction items arbitrary: i t)
    case Nil
    then show ?case by (auto split: option.splits)
  next
    case (Cons hdr hdrs)
    then have c: "nw_cancel w i = None" by (cases "nw_cancel w i") auto
    obtain q t1 where u: "unpack_item w hdr t = (q, t1)" by fastforce
    with Cons.prems c have q: "q = None" by (cases q) auto
    note it = unpack_item_iff(1) [OF Cons.prems(1) u [unfolded q]]
    have "unpack_loop w (Suc i) hdrs fin t1 = (None, t')" using Cons.prems c u q by simp
    from Cons.IH [OF _ this] it have ih: "fin = None" "list_all (item_whole w) hdrs" "to_left t' = 0"
      "\<forall>j\<le>length hdrs. nw_cancel w (Suc i + j) = None" "flushed t' = flushed t1 @ concat (map (item_tar w) hdrs)"
      by auto
    have "nw_cancel w (i + j) = None" if "j \<le> length (hdr # hdrs)" for j
      using that c ih(4) by (cases j) auto
    with ih it show ?case by simp
  qed
  show "fst (unpack_loop w i items fin t) = None"
    if "fin = None" "list_all (item_whole w) items" "\<And>j. j \<le> length items \<Longrightarrow> nw_cancel w (i + j) = None"
    using assms that
  proof (induction items arbitrary: i t)
    case Nil
    from Nil.prems(4) [of 0] Nil.prems(2) show ?case by simp
  next
    case (Cons hdr hdrs)
    obtain q t1 where u: "unpack_item w hdr t = (q, t1)" by fastforce
    with unpack_item_iff(2) [OF Cons.prems(1), of w hdr] Cons.prems(3) have q: "q = None" by simp
    note it = unpack_item_iff(1) [OF Cons.prems(1) u [unfolded q]]
    have "fst (unpack_loop w (Suc i) hdrs fin t1) = None"
    proof (rule Cons.IH)
      show "nw_cancel w (Suc i + j) = None" if "j \<le> length hdrs" for j
        using Cons.prems(4) [of "Suc j"] that by simp
    qed (use it Cons.prems in simp_all)
    with u q Cons.prems(4) [of 0] show ?case by simp
  qed
qed

text \<open>The unpacker succeeds exactly when nobody left, the NAR ended properly and every member came
  whole; then the stream is the entries in order and the trailer.\<close>

lemma unpack_dir_iff:
  "unpackNarDirectoryToTarball w items fin = (None, out) \<longleftrightarrow>
     fin = None \<and> list_all (item_whole w) items \<and> (\<forall>j\<le>length items. nw_cancel w j = None) \<and> out = dir_tar w items"
proof -
  let ?t = "\<lparr>to_bytes = [], to_left = 0, to_pad = 0\<rparr>"
  obtain q t where u: "unpack_loop w 0 items fin ?t = (q, t)" by fastforce
  have close: "to_left t = 0 \<Longrightarrow> tar_Close t = flushed t @ replicate 1024 (CHR 0x00)"
    by (simp add: tar_Close_def tar_flush_def flushed_def)
  have f0: "flushed ?t = []" by (simp add: flushed_def)
  show ?thesis
  proof (cases q)
    case None
    from unpack_loop_iff(1) [of ?t w 0 items fin t] u None f0 close show ?thesis
      by (auto simp: unpackNarDirectoryToTarball_def dir_tar_def)
  next
    case (Some e)
    with unpack_loop_iff(2) [of ?t fin w items 0] u show ?thesis
      by (auto simp: unpackNarDirectoryToTarball_def)
  qed
qed

section \<open>A success is the whole archive\<close>

text \<open>The tar stream of a NAR: the members of a directory, or the (decompressed) content of a file.\<close>

definition tar_of :: "nar_world \<Rightarrow> (string \<Rightarrow> string) \<Rightarrow> string \<Rightarrow> stream \<Rightarrow> bytes \<Rightarrow> bool" where
  "tar_of w ul filename rd tar \<longleftrightarrow> (case nw_nar w rd of
     Inr (root # items, fin) \<Rightarrow> ni_path root = ''/'' \<and>
       (ni_type root = NarDirectory \<and> fin = None \<and> list_all (item_whole w) items \<and> tar = dir_tar w items \<or>
        ni_type root = NarRegular \<and> (case decompress_file w ul filename (ni_data root) of
          Inl e \<Rightarrow> False | Inr d \<Rightarrow> st_end d = None \<and> tar = st_bytes d))
   | _ \<Rightarrow> False)"

lemma isTarball_same: "isTarball w r = Inr r' \<Longrightarrow> r' = r"
  by (auto simp: isTarball_def Let_def split: prod.splits tar_peek.splits)

lemma unpacker_whole:
  assumes "NarUnpackerAsTarball w ul rd filename = (None, out)"
  shows "tar_of w ul filename rd out"
proof (cases "nw_nar w rd")
  case (Inl e)
  with assms show ?thesis by (simp add: NarUnpackerAsTarball_def)
next
  case (Inr p)
  then obtain items0 fin where p: "nw_nar w rd = Inr (items0, fin)" by (cases p) auto
  with assms obtain root items where r: "items0 = root # items"
    by (cases items0; cases fin) (auto simp: NarUnpackerAsTarball_def)
  have path: "ni_path root = ''/''" using assms p r by (auto simp: NarUnpackerAsTarball_def split: if_splits)
  show ?thesis
  proof (cases "ni_type root = NarRegular")
    case True
    with assms p r path have u: "unpackNarFileToTarball w ul (ni_data root) filename = (None, out)"
      by (simp add: NarUnpackerAsTarball_def)
    then obtain d0 d where d: "decompress_file w ul filename (ni_data root) = Inr d0" "isTarball w d0 = Inr d"
      "st_end d = None" "out = st_bytes d"
      by (auto simp: unpackNarFileToTarball_def split: sum.splits)
    with isTarball_same [OF d(2)] show ?thesis using p r path True by (simp add: tar_of_def)
  next
    case False
    with assms p r path have "ni_type root = NarDirectory" "unpackNarDirectoryToTarball w items fin = (None, out)"
      by (auto simp: NarUnpackerAsTarball_def split: if_splits)
    with p r path show ?thesis by (simp add: tar_of_def unpack_dir_iff)
  qed
qed

text \<open>The writes nobody looks at are the last buffer of the buffered writer (4096 bytes), the padding
  of the last entry (at most 511) and the trailer (1024).\<close>

definition unseen_bound :: nat where "unseen_bound = 4096 + 511 + 1024"

definition buffers_ok :: "nar_world \<Rightarrow> bool" where
  "buffers_ok w \<longleftrightarrow> (\<forall>out. nw_unseen w out \<le> unseen_bound)"

definition image_of_tar :: "nar_world \<Rightarrow> bytes \<Rightarrow> nfs \<Rightarrow> bool" where
  "image_of_tar w tar img \<longleftrightarrow> (\<exists>k\<le>length tar. length tar - k \<le> unseen_bound \<and> nw_mkfs w (take k tar) = Inr img)"

lemma pack_whole:
  assumes "buffers_ok w" "pack w u = Inr img"
  shows "fst u = None" "image_of_tar w (snd u) img"
proof -
  obtain res0 out where u: "u = (res0, out)" by fastforce
  let ?k = "min (nw_takes w out) (length out)"
  have *: "res0 = None \<and> \<not> ?k < length out - nw_unseen w out \<and> nw_mkfs w (take ?k out) = Inr img"
    using assms(2) unfolding pack_def u TarballToErofs_def Let_def
    by (cases "nw_mkfs w (take ?k out)") (auto split: if_splits option.splits)
  have "length out - ?k \<le> nw_unseen w out" using * by linarith
  then have "length out - ?k \<le> unseen_bound" using assms(1) order_trans unfolding buffers_ok_def by blast
  then show "image_of_tar w (snd u) img" unfolding image_of_tar_def u snd_conv
    using * by (intro exI [of _ ?k]) simp
  show "fst u = None" using * u by simp
qed

text \<open>What was fetched under a path of the cache, up to its tar stream.\<close>

definition fetched_tar :: "nar_world \<Rightarrow> (string \<Rightarrow> string) \<Rightarrow> string \<Rightarrow> string \<Rightarrow> bytes \<Rightarrow> bool" where
  "fetched_tar w ul relativePath filename tar \<longleftrightarrow> (\<exists>body rd.
     nw_get w (getNixRemoteUrl [relativePath]) = Inr (200, body) \<and> sniffNar w relativePath body = Inr rd \<and>
     tar_of w ul filename rd tar)"

lemma fetchNar_ok: "fetchNar w p = Inr rd \<Longrightarrow>
    \<exists>body. nw_get w (getNixRemoteUrl [p]) = Inr (200, body) \<and> sniffNar w p body = Inr rd"
  by (auto simp: fetchNar_def cache_request_def split: sum.splits prod.splits if_splits)

lemma packed_fetch:
  assumes "buffers_ok w" "fetchNar w p = Inr rd" "pack w (NarUnpackerAsTarball w ul rd filename) = Inr img"
  shows "\<exists>tar. fetched_tar w ul p filename tar \<and> image_of_tar w tar img"
proof -
  obtain q out where u: "NarUnpackerAsTarball w ul rd filename = (q, out)" by fastforce
  from pack_whole [OF assms(1,3)] u have "q = None" "image_of_tar w out img" by auto
  with unpacker_whole [of w ul rd filename out] u fetchNar_ok [OF assms(2)] show ?thesis
    by (auto simp: fetched_tar_def)
qed

lemma archive_whole:
  assumes "buffers_ok w" "FetchNarByArchive w ul archive = Inr img"
  shows "\<exists>tar. fetched_tar w ul archive [] tar \<and> image_of_tar w tar img"
  using assms(2) packed_fetch [OF assms(1)] by (auto simp: FetchNarByArchive_def split: sum.splits)

section \<open>Store paths\<close>

lemma store_hash_lower: "isStoreHash h \<Longrightarrow> to_lower ul h = h"
proof -
  assume h: "isStoreHash h"
  have c: "is_ascii c \<and> ascii_lower c = c" if "c \<in> set nixBase32" for c
    using that by (auto simp: nixBase32_def is_ascii_def ascii_lower_def is_upper_def)
  have "list_all is_ascii h" "map ascii_lower h = h"
    using h c by (auto simp: isStoreHash_def list_all_iff intro: map_idI)
  then show ?thesis by (simp add: to_lower_def)
qed

text \<open>\<open>log.Fatalf\<close> is not reached from the store: a store path it computed has a hash and a name, and
  they are the ones the image is kept under.\<close>

lemma store_path_hash:
  assumes "cfg_ok cfg" "isStoreHash h" "slash \<notin> set pkg" "p = path_join [nc_mountRoot cfg, h @ ''-'' @ pkg]"
  shows "\<exists>fixed. NixStorePathToHash ul p = Some (fixed, h, pkg)"
proof -
  have "point_name cfg p (nc_mountRoot cfg) (h @ ''-'' @ pkg)" using assms by (auto simp: point_name_def)
  then have b: "path_base p = h @ ''-'' @ pkg" by (rule point_base [OF assms(1)])
  have "cut (h @ CHR ''-'' # pkg) (CHR ''-'') = (h, pkg, True)"
    using cut_found [of "CHR ''-''" h pkg] store_hash_facts(2) [OF assms(2)] by simp
  then show ?thesis by (simp add: NixStorePathToHash_def b Let_def store_hash_lower [OF assms(2)])
qed

definition store_image :: "nar_world \<Rightarrow> (string \<Rightarrow> string) \<Rightarrow> string \<Rightarrow> nfs \<Rightarrow> bool" where
  "store_image w ul name img \<longleftrightarrow> (\<exists>h pkg url tar. isStoreHash h \<and> name = h @ ''-'' @ pkg \<and> fetchNarInfo w h = Inr url \<and>
     fetched_tar w ul url pkg tar \<and> image_of_tar w tar img)"

lemma store_path_whole:
  assumes cfg: "cfg_ok cfg" and w: "buffers_ok w" and p: "point_name cfg p (nc_mountRoot cfg) name"
    and img: "the (FetchNarByStorePath w ul p) = Inr img"
  shows "store_image w ul name img"
proof -
  have ne: "nc_entryRoot cfg \<noteq> nc_mountRoot cfg" using cfg by (auto simp: cfg_ok_def Let_def)
  obtain h pkg where h: "isStoreHash h" "slash \<notin> set pkg" "name = h @ ''-'' @ pkg" "p = path_join [nc_mountRoot cfg, name]"
    using p ne by (auto simp: point_name_def)
  obtain fixed where f: "NixStorePathToHash ul p = Some (fixed, h, pkg)"
    using store_path_hash [OF cfg h(1,2)] h(3,4) by blast
  obtain url rd where "fetchNarInfo w h = Inr url" "fetchNar w url = Inr rd"
    "pack w (NarUnpackerAsTarball w ul rd pkg) = Inr img"
    using img by (auto simp: FetchNarByStorePath_def f split: sum.splits)
  moreover from packed_fetch [OF w this(2,3)] obtain tar where "fetched_tar w ul url pkg tar" "image_of_tar w tar img" by blast
  ultimately show ?thesis using h unfolding store_image_def by blast
qed

section \<open>Every image is a whole archive\<close>

text \<open>Where an image of the store comes from: another builder, a store path, an archive.\<close>

definition made_in :: "nix_cfg \<Rightarrow> nix_env \<Rightarrow> string \<Rightarrow> nfs \<Rightarrow> bool" where
  "made_in cfg env k img \<longleftrightarrow> ne_others env k = Some img \<or>
     (\<exists>p name. point_name cfg p (nc_mountRoot cfg) name \<and> k = image_of cfg (nc_mountRoot cfg) name \<and> ne_store env p = Inr img) \<or>
     (\<exists>key a. archiveKeyRe key \<and> k = archive_image key \<and> ne_archive env a = Inr img)"

definition new_images :: "nix_cfg \<Rightarrow> nix_env \<Rightarrow> nstore \<Rightarrow> nstore \<Rightarrow> bool" where
  "new_images cfg env s s' \<longleftrightarrow> (cfg_ok cfg \<longrightarrow>
     (\<forall>k img. ns_image s' k = Some img \<longrightarrow> ns_image s k = Some img \<or> made_in cfg env k img))"

lemma new_images_same: "ns_image s' = ns_image s \<Longrightarrow> new_images cfg env s s'"
  by (simp add: new_images_def)

lemma new_images_trans: "new_images cfg env s s' \<Longrightarrow> new_images cfg env s' s'' \<Longrightarrow> new_images cfg env s s''"
  unfolding new_images_def by blast

lemma mount_image: "mount env f p s = (r, s') \<Longrightarrow> ns_image s' = ns_image s"
  by (auto simp: mount_def split: option.splits prod.splits sum.splits)

lemma buildOnce_images:
  assumes "buildOnce env k build s = (r, s')"
    and "\<And>q s1. build s = (q, s1) \<Longrightarrow> ns_image s1 = ns_image s"
    and "\<And>img s1. build s = (Inr img, s1) \<Longrightarrow> made_in cfg env k img"
  shows "new_images cfg env s s'"
proof -
  obtain q s1 where q: "build s = (q, s1)" by fastforce
  then show ?thesis
    using assms(1) assms(2) [OF q] assms(3) [of _ s1]
    by (cases q) (auto simp: new_images_def buildOnce_def made_in_def split: if_splits option.splits)
qed

interpretation images: nix_mounts "new_images cfg" cfg ul for cfg ul
proof
  fix env s s' q
  show "\<not> cfg_ok cfg \<Longrightarrow> new_images cfg env s s'" by (simp add: new_images_def)
  show "ns_image s' = ns_image s \<Longrightarrow> new_images cfg env s s'" by (rule new_images_same)
  show "mount env imgfile p s = (q, s') \<Longrightarrow> new_images cfg env s s'" for imgfile p
    using mount_image by (intro new_images_same)
  show "new_images cfg env s s'" if "point_name cfg sp (nc_mountRoot cfg) name"
    "buildOnce env (image_of cfg (nc_mountRoot cfg) name) (\<lambda>s. (ne_store env sp, s)) s = (q, s')" for sp name
    by (rule buildOnce_images [OF that(2)]) (use that(1) in \<open>auto simp: made_in_def\<close>)
  show "new_images cfg env s s'" if key: "archiveKeyRe key"
    and b: "buildOnce env (archive_image key) (build_archive env b key archive) s = (q, s')" for key b archive
  proof (rule buildOnce_images [OF b])
    show "ns_image s1 = ns_image s" if "build_archive env b key archive s = (r, s1)" for r s1
      using build_archive_view [OF that] by simp
    show "made_in cfg env (archive_image key) img" if "build_archive env b key archive s = (Inr img, s1)" for img s1
      using that key by (auto simp: build_archive_def made_in_def split: sum.splits if_splits)
  qed
qed (auto intro: new_images_trans)

lemma run_images:
  "cfg_ok cfg \<Longrightarrow> ns_image (nix_run cfg ul h s) k = Some img \<Longrightarrow>
   ns_image s k = Some img \<or> (\<exists>(env, rq) \<in> set h. made_in cfg env k img)"
proof (induction h arbitrary: s)
  case (Cons x h)
  obtain env rq where x: "x = (env, rq)" by fastforce
  have "new_images cfg env s (snd (handle cfg ul env rq s))"
    by (rule images.steps.handle_R [OF prod.collapse [symmetric]])
  with Cons x show ?case by (fastforce simp: new_images_def)
qed simp

section \<open>Properties\<close>

text \<open>Every request of a history with its own answers of the outside world.\<close>

definition fetching :: "(string \<Rightarrow> string) \<Rightarrow> (nar_world \<times> nix_env \<times> nix_request) list \<Rightarrow> (nix_env \<times> nix_request) list" where
  "fetching ul reqs = map (\<lambda>(w, e, rq). (fetch_env ul w e, rq)) reqs"

definition image_made :: "nix_cfg \<Rightarrow> (string \<Rightarrow> string) \<Rightarrow> nar_world set \<Rightarrow> string \<Rightarrow> nfs \<Rightarrow> bool" where
  "image_made cfg ul W k img \<longleftrightarrow> (\<exists>w\<in>W.
     (\<exists>name. k = image_of cfg (nc_mountRoot cfg) name \<and> store_image w ul name img) \<or>
     (\<exists>key a tar. archiveKeyRe key \<and> k = archive_image key \<and> fetched_tar w ul a [] tar \<and> image_of_tar w tar img))"

lemma fetched_image_made:
  assumes cfg: "cfg_ok cfg" and w: "w \<in> W" "buffers_ok w" and made: "made_in cfg (fetch_env ul w e) k img"
    and others: "\<And>img. ne_others e k = Some img \<Longrightarrow> image_made cfg ul W k img"
  shows "image_made cfg ul W k img"
proof -
  from made consider (other) "ne_others e k = Some img"
    | (path) p name where "point_name cfg p (nc_mountRoot cfg) name" "k = image_of cfg (nc_mountRoot cfg) name"
        "the (FetchNarByStorePath w ul p) = Inr img"
    | (archive) key a where "archiveKeyRe key" "k = archive_image key" "FetchNarByArchive w ul a = Inr img"
    by (auto simp: made_in_def fetch_env_def)
  then show ?thesis
  proof cases
    case other
    then show ?thesis by (rule others)
  next
    case path
    from store_path_whole [OF cfg w(2) path(1,3)] path(2) w(1) show ?thesis unfolding image_made_def by blast
  next
    case archive
    from archive_whole [OF w(2) archive(3)] archive(1,2) w(1) show ?thesis unfolding image_made_def by blast
  qed
qed


text \<open>C23. Building an image succeeds exactly as far as its input is whole: the unpacker of a directory
  succeeds if and only if the client stayed, the NAR ended without an error, and every member has a
  known type, was accepted by the tar writer and came with exactly the bytes its header announced; it
  then wrote those members in order and the trailer.\<close>

theorem unpack_directory_exact:
  "unpackNarDirectoryToTarball w items fin = (None, out) \<longleftrightarrow>
     fin = None \<and> list_all (item_whole w) items \<and> list_all (\<lambda>j. nw_cancel w j = None) [0..<Suc (length items)] \<and>
     out = dir_tar w items"
  using unpack_dir_iff [of w items fin out] by (auto simp: list_all_iff less_Suc_eq_le simp del: upt_Suc)

text \<open>Every request of the fetcher goes to the binary cache, whatever the build ID, the archive name
  or the URL in a narinfo is: no character of it can end the path.\<close>

lemma cache_url_fixed:
  "\<exists>path. getNixRemoteUrl elems = cacheUrl @ ''/'' @ path \<and> list_all url_char path"
proof -
  let ?p = "clean (path_join elems)"
  show ?thesis
  proof (cases "is_abs ?p")
    case True
    then obtain q where q: "?p = slash # q" by (cases ?p) auto
    have "url_escape ?p = slash # concat (map url_escape_char q)"
      using q by (simp add: url_escape_def url_escape_char_def url_keeps_def)
    with True url_escape_chars [of ?p] show ?thesis by (simp add: getNixRemoteUrl_def)
  next
    case False
    with url_escape_chars [of ?p] show ?thesis by (simp add: getNixRemoteUrl_def)
  qed
qed

section \<open>Examples\<close>

text \<open>A cache that answers everything with one NAR: a directory with one file.\<close>

definition ex_nar :: "nar_item list" where
  "ex_nar = [\<lparr>ni_path = ''/'', ni_type = NarDirectory, ni_link = [], ni_size = 0, ni_exec = False,
       ni_data = \<lparr>st_bytes = [], st_end = None\<rparr>\<rparr>,
     \<lparr>ni_path = ''/f'', ni_type = NarRegular, ni_link = [], ni_size = 6, ni_exec = True,
       ni_data = \<lparr>st_bytes = ''int f;'', st_end = None\<rparr>\<rparr>]"

definition ex_world :: nar_world where
  "ex_world = \<lparr>nw_get = (\<lambda>_. Inr (200, \<lparr>st_bytes = narMagic, st_end = None\<rparr>)), nw_json = (\<lambda>_. Inr (''x'', [])),
     nw_narinfo = (\<lambda>_. Inr ''nar/x.nar''), nw_zstd = Inr, nw_xz = Inr, nw_gzip = Inr, nw_bzip2 = id,
     nw_nar = (\<lambda>_. Inr (ex_nar, None)), nw_peek = (\<lambda>_. (0, PeekOk)), nw_cancel = (\<lambda>_. None),
     nw_header = (\<lambda>h. Inr (th_name h)), nw_takes = length, nw_unseen = (\<lambda>_. 0), nw_mkfs = (\<lambda>_. Inr demo_img),
     nw_unpack_first = True\<rparr>"

lemma ex_mounts: "isMounted (nix_run demo_cfg id (fetching id [(ex_world, demo_env, Source ''abcd'' demo_path)]) demo_store) demo_point"
proof -
  have "isMounted (snd (snd (Open demo_cfg id (fetch_env id ex_world demo_env) demo_path demo_store))) demo_point" by code_simp
  then show ?thesis by (simp add: fetching_def demo_state del: handle.simps)
qed


end
