(* ===== verification/CacheStat.thy ===== *)
theory CacheStat
  imports CacheFiles Stats
begin

text \<open>
  \<open>cachestat.go\<close> and \<open>fsspace_unix.go\<close>: the measurement of the cache directory that the statistics
  page draws next to the limit, and how its figures relate to what the eviction pass of \<open>filecache.go\<close>
  adds up over the same walk.
\<close>

section \<open>The measurement\<close>

text \<open>A callback of \<open>filepath.Walk\<close> with the blocks \<open>stat\<close> reports; \<open>None\<close> where it reports none.\<close>

record dwalk = cwalk +
  dw_blocks :: "u64 option"

definition diskBytes :: "dwalk \<Rightarrow> u64" where
  "diskBytes e = (case dw_blocks e of None \<Rightarrow> word_of_int (cw_size e) | Some b \<Rightarrow> b * 512)"

definition usage_file :: "dwalk \<Rightarrow> cacheUsage \<Rightarrow> cacheUsage" where
  "usage_file e u =
     (let base = path_base (cw_path e); grown = u\<lparr>cu_bytes := cu_bytes u + diskBytes e,
            cu_apparent := cu_apparent u + word_of_int (cw_size e)\<rparr>
      in if cw_dir e then u
         else if str_contains base ''.tmp-'' then u\<lparr>cu_tmp := cu_tmp u + diskBytes e\<rparr>
         else if has_suffix base ''.meta'' then grown
         else if isBlobName base then grown\<lparr>cu_entries := cu_entries u + 1\<rparr>
         else u)"

text \<open>\<open>None\<close>: the directory itself cannot be read. Any other error skips one entry.\<close>

fun usage_walk :: "string \<Rightarrow> dwalk list \<Rightarrow> cacheUsage \<Rightarrow> cacheUsage option" where
  "usage_walk dir [] u = Some u"
| "usage_walk dir (e # es) u =
     (if cw_err e \<noteq> None then (if cw_path e = dir then None else usage_walk dir es u)
      else usage_walk dir es (usage_file e u))"

text \<open>\<open>statfs\<close>: block size, blocks, blocks free for us.\<close>

definition fsSpace :: "(u64 \<times> u64 \<times> u64) option \<Rightarrow> (u64 \<times> u64) option" where
  "fsSpace st = map_option (\<lambda>(bsize, blocks, avail). (blocks * bsize, avail * bsize)) st"

definition no_space_usage :: "time \<Rightarrow> cacheUsage" where
  "no_space_usage now = \<lparr>cu_timestamp = now, cu_entries = 0, cu_bytes = 0, cu_apparent = 0, cu_tmp = 0,
     cu_fs_total = 0, cu_fs_free = 0\<rparr>"

definition scanCacheUsage :: "time \<Rightarrow> string \<Rightarrow> dwalk list \<Rightarrow> (u64 \<times> u64 \<times> u64) option \<Rightarrow> cacheUsage option" where
  "scanCacheUsage now dir walk st = (case usage_walk dir walk (no_space_usage now) of
     None \<Rightarrow> None
   | Some u \<Rightarrow> Some (case fsSpace st of None \<Rightarrow> u | Some (full, free) \<Rightarrow> u\<lparr>cu_fs_total := full, cu_fs_free := free\<rparr>))"

text \<open>One tick of the worker: a measurement that failed writes nothing. \<open>insert_ok\<close> is the database.\<close>

definition collect_usage :: "bool \<Rightarrow> time \<Rightarrow> string \<Rightarrow> dwalk list \<Rightarrow> (u64 \<times> u64 \<times> u64) option \<Rightarrow> cacheUsage list \<Rightarrow> cacheUsage list" where
  "collect_usage insert_ok now dir walk st rows = (case scanCacheUsage now dir walk st of
     None \<Rightarrow> rows
   | Some u \<Rightarrow> if insert_ok then rows @ [u] else rows)"

section \<open>The same walk, seen by the eviction pass\<close>

definition live_tmp :: "time \<Rightarrow> dwalk \<Rightarrow> bool" where
  "live_tmp now e \<longleftrightarrow> cw_err e = None \<and> \<not> cw_dir e \<and> str_contains (path_base (cw_path e)) ''.tmp-'' \<and>
     now - cw_mtime e \<le> cacheFetchTimeout"

definition live_tmp_bytes :: "time \<Rightarrow> dwalk list \<Rightarrow> int" where
  "live_tmp_bytes now walk = sum_list (map cw_size (filter (live_tmp now) walk))"

text \<open>\<open>filepath.Walk\<close> joins names to the directory, so the path of a file does not end with a slash.\<close>

definition walk_paths_ok :: "dwalk list \<Rightarrow> bool" where
  "walk_paths_ok walk \<longleftrightarrow> list_all (\<lambda>e. cw_dir e \<or> cw_path e \<noteq> [] \<and> last (cw_path e) \<noteq> slash) walk"

lemma base_split:
  assumes "p \<noteq> []" "last p \<noteq> slash"
  shows "\<exists>pre. p = pre @ path_base p \<and> (pre = [] \<or> last pre = slash)"
proof -
  have "trim_right_char slash p = p"
    using assms by (cases p rule: rev_cases) (auto simp: trim_right_char_def)
  then have b: "path_base p = rev (takeWhile (\<lambda>x. x \<noteq> slash) (rev p))"
    using assms by (auto simp: path_base_def)
  let ?pre = "rev (dropWhile (\<lambda>x. x \<noteq> slash) (rev p))"
  have "p = rev (takeWhile (\<lambda>x. x \<noteq> slash) (rev p) @ dropWhile (\<lambda>x. x \<noteq> slash) (rev p))" by simp
  then have "p = ?pre @ path_base p" unfolding b by (simp only: rev_append)
  moreover have "?pre = [] \<or> last ?pre = slash"
    using hd_dropWhile [of "\<lambda>x. x \<noteq> slash" "rev p"] by (auto simp: last_rev)
  ultimately show ?thesis by blast
qed

lemma base_suffix:
  assumes "p \<noteq> []" "last p \<noteq> slash" "slash \<notin> set m"
  shows "has_suffix p m \<longleftrightarrow> has_suffix (path_base p) m"
proof -
  obtain pre where p: "p = pre @ path_base p" "pre = [] \<or> last pre = slash" using base_split [OF assms(1,2)] by blast
  show ?thesis
  proof
    assume "has_suffix p m"
    then obtain r where "p = r @ m" by (auto simp: has_suffix_iff)
    with p(1) have "r @ m = pre @ path_base p" by simp
    then obtain us where "r = pre @ us \<and> us @ m = path_base p \<or> r @ us = pre \<and> m = us @ path_base p"
      by (auto simp: append_eq_append_conv2)
    moreover have "us = []" if "r @ us = pre" "m = us @ path_base p"
      using that p(2) assms(3) by (cases us rule: rev_cases) auto
    ultimately obtain ys where "path_base p = ys @ m" by (metis append_Nil)
    then show "has_suffix (path_base p) m" by (auto simp: has_suffix_iff)
  next
    assume "has_suffix (path_base p) m"
    then obtain r where "path_base p = r @ m" by (auto simp: has_suffix_iff)
    with p(1) have "p = (pre @ r) @ m" by simp
    then show "has_suffix p m" by (auto simp: has_suffix_iff)
  qed
qed

text \<open>What the two passes have counted after the same callbacks.\<close>

definition same_count :: "int \<Rightarrow> cacheUsage \<Rightarrow> scan \<Rightarrow> bool" where
  "same_count live u s \<longleftrightarrow> cu_entries u = of_nat (length (sc_files s)) \<and> word_of_int (sc_total s) = cu_apparent u + word_of_int live"

lemma file_same_count:
  assumes "same_count live u s" "cw_dir e \<or> cw_path e \<noteq> [] \<and> last (cw_path e) \<noteq> slash" "cw_err e = None"
  shows "same_count (live + (if live_tmp now e then cw_size e else 0)) (usage_file e u) (scan_file rm now (cwalk.truncate e) s)"
proof -
  have sel: "cw_path (cwalk.truncate e) = cw_path e" "cw_dir (cwalk.truncate e) = cw_dir e"
    "cw_size (cwalk.truncate e) = cw_size e" "cw_mtime (cwalk.truncate e) = cw_mtime e"
    by (simp_all add: cwalk.truncate_def)
  show ?thesis
  proof (cases "cw_dir e")
    case True
    then show ?thesis using assms(1) by (simp add: usage_file_def scan_file_def sel live_tmp_def Let_def)
  next
    case False
    with assms(2) have "has_suffix (cw_path e) ''.meta'' \<longleftrightarrow> has_suffix (path_base (cw_path e)) ''.meta''"
      by (intro base_suffix) auto
    then show ?thesis
      using assms(1,3) False
      by (auto simp: usage_file_def scan_file_def sel live_tmp_def same_count_def Let_def add.assoc add.commute add.left_commute)
  qed
qed

lemma walk_same_count:
  assumes "usage_walk dir walk u = Some u'" "scan_walk rm now dir (map cwalk.truncate walk) s = (ok, s')"
    "walk_paths_ok walk" "same_count live u s"
  shows "same_count (live + live_tmp_bytes now walk) u' s'"
  using assms
proof (induction walk arbitrary: u s live)
  case Nil
  then show ?case by (simp add: live_tmp_bytes_def)
next
  case (Cons e es)
  have sel: "cw_err (cwalk.truncate e) = cw_err e" "cw_path (cwalk.truncate e) = cw_path e"
    by (simp_all add: cwalk.truncate_def)
  have ok: "walk_paths_ok es" "cw_dir e \<or> cw_path e \<noteq> [] \<and> last (cw_path e) \<noteq> slash"
    using Cons.prems(3) by (auto simp: walk_paths_ok_def)
  show ?case
  proof (cases "cw_err e")
    case None
    note f = file_same_count [OF Cons.prems(4) ok(2) None, of now rm]
    have "same_count (live + (if live_tmp now e then cw_size e else 0) + live_tmp_bytes now es) u' s'"
      by (rule Cons.IH [OF _ _ ok(1) f]) (use Cons.prems(1,2) None sel in simp_all)
    then show ?thesis by (cases "live_tmp now e") (simp_all add: live_tmp_bytes_def add.assoc)
  next
    case (Some err)
    then have "cw_path e \<noteq> dir" and u: "usage_walk dir es u = Some u'"
      using Cons.prems(1) by (auto split: if_splits)
    then obtain t where t: "scan_walk rm now dir (map cwalk.truncate es) t = (ok, s')" "sc_files t = sc_files s" "sc_total t = sc_total s"
      using Cons.prems(2) Some sel by (cases "err = WNotExist") auto
    have "same_count live u t" using Cons.prems(4) t(2,3) by (simp add: same_count_def)
    from Cons.IH [OF u t(1) ok(1) this] have "same_count (live + live_tmp_bytes now es) u' s'" .
    moreover have "live_tmp_bytes now (e # es) = live_tmp_bytes now es"
      using Some by (simp add: live_tmp_bytes_def live_tmp_def)
    ultimately show ?thesis by simp
  qed
qed

text \<open>What the operator reads is what the eviction pass acts on, except for the unit. Over the same
  walk the measurement counts as entries exactly the candidates of the eviction pass, and the total
  the pass compares with \<open>CACHE_MAX_BYTES\<close> is the measured sum of file lengths plus the unfinished
  downloads young enough to be alive - not the allocated space the statistics page draws next to
  that limit.\<close>

theorem usage_matches_eviction:
  assumes "scanCacheUsage now dir walk st = Some u" "walk_paths_ok walk"
    "scan_walk rm now dir (map cwalk.truncate walk) empty_scan = (True, s)"
  shows "cu_entries u = of_nat (length (sc_files s)) \<and>
    word_of_int (sc_total s) = cu_apparent u + word_of_int (live_tmp_bytes now walk)"
proof -
  obtain u0 where u0: "usage_walk dir walk (no_space_usage now) = Some u0"
      "cu_entries u = cu_entries u0" "cu_apparent u = cu_apparent u0"
    using assms(1) by (auto simp: scanCacheUsage_def split: option.splits)
  have "same_count 0 (no_space_usage now) empty_scan" by (simp add: same_count_def no_space_usage_def empty_scan_def)
  from walk_same_count [OF u0(1) assms(3,2) this] u0(2,3) show ?thesis by (simp add: same_count_def)
qed

section \<open>Examples\<close>

text \<open>One blob of a single byte in a block of 4096, and a live download.\<close>

definition ex_dwalk :: "dwalk list" where
  "ex_dwalk =
    [\<lparr>cw_path = ''/c'', cw_err = None, cw_dir = True, cw_size = 0, cw_mtime = 0, dw_blocks = Some 0\<rparr>,
     \<lparr>cw_path = ''/c/.tmp-1'', cw_err = None, cw_dir = False, cw_size = 9, cw_mtime = 10, dw_blocks = Some 8\<rparr>,
     \<lparr>cw_path = ''/c/'' @ replicate 64 (CHR ''a''), cw_err = None, cw_dir = False, cw_size = 1, cw_mtime = 5, dw_blocks = Some 8\<rparr>]"

definition ex_usage :: cacheUsage where
  "ex_usage = \<lparr>cu_timestamp = 10, cu_entries = 1, cu_bytes = 4096, cu_apparent = 1, cu_tmp = 4096,
     cu_fs_total = 4096000, cu_fs_free = 2048000\<rparr>"

lemma ex_measured: "scanCacheUsage 10 ''/c'' ex_dwalk (Some (4096, 1000, 500)) = Some ex_usage"
  by code_simp

lemma ex_paths: "walk_paths_ok ex_dwalk"
  by code_simp

lemma ex_scan: "fst (scan_walk (\<lambda>_. True) 10 ''/c'' (map cwalk.truncate ex_dwalk) empty_scan)"
  by code_simp

theorem usage_matches_eviction_witness:
  "cu_entries ex_usage = of_nat (length (sc_files (snd (scan_walk (\<lambda>_. True) 10 ''/c'' (map cwalk.truncate ex_dwalk) empty_scan)))) \<and>
   word_of_int (sc_total (snd (scan_walk (\<lambda>_. True) 10 ''/c'' (map cwalk.truncate ex_dwalk) empty_scan))) =
     cu_apparent ex_usage + word_of_int (live_tmp_bytes 10 ex_dwalk)"
  by (rule usage_matches_eviction [OF ex_measured ex_paths, where rm = "\<lambda>_. True"])
     (use ex_scan in \<open>simp add: prod_eq_iff\<close>)

text \<open>With a limit of 4000 bytes this cache is over its budget on the page and under it for the
  eviction pass, which removes nothing.\<close>

lemma allocated_over_limit:
  "cache_evictOnce (\<lambda>_. True) sort_key 10 ''/c'' 4000 (map cwalk.truncate ex_dwalk) = (True, []) \<and> 4000 < cu_bytes ex_usage"
proof -
  have "sc_total (snd (scan_walk (\<lambda>_. True) 10 ''/c'' (map cwalk.truncate ex_dwalk) empty_scan)) = 10 \<and>
    sc_log (snd (scan_walk (\<lambda>_. True) 10 ''/c'' (map cwalk.truncate ex_dwalk) empty_scan)) = []" by code_simp
  moreover obtain s where "scan_walk (\<lambda>_. True) 10 ''/c'' (map cwalk.truncate ex_dwalk) empty_scan = (True, s)"
    using ex_scan by (metis prod.collapse)
  ultimately show ?thesis by (simp add: cache_evictOnce_def ex_usage_def)
qed

end
