(* ===== verification/GhPoll.thy ===== *)
theory GhPoll
  imports GoLib
begin

text \<open>
  \<open>cmd/releases/gh_stats.go\<close>: one poll of GitHub's counters for the latest release. The exchange is
  an argument (the transport's error, or a status and what reading the body gives), and so is
  \<open>json.Unmarshal\<close>.
\<close>

record gitHubAsset =
  ga_name :: string
  ga_url :: string
  ga_downloads :: int
  ga_type :: string
  ga_size :: int
  ga_created :: string
  ga_updated :: string

record gitHubRelease =
  gr_tag :: string
  gr_name :: string
  gr_published :: string
  gr_assets :: "gitHubAsset list"

record downloadStats =
  ds_time :: time
  ds_tag :: string
  ds_asset :: string
  ds_count :: int

text \<open>\<open>resp = Inr (status, body)\<close>; the body is what was read before an error, and the error.\<close>

definition fetchGitHubRelease ::
    "(string \<Rightarrow> string + gitHubRelease) \<Rightarrow> (int \<Rightarrow> string) \<Rightarrow> string + int \<times> string \<times> string option \<Rightarrow> string + gitHubRelease" where
  "fetchGitHubRelease parse shown resp = (case resp of
     Inl e \<Rightarrow> Inl (''failed to fetch data: '' @ e)
   | Inr (code, body, fail) \<Rightarrow>
       if code \<noteq> 200 then Inl (''GitHub API returned status '' @ shown code @ '': '' @ body)
       else (case fail of
         Some e \<Rightarrow> Inl (''failed to read response: '' @ e)
       | None \<Rightarrow> (case parse body of Inl e \<Rightarrow> Inl (''failed to parse JSON: '' @ e) | Inr r \<Rightarrow> Inr r)))"

text \<open>The rows handed to the database, or the error the worker logs.\<close>

definition collectAndStore :: "time \<Rightarrow> string + gitHubRelease \<Rightarrow> string + downloadStats list" where
  "collectAndStore now fetched = (case fetched of
     Inl e \<Rightarrow> Inl (''failed to fetch release: '' @ e)
   | Inr r \<Rightarrow>
       if gr_assets r = [] then Inl ''no assets found in this release''
       else Inr (map (\<lambda>a. \<lparr>ds_time = now, ds_tag = gr_tag r, ds_asset = ga_name a, ds_count = ga_downloads a\<rparr>) (gr_assets r)))"

text \<open>A poll stores one row per asset of one release, all of one instant, and on any failure nothing.\<close>

lemma collectAndStore_rows:
  "collectAndStore now (fetchGitHubRelease parse shown resp) = Inr rows \<longleftrightarrow>
    (\<exists>body r. resp = Inr (200, body, None) \<and> parse body = Inr r \<and> gr_assets r \<noteq> [] \<and>
      rows = map (\<lambda>a. \<lparr>ds_time = now, ds_tag = gr_tag r, ds_asset = ga_name a, ds_count = ga_downloads a\<rparr>) (gr_assets r))"
  by (auto simp: collectAndStore_def fetchGitHubRelease_def split: sum.splits if_splits option.splits)

end
