(* ===== verification/Schema.thy ===== *)
theory Schema
  imports RespWriter Stats GhPoll
begin

text \<open>
  The tables of the three services: what each \<open>Init\<close> in \<open>cmd/*/db.go\<close> executes, and the rows its
  inserts send. ClickHouse is not part of the repository: executing a statement is an argument, and
  what its documentation says of \<open>CREATE TABLE IF NOT EXISTS\<close> and \<open>ADD COLUMN IF NOT EXISTS\<close> is the
  hypothesis \<open>ddl_contract\<close>.
\<close>

section \<open>Statements\<close>

type_synonym db_column = "string \<times> string"
type_synonym tables = "string \<rightharpoonup> db_column list"

datatype ddl = CreateTable string "db_column list" | AddColumn string db_column string

text \<open>\<open>ADD COLUMN IF NOT EXISTS c AFTER a\<close>.\<close>

fun insert_after :: "string \<Rightarrow> db_column \<Rightarrow> db_column list \<Rightarrow> db_column list" where
  "insert_after a c [] = []"
| "insert_after a c (x # xs) = (if fst x = a then x # c # xs else x # insert_after a c xs)"

fun ddl_effect :: "ddl \<Rightarrow> tables \<Rightarrow> tables option" where
  "ddl_effect (CreateTable t cs) T = Some (if T t = None then T(t \<mapsto> cs) else T)"
| "ddl_effect (AddColumn t c a) T = (case T t of
     None \<Rightarrow> None
   | Some cs \<Rightarrow>
       if map_of cs (fst c) \<noteq> None then Some T
       else if map_of cs a = None then None
       else Some (T(t \<mapsto> insert_after a c cs)))"

text \<open>A statement that succeeded has had its documented effect; one that failed has had it or none.\<close>

definition ddl_contract :: "(ddl \<Rightarrow> 'd \<Rightarrow> string option \<times> 'd) \<Rightarrow> ('d \<Rightarrow> tables) \<Rightarrow> bool" where
  "ddl_contract exec tabs \<longleftrightarrow> (\<forall>s d. ddl_effect s (tabs d) = Some (tabs (snd (exec s d))) \<or>
     fst (exec s d) \<noteq> None \<and> tabs (snd (exec s d)) = tabs d)"

text \<open>A server that answers every statement it can execute.\<close>

definition ddl_answers :: "(ddl \<Rightarrow> 'd \<Rightarrow> string option \<times> 'd) \<Rightarrow> ('d \<Rightarrow> tables) \<Rightarrow> bool" where
  "ddl_answers exec tabs \<longleftrightarrow> (\<forall>s d. ddl_effect s (tabs d) \<noteq> None \<longrightarrow> fst (exec s d) = None)"

text \<open>\<open>Init\<close> executes its statements in order and returns the first error.\<close>

fun exec_all :: "(ddl \<Rightarrow> 'd \<Rightarrow> string option \<times> 'd) \<Rightarrow> ddl list \<Rightarrow> 'd \<Rightarrow> string option \<times> 'd" where
  "exec_all exec [] d = (None, d)"
| "exec_all exec (s # ss) d = (case exec s d of
     (Some e, d') \<Rightarrow> (Some e, d')
   | (None, d') \<Rightarrow> exec_all exec ss d')"

section \<open>The three schemas\<close>

abbreviation (input) lc_string :: string where "lc_string \<equiv> ''LowCardinality(String)''"

definition headers_type :: string where
  "headers_type = ''Tuple(size UInt64, file String, archive String, imasignature String)''"

definition tags_type :: string where
  "tags_type = ''Array(LowCardinality(String))''"

definition buildid_state_columns :: "db_column list" where
  "buildid_state_columns =
    [(''buildid'', ''String''), (''last_host'', lc_string), (''last_error'', ''String''), (''counter'', ''UInt32''),
     (''last_success'', ''Bool''), (''updated_at'', ''DateTime''), (''response_headers'', headers_type)]"

definition resolve_logs_columns :: "db_column list" where
  "resolve_logs_columns =
    [(''timestamp'', ''DateTime''), (''buildid'', ''String''), (''resolved_host'', lc_string), (''success'', ''Bool''),
     (''duration_ms'', ''UInt32''), (''error_msg'', ''String'')]"

definition access_log_columns :: "db_column list" where
  "access_log_columns =
    [(''timestamp'', ''DateTime''), (''remote_ip'', ''IPv6''), (''country'', lc_string), (''tags'', tags_type),
     (''method'', lc_string), (''endpoint_name'', lc_string), (''request_uri'', ''String''), (''status'', ''UInt16''),
     (''user_agent'', ''String''), (''duration_ms'', ''UInt32''), (''duration_100kb_ms'', ''UInt32''),
     (''bytes_sent'', ''UInt64''), (''buildid'', ''String''), (''resolved_host'', lc_string),
     (''cache_status'', lc_string), (''error_msg'', ''String''), (''response_headers'', headers_type)]"

definition cache_stats_columns :: "db_column list" where
  "cache_stats_columns =
    [(''timestamp'', ''DateTime''), (''entries'', ''UInt64''), (''bytes'', ''UInt64''), (''apparent_bytes'', ''UInt64''),
     (''tmp_bytes'', ''UInt64''), (''fs_total'', ''UInt64''), (''fs_free'', ''UInt64'')]"

definition proxy_stmts :: "ddl list" where
  "proxy_stmts =
    [CreateTable ''buildid_state'' buildid_state_columns,
     AddColumn ''buildid_state'' (''response_headers'', headers_type) ''updated_at'',
     CreateTable ''resolve_logs'' resolve_logs_columns,
     CreateTable ''access_log'' access_log_columns,
     AddColumn ''access_log'' (''duration_100kb_ms'', ''UInt32'') ''duration_ms'',
     AddColumn ''access_log'' (''cache_status'', lc_string) ''resolved_host'',
     CreateTable ''cache_stats'' cache_stats_columns,
     AddColumn ''cache_stats'' (''apparent_bytes'', ''UInt64'') ''bytes'',
     AddColumn ''access_log'' (''country'', lc_string) ''remote_ip'',
     AddColumn ''access_log'' (''tags'', tags_type) ''country'']"

definition proxy_Init :: "(ddl \<Rightarrow> 'd \<Rightarrow> string option \<times> 'd) \<Rightarrow> 'd \<Rightarrow> string option \<times> 'd" where
  "proxy_Init exec d = exec_all exec proxy_stmts d"

definition nix_access_log_columns :: "db_column list" where
  "nix_access_log_columns =
    [(''timestamp'', ''DateTime''), (''remote_ip'', ''IPv6''), (''method'', lc_string), (''endpoint_name'', lc_string),
     (''request_uri'', ''String''), (''status'', ''UInt16''), (''user_agent'', ''String''), (''duration_ms'', ''UInt32''),
     (''duration_100kb_ms'', ''UInt32''), (''bytes_sent'', ''UInt64''), (''buildid'', ''String''),
     (''error_msg'', ''String''), (''response_headers'', headers_type)]"

definition nix_stmts :: "ddl list" where
  "nix_stmts = [CreateTable ''nix_access_log'' nix_access_log_columns]"

definition nix_Init :: "(ddl \<Rightarrow> 'd \<Rightarrow> string option \<times> 'd) \<Rightarrow> 'd \<Rightarrow> string option \<times> 'd" where
  "nix_Init exec d = exec_all exec nix_stmts d"

definition github_download_stats_columns :: "db_column list" where
  "github_download_stats_columns =
    [(''timestamp'', ''DateTime''), (''release_tag'', ''String''), (''asset_name'', ''String''), (''download_count'', ''UInt32'')]"

definition createAccessLog :: ddl where
  "createAccessLog = CreateTable ''releases_access_log''
    [(''timestamp'', ''DateTime''), (''remote_ip'', ''IPv6''), (''country'', lc_string), (''version'', ''String''),
     (''file'', ''String''), (''request_uri'', ''String''), (''status'', ''UInt16''), (''user_agent'', ''String'')]"

definition releases_stmts :: "ddl list" where
  "releases_stmts = [CreateTable ''github_download_stats'' github_download_stats_columns, createAccessLog]"

definition releases_Init :: "(ddl \<Rightarrow> 'd \<Rightarrow> string option \<times> 'd) \<Rightarrow> 'd \<Rightarrow> string option \<times> 'd" where
  "releases_Init exec d = exec_all exec releases_stmts d"

section \<open>The inserts\<close>

datatype db_value = VTime time | VAddr addr | VStr string | VStrs "string list" | VU16 "16 word" | VU32 u32 | VU64 u64
  | VBool bool | VInt int | VHeaders stateHeaders

text \<open>A batch: its table, the columns it names, its rows in the order of \<open>Append\<close>'s arguments.\<close>

type_synonym batch = "string \<times> string list \<times> db_value list list"

definition state_batch :: "buildIDState \<Rightarrow> batch" where
  "state_batch s =
    (''buildid_state'',
     [''buildid'', ''last_host'', ''last_error'', ''counter'', ''last_success'', ''updated_at'', ''response_headers''],
     [[VStr (bs_build s), VStr (bs_host s), VStr (bs_error s), VU32 (bs_counter s), VBool (bs_success s),
       VTime (bs_updated s), VHeaders (bs_headers s)]])"

definition resolve_row :: "resolveLogEntry \<Rightarrow> db_value list" where
  "resolve_row e = [VTime (rl_time e), VStr (rl_build e), VStr (rl_host e), VBool (rl_success e),
     VU32 (row_ms (rl_duration e)), VStr (rl_msg e)]"

definition ResolveLog :: "resolveLogEntry list \<Rightarrow> batch option" where
  "ResolveLog entries =
    (if entries = [] then None
     else Some (''resolve_logs'',
       [''timestamp'', ''buildid'', ''resolved_host'', ''success'', ''duration_ms'', ''error_msg''], map resolve_row entries))"

definition AccessLog :: "accessLogEntry \<Rightarrow> batch" where
  "AccessLog e =
    (''access_log'',
     [''timestamp'', ''remote_ip'', ''country'', ''tags'', ''method'', ''endpoint_name'', ''request_uri'', ''status'',
      ''user_agent'', ''duration_ms'', ''duration_100kb_ms'', ''bytes_sent'', ''buildid'', ''resolved_host'',
      ''cache_status'', ''error_msg'', ''response_headers''],
     [[VTime (al_time e), VAddr (al_ip e), VStr (al_country e), VStrs (al_tags e), VStr (al_method e),
       VStr (al_endpoint e), VStr (al_uri e), VU16 (al_status e), VStr (al_agent e), VU32 (row_ms (al_duration e)),
       VU32 (row_ms (al_duration100 e)), VU64 (al_bytes e), VStr (al_build e), VStr (al_host e), VStr (al_cache e),
       VStr (al_error e), VHeaders (al_headers e)]])"

definition InsertCacheUsage :: "cacheUsage \<Rightarrow> batch" where
  "InsertCacheUsage u =
    (''cache_stats'',
     [''timestamp'', ''entries'', ''bytes'', ''apparent_bytes'', ''tmp_bytes'', ''fs_total'', ''fs_free''],
     [[VTime (cu_timestamp u), VU64 (cu_entries u), VU64 (cu_bytes u), VU64 (cu_apparent u), VU64 (cu_tmp u),
       VU64 (cu_fs_total u), VU64 (cu_fs_free u)]])"

definition nix_AccessLog :: "accessLogEntry \<Rightarrow> batch" where
  "nix_AccessLog e =
    (''nix_access_log'',
     [''timestamp'', ''remote_ip'', ''method'', ''endpoint_name'', ''request_uri'', ''status'', ''user_agent'',
      ''duration_ms'', ''duration_100kb_ms'', ''bytes_sent'', ''buildid'', ''error_msg'', ''response_headers''],
     [[VTime (al_time e), VAddr (al_ip e), VStr (al_method e), VStr (al_endpoint e), VStr (al_uri e), VU16 (al_status e),
       VStr (al_agent e), VU32 (row_ms (al_duration e)), VU32 (row_ms (al_duration100 e)), VU64 (al_bytes e),
       VStr (al_build e), VStr (al_error e), VHeaders (al_headers e)]])"

definition releases_AccessLog :: "releasesEntry \<Rightarrow> batch" where
  "releases_AccessLog e =
    (''releases_access_log'',
     [''timestamp'', ''remote_ip'', ''country'', ''version'', ''file'', ''request_uri'', ''status'', ''user_agent''],
     [[VTime (re_time e), VAddr (re_ip e), VStr (re_country e), VStr (re_version e), VStr (re_file e), VStr (re_uri e),
       VU16 (re_status e), VStr (re_agent e)]])"

definition GhDownloadStats :: "downloadStats list \<Rightarrow> batch option" where
  "GhDownloadStats entries =
    (if entries = [] then None
     else Some (''github_download_stats'', [''timestamp'', ''release_tag'', ''asset_name'', ''download_count''],
       map (\<lambda>e. [VTime (ds_time e), VStr (ds_tag e), VStr (ds_asset e), VInt (ds_count e)]) entries))"

text \<open>Which values the driver takes for a column's type.\<close>

fun fits :: "db_value \<Rightarrow> string \<Rightarrow> bool" where
  "fits (VTime x) ty = (ty = ''DateTime'')"
| "fits (VAddr x) ty = (ty = ''IPv6'')"
| "fits (VStr x) ty = (ty = ''String'' \<or> ty = lc_string)"
| "fits (VStrs x) ty = (ty = tags_type)"
| "fits (VU16 x) ty = (ty = ''UInt16'')"
| "fits (VU32 x) ty = (ty = ''UInt32'')"
| "fits (VU64 x) ty = (ty = ''UInt64'')"
| "fits (VBool x) ty = (ty = ''Bool'')"
| "fits (VInt x) ty = (ty = ''UInt32'')"
| "fits (VHeaders x) ty = (ty = headers_type)"

definition row_fits :: "db_column list \<Rightarrow> string list \<Rightarrow> db_value list \<Rightarrow> bool" where
  "row_fits cs names row \<longleftrightarrow>
     list_all2 (\<lambda>c v. case map_of cs c of None \<Rightarrow> False | Some ty \<Rightarrow> fits v ty) names row"

definition accepts :: "tables \<Rightarrow> batch \<Rightarrow> bool" where
  "accepts T b = (case b of (t, names, rows) \<Rightarrow>
     (case T t of None \<Rightarrow> False | Some cs \<Rightarrow> list_all (row_fits cs names) rows))"

section \<open>Migrations\<close>

text \<open>What a list of statements creates and adds, and a check of it that evaluates: every column added
  later is one of its table's \<open>CREATE\<close>, with the same type, and the column it is placed after is not
  itself still to be added.\<close>

fun creates :: "ddl list \<Rightarrow> (string \<times> db_column list) list" where
  "creates [] = []"
| "creates (CreateTable t cs # ss) = (t, cs) # creates ss"
| "creates (AddColumn t c a # ss) = creates ss"

fun adds :: "ddl list \<Rightarrow> (string \<times> string) list" where
  "adds [] = []"
| "adds (CreateTable t cs # ss) = adds ss"
| "adds (AddColumn t c a # ss) = (t, fst c) # adds ss"

fun migrates :: "(string \<times> db_column list) list \<Rightarrow> ddl list \<Rightarrow> bool" where
  "migrates seen [] = True"
| "migrates seen (CreateTable t cs # ss) = (map_of seen t = None \<and> migrates ((t, cs) # seen) ss)"
| "migrates seen (AddColumn t c a # ss) = ((case map_of seen t of
     None \<Rightarrow> False
   | Some cs \<Rightarrow> map_of cs (fst c) = Some (snd c) \<and> map_of cs a \<noteq> None \<and> (t, a) \<notin> set (adds (AddColumn t c a # ss)))
   \<and> migrates seen ss)"

text \<open>A table of an earlier deployment: each column has its present type, or is missing and added later.\<close>

definition earlier :: "(string \<times> string) list \<Rightarrow> string \<Rightarrow> db_column list \<Rightarrow> db_column list \<Rightarrow> bool" where
  "earlier later t old cs \<longleftrightarrow>
     list_all (\<lambda>(c, ty). map_of cs c = Some ty \<longrightarrow> map_of old c = Some ty \<or> map_of old c = None \<and> (t, c) \<in> set later) cs"

definition upgradable :: "ddl list \<Rightarrow> tables \<Rightarrow> bool" where
  "upgradable stmts T \<longleftrightarrow>
     list_all (\<lambda>(t, cs). case T t of None \<Rightarrow> True | Some old \<Rightarrow> earlier (adds stmts) t old cs) (creates stmts)"

lemma earlier_iff:
  "earlier later t old cs \<longleftrightarrow>
    (\<forall>c ty. map_of cs c = Some ty \<longrightarrow> map_of old c = Some ty \<or> map_of old c = None \<and> (t, c) \<in> set later)"
  unfolding earlier_def list_all_iff using map_of_SomeD by fastforce

lemma upgradable_iff:
  "upgradable stmts T \<longleftrightarrow> (\<forall>t cs old. (t, cs) \<in> set (creates stmts) \<longrightarrow> T t = Some old \<longrightarrow> earlier (adds stmts) t old cs)"
  by (fastforce simp: upgradable_def list_all_iff split: option.splits)

lemma map_of_insert_after:
  assumes "map_of cs (fst c) = None" "map_of cs a \<noteq> None"
  shows "map_of (insert_after a c cs) x = (if x = fst c then Some (snd c) else map_of cs x)"
  using assms by (induction cs) (auto split: if_splits)

text \<open>Between two statements: the tables created so far are there, and lack only what is still to come.\<close>

definition midway :: "(string \<times> db_column list) list \<Rightarrow> ddl list \<Rightarrow> tables \<Rightarrow> bool" where
  "midway seen rest T \<longleftrightarrow>
     (\<forall>t cs. map_of seen t = Some cs \<longrightarrow> (\<exists>old. T t = Some old \<and> earlier (adds rest) t old cs)) \<and> upgradable rest T"

lemma midwayI:
  assumes "\<And>t cs. map_of seen t = Some cs \<Longrightarrow> \<exists>old. T t = Some old \<and> earlier (adds rest) t old cs" "upgradable rest T"
  shows "midway seen rest T"
  using assms by (simp add: midway_def)

lemma created_later:
  "migrates seen ss \<Longrightarrow> (t, cs) \<in> set (creates ss) \<Longrightarrow> map_of seen t = None"
  by (induction seen ss rule: migrates.induct) (auto split: if_splits option.splits)

lemma midway_create:
  assumes "midway seen (CreateTable t cs # ss) T" "migrates seen (CreateTable t cs # ss)"
    "ddl_effect (CreateTable t cs) T = Some T'"
  shows "midway ((t, cs) # seen) ss T'"
proof (rule midwayI)
  have up: "upgradable (CreateTable t cs # ss) T" using assms(1) by (simp add: midway_def)
  have T': "T' = (if T t = None then T(t \<mapsto> cs) else T)" using assms(3) by simp
  fix u us
  assume u: "map_of ((t, cs) # seen) u = Some us"
  show "\<exists>old. T' u = Some old \<and> earlier (adds ss) u old us"
  proof (cases "u = t")
    case True
    then show ?thesis using u up by (cases "T t") (simp_all add: T' earlier_iff upgradable_iff)
  next
    case False
    then show ?thesis using u assms(1) by (auto simp: T' midway_def)
  qed
next
  have fresh: "v \<noteq> t" if "(v, vs) \<in> set (creates ss)" for v vs
    using created_later [OF _ that, of "(t, cs) # seen"] assms(2) by auto
  then show "upgradable ss T'"
    using assms(1,3) by (auto simp: midway_def upgradable_iff split: if_splits)
qed

lemma midway_add:
  assumes "midway seen (AddColumn t c a # ss) T" "migrates seen (AddColumn t c a # ss)"
  obtains T' where "ddl_effect (AddColumn t c a) T = Some T'" "midway seen ss T'"
proof -
  obtain cs where cs: "map_of seen t = Some cs" "map_of cs (fst c) = Some (snd c)" "map_of cs a \<noteq> None"
      "(t, a) \<notin> set (adds (AddColumn t c a # ss))" and ss: "migrates seen ss"
    using assms(2) by (auto split: option.splits)
  obtain old where old: "T t = Some old" "earlier (adds (AddColumn t c a # ss)) t old cs"
    using assms(1) cs(1) by (auto simp: midway_def)
  have at_a: "map_of old a \<noteq> None" using old(2) cs(3,4) unfolding earlier_iff by (metis not_None_eq)
  let ?new = "if map_of old (fst c) \<noteq> None then old else insert_after a c old"
  have eff: "ddl_effect (AddColumn t c a) T = Some (T(t \<mapsto> ?new))"
    using old(1) at_a by (auto simp: fun_upd_idem)
  have new: "map_of ?new x = (if x = fst c \<and> map_of old x = None then Some (snd c) else map_of old x)" for x
    using at_a by (auto simp: map_of_insert_after)
  have "midway seen ss (T(t \<mapsto> ?new))"
  proof (rule midwayI)
    fix u us
    assume u: "map_of seen u = Some us"
    show "\<exists>o'. (T(t \<mapsto> ?new)) u = Some o' \<and> earlier (adds ss) u o' us"
    proof (cases "u = t")
      case True
      with u cs(1) have us: "us = cs" by simp
      have "earlier (adds ss) t ?new us"
        unfolding earlier_iff us new
      proof (intro allI impI)
        fix x ty
        assume x: "map_of cs x = Some ty"
        with old(2) have "map_of old x = Some ty \<or> map_of old x = None \<and> (x = fst c \<or> (t, x) \<in> set (adds ss))"
          by (auto simp: earlier_iff)
        with x cs(2) show "(if x = fst c \<and> map_of old x = None then Some (snd c) else map_of old x) = Some ty \<or>
            (if x = fst c \<and> map_of old x = None then Some (snd c) else map_of old x) = None \<and> (t, x) \<in> set (adds ss)"
          by auto
      qed
      with True show ?thesis by simp
    next
      case False
      then show ?thesis using u assms(1) by (fastforce simp: midway_def earlier_iff)
    qed
  next
    show "upgradable ss (T(t \<mapsto> ?new))"
      using assms(1) created_later [OF ss] cs(1) by (fastforce simp: midway_def upgradable_iff earlier_iff)
  qed
  with eff show ?thesis by (rule that)
qed

text \<open>Each statement can be executed where \<open>Init\<close> stands, and leads to where the next one stands.\<close>

lemma midway_step:
  assumes "midway seen (s # ss) T" "migrates seen (s # ss)"
  obtains T' seen' where "ddl_effect s T = Some T'" "midway seen' ss T'" "migrates seen' ss"
    "\<And>t cs. map_of seen t = Some cs \<Longrightarrow> map_of seen' t = Some cs"
    "\<And>t cs. (t, cs) \<in> set (creates [s]) \<Longrightarrow> map_of seen' t = Some cs"
proof (cases s)
  case (CreateTable t cs)
  obtain T' where "ddl_effect (CreateTable t cs) T = Some T'" by simp
  with assms CreateTable show ?thesis by (intro that [of T' "(t, cs) # seen"] midway_create) auto
next
  case (AddColumn t c a)
  with assms(1,2) obtain T' where "ddl_effect s T = Some T'" "midway seen ss T'"
    by (metis midway_add)
  with assms(2) AddColumn show ?thesis by (intro that [of T' seen]) auto
qed

lemma exec_all_run:
  assumes "ddl_contract exec tabs" "midway seen ss (tabs d)" "migrates seen ss" "exec_all exec ss d = (e, d')"
  obtains seen' rest where "midway seen' rest (tabs d')" "set (adds rest) \<subseteq> set (adds ss)" "e = None \<Longrightarrow> rest = []"
    "\<And>t cs. map_of seen t = Some cs \<Longrightarrow> map_of seen' t = Some cs"
    "\<And>t cs. (t, cs) \<in> set (creates ss) \<Longrightarrow> map_of seen' t = Some cs \<or> (t, cs) \<in> set (creates rest)"
  using assms(2-4)
proof (induction ss arbitrary: seen d thesis)
  case Nil
  then show ?case by (intro Nil.prems(1) [of seen "[]"]) auto
next
  case (Cons s ss)
  have parts: "set (adds ss) \<subseteq> set (adds (s # ss))" "set (creates (s # ss)) = set (creates [s]) \<union> set (creates ss)"
    by (cases s; auto)+
  obtain T' seen1 where eff: "ddl_effect s (tabs d) = Some T'" "midway seen1 ss T'" "migrates seen1 ss"
      and seen1: "\<And>t cs. map_of seen t = Some cs \<Longrightarrow> map_of seen1 t = Some cs"
        "\<And>t cs. (t, cs) \<in> set (creates [s]) \<Longrightarrow> map_of seen1 t = Some cs"
    using midway_step [OF Cons.prems(2,3)] by metis
  obtain e1 d1 where one: "exec s d = (e1, d1)" by fastforce
  consider "e1 \<noteq> None" "tabs d1 = tabs d" | "tabs d1 = T'"
    using assms(1) eff(1) one by (auto simp: ddl_contract_def) (metis fst_conv snd_conv option.inject)
  then show ?case
  proof cases
    case 1
    with Cons.prems(4) one have "e = e1" "d' = d1" by auto
    with 1 show ?thesis using Cons.prems(2) by (intro Cons.prems(1) [of seen "s # ss"]) auto
  next
    case 2
    show ?thesis
    proof (cases e1)
      case None
      with Cons.prems(4) one have "exec_all exec ss d1 = (e, d')" by simp
      from Cons.IH [OF _ _ eff(3) this] eff(2) 2 obtain seen' rest where
        "midway seen' rest (tabs d')" "set (adds rest) \<subseteq> set (adds ss)" "e = None \<Longrightarrow> rest = []"
        "\<And>t cs. map_of seen1 t = Some cs \<Longrightarrow> map_of seen' t = Some cs"
        "\<And>t cs. (t, cs) \<in> set (creates ss) \<Longrightarrow> map_of seen' t = Some cs \<or> (t, cs) \<in> set (creates rest)"
        by metis
      with parts seen1 show ?thesis by (intro Cons.prems(1) [of seen' rest]) (blast | simp)+
    next
      case (Some m)
      with Cons.prems(4) one have "e = Some m" "d' = d1" by auto
      with 2 eff(2) parts seen1 show ?thesis by (intro Cons.prems(1) [of seen1 ss]) (blast | simp)+
    qed
  qed
qed

lemma exec_all_answers:
  assumes "ddl_contract exec tabs" "ddl_answers exec tabs" "midway seen ss (tabs d)" "migrates seen ss"
  shows "fst (exec_all exec ss d) = None"
  using assms(3,4)
proof (induction ss arbitrary: seen d)
  case (Cons s ss)
  obtain T' seen1 where eff: "ddl_effect s (tabs d) = Some T'" "midway seen1 ss T'" "migrates seen1 ss"
    using midway_step [OF Cons.prems] by metis
  obtain e1 d1 where one: "exec s d = (e1, d1)" by fastforce
  with assms(2) eff(1) have "e1 = None" unfolding ddl_answers_def by (metis fst_conv option.distinct(1))
  moreover from this assms(1) one eff(1) have "tabs d1 = T'"
    unfolding ddl_contract_def by (metis fst_conv snd_conv option.inject)
  ultimately show ?case using Cons.IH [of seen1 d1] eff(2,3) one by simp
qed simp

lemma start_midway: "upgradable ss T \<Longrightarrow> midway [] ss T"
  by (simp add: midway_def)

lemma Init_keeps:
  assumes "ddl_contract exec tabs" "migrates [] ss" "upgradable ss (tabs d)"
  shows "upgradable ss (tabs (snd (exec_all exec ss d)))"
proof -
  obtain e d' where run: "exec_all exec ss d = (e, d')" by fastforce
  obtain seen' rest where r: "midway seen' rest (tabs d')" "set (adds rest) \<subseteq> set (adds ss)"
      "\<And>t cs. (t, cs) \<in> set (creates ss) \<Longrightarrow> map_of seen' t = Some cs \<or> (t, cs) \<in> set (creates rest)"
    by (rule exec_all_run [OF assms(1) start_midway [OF assms(3)] assms(2) run]) metis
  have "upgradable ss (tabs d')"
    unfolding upgradable_iff
  proof (intro allI impI)
    fix t cs old
    assume t: "(t, cs) \<in> set (creates ss)" "tabs d' t = Some old"
    with r(1,3) have "earlier (adds rest) t old cs" by (fastforce simp: midway_def upgradable_iff)
    with r(2) show "earlier (adds ss) t old cs" unfolding earlier_iff by blast
  qed
  with run show ?thesis by simp
qed

lemma attempts_keep:
  assumes "ddl_contract exec tabs" "migrates [] ss" "upgradable ss (tabs d)"
  shows "upgradable ss (tabs (((\<lambda>x. snd (exec_all exec ss x)) ^^ k) d))"
  by (induction k) (simp_all add: assms Init_keeps)

lemma Init_accepts:
  assumes "ddl_contract exec tabs" "migrates [] ss" "upgradable ss (tabs d)" "exec_all exec ss d = (None, d')"
    "accepts (map_of (creates ss)) b"
  shows "accepts (tabs d') b"
proof -
  obtain seen' rest where r: "midway seen' rest (tabs d')" "rest = []"
      "\<And>t cs. (t, cs) \<in> set (creates ss) \<Longrightarrow> map_of seen' t = Some cs \<or> (t, cs) \<in> set (creates rest)"
    by (rule exec_all_run [OF assms(1) start_midway [OF assms(3)] assms(2,4)]) metis
  obtain t names rows where b: "b = (t, names, rows)" by (metis prod_cases3)
  then obtain cs where cs: "map_of (creates ss) t = Some cs" "list_all (row_fits cs names) rows"
    using assms(5) by (auto simp: accepts_def split: option.splits)
  then have "map_of seen' t = Some cs" using r(2,3) map_of_SomeD [OF cs(1)] by fastforce
  with r(1,2) obtain old where old: "tabs d' t = Some old" "earlier [] t old cs" by (auto simp: midway_def)
  then have same: "map_of cs c = Some ty \<Longrightarrow> map_of old c = Some ty" for c ty by (auto simp: earlier_iff)
  have "row_fits old names row" if "row_fits cs names row" for row
    using that unfolding row_fits_def by (rule list_all2_mono) (auto simp: same split: option.splits)
  with cs(2) old(1) show ?thesis by (auto simp: b accepts_def list_all_iff)
qed

section \<open>The services\<close>

lemma proxy_migrates: "migrates [] proxy_stmts"
  by code_simp

lemma other_migrates: "migrates [] nix_stmts" "migrates [] releases_stmts"
  by code_simp+

lemmas column_defs = buildid_state_columns_def resolve_logs_columns_def access_log_columns_def cache_stats_columns_def
  nix_access_log_columns_def github_download_stats_columns_def

lemma proxy_batches:
  "accepts (map_of (creates proxy_stmts)) (state_batch s)"
  "accepts (map_of (creates proxy_stmts)) (AccessLog a)"
  "accepts (map_of (creates proxy_stmts)) (InsertCacheUsage u)"
  "ResolveLog es = Some b \<Longrightarrow> accepts (map_of (creates proxy_stmts)) b"
  by (auto simp: accepts_def proxy_stmts_def column_defs state_batch_def AccessLog_def InsertCacheUsage_def
    ResolveLog_def resolve_row_def row_fits_def list_all_iff split: if_splits)

lemma other_batches:
  "accepts (map_of (creates nix_stmts)) (nix_AccessLog a)"
  "accepts (map_of (creates releases_stmts)) (releases_AccessLog r)"
  "GhDownloadStats ds = Some b \<Longrightarrow> accepts (map_of (creates releases_stmts)) b"
  by (auto simp: accepts_def nix_stmts_def releases_stmts_def createAccessLog_def column_defs nix_AccessLog_def
    releases_AccessLog_def GhDownloadStats_def row_fits_def list_all_iff split: if_splits)


text \<open>The other two services create their tables and migrate nothing.\<close>

theorem other_inserts_find_columns:
  assumes "ddl_contract exec tabs"
  shows "upgradable nix_stmts (tabs d) \<Longrightarrow> nix_Init exec d = (None, d') \<Longrightarrow> accepts (tabs d') (nix_AccessLog a)"
    "upgradable releases_stmts (tabs d) \<Longrightarrow> releases_Init exec d = (None, d') \<Longrightarrow> accepts (tabs d') (releases_AccessLog r)"
    "upgradable releases_stmts (tabs d) \<Longrightarrow> releases_Init exec d = (None, d') \<Longrightarrow> GhDownloadStats ds = Some b \<Longrightarrow> accepts (tabs d') b"
  using Init_accepts [OF assms other_migrates(1) _ _ other_batches(1)] Init_accepts [OF assms other_migrates(2) _ _ other_batches(2)]
    Init_accepts [OF assms other_migrates(2) _ _ other_batches(3)]
  by (auto simp: nix_Init_def releases_Init_def)

section \<open>An example\<close>

text \<open>A server that does what the documentation says, and a deployment from before allocated and apparent
  sizes were told apart and before requests were classified.\<close>

definition ex_exec :: "ddl \<Rightarrow> tables \<Rightarrow> string option \<times> tables" where
  "ex_exec s T = (case ddl_effect s T of None \<Rightarrow> (Some ''DB::Exception'', T) | Some T' \<Rightarrow> (None, T'))"

definition ex_tables :: tables where
  "ex_tables = [''access_log'' \<mapsto> filter (\<lambda>c. fst c \<noteq> ''country'' \<and> fst c \<noteq> ''tags'') access_log_columns,
     ''cache_stats'' \<mapsto> filter (\<lambda>c. fst c \<noteq> ''apparent_bytes'') cache_stats_columns]"

lemma ex_server: "ddl_contract ex_exec (\<lambda>T. T)" "ddl_answers ex_exec (\<lambda>T. T)"
  by (auto simp: ddl_contract_def ddl_answers_def ex_exec_def split: option.splits)

lemma ex_upgradable: "upgradable proxy_stmts ex_tables"
  by code_simp


text \<open>Without the migration of \<open>cache_stats\<close> its insert names a column the table does not have.\<close>

lemma missing_migration:
  "\<not> accepts ex_tables (InsertCacheUsage u)"
  by (simp add: accepts_def ex_tables_def cache_stats_columns_def InsertCacheUsage_def row_fits_def)

end
