(* ===== verification/Transport.thy ===== *)
theory Transport
  imports Finder IPRanges
begin

text \<open>
  Requests that leave the services: the two transports of \<open>finder.go\<close> with their TLS and deadline
  decisions, the requests they carry, and \<open>useragent\<close>, the round tripper of the other services.
  Parsing of URLs and addresses is the library's and an argument; \<open>net.SplitHostPort\<close> and
  \<open>net.JoinHostPort\<close> are written out.
\<close>

section \<open>Addresses\<close>

abbreviation (input) colon :: char where "colon \<equiv> CHR '':''"
abbreviation (input) lbrack :: char where "lbrack \<equiv> CHR ''[''"
abbreviation (input) rbrack :: char where "rbrack \<equiv> CHR '']''"

text \<open>The host and where the library goes on looking for brackets, or \<open>None\<close> on an error.\<close>

definition split_host :: "string \<Rightarrow> nat \<Rightarrow> (string \<times> nat \<times> nat) option" where
  "split_host s i =
    (if hd s = lbrack then
       (let e = str_index s rbrack in
        if e < 0 \<or> nat e + 1 \<noteq> i then None else Some (drop 1 (take (nat e) s), 1, nat e + 1))
     else if colon \<in> set (take i s) then None
     else Some (take i s, 0, 0))"

definition SplitHostPort :: "string \<Rightarrow> (string \<times> string) option" where
  "SplitHostPort s =
    (if str_last_index s colon < 0 then None
     else (let i = nat (str_last_index s colon) in case split_host s i of
         None \<Rightarrow> None
       | Some (host, j, k) \<Rightarrow>
           if lbrack \<in> set (drop j s) \<or> rbrack \<in> set (drop k s) then None else Some (host, drop (i + 1) s)))"

definition JoinHostPort :: "string \<Rightarrow> string \<Rightarrow> string" where
  "JoinHostPort host port =
    (if colon \<in> set host then [lbrack] @ host @ [rbrack, colon] @ port else host @ [colon] @ port)"

section \<open>The two transports\<close>

definition loopback_host :: "(string \<Rightarrow> addr option) \<Rightarrow> string \<Rightarrow> bool" where
  "loopback_host parseIP host \<longleftrightarrow> host = ''localhost'' \<or> (case parseIP host of None \<Rightarrow> False | Some ip \<Rightarrow> IsLoopback ip)"

definition isLoopbackAddr :: "(string \<Rightarrow> addr option) \<Rightarrow> string \<Rightarrow> bool" where
  "isLoopbackAddr parseIP a = (case SplitHostPort a of None \<Rightarrow> False | Some (host, port) \<Rightarrow> loopback_host parseIP host)"

record tlsConfig =
  tls_insecure :: bool
  tls_server :: string

text \<open>The configuration of one TLS connection. With no server name the dialer fills in the host it dials.\<close>

definition dialTLS_config :: "(string \<Rightarrow> addr option) \<Rightarrow> string \<Rightarrow> tlsConfig" where
  "dialTLS_config parseIP a =
    (if isLoopbackAddr parseIP a then \<lparr>tls_insecure = True, tls_server = []\<rparr>
     else case SplitHostPort a of
       Some (host, port) \<Rightarrow> \<lparr>tls_insecure = False, tls_server = host\<rparr>
     | None \<Rightarrow> \<lparr>tls_insecure = False, tls_server = []\<rparr>)"

datatype finder_client = ProbeClient | LocalFetchClient

text \<open>\<open>ResponseHeaderTimeout\<close>; 0 is no deadline.\<close>

fun headerTimeout :: "finder_client \<Rightarrow> duration" where
  "headerTimeout ProbeClient = 5 * second"
| "headerTimeout LocalFetchClient = 0"

text \<open>\<open>hostname\<close> is \<open>url.Parse\<close> followed by \<open>Hostname\<close>; \<open>None\<close> on a parse error.\<close>

definition fetchClientFor :: "(string \<Rightarrow> addr option) \<Rightarrow> (string \<Rightarrow> string option) \<Rightarrow> string \<Rightarrow> finder_client" where
  "fetchClientFor parseIP hostname rawURL = (case hostname rawURL of
     None \<Rightarrow> ProbeClient
   | Some host \<Rightarrow> if loopback_host parseIP host then LocalFetchClient else ProbeClient)"

definition upstreamUserAgent :: string where
  "upstreamUserAgent = ''pwndbg-debuginfod (+https://github.com/pwndbg/debuginfod.pwndbg.re)''"

definition upstreamAcceptEncoding :: string where
  "upstreamAcceptEncoding = ''gzip''"

text \<open>\<open>valid\<close>: what \<open>http.NewRequestWithContext\<close> takes for a URL. The request: its URL and its headers.\<close>

definition newUpstreamRequest :: "(string \<Rightarrow> bool) \<Rightarrow> string \<Rightarrow> (string \<times> headers) option" where
  "newUpstreamRequest valid url =
    (if valid url then Some (url, [''user-agent'' \<mapsto> upstreamUserAgent, ''accept-encoding'' \<mapsto> upstreamAcceptEncoding])
     else None)"

section \<open>useragent\<close>

definition ua_project :: string where "ua_project = ''pwndbg-debuginfod''"
definition ua_projectURL :: string where "ua_projectURL = ''https://github.com/pwndbg/debuginfod.pwndbg.re''"

definition ua_String :: "string \<Rightarrow> string" where
  "ua_String component =
    (if component = [] then ua_project @ '' (+'' @ ua_projectURL @ '')''
     else ua_project @ ''/'' @ component @ '' (+'' @ ua_projectURL @ '')'')"

text \<open>Round trippers: the library's, any other, and ours around one of them.\<close>

datatype 'b round_tripper = DefaultTransport | OtherTransport 'b | UATransport "'b round_tripper" string

definition ua_Transport :: "'b round_tripper option \<Rightarrow> string \<Rightarrow> 'b round_tripper" where
  "ua_Transport rt component = UATransport (case rt of None \<Rightarrow> DefaultTransport | Some t \<Rightarrow> t) (ua_String component)"

record 'b client =
  cl_transport :: "'b round_tripper option"
  cl_timeout :: duration

definition ua_Client :: "'b client option \<Rightarrow> string \<Rightarrow> 'b client" where
  "ua_Client c component =
    (let out = (case c of None \<Rightarrow> \<lparr>cl_transport = None, cl_timeout = 0\<rparr> | Some x \<Rightarrow> x)
     in out\<lparr>cl_transport := Some (ua_Transport (cl_transport out) component)\<rparr>)"

text \<open>The header the innermost transport is given: \<open>RoundTrip\<close> down the chain, on clones.\<close>

fun RoundTrip :: "'b round_tripper \<Rightarrow> headers \<Rightarrow> headers" where
  "RoundTrip (UATransport base ua) h = RoundTrip base (if http_get h ''user-agent'' = [] then h(''user-agent'' \<mapsto> ua) else h)"
| "RoundTrip rt h = h"

definition client_sends :: "'b client \<Rightarrow> headers \<Rightarrow> headers" where
  "client_sends c h = (case cl_transport c of None \<Rightarrow> h | Some rt \<Rightarrow> RoundTrip rt h)"

lemma RoundTrip_keeps: "http_get h ''user-agent'' \<noteq> [] \<Longrightarrow> RoundTrip rt h = h"
  by (induction rt arbitrary: h) auto

text \<open>No request leaves a wrapped client without a User-Agent: the caller's if it set one, else the
  component's. Other headers pass unchanged.\<close>

lemma client_identifies:
  "client_sends (ua_Client c component) h =
    (if http_get h ''user-agent'' = [] then h(''user-agent'' \<mapsto> ua_String component) else h)"
  by (auto simp: client_sends_def ua_Client_def ua_Transport_def RoundTrip_keeps http_get_def ua_String_def ua_project_def Let_def)

section \<open>One decision about loopback\<close>

text \<open>What the transport dials for a URL is split back into that URL's host and port.\<close>

lemma split_join_host_port:
  assumes "lbrack \<notin> set host" "rbrack \<notin> set host" "colon \<notin> set port" "lbrack \<notin> set port" "rbrack \<notin> set port"
  shows "SplitHostPort (JoinHostPort host port) = Some (host, port)"
proof (cases "colon \<in> set host")
  case True
  let ?s = "lbrack # host @ rbrack # colon # port"
  have "str_last_index ?s colon = int (length host + 2)"
    using str_last_index_found [OF assms(3), of "lbrack # host @ [rbrack]"] by simp
  moreover have "str_index ?s rbrack = int (length host + 1)"
    using str_index_found [of rbrack "lbrack # host" "colon # port"] assms(2) by simp
  ultimately have "SplitHostPort ?s = Some (host, port)"
    using assms by (simp add: SplitHostPort_def split_host_def Let_def nat_add_distrib)
  with True show ?thesis by (simp add: JoinHostPort_def)
next
  case False
  let ?s = "host @ colon # port"
  have "str_last_index ?s colon = int (length host)" by (rule str_last_index_found [OF assms(3)])
  moreover have "hd ?s \<noteq> lbrack" using assms(1) by (cases host) auto
  ultimately have "SplitHostPort ?s = Some (host, port)"
    using assms False by (simp add: SplitHostPort_def split_host_def)
  with False show ?thesis by (simp add: JoinHostPort_def)
qed

text \<open>The two decisions of \<open>finder.go\<close> are taken from different texts, the URL and the dialled address,
  and agree: no deadline exactly where TLS is not verified.\<close>

lemma loopback_decisions_agree:
  assumes "hostname url = Some host" "lbrack \<notin> set host" "rbrack \<notin> set host"
    "colon \<notin> set port" "lbrack \<notin> set port" "rbrack \<notin> set port"
  shows "fetchClientFor parseIP hostname url = LocalFetchClient \<longleftrightarrow>
      tls_insecure (dialTLS_config parseIP (JoinHostPort host port))"
    "fetchClientFor parseIP hostname url = ProbeClient \<Longrightarrow>
      dialTLS_config parseIP (JoinHostPort host port) = \<lparr>tls_insecure = False, tls_server = host\<rparr>"
  using assms(1) split_join_host_port [OF assms(2-6)]
  by (simp_all add: fetchClientFor_def dialTLS_config_def isLoopbackAddr_def split: if_splits)

section \<open>The upstreams\<close>

definition scheme_sep :: string where "scheme_sep = ''://''"

text \<open>What the documentation of \<open>net/url\<close> says of the URLs the finder builds: the host of
  \<open>scheme://host:port/rest\<close> is the text up to the port, unless parsing fails.\<close>

definition url_documented :: "(string \<Rightarrow> string option) \<Rightarrow> bool" where
  "url_documented hostname \<longleftrightarrow> (\<forall>scheme auth rest. scheme \<in> {''http'', ''https''} \<longrightarrow> auth \<noteq> [] \<longrightarrow>
     list_all (\<lambda>c. is_lower c \<or> is_digit c \<or> c = CHR ''.'' \<or> c = CHR ''-'' \<or> c = colon) auth \<longrightarrow> (rest = [] \<or> hd rest = slash) \<longrightarrow>
     hostname (scheme @ scheme_sep @ auth @ rest) \<in> {None, Some (takeWhile (\<lambda>c. c \<noteq> colon) auth)})"

text \<open>A text with neither a colon nor only digits and dots is no IP address; 127.0.0.1 is one.\<close>

definition ip_documented :: "(string \<Rightarrow> addr option) \<Rightarrow> bool" where
  "ip_documented parseIP \<longleftrightarrow> parseIP ''127.0.0.1'' = Some (Addr4 0x7F000001) \<and>
     (\<forall>s. colon \<notin> set s \<longrightarrow> \<not> list_all (\<lambda>c. is_digit c \<or> c = CHR ''.'') s \<longrightarrow> parseIP s = None)"

text \<open>Scheme and authority of a table entry.\<close>

definition srv_scheme :: "Server \<Rightarrow> string" where
  "srv_scheme s = (if has_prefix (srv_url s) ''https'' then ''https'' else ''http'')"

definition srv_auth :: "Server \<Rightarrow> string" where
  "srv_auth s = drop (length (srv_scheme s @ scheme_sep)) (srv_url s)"

definition srv_host :: "Server \<Rightarrow> string" where
  "srv_host s = takeWhile (\<lambda>c. c \<noteq> colon) (srv_auth s)"

definition own_backends :: "string list" where
  "own_backends = [''nix'', ''debian-src'']"

lemma tables_checked:
  "list_all (\<lambda>s. srv_url s = srv_scheme s @ scheme_sep @ srv_auth s \<and> srv_auth s \<noteq> [] \<and>
      list_all (\<lambda>c. is_lower c \<or> is_digit c \<or> c = CHR ''.'' \<or> c = CHR ''-'' \<or> c = colon) (srv_auth s) \<and>
      (if srv_name s \<in> set own_backends then srv_host s = ''127.0.0.1''
       else srv_scheme s = ''https'' \<and> srv_host s \<noteq> ''localhost'' \<and>
         \<not> list_all (\<lambda>c. is_digit c \<or> c = CHR ''.'') (srv_host s)))
    (finder_servers @ finder_delegates)"
  by code_simp

lemma table_entry:
  assumes "s \<in> set (finder_servers @ finder_delegates)"
  shows "srv_url s = srv_scheme s @ scheme_sep @ srv_auth s" "srv_auth s \<noteq> []" "srv_scheme s \<in> {''http'', ''https''}"
    "list_all (\<lambda>c. is_lower c \<or> is_digit c \<or> c = CHR ''.'' \<or> c = CHR ''-'' \<or> c = colon) (srv_auth s)"
    "srv_name s \<in> set own_backends \<Longrightarrow> srv_host s = ''127.0.0.1''"
    "srv_name s \<notin> set own_backends \<Longrightarrow> srv_scheme s = ''https'' \<and> srv_host s \<noteq> ''localhost'' \<and>
       \<not> list_all (\<lambda>c. is_digit c \<or> c = CHR ''.'') (srv_host s)"
  using tables_checked assms unfolding list_all_iff by (auto simp: srv_scheme_def split: if_splits)

lemma table_loopback:
  assumes "s \<in> set (finder_servers @ finder_delegates)" "ip_documented parseIP"
  shows "loopback_host parseIP (srv_host s) \<longleftrightarrow> srv_name s \<in> set own_backends"
proof (cases "srv_name s \<in> set own_backends")
  case True
  then have "srv_host s = ''127.0.0.1''" by (rule table_entry(5) [OF assms(1)])
  with True assms(2) show ?thesis by (simp add: loopback_host_def ip_documented_def)
next
  case False
  have "colon \<notin> set (srv_host s)" by (auto simp: srv_host_def dest: set_takeWhileD)
  with table_entry(6) [OF assms(1) False] assms(2) have "parseIP (srv_host s) = None" "srv_host s \<noteq> ''localhost''"
    by (auto simp: ip_documented_def)
  with False show ?thesis by (simp add: loopback_host_def)
qed


section \<open>An example\<close>

definition ex_hostname :: "string \<Rightarrow> string option" where
  "ex_hostname url = Some (takeWhile (\<lambda>c. c \<noteq> colon) (takeWhile (\<lambda>c. c \<noteq> slash)
     (drop (if has_prefix url ''https'' then 8 else 7) url)))"

definition ex_parseIP :: "string \<Rightarrow> addr option" where
  "ex_parseIP s = (if s = ''127.0.0.1'' then Some (Addr4 0x7F000001) else None)"

lemma ex_documented: "url_documented ex_hostname" "ip_documented ex_parseIP"
proof -
  have free: "slash \<notin> set auth" if "list_all (\<lambda>c. is_lower c \<or> is_digit c \<or> c = CHR ''.'' \<or> c = CHR ''-'' \<or> c = colon) auth" for auth
    using that by (fastforce simp: list_all_iff is_lower_def is_digit_def)
  have host: "takeWhile (\<lambda>c. c \<noteq> slash) (auth @ rest) = auth" if "slash \<notin> set auth" "rest = [] \<or> hd rest = slash" for auth rest
  proof (cases rest)
    case Nil
    with that(1) show ?thesis by (auto simp: takeWhile_eq_all_conv)
  next
    case (Cons c cs)
    have "\<forall>x \<in> set auth. x \<noteq> slash" using that(1) by auto
    with that(2) Cons show ?thesis by (simp add: takeWhile_append_stop)
  qed
  show "url_documented ex_hostname"
    unfolding url_documented_def
  proof (intro allI impI)
    fix scheme auth rest :: string
    assume "scheme \<in> {''http'', ''https''}" "auth \<noteq> []" and rest: "rest = [] \<or> hd rest = slash"
      and "list_all (\<lambda>c. is_lower c \<or> is_digit c \<or> c = CHR ''.'' \<or> c = CHR ''-'' \<or> c = colon) auth"
    moreover from host [OF free rest] this have "takeWhile (\<lambda>c. c \<noteq> slash) (auth @ rest) = auth" by blast
    ultimately show "ex_hostname (scheme @ scheme_sep @ auth @ rest) \<in> {None, Some (takeWhile (\<lambda>c. c \<noteq> colon) auth)}"
      by (elim insertE) (simp_all add: ex_hostname_def scheme_sep_def has_prefix_def)
  qed
  show "ip_documented ex_parseIP" by (simp add: ip_documented_def ex_parseIP_def is_digit_def)
qed


end
