(* ===== verification/NixStart.thy ===== *)
theory NixStart
  imports NixSafety
begin

text \<open>
  The start of \<open>cmd/nix-debuginfod\<close>'s store (\<open>newStore\<close>, \<open>reconcileMountRoots\<close>, \<open>unmountErofs\<close>): a
  process that ended without unmounting leaves the empty directory of every mount point behind, and
  the lazy path of \<open>NixStore\<close> keys on a missing file. Listing a directory, unmounting and whether the
  kernel lets an entry be removed are the environment.
\<close>

section \<open>Starting\<close>

record start_env =
  se_list :: "nfs \<Rightarrow> string list \<Rightarrow> string list option"
  se_unmount :: "string \<Rightarrow> nfs \<Rightarrow> nfs"
  se_may :: "string \<Rightarrow> bool"
  se_mkdir :: bool

text \<open>\<open>os.Remove\<close>: \<open>unlink\<close>, then \<open>rmdir\<close>. It refuses a directory with entries, and nothing else.\<close>

definition os_Remove :: "start_env \<Rightarrow> string \<Rightarrow> nfs \<Rightarrow> nfs" where
  "os_Remove env point fs =
    (let p = clean_comps point in
     if \<not> se_may env point then fs
     else (case fs p of
         None \<Rightarrow> fs
       | Some NDir \<Rightarrow> if se_list env fs p = Some [] then fs(p := None) else fs
       | Some _ \<Rightarrow> fs(p := None)))"

definition reconcile_entry :: "start_env \<Rightarrow> string \<Rightarrow> string \<Rightarrow> nfs \<Rightarrow> nfs" where
  "reconcile_entry env root name fs =
    (let point = path_join [root, name] in os_Remove env point (se_unmount env point fs))"

definition reconcile_root :: "start_env \<Rightarrow> string \<Rightarrow> nfs \<Rightarrow> nfs" where
  "reconcile_root env root fs = (case se_list env fs (clean_comps root) of
     None \<Rightarrow> fs
   | Some names \<Rightarrow> fold (reconcile_entry env root) names fs)"

definition reconcileMountRoots :: "start_env \<Rightarrow> string list \<Rightarrow> nfs \<Rightarrow> nfs" where
  "reconcileMountRoots env roots fs = fold (reconcile_root env) roots fs"

text \<open>The store of a new process on what the last one left: the images, names and links are files.\<close>

definition newStore :: "nix_cfg \<Rightarrow> start_env \<Rightarrow> nstore \<Rightarrow> nstore" where
  "newStore cfg env s =
    (let fs = reconcileMountRoots env [nc_mountRoot cfg, nc_entryRoot cfg] (ns_fs s)
     in s\<lparr>ns_fs := (if se_mkdir env then make_dirs (clean_comps (nc_mountRoot cfg)) fs else fs),
          ns_mounted := Map.empty, ns_idx := Map.empty\<rparr>)"

section \<open>What the last process left\<close>

text \<open>Below the roots there is only what a mount shows and the directories of points.\<close>

definition leftover :: "nix_cfg \<Rightarrow> nstore \<Rightarrow> bool" where
  "leftover cfg s \<longleftrightarrow> (\<forall>q n. below_roots cfg q \<longrightarrow> ns_fs s q = Some n \<longrightarrow>
     (\<exists>p. isMounted s p \<and> take (length (clean_comps p)) q = clean_comps p) \<or>
     (n = NDir \<and> (\<exists>root \<in> {nc_mountRoot cfg, nc_entryRoot cfg}. \<exists>x. plain x \<and> q = clean_comps root @ [x])))"

definition leaves :: "nix_cfg \<Rightarrow> nstore \<Rightarrow> nstore \<Rightarrow> bool" where
  "leaves cfg s s' \<longleftrightarrow> (cfg_ok cfg \<longrightarrow> leftover cfg s \<longrightarrow> leftover cfg s')"

lemma leaves_quiet: "ns_fs s' = ns_fs s \<Longrightarrow> ns_mounted s' = ns_mounted s \<Longrightarrow> leaves cfg s s'"
  by (simp add: leaves_def leftover_def isMounted_def)

text \<open>The directories made for a point that lie below a root are that point.\<close>

lemma made_dir_is_point:
  assumes cfg: "cfg_ok cfg" and p: "point_name cfg p root name" and q: "below_roots cfg q"
    and pre: "take (length q) (clean_comps p) = q"
  shows "q = clean_comps root @ [name]"
proof -
  have roots: "root \<in> {nc_mountRoot cfg, nc_entryRoot cfg}" using p by (auto simp: point_name_def)
  obtain r x xs where r: "r \<in> {nc_mountRoot cfg, nc_entryRoot cfg}" "q = clean_comps r @ x # xs"
    using q by (auto simp: below_roots_def)
  have "\<exists>zs. clean_comps root @ [name] = q @ zs"
    using pre point_comps(1) [OF cfg p] by (metis append_take_drop_id)
  then obtain zs where zs: "clean_comps root @ [name] = clean_comps r @ x # xs @ zs" using r(2) by auto
  then have "\<exists>ys. clean_comps root = clean_comps r @ ys" by (cases zs rule: rev_cases; cases xs rule: rev_cases) auto
  then have "take (length (clean_comps r)) (clean_comps root) = clean_comps r" by auto
  with cfg roots r(1) have "root = r" by (auto simp: cfg_ok_def Let_def)
  with zs r(2) show ?thesis by (cases xs) auto
qed

lemma leaves_mount:
  assumes p: "point_name cfg p root name" and m: "mount env f p s = (q, s')"
  shows "leaves cfg s s'"
  unfolding leaves_def
proof (intro impI)
  assume cfg: "cfg_ok cfg" and left: "leftover cfg s"
  have root: "root \<in> {nc_mountRoot cfg, nc_entryRoot cfg}" using p by (auto simp: point_name_def)
  let ?c = "clean_comps p"
  have fs: "ns_fs s' = ns_fs s \<and> ns_mounted s' = ns_mounted s \<or>
      ns_fs s' = make_dirs ?c (ns_fs s) \<and> ns_mounted s' = ns_mounted s \<or>
      (\<exists>img k. ns_fs s' = mount_over ?c img (make_dirs ?c (ns_fs s)) \<and> ns_mounted s' = (ns_mounted s)(p \<mapsto> k))"
    using m by (auto simp: mount_def mountErofs_def Let_def split: option.splits if_splits)
  then have more: "isMounted s x \<Longrightarrow> isMounted s' x" for x by (auto simp: isMounted_def)
  show "leftover cfg s'"
    unfolding leftover_def
  proof (intro allI impI)
    fix q n
    assume q: "below_roots cfg q" "ns_fs s' q = Some n"
    consider "isMounted s' p \<and> take (length ?c) q = ?c" | "ns_fs s q = Some n" | "n = NDir" "take (length q) ?c = q"
      using fs q(2) by (auto simp: make_dirs_def mount_over_def isMounted_def split: if_splits)
    then show "(\<exists>p. isMounted s' p \<and> take (length (clean_comps p)) q = clean_comps p) \<or>
        (n = NDir \<and> (\<exists>root \<in> {nc_mountRoot cfg, nc_entryRoot cfg}. \<exists>x. plain x \<and> q = clean_comps root @ [x]))"
    proof cases
      case 1
      then show ?thesis by blast
    next
      case 2
      with left q(1) more show ?thesis unfolding leftover_def by blast
    next
      case 3
      with made_dir_is_point [OF cfg p q(1) 3(2)] root point_comps(2) [OF cfg p] show ?thesis by blast
    qed
  qed
qed

interpretation points: nix_mounts "\<lambda>_. leaves cfg" cfg ul for cfg ul
proof
  fix env s s' q
  show "\<not> cfg_ok cfg \<Longrightarrow> leaves cfg s s'" by (simp add: leaves_def)
  show "ns_fs s' = ns_fs s \<Longrightarrow> ns_mounted s' = ns_mounted s \<Longrightarrow> leaves cfg s s'" by (rule leaves_quiet)
  show "leaves cfg s s' \<Longrightarrow> leaves cfg s' s'' \<Longrightarrow> leaves cfg s s''" for s'' by (simp add: leaves_def)
  show "leaves cfg s s'" if "buildOnce env k (\<lambda>s. (ne_store env sp, s)) s = (q, s')" for k sp
    using buildOnce_ok(1,2) [OF that] by (intro leaves_quiet) auto
  show "leaves cfg s s'" if "buildOnce env k (build_archive env b key archive) s = (q, s')" for k b key archive
    using buildOnce_ok(1,2) [OF that build_archive_view] by (intro leaves_quiet) auto
  show "point_name cfg p root name \<Longrightarrow> mount env f p s = (q, s') \<Longrightarrow> leaves cfg s s'" for p root name f
    by (rule leaves_mount)
qed

lemma run_leftover: "cfg_ok cfg \<Longrightarrow> leftover cfg s \<Longrightarrow> leftover cfg (nix_run cfg ul h s)"
proof (induction h arbitrary: s)
  case (Cons x h)
  obtain env rq where x: "x = (env, rq)" by fastforce
  have "leaves cfg s (snd (handle cfg ul env rq s))"
    by (rule points.steps.handle_R [OF prod.collapse [symmetric]])
  with Cons x show ?case by (simp add: leaves_def)
qed simp

text \<open>The kernel takes the mounts away with the mount namespace; what is left of each is the directory
  it was mounted on.\<close>

definition process_gone :: "nstore \<Rightarrow> nfs \<Rightarrow> bool" where
  "process_gone s fs \<longleftrightarrow> (\<forall>q. fs q =
     (if \<exists>p x xs. isMounted s p \<and> q = clean_comps p @ x # xs then None
      else if \<exists>p. isMounted s p \<and> q = clean_comps p then Some NDir
      else ns_fs s q))"

text \<open>A file system: finitely many entries, each in a directory.\<close>

definition real_fs :: "nfs \<Rightarrow> bool" where
  "real_fs fs \<longleftrightarrow> finite (dom fs) \<and> (\<forall>d x. fs (d @ [x]) \<noteq> None \<longrightarrow> fs d = Some NDir)"

text \<open>A listing names what is there; nothing is mounted in the new namespace and nothing is forbidden.\<close>

definition start_ok :: "start_env \<Rightarrow> bool" where
  "start_ok env \<longleftrightarrow>
     (\<forall>fs d. finite (dom fs) \<longrightarrow> fs d = Some NDir \<longrightarrow> (\<exists>ns. se_list env fs d = Some ns \<and> set ns = {n. fs (d @ [n]) \<noteq> None})) \<and>
     (\<forall>fs d. fs d \<noteq> Some NDir \<longrightarrow> se_list env fs d = None) \<and>
     (\<forall>p fs. se_unmount env p fs = fs) \<and> (\<forall>p. se_may env p)"

text \<open>Below a root there are empty directories only.\<close>

definition bare :: "string list \<Rightarrow> nfs \<Rightarrow> bool" where
  "bare r fs \<longleftrightarrow> (\<forall>x xs. fs (r @ x # xs) \<noteq> None \<longrightarrow> xs = [] \<and> plain x \<and> fs (r @ [x]) = Some NDir \<and> fs r = Some NDir)"

definition clear_below :: "string list \<Rightarrow> nfs \<Rightarrow> nfs" where
  "clear_below r fs = (\<lambda>q. if \<exists>x xs. q = r @ x # xs then None else fs q)"

lemma gone_bare:
  assumes cfg: "cfg_ok cfg" and left: "leftover cfg s" and mounts: "mounts_ok cfg s"
    and gone: "process_gone s fs" and real: "real_fs fs" and r: "r \<in> {nc_mountRoot cfg, nc_entryRoot cfg}"
  shows "bare (clean_comps r) fs"
  unfolding bare_def
proof (intro allI impI)
  fix x xs
  let ?q = "clean_comps r @ x # xs"
  assume there: "fs ?q \<noteq> None"
  have below: "below_roots cfg ?q" using r unfolding below_roots_def by blast
  have one: "fs ?q = Some NDir \<and> (\<exists>root \<in> {nc_mountRoot cfg, nc_entryRoot cfg}. \<exists>y. plain y \<and> ?q = clean_comps root @ [y])"
  proof (cases "\<exists>p. isMounted s p \<and> ?q = clean_comps p")
    case True
    then obtain p where p: "isMounted s p" "?q = clean_comps p" by blast
    then obtain root name where n: "point_name cfg p root name"
      using mounts by (auto simp: mounts_ok_def shows_image_def)
    then have "root \<in> {nc_mountRoot cfg, nc_entryRoot cfg}" by (auto simp: point_name_def)
    moreover have "fs ?q = Some NDir" using gone True there unfolding process_gone_def by metis
    ultimately show ?thesis using point_comps(1,2) [OF cfg n] p(2) by metis
  next
    case False
    have apart: "\<not> (isMounted s p \<and> take (length (clean_comps p)) ?q = clean_comps p)" for p
    proof
      assume p: "isMounted s p \<and> take (length (clean_comps p)) ?q = clean_comps p"
      then have q: "?q = clean_comps p @ drop (length (clean_comps p)) ?q" by (metis append_take_drop_id)
      with False p have "drop (length (clean_comps p)) ?q \<noteq> []" by (metis append_Nil2)
      with q p obtain y ys where "?q = clean_comps p @ y # ys" by (metis neq_Nil_conv)
      with p gone have "fs ?q = None" unfolding process_gone_def by metis
      with there show False by simp
    qed
    then have "fs ?q = ns_fs s ?q" using gone False there unfolding process_gone_def by metis
    with there left below apart show ?thesis unfolding leftover_def by (metis not_None_eq)
  qed
  then obtain root y where root: "root \<in> {nc_mountRoot cfg, nc_entryRoot cfg}" "plain y" "?q = clean_comps root @ [y]"
    by blast
  have "root = r"
  proof (rule ccontr)
    assume "root \<noteq> r"
    have "clean_comps root = clean_comps r @ butlast (x # xs)"
      using arg_cong [OF root(3), of butlast] by (simp add: butlast_append)
    then have "take (length (clean_comps r)) (clean_comps root) = clean_comps r" by auto
    with cfg r root(1) \<open>root \<noteq> r\<close> show False by (auto simp: cfg_ok_def Let_def)
  qed
  with root have "xs = []" "plain x" by auto
  with one there real show "xs = [] \<and> plain x \<and> fs (clean_comps r @ [x]) = Some NDir \<and> fs (clean_comps r) = Some NDir"
    unfolding real_fs_def by auto
qed

section \<open>What the new process does about it\<close>

lemma start_lists:
  "start_ok env \<Longrightarrow> finite (dom fs) \<Longrightarrow> fs d = Some NDir \<Longrightarrow>
   \<exists>ns. se_list env fs d = Some ns \<and> (\<forall>n. n \<in> set ns \<longleftrightarrow> fs (d @ [n]) \<noteq> None)"
  unfolding start_ok_def by (metis (mono_tags, lifting) mem_Collect_eq)

lemma start_facts:
  "start_ok env \<Longrightarrow> se_unmount env p fs = fs" "start_ok env \<Longrightarrow> se_may env p"
  "start_ok env \<Longrightarrow> fs d \<noteq> Some NDir \<Longrightarrow> se_list env fs d = None"
  unfolding start_ok_def by blast+

lemma reconcile_entry_bare:
  assumes env: "start_ok env" and fin: "finite (dom fs)" and root: "is_abs root" "plain x"
    and x: "fs (clean_comps root @ [x]) \<in> {None, Some NDir}" "\<And>y. fs ((clean_comps root @ [x]) @ [y]) = None"
  shows "reconcile_entry env root x fs = fs(clean_comps root @ [x] := None)"
proof -
  let ?d = "clean_comps root @ [x]"
  have p: "clean_comps (path_join [root, x]) = ?d"
    using path_join_comps [OF root(1), of "[x]"] root(2) by simp
  have e: "reconcile_entry env root x fs = (case fs ?d of
      None \<Rightarrow> fs
    | Some NDir \<Rightarrow> if se_list env fs ?d = Some [] then fs(?d := None) else fs
    | Some _ \<Rightarrow> fs(?d := None))"
    unfolding reconcile_entry_def os_Remove_def Let_def p start_facts(1) [OF env] by (simp add: start_facts(2) [OF env])
  show ?thesis
  proof (cases "fs ?d")
    case None
    then show ?thesis unfolding e by (simp add: fun_upd_idem)
  next
    case (Some n)
    with x(1) have dir: "fs ?d = Some NDir" by simp
    obtain ns where ns: "se_list env fs ?d = Some ns" "\<forall>n. n \<in> set ns \<longleftrightarrow> fs (?d @ [n]) \<noteq> None"
      using start_lists [OF env fin dir] by blast
    have "ns = []" using ns(2) x(2) by (cases ns) auto
    with ns(1) dir show ?thesis unfolding e by simp
  qed
qed

lemma reconcile_entries:
  assumes "start_ok env" "finite (dom fs)" "is_abs root"
    "\<And>x. x \<in> set names \<Longrightarrow> plain x" "\<And>x. x \<in> set names \<Longrightarrow> fs (clean_comps root @ [x]) \<in> {None, Some NDir}"
    "\<And>x y. fs ((clean_comps root @ [x]) @ [y]) = None"
  shows "fold (reconcile_entry env root) names fs q = (if \<exists>x \<in> set names. q = clean_comps root @ [x] then None else fs q)"
  using assms(2,4-6)
proof (induction names arbitrary: fs)
  case (Cons x names)
  let ?fs = "fs(clean_comps root @ [x] := None)"
  have e: "reconcile_entry env root x fs = ?fs"
    using Cons.prems by (intro reconcile_entry_bare [OF assms(1) Cons.prems(1) assms(3)]) simp_all
  have "dom ?fs \<subseteq> dom fs" by (auto split: if_splits)
  then have fin: "finite (dom ?fs)" using Cons.prems(1) by (rule finite_subset)
  have "fold (reconcile_entry env root) names ?fs q = (if \<exists>x \<in> set names. q = clean_comps root @ [x] then None else ?fs q)"
    by (rule Cons.IH [OF fin]) (use Cons.prems(2-4) in simp_all)
  then show ?case by (simp add: e)
qed simp

lemma reconcile_root_bare:
  assumes env: "start_ok env" and fin: "finite (dom fs)" and root: "is_abs root" and bare: "bare (clean_comps root) fs"
  shows "reconcile_root env root fs = clear_below (clean_comps root) fs"
proof (cases "fs (clean_comps root) = Some NDir")
  case True
  let ?r = "clean_comps root"
  obtain ns where ns: "se_list env fs ?r = Some ns" "\<forall>n. n \<in> set ns \<longleftrightarrow> fs (?r @ [n]) \<noteq> None"
    using start_lists [OF env fin True] by blast
  have deep: "fs (?r @ x # y # xs) = None" for x y xs using bare unfolding bare_def by blast
  have top: "plain x \<and> fs (?r @ [x]) = Some NDir" if "x \<in> set ns" for x
    using bare that ns(2) unfolding bare_def by blast
  show ?thesis
  proof
    fix q
    have "fold (reconcile_entry env root) ns fs q = (if \<exists>x \<in> set ns. q = ?r @ [x] then None else fs q)"
      using top deep by (intro reconcile_entries [OF env fin root]) simp_all
    also have "\<dots> = clear_below ?r fs q"
    proof (cases "\<exists>x xs. q = ?r @ x # xs")
      case True
      then obtain x xs where q: "q = ?r @ x # xs" by blast
      then show ?thesis using deep ns(2) by (cases xs) (auto simp: clear_below_def)
    next
      case False
      then show ?thesis by (auto simp: clear_below_def)
    qed
    finally show "reconcile_root env root fs q = clear_below ?r fs q"
      by (simp add: reconcile_root_def ns(1))
  qed
next
  case False
  have "clear_below (clean_comps root) fs = fs"
    using False bare unfolding clear_below_def bare_def by (intro ext) auto
  with start_facts(3) [where fs = fs, OF env False] show ?thesis by (simp add: reconcile_root_def)
qed

lemma roots_apart:
  assumes "cfg_ok cfg" "{r, r'} = {nc_mountRoot cfg, nc_entryRoot cfg}" "r \<noteq> r'"
  shows "clean_comps r \<noteq> clean_comps r' @ xs" "clean_comps r @ ys \<noteq> clean_comps r' @ xs"
proof -
  have no: "take (length (clean_comps a)) (clean_comps b) \<noteq> clean_comps a"
    if "{a, b} = {nc_mountRoot cfg, nc_entryRoot cfg}" "a \<noteq> b" for a b
    using assms(1) that by (auto simp: cfg_ok_def Let_def doubleton_eq_iff)
  show "clean_comps r @ ys \<noteq> clean_comps r' @ xs" for ys xs
  proof
    assume "clean_comps r @ ys = clean_comps r' @ xs"
    then have "(\<exists>zs. clean_comps r = clean_comps r' @ zs) \<or> (\<exists>zs. clean_comps r' = clean_comps r @ zs)"
      unfolding append_eq_append_conv2 by metis
    with no [of r' r] no [of r r'] assms(2,3) show False by (auto simp: insert_commute)
  qed
  from this [of "[]" xs] show "clean_comps r \<noteq> clean_comps r' @ xs" by simp
qed

lemma reconcile_both:
  assumes cfg: "cfg_ok cfg" and env: "start_ok env" and fin: "finite (dom fs)"
    and bare: "\<And>r. r \<in> {nc_mountRoot cfg, nc_entryRoot cfg} \<Longrightarrow> bare (clean_comps r) fs"
  shows "reconcileMountRoots env [nc_mountRoot cfg, nc_entryRoot cfg] fs = (\<lambda>q. if below_roots cfg q then None else fs q)"
proof -
  let ?m = "clean_comps (nc_mountRoot cfg)" and ?e = "clean_comps (nc_entryRoot cfg)"
  have abs: "is_abs (nc_mountRoot cfg)" "is_abs (nc_entryRoot cfg)" "nc_entryRoot cfg \<noteq> nc_mountRoot cfg"
    using cfg by (auto simp: cfg_ok_def Let_def)
  have apart: "?e @ xs \<noteq> ?m @ ys" for xs ys
    using abs(3) by (intro roots_apart(2) [OF cfg]) auto
  from this [of "[]"] have "clear_below ?m fs ?e = fs ?e" by (auto simp: clear_below_def)
  moreover have "clear_below ?m fs (?e @ xs) = fs (?e @ xs)" for xs using apart by (auto simp: clear_below_def)
  ultimately have "bare ?e (clear_below ?m fs)" using bare [of "nc_entryRoot cfg"] by (simp add: bare_def)
  moreover have "finite (dom (clear_below ?m fs))"
    by (rule finite_subset [OF _ fin]) (auto simp: clear_below_def split: if_splits)
  moreover have "reconcile_root env (nc_mountRoot cfg) fs = clear_below ?m fs"
    by (rule reconcile_root_bare [OF env fin abs(1) bare]) simp
  ultimately have "reconcileMountRoots env [nc_mountRoot cfg, nc_entryRoot cfg] fs = clear_below ?e (clear_below ?m fs)"
    using reconcile_root_bare [OF env _ abs(2)] by (simp add: reconcileMountRoots_def)
  then show ?thesis by (simp only:) (rule HOL.ext, auto simp: clear_below_def below_roots_def)
qed

text \<open>Walking down directories to something that is not there.\<close>

lemma kwalk_absent:
  assumes "\<And>k. fs (cur @ take k ps) \<in> {None, Some NDir}" "fs (cur @ ps) = None" "ps \<noteq> []" "list_all plain ps"
  shows "kwalk fs n cur ps = KNoEnt"
  using assms
proof (induction ps arbitrary: cur)
  case (Cons p ps)
  have p: "p \<noteq> ''.''" "p \<noteq> ''..''" using Cons.prems(4) by (auto simp: plain_def)
  show ?case
  proof (cases "fs (cur @ [p])")
    case None
    with p show ?thesis by simp
  next
    case (Some nd)
    with Cons.prems(1) [of 1] have dir: "fs (cur @ [p]) = Some NDir" by simp
    with Cons.prems(2) have "ps \<noteq> []" by auto
    moreover have "fs ((cur @ [p]) @ take k ps) \<in> {None, Some NDir}" for k
      using Cons.prems(1) [of "Suc k"] by simp
    ultimately have "kwalk fs n (cur @ [p]) ps = KNoEnt"
      using Cons.prems(2,4) by (intro Cons.IH) simp_all
    with p dir show ?thesis by simp
  qed
qed simp

lemma above_mount_root:
  assumes "cfg_ok cfg" and pre: "take (length q) (clean_comps (nc_mountRoot cfg)) = q"
  shows "\<not> below_roots cfg q"
proof
  let ?m = "clean_comps (nc_mountRoot cfg)"
  assume "below_roots cfg q"
  then obtain r x xs where r: "r \<in> {nc_mountRoot cfg, nc_entryRoot cfg}" "q = clean_comps r @ x # xs"
    by (auto simp: below_roots_def)
  obtain zs where zs: "?m = q @ zs" using pre by (metis append_take_drop_id)
  have "r \<noteq> nc_mountRoot cfg"
  proof
    assume "r = nc_mountRoot cfg"
    with zs r(2) show False by simp
  qed
  with r(1) have "r = nc_entryRoot cfg" "nc_mountRoot cfg \<noteq> nc_entryRoot cfg" by auto
  with roots_apart(1) [OF assms(1) refl this(2), of "x # xs @ zs"] zs r(2) show False by simp
qed

lemma started_fs:
  assumes "cfg_ok cfg" "leftover cfg t" "mounts_ok cfg t" "process_gone t fs" "real_fs fs" "start_ok env"
    "s' = newStore cfg env (t\<lparr>ns_fs := fs\<rparr>)"
  shows "if below_roots cfg q then ns_fs s' q = None else ns_fs s' q = fs q \<or> fs q = None \<and> ns_fs s' q = Some NDir"
proof -
  note bare = gone_bare [OF assms(1-5)]
  have "finite (dom fs)" using assms(5) by (simp add: real_fs_def)
  then have "ns_fs s' = (if se_mkdir env then make_dirs (clean_comps (nc_mountRoot cfg)) (\<lambda>q. if below_roots cfg q then None else fs q)
      else (\<lambda>q. if below_roots cfg q then None else fs q))"
    using reconcile_both [OF assms(1,6) _ bare] by (simp add: assms(7) newStore_def)
  then show ?thesis using above_mount_root [OF assms(1)] by (auto simp: make_dirs_def)
qed


section \<open>An example\<close>

definition demo_mounted :: nstore where
  "demo_mounted = demo_store\<lparr>ns_image := (ns_image demo_store)(''00000000000000000000000000000000.erofs'' \<mapsto> demo_img),
     ns_fs := mount_over (clean_comps demo_point) demo_img (make_dirs (clean_comps demo_point) (ns_fs demo_store)),
     ns_mounted := (ns_mounted demo_store)(demo_point \<mapsto> Loop)\<rparr>"

lemma demo_Ensure: "Ensure demo_env demo_point demo_store = (None, demo_mounted)"
proof -
  have k: "fst (cut (path_base demo_point) (CHR ''-'')) @ ''.erofs'' = ''00000000000000000000000000000000.erofs''" by code_simp
  show ?thesis
    unfolding Ensure_def k Let_def
    by (simp add: buildOnce_def mount_def mountErofs_def demo_env_def demo_store_def demo_mounted_def isMounted_def Let_def)
qed

lemma demo_walks:
  "os_Open (ns_fs demo_store) demo_path = KNoEnt" "missingFor demo_cfg id demo_store demo_path = demo_point"
  "os_Open (ns_fs demo_mounted) demo_path = Opened (clean_comps demo_path)"
  by code_simp+

lemma demo_Open: "Open demo_cfg id demo_env demo_path demo_store = (Inr (clean_comps demo_path), 1, demo_mounted)"
proof -
  have p: "demo_point \<noteq> []" by code_simp
  obtain n where n: "maxResolveHops = Suc (Suc n)" by (simp add: maxResolveHops_def numeral_eq_Suc)
  show ?thesis unfolding Open_def n by (simp add: demo_walks demo_Ensure p)
qed

lemma demo_run: "nix_run demo_cfg id demo_history demo_store = demo_mounted"
  by (simp add: demo_history_def demo_state demo_Open del: handle.simps)

text \<open>The process is killed: the point's directory is left.\<close>

definition demo_left :: nfs where
  "demo_left = (\<lambda>q. if take (length q) (clean_comps demo_point) = q then Some NDir else None)"

definition demo_start :: start_env where
  "demo_start = \<lparr>se_list = (\<lambda>fs d. if fs d = Some NDir then Some (sorted_list_of_set {n. fs (d @ [n]) \<noteq> None}) else None),
     se_unmount = (\<lambda>p fs. fs), se_may = (\<lambda>p. True), se_mkdir = True\<rparr>"

lemma demo_start_ok: "start_ok demo_start"
proof -
  have "finite {n. fs (d @ [n]) \<noteq> None}" if "finite (dom fs)" for fs :: nfs and d
  proof (rule finite_surj [OF that])
    show "{n. fs (d @ [n]) \<noteq> None} \<subseteq> last ` dom fs" by (force simp: image_iff)
  qed
  then show ?thesis by (simp add: start_ok_def demo_start_def)
qed

lemma demo_left_real: "real_fs demo_left"
proof -
  have "dom demo_left \<subseteq> (\<lambda>k. take k (clean_comps demo_point)) ` {..length (clean_comps demo_point)}"
  proof
    fix q
    assume "q \<in> dom demo_left"
    then have "take (length q) (clean_comps demo_point) = q" by (auto simp: demo_left_def split: if_splits)
    moreover from this have "length q \<le> length (clean_comps demo_point)" by (metis length_take min.cobounded2 min.commute)
    ultimately show "q \<in> (\<lambda>k. take k (clean_comps demo_point)) ` {..length (clean_comps demo_point)}" by force
  qed
  then have "finite (dom demo_left)" by (rule finite_subset) simp
  moreover have "take (length d) (clean_comps demo_point) = d"
    if "take (Suc (length d)) (clean_comps demo_point) = d @ [x]" for d x
    using arg_cong [OF that, of "take (length d)"] by (simp add: min_def)
  ultimately show ?thesis by (auto simp: real_fs_def demo_left_def)
qed

lemma demo_gone: "process_gone demo_mounted demo_left"
proof -
  let ?c = "clean_comps demo_point"
  have c: "?c = [''nix'', ''store'', ''00000000000000000000000000000000-x'']" by code_simp
  have m: "isMounted demo_mounted p \<longleftrightarrow> p = demo_point" for p
    by (simp add: isMounted_def demo_mounted_def demo_store_def)
  show ?thesis
    unfolding process_gone_def m
  proof
    fix q
    show "demo_left q = (if \<exists>p x xs. p = demo_point \<and> q = clean_comps p @ x # xs then None
      else if \<exists>p. p = demo_point \<and> q = clean_comps p then Some NDir else ns_fs demo_mounted q)"
    proof (cases "take (length ?c) q = ?c")
      case True
      then obtain r where r: "q = ?c @ r" by (metis append_take_drop_id)
      then show ?thesis by (cases r) (auto simp: demo_left_def)
    next
      case False
      then have "q \<noteq> ?c" "\<nexists>x xs. q = ?c @ x # xs" by auto
      moreover have "ns_fs demo_mounted q = demo_left q"
        using False by (auto simp: demo_mounted_def mount_over_def make_dirs_def demo_store_def demo_left_def c take_Cons' split: if_splits)
      ultimately show ?thesis by simp
    qed
  qed
qed


text \<open>\<open>os.Remove\<close> is not only \<open>rmdir\<close>: a regular file directly under a root is deleted at the start.\<close>

lemma restart_deletes_file:
  "let fs = (\<lambda>q. if q = [] \<or> q = [''nix''] \<or> q = [''nix'', ''store''] then Some NDir
               else if q = [''nix'', ''store'', ''f''] then Some (NFile ''data'') else None)
   in reconcile_entry demo_start ''/nix/store'' ''f'' fs [''nix'', ''store'', ''f''] = None"
proof -
  have "clean_comps (path_join [''/nix/store'', ''f'']) = [''nix'', ''store'', ''f'']" by code_simp
  then show ?thesis by (simp add: reconcile_entry_def os_Remove_def demo_start_def Let_def)
qed

end
