(* ===== verification/StatsQueries.thy ===== *)
theory StatsQueries
  imports RespWriter StatsViews
begin

text \<open>
  The queries of \<open>stats.go\<close> over the rows the services wrote: a \<open>WHERE\<close>, a \<open>GROUP BY\<close> and the
  aggregates, as SQL defines them. The groups come in some order; theorems that use a result allow
  any. \<open>uniq\<close>, \<open>quantile\<close> and the throughput expression are arguments. \<open>toDate\<close> and \<open>today()\<close> are in
  UTC, as the axis of the page is.
\<close>

section \<open>Queries\<close>

definition day_of :: "time \<Rightarrow> int" where
  "day_of t = t div (24 * 60 * minute)"

definition groups :: "('r \<Rightarrow> 'k) \<Rightarrow> 'r list \<Rightarrow> ('k \<times> 'r list) list" where
  "groups key rows = map (\<lambda>k. (k, filter (\<lambda>r. key r = k) rows)) (remdups (map key rows))"

definition countIf :: "('r \<Rightarrow> bool) \<Rightarrow> 'r list \<Rightarrow> u64" where
  "countIf p rows = of_nat (length (filter p rows))"

definition since_days :: "int \<Rightarrow> nat \<Rightarrow> ('r \<Rightarrow> time) \<Rightarrow> 'r list \<Rightarrow> 'r list" where
  "since_days today days ts rows = filter (\<lambda>r. today - int days \<le> day_of (ts r)) rows"

definition excludeCI :: "accessLogEntry \<Rightarrow> bool" where
  "excludeCI e \<longleftrightarrow> \<not> ''github_actions'' \<in> set (al_tags e)"

definition endpointInList :: "accessLogEntry \<Rightarrow> bool" where
  "endpointInList e \<longleftrightarrow> al_endpoint e \<in> set statsEndpoints"

definition host_label :: "accessLogEntry \<Rightarrow> string" where
  "host_label e = (if al_host e = [] then unresolvedLabel else al_host e)"

definition traffic_counts :: "accessLogEntry list \<Rightarrow> statusCounts" where
  "traffic_counts es = \<lparr>
     st_served = countIf (\<lambda>e. al_status e = 200 \<and> al_error e = []) es,
     st_aborted = countIf (\<lambda>e. al_status e = 200 \<and> al_error e \<noteq> []) es,
     st_notfound = countIf (\<lambda>e. al_status e \<noteq> 200 \<and> (al_status e < 500 \<or> al_status e \<in> {501, 503})) es,
     st_err5xx = countIf (\<lambda>e. 500 \<le> al_status e \<and> al_status e \<notin> {501, 503}) es\<rparr>"

definition traffic_where :: "int \<Rightarrow> nat \<Rightarrow> accessLogEntry list \<Rightarrow> accessLogEntry list" where
  "traffic_where today days log = filter (\<lambda>e. endpointInList e \<and> excludeCI e) (since_days today days al_time log)"

definition trafficQuery :: "int \<Rightarrow> nat \<Rightarrow> accessLogEntry list \<Rightarrow> (int \<times> string \<times> string \<times> statusCounts) list" where
  "trafficQuery today days log =
    map (\<lambda>((d, host, ep), es). (d, host, ep, traffic_counts es))
      (groups (\<lambda>e. (day_of (al_time e), host_label e, al_endpoint e)) (traffic_where today days log))"

definition clientsQuery :: "(addr list \<Rightarrow> u64) \<Rightarrow> (string list \<Rightarrow> u64) \<Rightarrow> int \<Rightarrow> nat \<Rightarrow> accessLogEntry list
    \<Rightarrow> (int \<times> u64 \<times> u64 \<times> u64) list" where
  "clientsQuery uniqA uniqS today days log =
    map (\<lambda>(d, es). (d, uniqA (map al_ip es), uniqS (map al_build es), of_nat (length es)))
      (groups (\<lambda>e. day_of (al_time e)) (traffic_where today days log))"

text \<open>The windows of the bytes end at the last row of the table.\<close>

definition sum_sent :: "(accessLogEntry \<Rightarrow> bool) \<Rightarrow> accessLogEntry list \<Rightarrow> u64" where
  "sum_sent p es = sum_list (map al_bytes (filter p es))"

definition bytesQuery :: "int \<Rightarrow> nat \<Rightarrow> accessLogEntry list \<Rightarrow> (string \<times> quad) list" where
  "bytesQuery today days log =
    (let t = fold (\<lambda>e m. max m (al_time e)) log 0;
         day = 24 * 60 * minute
     in map (\<lambda>(host, es). (host, sum_sent (\<lambda>e. t - day \<le> al_time e) es, sum_sent (\<lambda>e. t - 7 * day \<le> al_time e) es,
            sum_sent (\<lambda>e. t - 30 * day \<le> al_time e) es, sum_sent (\<lambda>e. True) es))
          (groups host_label (filter excludeCI (since_days today days al_time log))))"

definition probe_day :: "(nat \<Rightarrow> u32 list \<Rightarrow> u32) \<Rightarrow> resolveLogEntry list \<Rightarrow> probeDay" where
  "probe_day quantile es =
    (let ok = filter rl_success es; fail = filter (\<lambda>e. \<not> rl_success e) es;
         q = (\<lambda>p xs. if xs = [] then 0 else quantile p (map (\<lambda>e. row_ms (rl_duration e)) xs))
     in \<lparr>pd_ok = of_nat (length ok), pd_fail = of_nat (length fail), pd_p50 = q 50 ok, pd_p95 = q 95 ok,
         pd_fail_p50 = q 50 fail, pd_fail_p95 = q 95 fail\<rparr>)"

definition probesQuery :: "(nat \<Rightarrow> u32 list \<Rightarrow> u32) \<Rightarrow> int \<Rightarrow> nat \<Rightarrow> resolveLogEntry list \<Rightarrow> (int \<times> string \<times> probeDay) list" where
  "probesQuery quantile today days log =
    map (\<lambda>((d, host), es). (d, host, probe_day quantile es))
      (groups (\<lambda>e. (day_of (rl_time e), rl_host e)) (since_days today days rl_time log))"

text \<open>\<open>rate\<close> is the expression on \<open>bytes_sent\<close> and \<open>duration_ms\<close>.\<close>

definition thru_where :: "accessLogEntry \<Rightarrow> bool" where
  "thru_where e \<longleftrightarrow> al_status e = 200 \<and> al_error e = [] \<and> 102400 < al_bytes e \<and>
     al_cache e \<notin> {''HIT'', ''COALESCED''} \<and> al_host e \<noteq> [] \<and> excludeCI e"

definition thruQuery :: "(u64 \<Rightarrow> u32 \<Rightarrow> 'f) \<Rightarrow> (nat \<Rightarrow> 'f list \<Rightarrow> 'f) \<Rightarrow> int \<Rightarrow> nat \<Rightarrow> accessLogEntry list
    \<Rightarrow> (int \<times> string \<times> 'f thruDay) list" where
  "thruQuery rate quantile today days log =
    map (\<lambda>((d, host), es). (d, host,
        (let xs = map (\<lambda>e. rate (al_bytes e) (max 1 (row_ms (al_duration e)))) es
         in \<lparr>td_n = of_nat (length es), td_p50 = quantile 50 xs, td_p90 = quantile 90 xs\<rparr>)))
      (groups (\<lambda>e. (day_of (al_time e), al_host e)) (filter thru_where (since_days today days al_time log)))"

definition countryQuery :: "(addr list \<Rightarrow> u64) \<Rightarrow> int \<Rightarrow> nat \<Rightarrow> accessLogEntry list \<Rightarrow> (int \<times> string \<times> u64 \<times> u64) list" where
  "countryQuery uniqA today days log =
    map (\<lambda>((d, c), es). (d, c, of_nat (length es), uniqA (map al_ip es)))
      (groups (\<lambda>e. (day_of (al_time e), al_country e))
        (filter (\<lambda>e. al_country e \<noteq> []) (traffic_where today days log)))"

definition probeRecentQuery :: "time \<Rightarrow> resolveLogEntry list \<Rightarrow> (string \<times> u64) list" where
  "probeRecentQuery now log =
    map (\<lambda>(host, es). (host, of_nat (length es))) (groups rl_host (filter (\<lambda>e. now - 24 * 60 * minute \<le> rl_time e) log))"

text \<open>\<open>argMax(x, timestamp)\<close>: of rows with the same greatest time, one of them.\<close>

fun latest_by :: "('r \<Rightarrow> time) \<Rightarrow> 'r list \<Rightarrow> 'r option" where
  "latest_by ts [] = None"
| "latest_by ts (u # us) = (case latest_by ts us of
     None \<Rightarrow> Some u
   | Some w \<Rightarrow> Some (if ts u < ts w then w else u))"

definition cacheQuery :: "int \<Rightarrow> nat \<Rightarrow> cacheUsage list \<Rightarrow> (int \<times> u64 \<times> u64 \<times> u64 \<times> u64) list" where
  "cacheQuery today days log =
    map (\<lambda>(d, us). let u = the (latest_by cu_timestamp us) in (d, cu_entries u, cu_bytes u, cu_tmp u, cu_fs_free u))
      (groups (\<lambda>u. day_of (cu_timestamp u)) (since_days today days cu_timestamp log))"

text \<open>The three tables as the database the collection reads; \<open>QueryRow\<close> on an empty table is an error.\<close>

record 'f aggregates =
  ag_uniqA :: "addr list \<Rightarrow> u64"
  ag_uniqS :: "string list \<Rightarrow> u64"
  ag_quantile :: "nat \<Rightarrow> u32 list \<Rightarrow> u32"
  ag_rate :: "u64 \<Rightarrow> u32 \<Rightarrow> 'f"
  ag_quantile_f :: "nat \<Rightarrow> 'f list \<Rightarrow> 'f"

definition log_db :: "'f aggregates \<Rightarrow> time \<Rightarrow> accessLogEntry list \<Rightarrow> resolveLogEntry list \<Rightarrow> cacheUsage list \<Rightarrow> 'f stats_db" where
  "log_db A now access resolve usage =
    (let today = day_of now in \<lparr>
      db_traffic = (\<lambda>days. Inr (trafficQuery today days access)),
      db_clients = (\<lambda>days. Inr (clientsQuery (ag_uniqA A) (ag_uniqS A) today days access)),
      db_bytes = (\<lambda>days. Inr (bytesQuery today days access)),
      db_probes = (\<lambda>days. Inr (probesQuery (ag_quantile A) today days resolve)),
      db_thru = (\<lambda>days. Inr (thruQuery (ag_rate A) (ag_quantile_f A) today days access)),
      db_countries = (\<lambda>days. Inr (countryQuery (ag_uniqA A) today days access)),
      db_recent = Inr (probeRecentQuery now resolve),
      db_cache = (\<lambda>days. Inr (cacheQuery today days usage)),
      db_cache_last = (case latest_by cu_timestamp usage of None \<Rightarrow> Inl ''sql: no rows in result set'' | Some u \<Rightarrow> Inr u)\<rparr>)"

section \<open>Groups\<close>

lemma latest_by_Some:
  assumes "rows \<noteq> []"
  obtains r where "latest_by ts rows = Some r" "r \<in> set rows" "\<And>x. x \<in> set rows \<Longrightarrow> ts x \<le> ts r"
proof -
  have "\<exists>r. latest_by ts rows = Some r \<and> r \<in> set rows \<and> (\<forall>x \<in> set rows. ts x \<le> ts r)"
    using assms
  proof (induction rows)
    case (Cons u us)
    show ?case
    proof (cases "us = []")
      case False
      with Cons.IH obtain w where w: "latest_by ts us = Some w" "w \<in> set us" "\<forall>x \<in> set us. ts x \<le> ts w" by auto
      then show ?thesis by (cases "ts u < ts w") force+
    qed simp
  qed simp
  then show thesis using that by blast
qed

lemma groups_set: "(k, es) \<in> set (groups key rows) \<longleftrightarrow> es \<noteq> [] \<and> es = filter (\<lambda>r. key r = k) rows"
  by (auto simp: groups_def filter_empty_conv)

lemma groups_distinct: "distinct (map fst (groups key rows))"
  by (simp add: groups_def comp_def)

lemma remdups_filter_key: "remdups (map key (filter (\<lambda>r. P (key r)) rows)) = filter P (remdups (map key rows))"
  by (simp add: remdups_filter [symmetric] filter_map comp_def)

text \<open>Fewer days read the groups of those days.\<close>

lemma groups_window:
  assumes "\<And>r. P r \<longleftrightarrow> Q (key r)"
  shows "groups key (filter P rows) = filter (\<lambda>(k, es). Q k) (groups key rows)"
proof -
  have "filter P rows = filter (\<lambda>r. Q (key r)) rows" by (intro filter_cong refl assms)
  moreover have "filter (\<lambda>r. key r = k) (filter (\<lambda>r. Q (key r)) rows) = filter (\<lambda>r. key r = k) rows" if "Q k" for k
    using that by (induction rows) auto
  ultimately show ?thesis
    by (simp add: groups_def remdups_filter_key filter_map comp_def)
qed

section \<open>What the panels count\<close>

text \<open>The four categories divide the requests.\<close>

lemma traffic_counts_total: "st_total (traffic_counts es) = of_nat (length es)"
proof (induction es)
  case Nil
  then show ?case by (simp add: st_total_def traffic_counts_def countIf_def)
next
  case (Cons e es)
  let ?s = "al_status e"
  have "\<not> 500 \<le> ?s" if "?s < 500" using that by (simp add: not_le)
  moreover have "500 \<le> ?s" if "\<not> ?s < 500" using that by (simp add: not_less)
  moreover have "(200 :: 16 word) < 500" "(200 :: 16 word) \<noteq> 501" "(200 :: 16 word) \<noteq> 503" by simp_all
  ultimately show ?case using Cons
    by (cases "?s = 200"; cases "?s < 500"; cases "?s \<in> {501, 503}"; cases "al_error e = []")
      (simp_all add: st_total_def traffic_counts_def countIf_def algebra_simps)
qed

lemma traffic_counts_Nil: "traffic_counts [] = no_counts"
  by (simp add: traffic_counts_def no_counts_def countIf_def)

text \<open>The requests a panel is about.\<close>

definition shown :: "accessLogEntry \<Rightarrow> bool" where
  "shown e \<longleftrightarrow> endpointInList e \<and> excludeCI e"

lemma traffic_where_in:
  "today - int days \<le> d \<Longrightarrow> filter (\<lambda>e. day_of (al_time e) = d \<and> P e) (traffic_where today days log) =
    filter (\<lambda>e. shown e \<and> day_of (al_time e) = d \<and> P e) log"
  unfolding traffic_where_def since_days_def filter_filter shown_def by (intro filter_cong refl) auto

lemma trafficQuery_set:
  assumes "today - int days \<le> d"
  shows "(d, host, ep, c) \<in> set (trafficQuery today days log) \<longleftrightarrow>
    (let es = filter (\<lambda>e. shown e \<and> day_of (al_time e) = d \<and> host_label e = host \<and> al_endpoint e = ep) log
     in es \<noteq> [] \<and> c = traffic_counts es)"
proof -
  have "(d, host, ep, c) \<in> set (trafficQuery today days log) \<longleftrightarrow>
    (\<exists>es. ((d, host, ep), es) \<in> set (groups (\<lambda>e. (day_of (al_time e), host_label e, al_endpoint e)) (traffic_where today days log)) \<and>
      c = traffic_counts es)"
    by (force simp: trafficQuery_def)
  then show ?thesis using traffic_where_in [OF assms, of "\<lambda>e. host_label e = host \<and> al_endpoint e = ep" log]
    by (simp add: groups_set Let_def)
qed

lemma cell_functional:
  assumes "\<And>v. (d, k, v) \<in> set rows \<Longrightarrow> v = w" "(d, k, w) \<in> set rows \<or> w = zero"
  shows "cell zero rows k d = w"
  using assms
proof (induction rows rule: rev_induct)
  case (snoc r rows)
  then show ?case by (cases r) (auto simp: cell_snoc)
qed simp

text \<open>The number a snapshot has for a host, an endpoint and a day.\<close>

definition traffic_cell :: "'f statsSnapshot \<Rightarrow> string \<Rightarrow> string \<Rightarrow> nat \<Rightarrow> statusCounts" where
  "traffic_cell s host ep i = (case map_of (the_default [] (map_of (sn_traffic s) host)) ep of
     None \<Rightarrow> no_counts
   | Some series \<Rightarrow> series ! i)"

lemma traffic_cell_rows:
  assumes "sn_traffic s = fold (traffic_row (axis today days)) rows []" "i \<le> days"
  shows "traffic_cell s host ep i = cell no_counts (host_rows host rows) ep (axis today days ! i)"
proof -
  have i: "i < length (axis today days)" using assms(2) by (simp add: axis_props)
  show ?thesis
  proof (cases "has_row (axis today days) (host_rows host rows) ep")
    case True
    with i show ?thesis
      by (simp add: traffic_cell_def assms(1) traffic_host put_rows_map_of [OF axis_props(1)] row_series_def)
  next
    case False
    then have "\<forall>v. (axis today days ! i, ep, v) \<notin> set (host_rows host rows)" using i by (auto simp: has_row_def)
    with False show ?thesis
      by (simp add: traffic_cell_def assms(1) traffic_host put_rows_map_of [OF axis_props(1)] cell_none)
  qed
qed

lemma traffic_cell_counts:
  assumes "sn_traffic s = fold (traffic_row (axis today days)) rows []" "i \<le> days"
    "set rows = set (trafficQuery today days log)"
  shows "traffic_cell s host ep i = traffic_counts
    (filter (\<lambda>e. shown e \<and> day_of (al_time e) = axis today days ! i \<and> host_label e = host \<and> al_endpoint e = ep) log)"
    (is "_ = traffic_counts ?es")
proof -
  let ?d = "axis today days ! i"
  have "i < length (axis today days)" using assms(2) by (simp add: axis_props)
  then have "?d \<in> set (axis today days)" by (rule nth_mem)
  then have d: "today - int days \<le> ?d" using axis_props(3) [of ?d today days] by blast
  have rows: "(?d, ep, c) \<in> set (host_rows host rows) \<longleftrightarrow> ?es \<noteq> [] \<and> c = traffic_counts ?es" for c
  proof -
    have "(?d, ep, c) \<in> set (host_rows host rows) \<longleftrightarrow> (?d, host, ep, c) \<in> set rows"
      by (force simp: host_rows_def)
    then show ?thesis using trafficQuery_set [OF d, of host ep c log] by (simp add: assms(3) Let_def)
  qed
  have "cell no_counts (host_rows host rows) ep ?d = traffic_counts ?es"
    by (rule cell_functional) (use rows traffic_counts_Nil in \<open>cases "?es = []"; simp\<close>)+
  then show ?thesis by (simp add: traffic_cell_rows [OF assms(1,2)])
qed

lemma requests_counts:
  assumes "sn_requests s = row_series (axis today days) 0 (column (\<lambda>(ips, b, q). q) rows) ()" "i \<le> days"
    "set rows = set (clientsQuery uA uS today days log)"
  shows "sn_requests s ! i = of_nat (length (filter (\<lambda>e. shown e \<and> day_of (al_time e) = axis today days ! i) log))"
    (is "_ = of_nat (length ?es)")
proof -
  let ?d = "axis today days ! i"
  have i: "i < length (axis today days)" using assms(2) by (simp add: axis_props)
  then have "?d \<in> set (axis today days)" by (rule nth_mem)
  then have d: "today - int days \<le> ?d" using axis_props(3) [of ?d today days] by blast
  have rows: "(?d, (), q) \<in> set (column (\<lambda>(ips, b, q). q) rows) \<longleftrightarrow> ?es \<noteq> [] \<and> q = of_nat (length ?es)" for q
  proof -
    have "(?d, (), q) \<in> set (column (\<lambda>(ips, b, q). q) rows) \<longleftrightarrow> (\<exists>ips b. (?d, ips, b, q) \<in> set rows)"
      by (force simp: column_def)
    also have "\<dots> \<longleftrightarrow> (\<exists>es. (?d, es) \<in> set (groups (\<lambda>e. day_of (al_time e)) (traffic_where today days log)) \<and> q = of_nat (length es))"
      unfolding assms(3) clientsQuery_def by force
    also have "\<dots> \<longleftrightarrow> ?es \<noteq> [] \<and> q = of_nat (length ?es)"
      using traffic_where_in [OF d, of "\<lambda>_. True" log] by (simp add: groups_set)
    finally show ?thesis .
  qed
  have "cell 0 (column (\<lambda>(ips, b, q). q) rows) () ?d = of_nat (length ?es)"
    by (rule cell_functional) (use rows in \<open>cases "?es = []"; simp\<close>)+
  with i show ?thesis by (simp add: assms(1) row_series_def)
qed

text \<open>Counting by parts.\<close>

lemma length_by_parts:
  assumes "finite H" "finite E" "\<And>e. e \<in> set es \<Longrightarrow> f e \<in> H \<and> g e \<in> E"
  shows "(\<Sum>h\<in>H. \<Sum>k\<in>E. of_nat (length (filter (\<lambda>e. f e = h \<and> g e = k) es))) = (of_nat (length es) :: u64)"
  using assms(3)
proof (induction es)
  case (Cons e es)
  have "(of_nat (length (filter (\<lambda>e. f e = h \<and> g e = k) (e # es))) :: u64) =
      (if h = f e then if k = g e then 1 else 0 else 0) + of_nat (length (filter (\<lambda>e. f e = h \<and> g e = k) es))" for h k
    by simp
  then have "(\<Sum>h\<in>H. \<Sum>k\<in>E. (of_nat (length (filter (\<lambda>e. f e = h \<and> g e = k) (e # es))) :: u64)) =
      (\<Sum>h\<in>H. \<Sum>k\<in>E. if h = f e then if k = g e then 1 else 0 else 0) + of_nat (length es)"
    using Cons by (simp add: sum.distrib)
  also have "(\<Sum>h\<in>H. \<Sum>k\<in>E. if h = f e then if k = g e then 1 else 0 else 0 :: u64) =
      (\<Sum>h\<in>H. if h = f e then (\<Sum>k\<in>E. if k = g e then 1 else 0) else 0)"
    by (intro sum.cong refl) simp
  also have "\<dots> = 1" using assms(1,2) Cons.prems [of e] by (simp add: sum.delta)
  finally show ?case by simp
qed simp


section \<open>Windows\<close>

lemma since_days_less:
  "v \<le> n \<Longrightarrow> since_days today v ts rows = filter (\<lambda>r. today - int v \<le> day_of (ts r)) (since_days today n ts rows)"
  unfolding since_days_def filter_filter by (intro filter_cong refl) auto

lemma recent_groups:
  assumes "\<And>r. P r \<longleftrightarrow> today - int v \<le> fst (key r)" "\<And>k es. fst (f (k, es)) = fst k"
  shows "map f (groups key (filter P rows)) = recent today v (map f (groups key rows))"
proof -
  have "groups key (filter P rows) = filter (\<lambda>(k, es). today - int v \<le> fst k) (groups key rows)"
    by (rule groups_window [where Q = "\<lambda>k. today - int v \<le> fst k"], rule assms(1))
  then show ?thesis
    using assms(2) by (auto simp: recent_def filter_map comp_def intro!: arg_cong [where f = "map f"] filter_cong)
qed

lemma traffic_where_less:
  "v \<le> n \<Longrightarrow> traffic_where today v log = filter (\<lambda>e. today - int v \<le> day_of (al_time e)) (traffic_where today n log)"
  unfolding traffic_where_def since_days_def filter_filter by (intro filter_cong refl) auto

lemma windows:
  assumes v: "v \<le> n"
  shows "trafficQuery today v log = recent today v (trafficQuery today n log)"
    "probesQuery q today v res = recent today v (probesQuery q today n res)"
    "thruQuery rate qf today v log = recent today v (thruQuery rate qf today n log)"
    "countryQuery uA today v log = recent today v (countryQuery uA today n log)"
    "clientsQuery uA uS today v log = recent today v (clientsQuery uA uS today n log)"
proof -
  show "trafficQuery today v log = recent today v (trafficQuery today n log)"
    unfolding trafficQuery_def traffic_where_less [OF v] by (rule recent_groups) auto
  show "probesQuery q today v res = recent today v (probesQuery q today n res)"
    unfolding probesQuery_def since_days_less [OF v] by (rule recent_groups) auto
  have "filter thru_where (since_days today v al_time log) =
      filter (\<lambda>e. today - int v \<le> day_of (al_time e)) (filter thru_where (since_days today n al_time log))"
    unfolding since_days_less [OF v] filter_filter by (intro filter_cong refl) auto
  then show "thruQuery rate qf today v log = recent today v (thruQuery rate qf today n log)"
    unfolding thruQuery_def by (simp only:) (rule recent_groups, auto)
  have "filter (\<lambda>e. al_country e \<noteq> []) (traffic_where today v log) =
      filter (\<lambda>e. today - int v \<le> day_of (al_time e)) (filter (\<lambda>e. al_country e \<noteq> []) (traffic_where today n log))"
    unfolding traffic_where_less [OF v] filter_filter by (intro filter_cong refl) auto
  then show "countryQuery uA today v log = recent today v (countryQuery uA today n log)"
    unfolding countryQuery_def by (simp only:) (rule recent_groups, auto)
  have g: "groups (\<lambda>e. day_of (al_time e)) (traffic_where today v log) =
      filter (\<lambda>(k, es). today - int v \<le> k) (groups (\<lambda>e. day_of (al_time e)) (traffic_where today n log))"
    unfolding traffic_where_less [OF v] by (rule groups_window) simp
  show "clientsQuery uA uS today v log = recent today v (clientsQuery uA uS today n log)"
    unfolding clientsQuery_def g
    by (auto simp: recent_def filter_map comp_def intro!: arg_cong [where f = "map f" for f] filter_cong)
qed

lemma probes_distinct: "distinct (map (\<lambda>(d, h, p). (d, h)) (probesQuery q today n res))"
  using groups_distinct [of "\<lambda>e. (day_of (rl_time e), rl_host e)"]
  by (simp add: probesQuery_def comp_def case_prod_beta)

text \<open>The tables answer a shorter window with the recent rows of a longer one, so the views cut out of
  a collection are the collections themselves.\<close>

theorem log_db_windows: "db_windows (log_db A now access resolve usage) (day_of now)"
  unfolding db_windows_def log_db_def Let_def by (auto intro: windows simp: probes_distinct)

theorem log_slice_is_collect:
  assumes "v \<le> n" "CollectStats F (log_db A now access resolve usage) (day_of now) n = Inr l"
    "CollectStats F (log_db A now access resolve usage) (day_of now) v = Inr s"
  shows "view_agrees F (sliceSnapshot F l v) s"
  by (rule slice_agrees [OF assms(1) log_db_windows assms(2,3)])

section \<open>An example\<close>

text \<open>Two requests of one day: one served by Fedora, one by nobody; and one of a workflow.\<close>

definition ex_log_row :: "string \<Rightarrow> 16 word \<Rightarrow> string list \<Rightarrow> accessLogEntry" where
  "ex_log_row host status tags = \<lparr>al_time = 0, al_ip = Addr4 1, al_country = [], al_tags = tags, al_method = ''GET'',
     al_endpoint = ''debuginfo'', al_uri = ''/buildid/00/debuginfo'', al_status = status, al_agent = ''gdb'',
     al_duration = 0, al_duration100 = 0, al_bytes = 0, al_build = ''00'', al_host = host, al_cache = [], al_error = [],
     al_headers = no_headers\<rparr>"

definition ex_log :: "accessLogEntry list" where
  "ex_log = [ex_log_row ''fedora'' 200 [''direct''], ex_log_row [] 404 [''direct''], ex_log_row ''fedora'' 200 [''github_actions'']]"

definition ex_aggregates :: "int aggregates" where
  "ex_aggregates = \<lparr>ag_uniqA = (\<lambda>xs. of_nat (length (remdups xs))), ag_uniqS = (\<lambda>xs. of_nat (length (remdups xs))),
     ag_quantile = (\<lambda>p xs. hd xs), ag_rate = (\<lambda>b d. uint b), ag_quantile_f = (\<lambda>p xs. hd xs)\<rparr>"

lemma log_db_collects: "\<exists>s. CollectStats F (log_db A now access rlog []) today days = Inr s"
  by (simp add: CollectStats_def stats_step_def log_db_def Let_def collectCacheUsage_def collectProbeRecent_def
    collectCountries_def collectThroughput_def collectProbes_def collectBytes_def collectClients_def collectTraffic_def
    empty_snapshot_def cacheQuery_def since_days_def groups_def)


lemma ex_log_counts: "trafficQuery 0 0 ex_log =
    [(0, ''fedora'', ''debuginfo'', no_counts\<lparr>st_served := 1\<rparr>), (0, ''unresolved'', ''debuginfo'', no_counts\<lparr>st_notfound := 1\<rparr>)]"
  by code_simp

end
