(* ===== verification/ReleaseQueries.thy ===== *)
theory ReleaseQueries
  imports ReleaseStats StatsQueries GhPoll
begin

text \<open>
  The queries of \<open>cmd/releases/stats.go\<close> over the rows of \<open>releases_access_log\<close> and
  \<open>github_download_stats\<close>, as the queries of the proxy's page are written: groups, counts and sums
  of lists, \<open>uniq\<close> an argument. What the page of a window says of the two tables.
\<close>

section \<open>The access log\<close>

definition releaseRows :: "int \<Rightarrow> nat \<Rightarrow> releasesEntry list \<Rightarrow> releasesEntry list" where
  "releaseRows today days log = filter (\<lambda>e. re_status e = 302 \<and> re_file e \<noteq> []) (since_days today days re_time log)"

definition positionCaseInsensitive :: "string \<Rightarrow> string \<Rightarrow> bool" where
  "positionCaseInsensitive s p \<longleftrightarrow> str_contains (map ascii_lower s) (map ascii_lower p)"

definition clientBucket :: "string \<Rightarrow> string" where
  "clientBucket agent =
    (if positionCaseInsensitive agent ''Homebrew'' \<and> positionCaseInsensitive agent ''arm64'' then ''Homebrew arm64''
     else if positionCaseInsensitive agent ''Homebrew'' then ''Homebrew intel''
     else if positionCaseInsensitive agent ''pwndbg-installer'' then ''pwndbg-installer''
     else ''other'')"

text \<open>Three runs of digits between two dots, as the pattern has them.\<close>

definition version_shaped :: "string \<Rightarrow> bool" where
  "version_shaped v = (case split_on CHR ''.'' v of
     [a, b, c] \<Rightarrow> list_all (\<lambda>p. p \<noteq> [] \<and> list_all is_digit p) [a, b, c]
   | _ \<Rightarrow> False)"

definition versionBucket :: "string \<Rightarrow> string" where
  "versionBucket v = (if version_shaped v then v else ''other'')"

definition countryBucket :: "string \<Rightarrow> string" where
  "countryBucket c = (if c = [] then ''unknown'' else c)"

definition dailyQuery :: "(addr list \<Rightarrow> u64) \<Rightarrow> int \<Rightarrow> nat \<Rightarrow> releasesEntry list \<Rightarrow> (int \<times> u64 \<times> u64 \<times> u64) list" where
  "dailyQuery uniqA today days log =
    map (\<lambda>(d, es). (d, countIf (\<lambda>e. re_status e = 302) es, countIf (\<lambda>e. re_status e \<noteq> 302) es,
        uniqA (map re_ip (filter (\<lambda>e. re_status e = 302) es))))
      (groups (\<lambda>e. day_of (re_time e)) (since_days today days re_time log))"

definition totalsQuery :: "(addr list \<Rightarrow> u64) \<Rightarrow> (string list \<Rightarrow> u64) \<Rightarrow> int \<Rightarrow> nat \<Rightarrow> releasesEntry list \<Rightarrow> u64 \<times> u64 \<times> u64" where
  "totalsQuery uniqA uniqS today days log =
    (let es = releaseRows today days log
     in (of_nat (length es), uniqA (map re_ip es), uniqS (filter (\<lambda>c. c \<noteq> []) (map re_country es))))"

text \<open>One query per chart of \<open>collectDimensions\<close>: a label, and an aggregate of the rows that have it.\<close>

definition labelQuery :: "(releasesEntry \<Rightarrow> string) \<Rightarrow> (releasesEntry list \<Rightarrow> u64) \<Rightarrow> int \<Rightarrow> nat \<Rightarrow> releasesEntry list
    \<Rightarrow> (string \<times> u64) list" where
  "labelQuery expr agg today days log =
    sort_key (\<lambda>(k, n). - uint n) (map (\<lambda>(k, es). (k, agg es)) (groups expr (releaseRows today days log)))"

section \<open>GitHub's counters\<close>

text \<open>The column is a \<open>UInt32\<close>.\<close>

definition gh_count :: "downloadStats \<Rightarrow> u32" where
  "gh_count r = of_int (ds_count r)"

definition max_count :: "downloadStats list \<Rightarrow> u64" where
  "max_count rs = ucast (fold (\<lambda>r m. max m (gh_count r)) rs 0)"

definition latest_release :: "downloadStats list \<Rightarrow> downloadStats list" where
  "latest_release gh = (case latest_by ds_time gh of None \<Rightarrow> [] | Some l \<Rightarrow> filter (\<lambda>r. ds_tag r = ds_tag l) gh)"

definition assetsQuery :: "downloadStats list \<Rightarrow> (string \<times> u64) list" where
  "assetsQuery gh =
    sort_key (\<lambda>(a, n). - uint n) (map (\<lambda>(a, rs). (a, max_count rs)) (groups ds_asset (latest_release gh)))"

definition grandTotal :: "downloadStats list \<Rightarrow> u64" where
  "grandTotal gh = sum_list (map (\<lambda>(k, rs). max_count rs) (groups (\<lambda>r. (ds_tag r, ds_asset r)) gh))"

definition latestTag :: "downloadStats list \<Rightarrow> (string \<times> u64) option" where
  "latestTag gh = (case groups (\<lambda>((tag, a), mx). tag)
       (map (\<lambda>(k, rs). (k, max_count rs)) (groups (\<lambda>r. (ds_tag r, ds_asset r)) (latest_release gh))) of
     [] \<Rightarrow> None
   | (tag, xs) # _ \<Rightarrow> Some (tag, sum_list (map snd xs)))"

text \<open>\<open>lagInFrame\<close> over a window: each row with its day, its count less the count of the row before it,
  and that row's time; a column has its default 0 before the first row.\<close>

definition lag_rows :: "downloadStats list \<Rightarrow> (int \<times> int \<times> time) list" where
  "lag_rows rs =
    (let ws = sort_key ds_time rs
     in map (\<lambda>(p, r). case p of
            None \<Rightarrow> (day_of (ds_time r), uint (gh_count r) - 0, 0)
          | Some q \<Rightarrow> (day_of (ds_time r), uint (gh_count r) - uint (gh_count q), ds_time q))
        (zip (None # map Some ws) ws))"

definition perDay :: "int \<Rightarrow> nat \<Rightarrow> downloadStats list \<Rightarrow> (int \<times> int) list" where
  "perDay today days gh =
    map (\<lambda>(d, xs). (d, sum_list (map (\<lambda>(d, delta, prev). delta) xs)))
      (groups fst (filter (\<lambda>(d, delta, prev). 0 < prev \<and> 0 < delta)
        (concat (map (\<lambda>(k, rs). lag_rows rs)
          (groups (\<lambda>r. (ds_tag r, ds_asset r)) (since_days today days ds_time gh))))))"

definition assetDays :: "downloadStats list \<Rightarrow> ((string \<times> int) \<times> u64) list" where
  "assetDays gh = map (\<lambda>((tag, a, d), rs). ((tag, d), max_count rs))
     (groups (\<lambda>r. (ds_tag r, ds_asset r, day_of (ds_time r))) gh)"

definition curvesQuery :: "downloadStats list \<Rightarrow> (string \<times> int \<times> u64) list" where
  "curvesQuery gh = sort_key (\<lambda>(tag, d, n). (tag, d))
     (map (\<lambda>((tag, d), xs). (tag, d, sum_list (map snd xs))) (groups fst (assetDays gh)))"

text \<open>The two tables as the database \<open>CollectStats\<close> reads.\<close>

definition release_db :: "(addr list \<Rightarrow> u64) \<Rightarrow> (string list \<Rightarrow> u64) \<Rightarrow> int \<Rightarrow> releasesEntry list \<Rightarrow> downloadStats list \<Rightarrow> rel_db" where
  "release_db uniqA uniqS today log gh = \<lparr>
     rdb_daily = (\<lambda>days. Inr (dailyQuery uniqA today days log)),
     rdb_totals = (\<lambda>days. Inr (totalsQuery uniqA uniqS today days log)),
     rdb_countries = (\<lambda>days. Inr (labelQuery (\<lambda>e. countryBucket (re_country e)) (\<lambda>es. of_nat (length es)) today days log)),
     rdb_versions = (\<lambda>days. Inr (labelQuery (\<lambda>e. versionBucket (re_version e)) (\<lambda>es. of_nat (length es)) today days log)),
     rdb_clients = (\<lambda>days. Inr (labelQuery (\<lambda>e. clientBucket (re_agent e)) (\<lambda>es. uniqA (map re_ip es)) today days log)),
     rdb_gh_total = Some (grandTotal gh),
     rdb_gh_latest = latestTag gh,
     rdb_gh_daily = (\<lambda>days. Inr (perDay today days gh)),
     rdb_assets = Inr (assetsQuery gh),
     rdb_curves = Inr (curvesQuery gh)\<rparr>"


text \<open>Another order of the rows, where the query leaves it open.\<close>

definition same_rows :: "string + 'r list \<Rightarrow> string + 'r list \<Rightarrow> bool" where
  "same_rows x y \<longleftrightarrow> (case (x, y) of (Inr p, Inr q) \<Rightarrow> mset p = mset q | _ \<Rightarrow> x = y)"

definition same_answers :: "nat \<Rightarrow> rel_db \<Rightarrow> rel_db \<Rightarrow> bool" where
  "same_answers days a b \<longleftrightarrow> same_rows (rdb_daily a days) (rdb_daily b days) \<and> rdb_totals a days = rdb_totals b days \<and>
     same_rows (rdb_countries a days) (rdb_countries b days) \<and> same_rows (rdb_versions a days) (rdb_versions b days) \<and>
     same_rows (rdb_clients a days) (rdb_clients b days) \<and> rdb_gh_total a = rdb_gh_total b \<and>
     rdb_gh_latest a = rdb_gh_latest b \<and> same_rows (rdb_gh_daily a days) (rdb_gh_daily b days) \<and>
     same_rows (rdb_assets a) (rdb_assets b) \<and> rdb_curves a = rdb_curves b"

lemma same_rows_Inr: "same_rows x (Inr q) \<longleftrightarrow> (\<exists>p. x = Inr p \<and> mset p = mset q)"
  by (cases x) (auto simp: same_rows_def)

section \<open>A window of the two tables\<close>

lemma perDay_positive: "(d, n) \<in> set (perDay today days gh) \<Longrightarrow> 0 < n"
proof -
  assume n: "(d, n) \<in> set (perDay today days gh)"
  define ys where "ys = concat (map (\<lambda>(k, rs). lag_rows rs) (groups (\<lambda>r. (ds_tag r, ds_asset r)) (since_days today days ds_time gh)))"
  from n have "(d, n) \<in> set (map (\<lambda>(d, xs). (d, sum_list (map (\<lambda>(d, delta, prev). delta) xs)))
      (groups fst (filter (\<lambda>(d, delta, prev). 0 < prev \<and> 0 < delta) ys)))"
    by (simp only: perDay_def ys_def)
  then obtain xs where x: "(d, xs) \<in> set (groups fst (filter (\<lambda>(d, delta, prev). 0 < prev \<and> (0::int) < delta) ys))"
    "n = sum_list (map (\<lambda>(d, delta, prev). delta) xs)"
    by auto
  then have "xs \<noteq> []" "\<forall>x \<in> set xs. 0 < fst (snd x)" by (auto simp: groups_set)
  then show "0 < n" unfolding x(2)
  proof (induction xs)
    case (Cons x xs)
    then show ?case by (cases "xs = []") (auto simp: case_prod_beta)
  qed simp
qed

lemma gh_daily_fold:
  assumes "\<And>d n. (d, n) \<in> set rows \<Longrightarrow> 0 < (n :: int)"
  shows "fold (\<lambda>(d, n) xs. if 0 < n then put_day ds d (f n) xs else xs) rows z = fold (\<lambda>r. put_day ds (fst r) (f (snd r))) rows z"
  using assms by (induction rows arbitrary: z) (auto split: prod.splits)

lemma empty_gh: "latestTag gh = None \<Longrightarrow> gh = []"
proof (rule ccontr)
  assume none: "latestTag gh = None" and "gh \<noteq> []"
  then obtain l where l: "latest_by ds_time gh = Some l" "l \<in> set gh" using latest_by_Some by blast
  then have "l \<in> set (latest_release gh)" by (simp add: latest_release_def)
  then have "groups (\<lambda>r. (ds_tag r, ds_asset r)) (latest_release gh) \<noteq> []"
    by (auto simp: groups_def)
  with none show False
    by (auto simp: latestTag_def groups_def split: list.splits prod.splits)
qed

lemma perDay_Nil: "perDay today days [] = []"
  by (simp add: perDay_def groups_def since_days_def)

lemma window_rows:
  assumes "same_answers days db (release_db uA uS today log gh)" "rel_CollectStats order db today days = Inr s"
  obtains dl cs vs ks g a where
    "mset dl = mset (dailyQuery uA today days log)"
    "mset cs = mset (labelQuery (\<lambda>e. countryBucket (re_country e)) (\<lambda>es. of_nat (length es)) today days log)"
    "mset vs = mset (labelQuery (\<lambda>e. versionBucket (re_version e)) (\<lambda>es. of_nat (length es)) today days log)"
    "mset ks = mset (labelQuery (\<lambda>e. clientBucket (re_agent e)) (\<lambda>es. uA (map re_ip es)) today days log)"
    "mset g = mset (perDay today days gh)" "mset a = mset (assetsQuery gh)"
    "rs_days s = axis today days"
    "rs_redirects s = row_series (axis today days) 0 (column (\<lambda>(ok, bad, ips). ok) dl) ()"
    "rs_rejected s = row_series (axis today days) 0 (column (\<lambda>(ok, bad, ips). bad) dl) ()"
    "rs_total s = of_nat (length (releaseRows today days log))"
    "rs_countries s = topN (label_rows cs) 12" "rs_versions s = topN (label_rows vs) 8" "rs_clients s = topN (label_rows ks) 10"
    "rs_gh_daily s = row_series (axis today days) 0 (column word_of_int g) ()"
    "collectAssets a = (rs_assets s, rs_platforms s, rs_variants s, rs_formats s)"
    "collectCurves order (curvesQuery gh) = (rs_curves s, rs_curve_days s)"
proof -
  obtain dl cs vs ks g a where q: "rdb_daily db days = Inr dl" "rdb_countries db days = Inr cs" "rdb_versions db days = Inr vs"
      "rdb_clients db days = Inr ks" "rdb_gh_daily db days = Inr g" "rdb_assets db = Inr a"
    and m: "mset dl = mset (dailyQuery uA today days log)"
      "mset cs = mset (labelQuery (\<lambda>e. countryBucket (re_country e)) (\<lambda>es. of_nat (length es)) today days log)"
      "mset vs = mset (labelQuery (\<lambda>e. versionBucket (re_version e)) (\<lambda>es. of_nat (length es)) today days log)"
      "mset ks = mset (labelQuery (\<lambda>e. clientBucket (re_agent e)) (\<lambda>es. uA (map re_ip es)) today days log)"
      "mset g = mset (perDay today days gh)" "mset a = mset (assetsQuery gh)"
    using assms(1) by (auto simp: same_answers_def release_db_def same_rows_Inr)
  have r: "rdb_totals db days = Inr (totalsQuery uA uS today days log)" "rdb_gh_total db = Some (grandTotal gh)"
    "rdb_gh_latest db = latestTag gh" "rdb_curves db = Inr (curvesQuery gh)"
    using assms(1) by (simp_all add: same_answers_def release_db_def)
  have gd: "fold (\<lambda>(d, n) xs. if 0 < n then put_day ds d (word_of_int n :: u64) xs else xs) g z =
      fold (\<lambda>r. put_day ds (fst r) (word_of_int (snd r))) g z" for ds z
    by (rule gh_daily_fold) (use perDay_positive mset_eq_setD [OF m(5)] in blast)
  have g0: "latestTag gh = None \<Longrightarrow> g = []" using empty_gh [of gh] m(5) by (simp add: perDay_Nil)
  note puts = put_day_rows [OF axis_props(1), folded column_def]
  have z: "replicate (length (axis today days)) 0 = row_series (axis today days) (0 :: u64) (column word_of_int []) ()"
    by (simp add: row_series_none has_row_def column_def)
  show thesis
  proof (rule that [OF m])
    show "rs_days s = axis today days"
      "rs_redirects s = row_series (axis today days) 0 (column (\<lambda>(ok, bad, ips). ok) dl) ()"
      "rs_rejected s = row_series (axis today days) 0 (column (\<lambda>(ok, bad, ips). bad) dl) ()"
      "rs_total s = of_nat (length (releaseRows today days log))"
      "rs_countries s = topN (label_rows cs) 12" "rs_versions s = topN (label_rows vs) 8" "rs_clients s = topN (label_rows ks) 10"
      "rs_gh_daily s = row_series (axis today days) 0 (column word_of_int g) ()"
      "collectAssets a = (rs_assets s, rs_platforms s, rs_variants s, rs_formats s)"
      "collectCurves order (curvesQuery gh) = (rs_curves s, rs_curve_days s)"
      using assms(2)
      by (auto simp: rel_CollectStats_def stats_step_def q r collectDaily_def collectTotals_def totalsQuery_def Let_def
          collectDimensions_def collectGitHub_def empty_release_def gd puts
          intro: z dest!: g0 split: prod.splits option.splits)
  qed
qed

section \<open>What the page counts\<close>

lemma dailyQuery_day:
  assumes "mset dl = mset (dailyQuery uA today days log)" "i \<le> days"
  shows "row_series (axis today days) 0 (column f dl) () ! i =
    (case filter (\<lambda>e. day_of (re_time e) = axis today days ! i) log of
       [] \<Rightarrow> 0
     | e # es \<Rightarrow> f (countIf (\<lambda>e. re_status e = 302) (e # es), countIf (\<lambda>e. re_status e \<noteq> 302) (e # es),
                 uA (map re_ip (filter (\<lambda>e. re_status e = 302) (e # es)))))"
    (is "_ = (case ?es of [] \<Rightarrow> 0 | e # es \<Rightarrow> ?v (e # es))")
proof -
  let ?d = "axis today days ! i"
  have i: "i < length (axis today days)" using assms(2) by (simp add: axis_props)
  then have "today - int days \<le> ?d" using axis_props(3) [of ?d today days] nth_mem by blast
  then have es: "filter (\<lambda>e. day_of (re_time e) = ?d) (since_days today days re_time log) = ?es"
    unfolding since_days_def filter_filter by (intro filter_cong refl) auto
  have rows: "(?d, (), v) \<in> set (column f dl) \<longleftrightarrow> ?es \<noteq> [] \<and> v = ?v ?es" for v
  proof -
    have "(?d, (), v) \<in> set (column f dl) \<longleftrightarrow> (\<exists>x. (?d, x) \<in> set dl \<and> v = f x)" by (force simp: column_def)
    also have "\<dots> \<longleftrightarrow> (\<exists>es. (?d, es) \<in> set (groups (\<lambda>e. day_of (re_time e)) (since_days today days re_time log)) \<and> v = ?v es)"
      unfolding mset_eq_setD [OF assms(1)] dailyQuery_def set_map by (simp add: image_iff split_beta) force
    finally show ?thesis by (auto simp: groups_set es)
  qed
  have "cell 0 (column f dl) () ?d = (if ?es = [] then 0 else ?v ?es)"
    by (rule cell_functional) (use rows in \<open>cases "?es = []"; simp\<close>)+
  with i show ?thesis by (cases ?es) (simp_all add: row_series_def)
qed

lemma daily_counts:
  assumes "mset dl = mset (dailyQuery uA today days log)" "i \<le> days"
  shows "row_series (axis today days) 0 (column (\<lambda>(ok, bad, ips). ok) dl) () ! i =
      of_nat (length (filter (\<lambda>e. day_of (re_time e) = axis today days ! i \<and> re_status e = 302) log))"
    "row_series (axis today days) 0 (column (\<lambda>(ok, bad, ips). bad) dl) () ! i =
      of_nat (length (filter (\<lambda>e. day_of (re_time e) = axis today days ! i \<and> re_status e \<noteq> 302) log))"
proof -
  let ?es = "filter (\<lambda>e. day_of (re_time e) = axis today days ! i) log"
  have "filter (\<lambda>e. day_of (re_time e) = axis today days ! i \<and> P e) log = filter P ?es" for P
    by (simp only: filter_filter)
  note split = this
  show "row_series (axis today days) 0 (column (\<lambda>(ok, bad, ips). ok) dl) () ! i =
      of_nat (length (filter (\<lambda>e. day_of (re_time e) = axis today days ! i \<and> re_status e = 302) log))"
    unfolding dailyQuery_day [OF assms] split by (cases ?es) (simp_all add: countIf_def)
  show "row_series (axis today days) 0 (column (\<lambda>(ok, bad, ips). bad) dl) () ! i =
      of_nat (length (filter (\<lambda>e. day_of (re_time e) = axis today days ! i \<and> re_status e \<noteq> 302) log))"
    unfolding dailyQuery_day [OF assms] split by (cases ?es) (simp_all add: countIf_def)
qed

lemma sum_by_key_weighted:
  assumes "finite K" "\<And>e. e \<in> set es \<Longrightarrow> f e \<in> K"
  shows "(\<Sum>k\<in>K. sum_list (map w (filter (\<lambda>e. f e = k) es))) = sum_list (map (w :: 'e \<Rightarrow> 'w :: comm_monoid_add) es)"
  using assms(2)
proof (induction es)
  case (Cons e es)
  have "(\<Sum>k\<in>K. sum_list (map w (filter (\<lambda>e. f e = k) (e # es)))) =
      (\<Sum>k\<in>K. (if k = f e then w e else 0) + sum_list (map w (filter (\<lambda>e. f e = k) es)))"
    by (intro sum.cong refl) simp
  then show ?case using Cons assms(1) by (simp add: sum.distrib sum.delta)
qed simp

lemmas sum_by_key = sum_by_key_weighted [where w = "\<lambda>_. 1 :: u64", unfolded sum_list_triv, simplified]

lemma sum_same_rows: "mset xs = mset ys \<Longrightarrow> sum_list (map f xs) = sum_list (map (f :: 'r \<Rightarrow> u64) ys)"
  by (simp only: sum_mset_sum_list [symmetric] mset_map)

text \<open>The bars of a count add up to the rows they classify, the folded tail included.\<close>

lemma label_bars_total:
  assumes "mset rows = mset (labelQuery expr (\<lambda>es. of_nat (length es)) today days log)"
  shows "sum_list (map lc_n (topN (label_rows rows) n)) = of_nat (length (releaseRows today days log))"
proof -
  let ?es = "releaseRows today days log"
  have "sum_list (map lc_n (topN (label_rows rows) n)) = sum_list (map snd rows)"
    by (simp add: topN_total [THEN conjunct1] label_rows_def comp_def case_prod_beta)
  also have "\<dots> = sum_list (map snd (labelQuery expr (\<lambda>es. of_nat (length es)) today days log))"
    by (rule sum_same_rows [OF assms])
  also have "\<dots> = sum_list (map snd (map (\<lambda>(k, es). (k, of_nat (length es))) (groups expr ?es)))"
    by (rule sum_same_rows) (simp only: labelQuery_def mset_sort)
  also have "\<dots> = (\<Sum>k\<in>set (map expr ?es). of_nat (length (filter (\<lambda>e. expr e = k) ?es)))"
    by (simp add: groups_def comp_def sum_list_distinct_conv_sum_set)
  also have "\<dots> = of_nat (length ?es)" by (rule sum_by_key) simp_all
  finally show ?thesis .
qed

lemma sum_over_axis: "distinct ds \<Longrightarrow> sum_list (map f ds) = sum f (set ds)"
  by (rule sum_list_distinct_conv_sum_set)

text \<open>C11. The release page counts what was logged, in whatever order the groups of a query come. A
  day's two numbers are its redirects and its other answers; the bars by version and the bars by
  country both add up to the headline number, tail included; and when every redirect logged has a
  file and none is dated after today, so do the days of the chart.\<close>

theorem release_page_counts:
  assumes "same_answers days db (release_db uA uS today log gh)" "rel_CollectStats order db today days = Inr s"
  shows "(\<forall>i \<le> days.
      rs_redirects s ! i = of_nat (length (filter (\<lambda>e. day_of (re_time e) = rs_days s ! i \<and> re_status e = 302) log)) \<and>
      rs_rejected s ! i = of_nat (length (filter (\<lambda>e. day_of (re_time e) = rs_days s ! i \<and> re_status e \<noteq> 302) log))) \<and>
    rs_total s = of_nat (length (releaseRows today days log)) \<and>
    sum_list (map lc_n (rs_versions s)) = rs_total s \<and> sum_list (map lc_n (rs_countries s)) = rs_total s \<and>
    ((\<forall>e \<in> set log. re_status e = 302 \<longrightarrow> re_file e \<noteq> [] \<and> day_of (re_time e) \<le> today) \<longrightarrow>
      sum_list (rs_redirects s) = rs_total s)"
proof -
  let ?ax = "axis today days"
  obtain dl cs vs where d: "mset dl = mset (dailyQuery uA today days log)"
    and cs: "mset cs = mset (labelQuery (\<lambda>e. countryBucket (re_country e)) (\<lambda>es. of_nat (length es)) today days log)"
    and vs: "mset vs = mset (labelQuery (\<lambda>e. versionBucket (re_version e)) (\<lambda>es. of_nat (length es)) today days log)"
    and s: "rs_days s = ?ax" "rs_redirects s = row_series ?ax 0 (column (\<lambda>(ok, bad, ips). ok) dl) ()"
      "rs_rejected s = row_series ?ax 0 (column (\<lambda>(ok, bad, ips). bad) dl) ()"
      "rs_total s = of_nat (length (releaseRows today days log))"
      "rs_countries s = topN (label_rows cs) 12" "rs_versions s = topN (label_rows vs) 8"
    by (rule window_rows [OF assms])
  note day = daily_counts [OF d]
  have "sum_list (rs_redirects s) = of_nat (length (releaseRows today days log))"
    if log: "\<forall>e \<in> set log. re_status e = 302 \<longrightarrow> re_file e \<noteq> [] \<and> day_of (re_time e) \<le> today"
  proof -
    let ?es = "releaseRows today days log"
    have rows: "filter (\<lambda>e. day_of (re_time e) = k \<and> re_status e = 302) log = filter (\<lambda>e. day_of (re_time e) = k) ?es"
      if "k \<in> set ?ax" for k
      using that log unfolding releaseRows_def since_days_def filter_filter
      by (intro filter_cong refl) (auto simp: axis_props)
    have "rs_redirects s = map (\<lambda>k. of_nat (length (filter (\<lambda>e. day_of (re_time e) = k) ?es))) ?ax"
    proof (rule nth_equalityI)
      fix i assume "i < length (rs_redirects s)"
      then have i: "i < length ?ax" "i \<le> days" by (simp_all add: s row_series_def axis_props)
      then show "rs_redirects s ! i = map (\<lambda>k. of_nat (length (filter (\<lambda>e. day_of (re_time e) = k) ?es))) ?ax ! i"
        using day(1) [OF i(2)] rows [OF nth_mem [OF i(1)]] by (simp add: s)
    qed (simp add: s row_series_def)
    then have "sum_list (rs_redirects s) = (\<Sum>k\<in>set ?ax. of_nat (length (filter (\<lambda>e. day_of (re_time e) = k) ?es)))"
      by (simp add: sum_over_axis axis_props(1))
    also have "\<dots> = of_nat (length ?es)"
      by (rule sum_by_key) (use log in \<open>auto simp: releaseRows_def since_days_def axis_props\<close>)
    finally show ?thesis .
  qed
  then show ?thesis using day by (simp add: s label_bars_total [OF cs] label_bars_total [OF vs])
qed

section \<open>Labels come from a closed vocabulary\<close>

lemma version_shaped_split:
  assumes "version_shaped v"
  obtains a b c where "v = a @ ''.'' @ b @ ''.'' @ c" "a \<noteq> []" "b \<noteq> []" "c \<noteq> []" "list_all is_digit (a @ b @ c)"
proof -
  from assms obtain a b c where p: "split_on CHR ''.'' v = [a, b, c]"
      "a \<noteq> []" "b \<noteq> []" "c \<noteq> []" "list_all is_digit (a @ b @ c)"
    by (auto simp: version_shaped_def split: list.splits)
  from join_split_on [of "CHR ''.''" v] have "v = a @ ''.'' @ b @ ''.'' @ c" by (simp add: p(1))
  with p(2-) show thesis using that by blast
qed

lemma label_rows_named:
  assumes "mset rows = mset (labelQuery expr agg today days log)"
  shows "lc_label ` set (topN (label_rows rows) n) \<subseteq> insert unknownBucket (range expr)"
proof -
  have "fst ` set rows \<subseteq> range expr"
    unfolding mset_eq_setD [OF assms] labelQuery_def set_sort set_map by (auto simp: groups_def)
  then have "lc_label ` set (label_rows rows) \<subseteq> range expr" by (force simp: label_rows_def)
  with topN_labels [of "label_rows rows" n] show ?thesis by blast
qed

text \<open>C40. Nothing a client sends can name a bar, except a release tag: whatever the two tables hold, a
  bar by client is one of four names, a bar by version is \<open>other\<close> or three numbers with two dots, and
  the bars by platform, variant and format are the fixed buckets.\<close>

theorem window_labels_closed:
  assumes "same_answers days db (release_db uA uS today log gh)" "rel_CollectStats order db today days = Inr s"
  shows "lc_label ` set (rs_clients s) \<subseteq> {''Homebrew arm64'', ''Homebrew intel'', ''pwndbg-installer'', ''other''} \<and>
    (\<forall>v \<in> lc_label ` set (rs_versions s). v = ''other'' \<or> (\<exists>a b c. v = a @ ''.'' @ b @ ''.'' @ c \<and>
      a \<noteq> [] \<and> b \<noteq> [] \<and> c \<noteq> [] \<and> list_all is_digit (a @ b @ c))) \<and>
    lc_label ` set (rs_platforms s) \<subseteq> set platforms \<and>
    lc_label ` set (rs_variants s) \<subseteq> {''pwndbg-gdb'', ''pwndbg-lldb'', ''other''} \<and>
    lc_label ` set (rs_formats s) \<subseteq> set (''other'' # knownFormats)"
proof -
  obtain vs ks a where vs: "mset vs = mset (labelQuery (\<lambda>e. versionBucket (re_version e)) (\<lambda>es. of_nat (length es)) today days log)"
    and ks: "mset ks = mset (labelQuery (\<lambda>e. clientBucket (re_agent e)) (\<lambda>es. uA (map re_ip es)) today days log)"
    and s: "rs_versions s = topN (label_rows vs) 8" "rs_clients s = topN (label_rows ks) 10"
      "collectAssets a = (rs_assets s, rs_platforms s, rs_variants s, rs_formats s)"
    by (rule window_rows [OF assms])
  have "clientBucket u \<in> {''Homebrew arm64'', ''Homebrew intel'', ''pwndbg-installer'', ''other''}" for u
    by (simp add: clientBucket_def)
  then have "insert unknownBucket (range (\<lambda>e. clientBucket (re_agent e))) \<subseteq>
      {''Homebrew arm64'', ''Homebrew intel'', ''pwndbg-installer'', ''other''}"
    unfolding unknownBucket_def by blast
  then have c: "lc_label ` set (rs_clients s) \<subseteq> {''Homebrew arm64'', ''Homebrew intel'', ''pwndbg-installer'', ''other''}"
    using label_rows_named [OF ks, of 10] unfolding s by (rule order_trans [rotated])
  have "v = ''other'' \<or> version_shaped v" if "v \<in> lc_label ` set (rs_versions s)" for v
    using that label_rows_named [OF vs, of 8] by (auto simp: s unknownBucket_def versionBucket_def split: if_splits)
  then have v: "\<forall>v \<in> lc_label ` set (rs_versions s). v = ''other'' \<or> (\<exists>a b c. v = a @ ''.'' @ b @ ''.'' @ c \<and>
      a \<noteq> [] \<and> b \<noteq> [] \<and> c \<noteq> [] \<and> list_all is_digit (a @ b @ c))"
    by (metis version_shaped_split)
  from c v bars_closed_vocabulary [of a] show ?thesis by (simp add: s(3) unknownBucket_def)
qed

section \<open>Downloads per day\<close>

text \<open>The rows a window keeps of an asset, in the order of time: the deltas telescope.\<close>

definition counted_delta :: "int \<times> int \<times> time \<Rightarrow> bool" where
  "counted_delta x \<longleftrightarrow> (case x of (d, delta, prev) \<Rightarrow> 0 < prev \<and> 0 < delta)"

definition lag_row :: "downloadStats option \<times> downloadStats \<Rightarrow> int \<times> int \<times> time" where
  "lag_row x = (case x of
     (None, r) \<Rightarrow> (day_of (ds_time r), uint (gh_count r) - 0, 0)
   | (Some q, r) \<Rightarrow> (day_of (ds_time r), uint (gh_count r) - uint (gh_count q), ds_time q))"

lemma lag_rows_alt: "lag_rows rs = map lag_row (zip (None # map Some (sort_key ds_time rs)) (sort_key ds_time rs))"
  by (auto simp: lag_rows_def lag_row_def Let_def split: option.split)

lemma lag_row_simps:
  "counted_delta (lag_row (Some p, r)) \<longleftrightarrow> 0 < ds_time p \<and> uint (gh_count p) < uint (gh_count r)"
  "\<not> counted_delta (lag_row (None, r))"
  "fst (lag_row x) = day_of (ds_time (snd x))" "fst (snd (lag_row (Some p, r))) = uint (gh_count r) - uint (gh_count p)"
  by (auto simp: counted_delta_def lag_row_def split: prod.splits option.splits)

lemma deltas_telescope:
  assumes "sorted_wrt (\<lambda>p r. gh_count p \<le> gh_count r) (p # ws)" "\<forall>r \<in> set (p # ws). 0 < ds_time r"
  shows "sum_list (map (\<lambda>x. fst (snd x)) (filter counted_delta (map lag_row (zip (map Some (p # ws)) ws)))) =
    uint (gh_count (last (p # ws))) - uint (gh_count p)"
  using assms
proof (induction ws arbitrary: p)
  case (Cons r ws)
  have "uint (gh_count p) \<le> uint (gh_count r)" using Cons.prems(1) by (simp add: word_le_def)
  moreover have "sum_list (map (\<lambda>x. fst (snd x)) (filter counted_delta (map lag_row (zip (map Some (r # ws)) ws)))) =
      uint (gh_count (last (r # ws))) - uint (gh_count r)"
    using Cons.prems by (intro Cons.IH) simp_all
  ultimately show ?case using Cons.prems(2)
    by (cases "uint (gh_count p) = uint (gh_count r)") (simp_all add: lag_row_simps)
qed simp

definition counter_grows :: "downloadStats list \<Rightarrow> bool" where
  "counter_grows gh \<longleftrightarrow> (\<forall>p \<in> set gh. \<forall>r \<in> set gh.
     ds_tag p = ds_tag r \<and> ds_asset p = ds_asset r \<and> ds_time p \<le> ds_time r \<longrightarrow> gh_count p \<le> gh_count r)"

text \<open>How much the counter of an asset grew over its rows.\<close>

definition growth :: "downloadStats list \<Rightarrow> int" where
  "growth rs = uint (Max (gh_count ` set rs)) - uint (Min (gh_count ` set rs))"

lemma lag_growth:
  assumes "rs \<noteq> []" "\<forall>r \<in> set rs. 0 < ds_time r"
    "\<And>p r. p \<in> set rs \<Longrightarrow> r \<in> set rs \<Longrightarrow> ds_time p \<le> ds_time r \<Longrightarrow> gh_count p \<le> gh_count r"
  shows "sum_list (map (\<lambda>x. fst (snd x)) (filter counted_delta (lag_rows rs))) = growth rs"
proof -
  obtain p ws where ws: "sort_key ds_time rs = p # ws" using assms(1) by (metis list.exhaust set_empty set_sort)
  have set: "set (p # ws) = set rs" by (simp only: ws [symmetric] set_sort)
  have "sorted (map ds_time (p # ws))" unfolding ws [symmetric] by simp
  then have s: "sorted_wrt (\<lambda>p r. gh_count p \<le> gh_count r) (p # ws)"
    unfolding sorted_map by (rule sorted_wrt_mono_rel [rotated]) (use assms(3) set in blast)
  have "Min (gh_count ` set (p # ws)) = gh_count p" by (rule Min_eqI) (use s in auto)
  moreover
  have l: "last (p # ws) = (p # ws) ! length ws" using last_conv_nth [of "p # ws"] by simp
  have "Max (gh_count ` set (p # ws)) = gh_count (last (p # ws))"
  proof (rule Max_eqI)
    fix n assume "n \<in> gh_count ` set (p # ws)"
    then obtain i where i: "i < length (p # ws)" "n = gh_count ((p # ws) ! i)" by (auto simp only: in_set_conv_nth image_iff)
    show "n \<le> gh_count (last (p # ws))"
    proof (cases "i = length ws")
      case True
      then show ?thesis by (simp only: i(2) l order_refl)
    next
      case False
      then have "i < length ws" using i(1) by simp
      then show ?thesis unfolding l i(2) using sorted_wrt_nth_less [OF s, of i "length ws"] by simp
    qed
  qed auto
  moreover have "sum_list (map (\<lambda>x. fst (snd x)) (filter counted_delta (lag_rows rs))) =
      sum_list (map (\<lambda>x. fst (snd x)) (filter counted_delta (map lag_row (zip (map Some (p # ws)) ws))))"
    by (simp add: lag_rows_alt ws lag_row_simps)
  moreover have "\<dots> = uint (gh_count (last (p # ws))) - uint (gh_count p)"
    by (rule deltas_telescope [OF s]) (use assms(2) set in blast)
  ultimately show ?thesis by (simp only: growth_def set)
qed

lemma lag_rows_days:
  assumes "x \<in> set (lag_rows rs)"
  shows "\<exists>r \<in> set rs. fst x = day_of (ds_time r)"
proof -
  from assms obtain y where y: "y \<in> set (zip (None # map Some (sort_key ds_time rs)) (sort_key ds_time rs))" "x = lag_row y"
    by (auto simp: lag_rows_alt)
  have "snd y \<in> set (sort_key ds_time rs)" by (rule set_zip_rightD [of "fst y"]) (use y(1) in \<open>simp only: prod.collapse\<close>)
  then show ?thesis by (auto simp: y(2) lag_row_simps)
qed

lemma sum_concat: "sum_list (concat xss) = sum_list (map sum_list xss)"
  by (induction xss) simp_all

lemma perDay_series:
  assumes "mset g = mset (perDay today days gh)"
  defines "xs \<equiv> filter counted_delta (concat (map (\<lambda>(k, rs). lag_rows rs)
      (groups (\<lambda>r. (ds_tag r, ds_asset r)) (since_days today days ds_time gh))))"
  shows "cell 0 (column word_of_int g) () d = (of_int (sum_list (map (\<lambda>x. fst (snd x)) (filter (\<lambda>x. fst x = d) xs))) :: u64)"
    (is "_ = of_int ?v")
proof -
  have eq: "perDay today days gh = map (\<lambda>(d, ys). (d, sum_list (map (\<lambda>x. fst (snd x)) ys))) (groups fst xs)"
    unfolding perDay_def xs_def counted_delta_def by (simp add: case_prod_beta')
  have rows: "(d, (), v) \<in> set (column word_of_int g) \<longleftrightarrow> filter (\<lambda>x. fst x = d) xs \<noteq> [] \<and> v = (of_int ?v :: u64)" for v
  proof -
    have "(d, (), v) \<in> set (column word_of_int g) \<longleftrightarrow> (\<exists>n. (d, n) \<in> set g \<and> v = of_int n)" by (force simp: column_def)
    also have "\<dots> \<longleftrightarrow> (\<exists>ys. (d, ys) \<in> set (groups fst xs) \<and> v = of_int (sum_list (map (\<lambda>x. fst (snd x)) ys)))"
      unfolding mset_eq_setD [OF assms(1)] eq by (auto simp: image_iff split_beta) force+
    finally show ?thesis by (auto simp: groups_set)
  qed
  show ?thesis by (rule cell_functional) (use rows in \<open>cases "filter (\<lambda>x. fst x = d) xs = []"; simp\<close>)+
qed


end
