(* ===== verification/ReleaseCurves.thy ===== *)
theory ReleaseCurves
  imports ReleaseQueries
begin

text \<open>
  The adoption curves of \<open>collectCurves\<close> over the rows its query gives, against their
  specification: the largest total polled so far, less the total of the first day.
\<close>

section \<open>The walk is a running maximum\<close>

fun running_max :: "(nat \<Rightarrow> u64 option) \<Rightarrow> u64 \<Rightarrow> nat list \<Rightarrow> u64" where
  "running_max pts m [] = m"
| "running_max pts m (j # js) = running_max pts (case pts j of Some v \<Rightarrow> max m v | None \<Rightarrow> m) js"

lemma running_max_absorb: "max b (running_max pts (max b m) js) = max b (running_max pts m js)"
proof (induction js arbitrary: m)
  case (Cons j js)
  show ?case
  proof (cases "pts j")
    case (Some v)
    have "max (max b m) v = max b (max m v)" by (simp add: max.assoc)
    with Some Cons [of "max m v"] show ?thesis by simp
  qed (simp add: Cons)
qed simp

lemma curve_walk_max:
  "k < length js \<Longrightarrow> curve_walk pts b m js ! k = max b (running_max pts m (take (Suc k) js)) - b"
proof (induction js arbitrary: k m)
  case (Cons j js)
  define r1 where "r1 = (case pts j of Some v \<Rightarrow> max m v | None \<Rightarrow> m)"
  have w: "curve_walk pts b m (j # js) = (max b r1 - b) # curve_walk pts b (max b r1) js"
    by (auto simp: r1_def Let_def max_def not_less split: option.split)
  show ?case
  proof (cases k)
    case (Suc l)
    then have "curve_walk pts b m (j # js) ! k = max b (running_max pts (max b r1) (take (Suc l) js)) - b"
      using Cons by (simp add: w del: curve_walk.simps)
    then show ?thesis by (simp add: Suc running_max_absorb r1_def del: curve_walk.simps)
  qed (simp add: w r1_def del: curve_walk.simps)
qed simp

lemma running_max_set: "running_max pts m js = Max (insert m {v. \<exists>j \<in> set js. pts j = Some v})"
proof (induction js arbitrary: m)
  case (Cons j js)
  have fin: "finite {v. \<exists>j \<in> set js. pts j = Some v}"
  proof -
    have "{v. \<exists>j \<in> set js. pts j = Some v} \<subseteq> (\<lambda>j. the (pts j)) ` set js" by force
    then show ?thesis by (rule finite_subset) simp
  qed
  show ?case
  proof (cases "pts j")
    case None
    then have "{v. \<exists>i \<in> set (j # js). pts i = Some v} = {v. \<exists>i \<in> set js. pts i = Some v}" by auto
    with None Cons show ?thesis by simp
  next
    case (Some v)
    then have "{v. \<exists>i \<in> set (j # js). pts i = Some v} = insert v {v. \<exists>i \<in> set js. pts i = Some v}" by auto
    moreover have "Max (insert (max m v) A) = Max (insert m (insert v A))" if "finite A" for A :: "u64 set"
      using that by (cases "A = {}") (simp_all add: max.assoc)
    ultimately show ?thesis using Some Cons fin by simp
  qed
qed simp

section \<open>The points of a tag\<close>

lemma curvesQuery_set:
  "(tag, d, n) \<in> set (curvesQuery gh) \<longleftrightarrow> (\<exists>xs. ((tag, d), xs) \<in> set (groups fst (assetDays gh)) \<and> n = sum_list (map snd xs))"
  unfolding curvesQuery_def set_sort set_map by (force simp: image_iff)

text \<open>The total a day has for a tag: of each asset the largest count polled on that day.\<close>

definition day_total :: "downloadStats list \<Rightarrow> string \<Rightarrow> int \<Rightarrow> u64" where
  "day_total gh tag d =
    (let rows = filter (\<lambda>r. ds_tag r = tag \<and> day_of (ds_time r) = d) gh
     in \<Sum>a \<in> ds_asset ` set rows. max_count (filter (\<lambda>r. ds_asset r = a) rows))"

definition polled :: "downloadStats list \<Rightarrow> string \<Rightarrow> int set" where
  "polled gh tag = {d. \<exists>r \<in> set gh. ds_tag r = tag \<and> day_of (ds_time r) = d}"

lemma asset_days_of:
  "filter (\<lambda>x. fst x = (tag, d)) (assetDays gh) =
    map (\<lambda>(k, rs). ((tag, d), max_count rs))
      (groups (\<lambda>r. (ds_tag r, ds_asset r, day_of (ds_time r))) (filter (\<lambda>r. ds_tag r = tag \<and> day_of (ds_time r) = d) gh))"
proof -
  let ?key = "\<lambda>r. (ds_tag r, ds_asset r, day_of (ds_time r))"
  have "groups ?key (filter (\<lambda>r. ds_tag r = tag \<and> day_of (ds_time r) = d) gh) =
      filter (\<lambda>(k, es). fst k = tag \<and> snd (snd k) = d) (groups ?key gh)"
    by (rule groups_window [where Q = "\<lambda>k. fst k = tag \<and> snd (snd k) = d"]) simp
  moreover have "filter (\<lambda>x. fst x = (tag, d)) (map (\<lambda>((tag, a, d), rs). ((tag, d), max_count rs)) ys) =
      map (\<lambda>(k, rs). ((tag, d), max_count rs)) (filter (\<lambda>(k, es). fst k = tag \<and> snd (snd k) = d) ys)" for ys
    by (induction ys) auto
  ultimately show ?thesis unfolding assetDays_def by simp
qed

lemma curvesQuery_rows: "(tag, d, n) \<in> set (curvesQuery gh) \<longleftrightarrow> d \<in> polled gh tag \<and> n = day_total gh tag d"
proof -
  let ?rows = "filter (\<lambda>r. ds_tag r = tag \<and> day_of (ds_time r) = d) gh"
  let ?key = "\<lambda>r. (ds_tag r, ds_asset r, day_of (ds_time r))"
  let ?xs = "filter (\<lambda>x. fst x = (tag, d)) (assetDays gh)"
  have "?xs = [] \<longleftrightarrow> ?rows = []" unfolding asset_days_of by (simp add: groups_def)
  then have e: "?xs \<noteq> [] \<longleftrightarrow> d \<in> polled gh tag" by (auto simp: polled_def filter_empty_conv)
  have inj: "inj_on ?key (set ?rows) \<longleftrightarrow> inj_on ds_asset (set ?rows)" by (auto simp: inj_on_def)
  have "sum_list (map snd ?xs) = (\<Sum>k \<in> ?key ` set ?rows. max_count (filter (\<lambda>r. ?key r = k) ?rows))"
    unfolding asset_days_of groups_def by (simp add: comp_def sum_list_distinct_conv_sum_set)
  also have "?key ` set ?rows = (\<lambda>a. (tag, a, d)) ` ds_asset ` set ?rows" by force
  also have "(\<Sum>k \<in> (\<lambda>a. (tag, a, d)) ` ds_asset ` set ?rows. max_count (filter (\<lambda>r. ?key r = k) ?rows)) =
      (\<Sum>a \<in> ds_asset ` set ?rows. max_count (filter (\<lambda>r. ?key r = (tag, a, d)) ?rows))"
    by (subst sum.reindex) (auto simp: inj_on_def)
  also have "\<dots> = day_total gh tag d"
    unfolding day_total_def Let_def
    by (intro sum.cong refl arg_cong [where f = max_count] filter_cong) auto
  finally show ?thesis using e by (auto simp: curvesQuery_set groups_set)
qed

text \<open>In a tag's rows the days increase.\<close>

definition tag_increasing :: "(string \<times> int \<times> u64) list \<Rightarrow> bool" where
  "tag_increasing rows \<longleftrightarrow> sorted_wrt (\<lambda>x y. fst x = fst y \<longrightarrow> fst (snd x) < fst (snd y)) rows"

lemma curvesQuery_increasing: "tag_increasing (curvesQuery gh)"
proof -
  let ?k = "\<lambda>(tag, d, n). (tag, d)"
  let ?rows = "map (\<lambda>((tag, d), xs). (tag, d, sum_list (map snd xs))) (groups fst (assetDays gh))"
  have "map ?k ?rows = map fst (groups fst (assetDays gh))" by (auto simp: case_prod_beta)
  then have "distinct (map ?k ?rows)" by (simp only: groups_distinct)
  moreover have "mset (map ?k (curvesQuery gh)) = mset (map ?k ?rows)" by (simp only: curvesQuery_def mset_map mset_sort)
  ultimately have "distinct (map ?k (curvesQuery gh))" using mset_eq_imp_distinct_iff by blast
  moreover have "sorted (map ?k (curvesQuery gh))" unfolding curvesQuery_def by simp
  ultimately have "sorted_wrt (<) (map ?k (curvesQuery gh))" by (rule strict_sorted_iff [THEN iffD2, OF conjI, rotated])
  then have "sorted_wrt (\<lambda>x y. ?k x < ?k y) (curvesQuery gh)" unfolding sorted_wrt_map .
  then show ?thesis unfolding tag_increasing_def
    by (rule sorted_wrt_mono_rel [rotated]) (auto simp: less_prod_def)
qed

definition tag_curve :: "(string \<times> int \<times> u64) list \<Rightarrow> string \<Rightarrow> raw_curve \<Rightarrow> bool" where
  "tag_curve rows tag r \<longleftrightarrow> cv_pts r 0 \<noteq> None \<and> cv_pts r (cv_last r) \<noteq> None \<and>
     (\<forall>i v. cv_pts r i = Some v \<longleftrightarrow> (tag, cv_first r + int i, v) \<in> set rows) \<and>
     (\<forall>d v. (tag, d, v) \<in> set rows \<longrightarrow> cv_first r \<le> d \<and> nat (d - cv_first r) \<le> cv_last r)"

lemma curve_rows_keys: "set (map fst (fold curve_row rows [])) = fst ` set rows"
proof (induction rows rule: rev_induct)
  case (snoc row rows)
  then show ?case by (cases row) (auto simp: curve_row_def Let_def dom_update)
qed simp

lemma curve_rows:
  assumes "tag_increasing rows" "map_of (fold curve_row rows []) tag = Some r"
  shows "tag_curve rows tag r"
  using assms
proof (induction rows arbitrary: r rule: rev_induct)
  case (snoc row rows)
  obtain t d n where row: "row = (t, d, n)" by (cases row)
  have inc: "tag_increasing rows" "\<And>d' v. (t, d', v) \<in> set rows \<Longrightarrow> d' < d"
    using snoc.prems(1) by (auto simp: tag_increasing_def sorted_wrt_append row)
  let ?m = "fold curve_row rows []"
  have m: "map_of (fold curve_row (rows @ [row]) []) tag = (if tag = t
      then (let r = the_default \<lparr>cv_first = d, cv_pts = Map.empty, cv_last = 0\<rparr> (map_of ?m t); i = nat (d - cv_first r)
            in Some (r\<lparr>cv_pts := (cv_pts r)(i \<mapsto> n), cv_last := max (cv_last r) i\<rparr>))
      else map_of ?m tag)"
    by (simp add: row curve_row_def Let_def AList.update_conv')
  show ?case
  proof (cases "tag = t")
    case False
    with m snoc.prems(2) have "tag_curve rows tag r" using snoc.IH [OF inc(1)] by simp
    moreover from False have "tag_curve (rows @ [row]) tag r = tag_curve rows tag r" by (simp add: tag_curve_def row)
    ultimately show ?thesis by simp
  next
    case True
    show ?thesis
    proof (cases "map_of ?m t")
      case None
      have "t \<notin> fst ` set rows" using None curve_rows_keys [of rows] by (simp add: map_of_eq_None_iff)
      then have "(t, d', v) \<notin> set rows" for d' v by force
      with None True m snoc.prems(2) show ?thesis by (auto simp: tag_curve_def row the_default_def Let_def split: if_splits)
    next
      case (Some r0)
      with True have r0: "tag_curve rows t r0" using snoc.IH [OF inc(1)] by simp
      let ?i = "nat (d - cv_first r0)"
      have r: "r = r0\<lparr>cv_pts := (cv_pts r0)(?i \<mapsto> n), cv_last := max (cv_last r0) ?i\<rparr>"
        using m True Some snoc.prems(2) by (simp add: the_default_def Let_def)
      obtain v0 where "(t, cv_first r0 + int (cv_last r0), v0) \<in> set rows" using r0 by (auto simp: tag_curve_def)
      from inc(2) [OF this] have i: "cv_last r0 < ?i" "cv_first r0 + int ?i = d" by linarith+
      have "cv_pts r i = Some v \<longleftrightarrow> (tag, cv_first r + int i, v) \<in> set (rows @ [row])" for i v
      proof (cases "i = ?i")
        case True
        then show ?thesis using i(2) inc(2) \<open>tag = t\<close> by (auto simp: r row)
      next
        case False
        with i(2) have "cv_first r0 + int i \<noteq> d" by linarith
        with False r0 \<open>tag = t\<close> show ?thesis by (auto simp: r row tag_curve_def)
      qed
      with r0 i True show ?thesis by (force simp: tag_curve_def r row)
    qed
  qed
qed simp

section \<open>A curve of the page\<close>

lemma collected_curve:
  assumes "collectCurves order rows = (cs, n)" "c \<in> set cs"
  obtains r where "map_of (fold curve_row rows []) (rc_tag c) = Some r" "release_curve (rc_tag c) r = Some c"
proof -
  from assms obtain t r where "map_of (fold curve_row rows []) t = Some r" "release_curve t r = Some c"
    by (auto simp: collectCurves_def Let_def List.map_filter_def split: option.splits)
  moreover from this(2) have "rc_tag c = t" by (auto simp: release_curve_def Let_def split: if_splits)
  ultimately show thesis using that by blast
qed

lemma tag_curve_polled:
  assumes "tag_curve (curvesQuery gh) tag r"
  shows "cv_first r \<in> polled gh tag" "\<And>d. d \<in> polled gh tag \<Longrightarrow> cv_first r \<le> d"
    "Max (polled gh tag) = cv_first r + int (cv_last r)"
    "cv_pts r i = (if cv_first r + int i \<in> polled gh tag then Some (day_total gh tag (cv_first r + int i)) else None)"
proof -
  have pts: "cv_pts r i = Some v \<longleftrightarrow> cv_first r + int i \<in> polled gh tag \<and> v = day_total gh tag (cv_first r + int i)" for i v
    using assms by (auto simp: tag_curve_def curvesQuery_rows)
  then show "cv_pts r i = (if cv_first r + int i \<in> polled gh tag then Some (day_total gh tag (cv_first r + int i)) else None)"
    using pts [of i "day_total gh tag (cv_first r + int i)"] by (cases "cv_pts r i") (use pts in force)+
  show "cv_first r \<in> polled gh tag" using assms pts [of 0] by (auto simp: tag_curve_def)
  have le: "cv_first r \<le> d \<and> nat (d - cv_first r) \<le> cv_last r" if "d \<in> polled gh tag" for d
    using assms that by (simp add: tag_curve_def curvesQuery_rows)
  then show "\<And>d. d \<in> polled gh tag \<Longrightarrow> cv_first r \<le> d" by blast
  have "polled gh tag \<subseteq> day_of ` ds_time ` set gh" by (auto simp: polled_def)
  then have "finite (polled gh tag)" by (rule finite_subset) simp
  then show "Max (polled gh tag) = cv_first r + int (cv_last r)"
  proof (rule Max_eqI)
    show "cv_first r + int (cv_last r) \<in> polled gh tag" using assms pts [of "cv_last r"] by (auto simp: tag_curve_def)
  qed (use le in force)
qed

text \<open>The value the walk has on a day.\<close>

lemma walk_peak:
  assumes "tag_curve (curvesQuery gh) tag r" "k \<le> cv_last r"
  shows "curve_walk (cv_pts r) (the_default 0 (cv_pts r 0)) 0 [0..<Suc (cv_last r)] ! k =
    Max (day_total gh tag ` {d \<in> polled gh tag. d \<le> cv_first r + int k}) - day_total gh tag (cv_first r)"
proof -
  note tp = tag_curve_polled [OF assms(1)]
  let ?S = "{v. \<exists>j \<in> set (take (Suc k) [0..<Suc (cv_last r)]). cv_pts r j = Some v}"
  let ?D = "day_total gh tag ` {d \<in> polled gh tag. d \<le> cv_first r + int k}"
  have "set (take (Suc k) [0..<Suc (cv_last r)]) = {..k}" using assms(2) by (auto simp: take_upt simp del: upt_Suc)
  then have "?S = {v. \<exists>j \<le> k. cv_pts r j = Some v}" by auto
  also have "\<dots> = ?D"
  proof (rule set_eqI, rule iffI)
    fix v assume "v \<in> {v. \<exists>j \<le> k. cv_pts r j = Some v}"
    then show "v \<in> ?D" by (auto simp: tp(4) split: if_splits)
  next
    fix v assume "v \<in> ?D"
    then obtain d where d: "d \<in> polled gh tag" "d \<le> cv_first r + int k" "v = day_total gh tag d" by auto
    with tp(2) [of d] have "cv_first r + int (nat (d - cv_first r)) = d" "nat (d - cv_first r) \<le> k" by linarith+
    with d show "v \<in> {v. \<exists>j \<le> k. cv_pts r j = Some v}" by (auto simp: tp(4) intro!: exI [of _ "nat (d - cv_first r)"])
  qed
  finally have S: "?S = ?D" .
  have b: "the_default 0 (cv_pts r 0) = day_total gh tag (cv_first r)" using tp(1) by (simp add: tp(4) the_default_def)
  have fin: "finite ?D"
  proof -
    have "polled gh tag \<subseteq> day_of ` ds_time ` set gh" by (auto simp: polled_def)
    then have "finite (polled gh tag)" by (rule finite_subset) simp
    then show ?thesis by simp
  qed
  have mem: "day_total gh tag (cv_first r) \<in> ?D" using tp(1) by auto
  have "max (day_total gh tag (cv_first r)) (Max (insert 0 ?D)) = Max ?D"
    using fin mem Max_ge [OF fin mem] by (subst Max_insert) (auto simp: max_def)
  then show ?thesis
    using curve_walk_max [of k "[0..<Suc (cv_last r)]" "cv_pts r" "the_default 0 (cv_pts r 0)" 0] assms(2)
    unfolding running_max_set S b by (simp del: upt_Suc)
qed

lemma release_curve_fields:
  assumes "release_curve tag r = Some c"
  defines "w \<equiv> curve_walk (cv_pts r) (the_default 0 (cv_pts r 0)) 0 [0..<Suc (cv_last r)]"
  shows "0 < cv_last r" "rc_series c = take 31 w" "rc_total c = last w" "rc_reached c \<longleftrightarrow> 30 \<le> cv_last r"
    "rc_at_horizon c = (if 30 \<le> cv_last r then w ! 30 else last w)"
  using assms(1) by (auto simp: release_curve_def w_def Let_def curveHorizon_def simp del: upt_Suc split: if_splits)

lemma polled_curve:
  assumes "tag_curve (curvesQuery gh) (rc_tag c) r" "release_curve (rc_tag c) r = Some c"
  shows "\<exists>first \<in> polled gh (rc_tag c). (\<forall>d \<in> polled gh (rc_tag c). first \<le> d) \<and>
    (let peak = (\<lambda>k. Max (day_total gh (rc_tag c) ` {d \<in> polled gh (rc_tag c). d \<le> first + int k}));
         lst = nat (Max (polled gh (rc_tag c)) - first); base = day_total gh (rc_tag c) first
     in 0 < lst \<and> length (rc_series c) = min 31 (Suc lst) \<and> (\<forall>k < length (rc_series c). rc_series c ! k = peak k - base) \<and>
       rc_total c = peak lst - base \<and> rc_at_horizon c = peak (min 30 lst) - base \<and> (rc_reached c \<longleftrightarrow> 30 \<le> lst))"
proof (rule bexI [of _ "cv_first r"])
  let ?w = "curve_walk (cv_pts r) (the_default 0 (cv_pts r 0)) 0 [0..<Suc (cv_last r)]"
  note tp = tag_curve_polled [OF assms(1)] and peak = walk_peak [OF assms(1)]
  have len: "length ?w = Suc (cv_last r)"
    using curve_walk_sorted [of "the_default 0 (cv_pts r 0)" 0 "cv_pts r" "[0..<Suc (cv_last r)]"] by (simp del: upt_Suc)
  then have "?w \<noteq> []" by auto
  then have lst: "last ?w = ?w ! cv_last r" using len by (simp add: last_conv_nth del: upt_Suc)
  have c: "0 < cv_last r" "rc_series c = take 31 ?w" "rc_total c = ?w ! cv_last r" "rc_reached c \<longleftrightarrow> 30 \<le> cv_last r"
      "rc_at_horizon c = ?w ! min 30 (cv_last r)"
    using release_curve_fields [OF assms(2)] by (simp_all only: lst) (auto simp: min_def)
  show "(\<forall>d \<in> polled gh (rc_tag c). cv_first r \<le> d) \<and>
    (let peak = (\<lambda>k. Max (day_total gh (rc_tag c) ` {d \<in> polled gh (rc_tag c). d \<le> cv_first r + int k}));
         lst = nat (Max (polled gh (rc_tag c)) - cv_first r); base = day_total gh (rc_tag c) (cv_first r)
     in 0 < lst \<and> length (rc_series c) = min 31 (Suc lst) \<and> (\<forall>k < length (rc_series c). rc_series c ! k = peak k - base) \<and>
       rc_total c = peak lst - base \<and> rc_at_horizon c = peak (min 30 lst) - base \<and> (rc_reached c \<longleftrightarrow> 30 \<le> lst))"
    using c tp(2) len peak unfolding Let_def tp(3) by (auto simp: min_def simp del: upt_Suc)
qed (rule tag_curve_polled [OF assms(1)])


section \<open>An example\<close>

text \<open>Two redirects and a refused request of one day, and two polls of one asset a day apart.\<close>

definition ex_redirect :: "string \<Rightarrow> string \<Rightarrow> 16 word \<Rightarrow> releasesEntry" where
  "ex_redirect version agent status = \<lparr>re_time = 100 * hour, re_ip = Addr4 1, re_country = ''PL'', re_version = version,
     re_file = ''p'', re_uri = ''/releases'', re_status = status, re_agent = agent\<rparr>"

definition ex_rel_log :: "releasesEntry list" where
  "ex_rel_log = [ex_redirect ''1.2.3'' ''homebrew arm64'' 302, ex_redirect ''<b>'' ''curl'' 302,
     ex_redirect ''x'' ''curl'' 404]"

definition ex_poll :: "time \<Rightarrow> int \<Rightarrow> downloadStats" where
  "ex_poll t n = \<lparr>ds_time = t, ds_tag = ''1.2.3'', ds_asset = ''p'', ds_count = n\<rparr>"

definition ex_polls :: "downloadStats list" where
  "ex_polls = [ex_poll (80 * hour) 10, ex_poll (100 * hour) 17]"

definition ex_uniq :: "'a list \<Rightarrow> u64" where
  "ex_uniq xs = of_nat (length (remdups xs))"

abbreviation ex_release_db :: rel_db where
  "ex_release_db \<equiv> release_db ex_uniq ex_uniq 4 ex_rel_log ex_polls"

abbreviation ex_window :: "string + releaseStats" where
  "ex_window \<equiv> rel_CollectStats (\<lambda>_. 0) ex_release_db 4 2"

lemma same_answers_refl: "same_answers days (release_db uA uS today log gh) (release_db uA uS today log gh)"
  by (simp add: same_answers_def release_db_def same_rows_def)

text \<open>Queries that answer are a window.\<close>

lemma release_db_collects:
  obtains s where "rel_CollectStats order (release_db uA uS today log gh) today days = Inr s"
proof -
  obtain a p v f where a: "collectAssets (assetsQuery gh) = (a, p, v, f)" by (metis prod_cases4)
  obtain cs n where c: "collectCurves order (curvesQuery gh) = (cs, n)" by fastforce
  have "\<exists>s. rel_CollectStats order (release_db uA uS today log gh) today days = Inr s"
    by (cases "latestTag gh")
      (auto simp: rel_CollectStats_def release_db_def stats_step_def collectDimensions_def collectGitHub_def Let_def a c)
  with that show thesis by blast
qed

lemma ex_facts:
  "length (releaseRows 4 2 ex_rel_log) = 2" "list_all (\<lambda>e. re_file e \<noteq> [] \<and> day_of (re_time e) \<le> 4) ex_rel_log"
  "map ds_time ex_polls = [80 * hour, 100 * hour]" "map gh_count ex_polls = [10, 17]"
  "map (\<lambda>r. (ds_tag r, ds_asset r)) (since_days 4 2 ds_time ex_polls) = [(''1.2.3'', ''p''), (''1.2.3'', ''p'')]"
  "map (\<lambda>r. day_of (ds_time r)) ex_polls = [3, 4]" "since_days 4 2 ds_time ex_polls = ex_polls"
  by code_simp+

lemma ex_curve: "collectCurves (\<lambda>_. 0) (curvesQuery ex_polls) =
    ([\<lparr>rc_tag = ''1.2.3'', rc_series = [0, 7], rc_total = 7, rc_at_horizon = 7, rc_reached = False\<rparr>], 2)"
  by code_simp

theorem release_page_counts_witness:
  "\<exists>s. ex_window = Inr s \<and> rs_total s = 2 \<and> sum_list (rs_redirects s) = 2 \<and>
    sum_list (map lc_n (rs_versions s)) = 2 \<and> sum_list (map lc_n (rs_countries s)) = 2"
proof -
  obtain s where s: "ex_window = Inr s" by (rule release_db_collects)
  have "\<forall>e \<in> set ex_rel_log. re_status e = 302 \<longrightarrow> re_file e \<noteq> [] \<and> day_of (re_time e) \<le> 4"
    using ex_facts(2) by (simp only: list_all_iff) blast
  with release_page_counts [OF same_answers_refl s] s show ?thesis by (simp add: ex_facts(1))
qed

theorem window_labels_closed_witness:
  "\<exists>s. ex_window = Inr s \<and>
    lc_label ` set (rs_clients s) \<subseteq> {''Homebrew arm64'', ''Homebrew intel'', ''pwndbg-installer'', ''other''}"
proof -
  obtain s where s: "ex_window = Inr s" by (rule release_db_collects)
  note labels = window_labels_closed [OF same_answers_refl s]
  show ?thesis by (rule exI [of _ s], rule conjI [OF s]) (rule labels [THEN conjunct1])
qed



end
