(* ===== verification/Services.thy ===== *)
theory Services
  imports ProxyServe ReleaseQueries NixStart DebServe
begin

text \<open>
  The four routers, from a request to the row it leaves in a table: \<open>InitRouter\<close>, \<open>newRouter\<close> and the
  routes of the two backends. Which registered pattern a request matches is httprouter's decision,
  an argument; so are redirects to a canonical path and its 405 (\<open>RouterAnswer\<close>). With the
  middlewares and the queries of the statistics this says what the pages count.
\<close>

datatype routed = Matched string "string \<Rightarrow> string" | Unmatched | RouterAnswer "w_op list"

type_synonym router = "string list \<Rightarrow> string \<Rightarrow> string \<Rightarrow> routed"

section \<open>A response without a logging writer\<close>

definition conn_op :: "w_op \<Rightarrow> conn \<Rightarrow> conn" where
  "conn_op op c = (case op of
     WriteHeader code \<Rightarrow> http_WriteHeader code c
   | WriteBody e b \<Rightarrow> http_Write e b c
   | _ \<Rightarrow> c\<lparr>cn_header := edit_header op (cn_header c)\<rparr>)"

text \<open>\<open>http.Redirect\<close> to an absolute URL with status 302.\<close>

definition hexEscapeNonASCII :: "string \<Rightarrow> string" where
  "hexEscapeNonASCII s = concat (map (\<lambda>c. if is_ascii c then [c] else CHR ''%'' # hex_encode [c]) s)"

definition http_Found :: "wenv \<Rightarrow> string \<Rightarrow> string \<Rightarrow> w_op list" where
  "http_Found e method url =
     SetHeader ''location'' (hexEscapeNonASCII url) #
     (if method \<in> {''GET'', ''HEAD''} then [SetHeader ''content-type'' ''text/html; charset=utf-8''] else []) @
     WriteHeader 302 #
     (if method = ''GET'' then [WriteBody e (''<a href='' @ [CHR 0x22] @ html_escape url @ [CHR 0x22] @ ''>Found</a>.'' @
        [CHR 0x0A, CHR 0x0A])] else [])"

section \<open>The proxy\<close>

datatype proxy_handle = LoggedProxy string | StatusOK | StatsHandle

definition projectURL :: string where
  "projectURL = ''https://github.com/pwndbg/debuginfod.pwndbg.re/''"

definition InitRouter :: "bool \<Rightarrow> (string \<times> proxy_handle) list" where
  "InitRouter stats =
     [(''/buildid/:buildid/executable'', LoggedProxy ''executable''),
      (''/buildid/:buildid/debuginfo'', LoggedProxy ''debuginfo''),
      (''/buildid/:buildid/source/*path'', LoggedProxy ''source''),
      (''/status'', StatusOK)] @
     (if stats then [(''/stats'', StatsHandle)] else [])"

text \<open>A request with what it meets: the clock and the classifiers, the finder, cache and upstream, what
  the statistics page writes, and whether its row reached the table.\<close>

record proxy_call =
  pc_request :: request
  pc_path :: string
  pc_env :: menv
  pc_run :: req_env
  pc_page :: "w_op list"
  pc_stored :: bool

text \<open>The response, whether its connection was cut, and the row.\<close>

definition proxy_ServeHTTP :: "router \<Rightarrow> bool \<Rightarrow> proxy_call \<Rightarrow> conn \<times> bool \<times> accessLogEntry option" where
  "proxy_ServeHTTP rt stats c =
     (let rs = InitRouter stats; rq = pc_request c;
          plain = (\<lambda>ops. (fold conn_op ops new_conn, False, None))
      in case rt (map fst rs) (rq_method rq) (pc_path c) of
           RouterAnswer ops \<Rightarrow> plain ops
         | Unmatched \<Rightarrow> plain (http_Found (me_write (pc_env c)) (rq_method rq) projectURL)
         | Matched pat params \<Rightarrow> (case map_of rs pat of
             None \<Rightarrow> plain []
           | Some StatusOK \<Rightarrow> plain [WriteHeader 200]
           | Some StatsHandle \<Rightarrow> plain (pc_page c)
           | Some (LoggedProxy ep) \<Rightarrow>
               (case proxy_Middleware (pc_env c) ep (rq\<lparr>rq_build := params ''buildid''\<rparr>) (proxyRequest ep (pc_run c)) new_conn of
                  (w, en, ab) \<Rightarrow> (lw_conn w, ab, Some en))))"

definition access_log :: "router \<Rightarrow> bool \<Rightarrow> proxy_call list \<Rightarrow> accessLogEntry list" where
  "access_log rt stats calls =
     List.map_filter (\<lambda>c. if pc_stored c then snd (snd (proxy_ServeHTTP rt stats c)) else None) calls"

section \<open>What a request leaves in the log\<close>

definition endpoint_of :: "router \<Rightarrow> bool \<Rightarrow> proxy_call \<Rightarrow> string option" where
  "endpoint_of rt stats c =
     (case rt (map fst (InitRouter stats)) (rq_method (pc_request c)) (pc_path c) of
        Matched pat params \<Rightarrow> (case map_of (InitRouter stats) pat of Some (LoggedProxy ep) \<Rightarrow> Some ep | _ \<Rightarrow> None)
      | _ \<Rightarrow> None)"

definition from_ci :: "proxy_call \<Rightarrow> bool" where
  "from_ci c \<longleftrightarrow> ''github_actions'' \<in> set (ghTagsFor (me_gh (pc_env c))
     (case getRealIP (me_port (pc_env c)) (me_addr (pc_env c)) (me_cf (pc_env c)) (rq_peer (pc_request c)) of
        Some a \<Rightarrow> a | None \<Rightarrow> AddrNone))"

definition host_name :: "string \<Rightarrow> proxy_call \<Rightarrow> string" where
  "host_name ep c = (let h = snd (snd (proxyRequest ep (pc_run c))) in if h = [] then unresolvedLabel else h)"

definition received :: "router \<Rightarrow> bool \<Rightarrow> proxy_call \<Rightarrow> int option" where
  "received rt stats c = map_option fst (cn_sent (fst (proxy_ServeHTTP rt stats c)))"

definition cut_off :: "router \<Rightarrow> bool \<Rightarrow> proxy_call \<Rightarrow> bool" where
  "cut_off rt stats c \<longleftrightarrow> fst (snd (proxy_ServeHTTP rt stats c))"

text \<open>A request that ended: its follower, if it had one, is done, and its error, if any, has a text.\<close>

definition ended :: "router \<Rightarrow> bool \<Rightarrow> proxy_call \<Rightarrow> bool" where
  "ended rt stats c \<longleftrightarrow> (case endpoint_of rt stats c of
     None \<Rightarrow> True
   | Some ep \<Rightarrow> source_ok (\<lambda>_. True) ep (pc_run c) \<and>
       (case fst (snd (proxyRequest ep (pc_run c))) of None \<Rightarrow> True | Some e \<Rightarrow> err_text e \<noteq> []))"

lemma endpoint_known: "endpoint_of rt stats c = Some ep \<Longrightarrow> ep \<in> set statsEndpoints"
  by (auto simp: endpoint_of_def InitRouter_def statsEndpoints_def split: routed.splits option.splits proxy_handle.splits if_splits)

lemma row_endpoint: "snd (snd (proxy_ServeHTTP rt stats c)) = None \<longleftrightarrow> endpoint_of rt stats c = None"
  by (auto simp: proxy_ServeHTTP_def endpoint_of_def Let_def split: routed.splits option.splits proxy_handle.splits prod.splits)

definition status_bound :: "lrw \<Rightarrow> bool" where
  "status_bound w \<longleftrightarrow> 0 \<le> lw_status w \<and> lw_status w \<le> 999"

lemma status_bound_run: "list_all final_op ops \<Longrightarrow> status_bound w \<Longrightarrow> status_bound (fold lrw_op ops w)"
proof (induction ops arbitrary: w)
  case (Cons op ops)
  have "status_bound (lrw_op op w)" using Cons.prems by (cases op) (auto simp: status_bound_def lrw_defs)
  with Cons show ?case by simp
qed simp

lemma status_200: "0 \<le> n \<Longrightarrow> n \<le> 999 \<Longrightarrow> (of_int n :: 16 word) = 200 \<longleftrightarrow> n = 200"
proof -
  assume n: "0 \<le> n" "n \<le> 999"
  then have "uint (of_int n :: 16 word) = n" by (simp add: uint_word_of_int_eq take_bit_int_eq_self)
  moreover have "uint (200 :: 16 word) = 200" by simp
  ultimately show ?thesis by (metis of_int_numeral)
qed

lemma row_of_call:
  assumes ep: "endpoint_of rt stats c = Some ep" and e: "ended rt stats c"
  obtains en where "snd (snd (proxy_ServeHTTP rt stats c)) = Some en" "al_endpoint en = ep" "al_time en = me_time (pc_env c)"
    "excludeCI en \<longleftrightarrow> \<not> from_ci c" "host_label en = host_name ep c"
    "al_status en = 200 \<and> al_error en = [] \<longleftrightarrow> received rt stats c = Some 200 \<and> \<not> cut_off rt stats c"
    "al_status en = 200 \<and> al_error en \<noteq> [] \<longleftrightarrow> received rt stats c = Some 200 \<and> cut_off rt stats c"
proof -
  let ?t = "me_start (pc_env c)"
  obtain params where r: "proxy_ServeHTTP rt stats c =
      (case proxy_Middleware (pc_env c) ep ((pc_request c)\<lparr>rq_build := params\<rparr>) (proxyRequest ep (pc_run c)) new_conn of
        (w, en, ab) \<Rightarrow> (lw_conn w, ab, Some en))"
    using ep by (auto simp: proxy_ServeHTTP_def endpoint_of_def Let_def
        split: routed.splits option.splits proxy_handle.splits)
  obtain ops err host where p: "proxyRequest ep (pc_run c) = (ops, err, host)" by (metis prod_cases3)
  obtain w en ab where run: "proxy_Middleware (pc_env c) ep ((pc_request c)\<lparr>rq_build := params\<rparr>) (ops, err, host) new_conn = (w, en, ab)"
    by (metis prod_cases3)
  define w1 where "w1 = fold lrw_op ops (new_lrw ?t new_conn)"
  have w: "w = fold lrw_op (error_ops proxy_answer (me_write (pc_env c)) err (lw_wrote w1)) w1"
    and ab: "ab \<longleftrightarrow> err \<noteq> None \<and> lw_wrote w1"
    and en: "al_endpoint en = ep" "al_time en = me_time (pc_env c)" "al_host en = host" "al_error en = errToString err"
      "al_status en = of_int (lw_status w)" "excludeCI en \<longleftrightarrow> \<not> from_ci c"
    using run by (auto simp: proxy_Middleware_def Let_def w1_def fill_entry_def proxy_entry_def excludeCI_def from_ci_def)
  have so: "source_ok (\<lambda>_. True) ep (pc_run c)" and named: "err = Some e \<Longrightarrow> err_text e \<noteq> []" for e
    using e ep p by (simp_all add: ended_def)
  have ops: "list_all final_op ops" using proxyRequest_cases [OF p so w1_def] by blast
  note m = pw.middleware_run [OF ops proxy_answer_ok fresh_writer(1,2) fresh_writer(7) fresh_writer(9) w1_def w]
  have "status_bound w" unfolding w w1_def
    by (intro status_bound_run ops error_ops_allowed) (simp add: status_bound_def fresh_writer)
  then have st: "al_status en = 200 \<longleftrightarrow> lw_status w = 200" by (simp add: en status_200 status_bound_def)
  have serve: "proxy_ServeHTTP rt stats c = (lw_conn w, ab, Some en)" using r p run by simp
  have rec: "received rt stats c = Some 200 \<longleftrightarrow> lw_status w = 200"
    using m(1) by (auto simp: received_def serve split: option.splits)
  have "err = None" if "lw_status w = 200" "\<not> ab"
  proof (rule ccontr)
    assume "err \<noteq> None"
    then obtain e where "err = Some e" by blast
    with m(2) ab that rec have "fst (proxy_answer e) = 200" by (auto simp: received_def serve)
    then show False by (auto simp: proxy_answer_def split: if_splits)
  qed
  then have err: "lw_status w = 200 \<Longrightarrow> al_error en = [] \<longleftrightarrow> \<not> ab"
    using ab named by (auto simp: en errToString_def split: option.splits)
  show thesis
  proof (rule that)
    show "host_label en = host_name ep c" by (simp add: host_label_def host_name_def en p)
    show "al_status en = 200 \<and> al_error en = [] \<longleftrightarrow> received rt stats c = Some 200 \<and> \<not> cut_off rt stats c"
      "al_status en = 200 \<and> al_error en \<noteq> [] \<longleftrightarrow> received rt stats c = Some 200 \<and> cut_off rt stats c"
      using st err by (auto simp: rec cut_off_def serve)
  qed (use serve en in simp_all)
qed

text \<open>Counting rows is counting requests.\<close>

lemma count_map_filter:
  assumes "\<And>x. x \<in> set xs \<Longrightarrow> (case f x of None \<Rightarrow> False | Some y \<Rightarrow> P y) \<longleftrightarrow> Q x"
  shows "length (filter P (List.map_filter f xs)) = length (filter Q xs)"
  using assms
proof (induction xs)
  case (Cons x xs)
  from Cons.prems [of x] Cons show ?case by (cases "f x") (simp_all add: map_filter_simps)
qed (simp add: map_filter_simps)

lemma logged_count:
  assumes "\<And>c ep en. c \<in> set calls \<Longrightarrow> endpoint_of rt stats c = Some ep \<Longrightarrow> snd (snd (proxy_ServeHTTP rt stats c)) = Some en \<Longrightarrow>
      P en \<longleftrightarrow> Q c"
    and "\<And>c. Q c \<Longrightarrow> endpoint_of rt stats c \<noteq> None"
  shows "length (filter P (access_log rt stats calls)) = length (filter (\<lambda>c. pc_stored c \<and> Q c) calls)"
  unfolding access_log_def
proof (rule count_map_filter)
  fix c assume c: "c \<in> set calls"
  show "(case if pc_stored c then snd (snd (proxy_ServeHTTP rt stats c)) else None of None \<Rightarrow> False | Some y \<Rightarrow> P y) \<longleftrightarrow> pc_stored c \<and> Q c"
  proof (cases "snd (snd (proxy_ServeHTTP rt stats c))")
    case None
    then have "endpoint_of rt stats c = None" by (simp add: row_endpoint)
    with assms(2) [of c] None show ?thesis by auto
  next
    case (Some en)
    then obtain ep where "endpoint_of rt stats c = Some ep" using row_endpoint [of rt stats c] by fastforce
    with assms(1) [OF c _ Some] Some show ?thesis by auto
  qed
qed

text \<open>A request for a file that people made, by day.\<close>

definition asks :: "router \<Rightarrow> bool \<Rightarrow> int \<Rightarrow> proxy_call \<Rightarrow> bool" where
  "asks rt stats day c \<longleftrightarrow> endpoint_of rt stats c \<noteq> None \<and> \<not> from_ci c \<and> day_of (me_time (pc_env c)) = day"

definition asks_for :: "router \<Rightarrow> bool \<Rightarrow> int \<Rightarrow> string \<Rightarrow> string \<Rightarrow> proxy_call \<Rightarrow> bool" where
  "asks_for rt stats day host ep c \<longleftrightarrow> asks rt stats day c \<and> endpoint_of rt stats c = Some ep \<and> host_name ep c = host"

lemma shown_call:
  assumes "endpoint_of rt stats c = Some ep" "al_endpoint en = ep" "excludeCI en \<longleftrightarrow> \<not> from_ci c"
  shows "shown en \<longleftrightarrow> \<not> from_ci c"
  using endpoint_known [OF assms(1)] assms(2,3) by (simp add: shown_def endpointInList_def)

lemma requests_logged:
  assumes "list_all (ended rt stats) calls"
  shows "length (filter (\<lambda>e. shown e \<and> day_of (al_time e) = d) (access_log rt stats calls)) =
    length (filter (\<lambda>c. pc_stored c \<and> asks rt stats d c) calls)"
proof (rule logged_count)
  fix c ep en
  assume c: "c \<in> set calls" "endpoint_of rt stats c = Some ep" "snd (snd (proxy_ServeHTTP rt stats c)) = Some en"
  from c(1) assms have "ended rt stats c" by (simp add: list_all_iff)
  from row_of_call [OF c(2) this] c(3) have "al_endpoint en = ep" "al_time en = me_time (pc_env c)"
    "excludeCI en \<longleftrightarrow> \<not> from_ci c" by (metis option.inject)+
  then show "shown en \<and> day_of (al_time en) = d \<longleftrightarrow> asks rt stats d c"
    using shown_call [OF c(2)] c(2) by (auto simp: asks_def)
qed (simp add: asks_def)

lemma answers_logged:
  fixes d :: int and host ep :: string
  assumes "list_all (ended rt stats) calls"
  defines "rows \<equiv> filter (\<lambda>e. shown e \<and> day_of (al_time e) = d \<and> host_label e = host \<and> al_endpoint e = ep) (access_log rt stats calls)"
  shows "st_served (traffic_counts rows) = of_nat (length (filter (\<lambda>c. pc_stored c \<and>
      asks_for rt stats d host ep c \<and> received rt stats c = Some 200 \<and> \<not> cut_off rt stats c) calls))"
    "st_aborted (traffic_counts rows) = of_nat (length (filter (\<lambda>c. pc_stored c \<and>
      asks_for rt stats d host ep c \<and> received rt stats c = Some 200 \<and> cut_off rt stats c) calls))"
proof -
  have row: "(shown en \<and> day_of (al_time en) = d \<and> host_label en = host \<and> al_endpoint en = ep) = asks_for rt stats d host ep c \<and>
      (al_status en = 200 \<and> al_error en = []) = (received rt stats c = Some 200 \<and> \<not> cut_off rt stats c) \<and>
      (al_status en = 200 \<and> al_error en \<noteq> []) = (received rt stats c = Some 200 \<and> cut_off rt stats c)"
    if c: "c \<in> set calls" "endpoint_of rt stats c = Some ep'" "snd (snd (proxy_ServeHTTP rt stats c)) = Some en" for c ep' en
  proof -
    from c(1) assms(1) have "ended rt stats c" by (simp add: list_all_iff)
    then obtain en' where en': "snd (snd (proxy_ServeHTTP rt stats c)) = Some en'" "al_endpoint en' = ep'"
      "al_time en' = me_time (pc_env c)" "excludeCI en' \<longleftrightarrow> \<not> from_ci c" "host_label en' = host_name ep' c"
      "(al_status en' = 200 \<and> al_error en' = []) = (received rt stats c = Some 200 \<and> \<not> cut_off rt stats c)"
      "(al_status en' = 200 \<and> al_error en' \<noteq> []) = (received rt stats c = Some 200 \<and> cut_off rt stats c)"
      by (rule row_of_call [OF c(2)])
    with c(3) have "en' = en" by simp
    with en' shown_call [OF c(2), of en] c(2) show ?thesis by (auto simp: asks_for_def asks_def)
  qed
  have "length (filter (\<lambda>e. (shown e \<and> day_of (al_time e) = d \<and> host_label e = host \<and> al_endpoint e = ep) \<and> P e) (access_log rt stats calls)) =
      length (filter (\<lambda>c. pc_stored c \<and> asks_for rt stats d host ep c \<and> received rt stats c = Some 200 \<and> Q c) calls)"
    if "(P, Q) \<in> {(\<lambda>e. al_status e = 200 \<and> al_error e = [], \<lambda>c. \<not> cut_off rt stats c),
        (\<lambda>e. al_status e = 200 \<and> al_error e \<noteq> [], cut_off rt stats)}" for P Q
    by (rule logged_count) (use that row in \<open>blast\<close>, simp add: asks_for_def)
  note count = this [of "\<lambda>e. al_status e = 200 \<and> al_error e = []" "\<lambda>c. \<not> cut_off rt stats c"]
    this [of "\<lambda>e. al_status e = 200 \<and> al_error e \<noteq> []" "cut_off rt stats"]
  show "st_served (traffic_counts rows) = of_nat (length (filter (\<lambda>c. pc_stored c \<and>
      asks_for rt stats d host ep c \<and> received rt stats c = Some 200 \<and> \<not> cut_off rt stats c) calls))"
    "st_aborted (traffic_counts rows) = of_nat (length (filter (\<lambda>c. pc_stored c \<and>
      asks_for rt stats d host ep c \<and> received rt stats c = Some 200 \<and> cut_off rt stats c) calls))"
    unfolding rows_def traffic_counts_def countIf_def filter_filter statusCounts.simps using count [unfolded conj_assoc] by simp_all
qed


section \<open>An example\<close>

definition ex_router :: router where
  "ex_router pats method path = (if path = ''/buildid/00/debuginfo'' then Matched ''/buildid/:buildid/debuginfo'' (\<lambda>_. ''00'')
     else if path = ''/stats'' then Matched ''/stats'' (\<lambda>_. []) else Unmatched)"

text \<open>A request for a file and a view of the page.\<close>

definition ex_call :: "string \<Rightarrow> proxy_call" where
  "ex_call path = \<lparr>pc_request = ex_request, pc_path = path, pc_env = ex_menv, pc_run = ex_req_env,
     pc_page = [WriteHeader 200], pc_stored = True\<rparr>"

definition ex_calls :: "proxy_call list" where
  "ex_calls = [ex_call ''/buildid/00/debuginfo'', ex_call ''/stats'']"

lemma ex_endpoints:
  "endpoint_of ex_router True (ex_call ''/buildid/00/debuginfo'') = Some ''debuginfo''"
  "endpoint_of ex_router True (ex_call ''/stats'') = None"
  by (simp_all add: endpoint_of_def ex_call_def ex_router_def InitRouter_def)

lemma ex_ended: "list_all (ended ex_router True) ex_calls"
proof -
  have "fst (snd (proxyRequest ''debuginfo'' ex_req_env)) = None"
    by (simp add: proxyRequest_def ex_req_env_def cacheableEndpoints_def serve_result_def writeBody_def
        ex_follower_facts up_server_def Let_def)
  moreover have "source_ok (\<lambda>_. True) ''debuginfo'' ex_req_env"
    by (simp add: source_ok_def ex_req_env_def cacheableEndpoints_def ex_follower_facts)
  ultimately show ?thesis by (simp add: ex_calls_def ended_def ex_endpoints) (simp add: ex_call_def)
qed

lemma ex_asks: "filter (\<lambda>c. pc_stored c \<and> asks ex_router True 0 c) ex_calls = [ex_call ''/buildid/00/debuginfo'']"
proof -
  have "\<not> from_ci (ex_call p)" for p by (simp add: from_ci_def ex_call_def ex_menv_def ghTagsFor_def)
  moreover have "pc_stored (ex_call p)" "day_of (me_time (pc_env (ex_call p))) = 0" for p
    by (simp_all add: ex_call_def ex_menv_def day_of_def)
  ultimately show ?thesis by (simp add: ex_calls_def asks_def ex_endpoints)
qed


end
