(* ===== verification/Startup.thy ===== *)
theory Startup
  imports Services GhPoll CacheStat Transport DebUnpack
begin

text \<open>
  The routers of the other services, the start of each, the configuration it is made of, the loops
  around its periodic work (a tick and a shutdown come from outside: the list of passes a process
  makes) and the certificate of the Nix backend.
\<close>

section \<open>Releases\<close>

datatype rel_handle = RedirectHandle | RelStatsHandle

definition rel_projectURL :: string where
  "rel_projectURL = ''https://github.com/pwndbg/pwndbg/releases/''"

definition newRouter :: "bool \<Rightarrow> (string \<times> rel_handle) list" where
  "newRouter stats =
     (''/releases/:version/:file'', RedirectHandle) # (if stats then [(''/stats'', RelStatsHandle)] else [])"

record rel_call =
  qc_request :: request
  qc_path :: string
  qc_env :: menv
  qc_host_ok :: bool
  qc_page :: "w_op list"
  qc_stored :: bool

definition rel_ServeHTTP :: "router \<Rightarrow> bool \<Rightarrow> rel_call \<Rightarrow> conn \<times> releasesEntry option" where
  "rel_ServeHTTP rt stats c =
     (let rs = newRouter stats; m = rq_method (qc_request c); e = me_write (qc_env c);
          plain = (\<lambda>ops. (fold conn_op ops new_conn, None))
      in case rt (map fst rs) m (qc_path c) of
           RouterAnswer ops \<Rightarrow> plain ops
         | Unmatched \<Rightarrow> plain (http_Found e m rel_projectURL)
         | Matched pat params \<Rightarrow> (case map_of rs pat of
             None \<Rightarrow> plain []
           | Some RelStatsHandle \<Rightarrow> plain (qc_page c)
           | Some RedirectHandle \<Rightarrow>
               (case releases_Middleware (qc_env c) (params ''version'') (params ''file'') (qc_request c)
                    (redirectRelease e (http_Found e m) (qc_host_ok c) (params ''version'') (params ''file'')) new_conn of
                  (w, en) \<Rightarrow> (rw_conn w, Some en))))"

definition releases_log :: "router \<Rightarrow> bool \<Rightarrow> rel_call list \<Rightarrow> releasesEntry list" where
  "releases_log rt stats calls =
     List.map_filter (\<lambda>c. if qc_stored c then snd (rel_ServeHTTP rt stats c) else None) calls"

text \<open>A request for a release that left a row, by day.\<close>

definition release_asked :: "router \<Rightarrow> bool \<Rightarrow> int \<Rightarrow> rel_call \<Rightarrow> bool" where
  "release_asked rt stats day c \<longleftrightarrow> qc_stored c \<and> day_of (me_start (qc_env c)) = day \<and>
     (case rt (map fst (newRouter stats)) (rq_method (qc_request c)) (qc_path c) of
        Matched pat params \<Rightarrow> map_of (newRouter stats) pat = Some RedirectHandle
      | _ \<Rightarrow> False)"

lemma redirect_status:
  "rw_status (fold rel_op (redirectRelease e (http_Found e m) ok v f) \<lparr>rw_conn = c, rw_status = 0, rw_wrote = False\<rparr>) =
     (if ok then 302 else 404)"
  by (auto simp: redirectRelease_def not_found_def http_Error_def http_Found_def rel_op_def rel_WriteHeader_def rel_Write_def Let_def)

lemma release_row:
  assumes "snd (rel_ServeHTTP rt stats c) = Some en"
  shows "re_status en = (if qc_host_ok c then 302 else 404)" "re_time en = me_start (qc_env c)"
  using assms
  by (auto simp: rel_ServeHTTP_def Let_def releases_Middleware_def redirect_status
      split: routed.splits option.splits rel_handle.splits prod.splits)

lemma release_row_iff:
  "snd (rel_ServeHTTP rt stats c) \<noteq> None \<longleftrightarrow>
     (case rt (map fst (newRouter stats)) (rq_method (qc_request c)) (qc_path c) of
        Matched pat params \<Rightarrow> map_of (newRouter stats) pat = Some RedirectHandle
      | _ \<Rightarrow> False)"
  by (auto simp: rel_ServeHTTP_def Let_def split: routed.splits option.splits rel_handle.splits prod.splits)

lemma releases_logged:
  assumes "\<And>en c. re_status en = (if qc_host_ok c then 302 else 404) \<Longrightarrow> P en \<longleftrightarrow> Q c"
  shows "length (filter (\<lambda>e. day_of (re_time e) = d \<and> P e) (releases_log rt stats calls)) =
    length (filter (\<lambda>c. release_asked rt stats d c \<and> Q c) calls)"
  unfolding releases_log_def
proof (rule count_map_filter)
  fix c
  show "(case if qc_stored c then snd (rel_ServeHTTP rt stats c) else None of None \<Rightarrow> False
      | Some e \<Rightarrow> day_of (re_time e) = d \<and> P e) \<longleftrightarrow> release_asked rt stats d c \<and> Q c"
  proof (cases "snd (rel_ServeHTTP rt stats c)")
    case None
    then show ?thesis using release_row_iff [of rt stats c] by (auto simp: release_asked_def)
  next
    case (Some en)
    with release_row [OF Some] release_row_iff [of rt stats c] assms [of en c] show ?thesis
      by (auto simp: release_asked_def)
  qed
qed

text \<open>The release page shows who was redirected: a day's redirects are the requests for a release on
  the service's own host name that were stored, its refusals those on any other name; views of the
  page and stray paths are neither.\<close>

theorem release_page_shows_requests:
  assumes "same_answers days db (release_db uA uS today (releases_log rt stats calls) gh)"
    "rel_CollectStats order db today days = Inr s" "i \<le> days"
  shows "rs_redirects s ! i = of_nat (length (filter (\<lambda>c. release_asked rt stats (rs_days s ! i) c \<and> qc_host_ok c) calls)) \<and>
    rs_rejected s ! i = of_nat (length (filter (\<lambda>c. release_asked rt stats (rs_days s ! i) c \<and> \<not> qc_host_ok c) calls))"
proof -
  obtain dl where d: "mset dl = mset (dailyQuery uA today days (releases_log rt stats calls))"
    and s: "rs_days s = axis today days"
      "rs_redirects s = row_series (axis today days) 0 (column (\<lambda>(ok, bad, ips). ok) dl) ()"
      "rs_rejected s = row_series (axis today days) 0 (column (\<lambda>(ok, bad, ips). bad) dl) ()"
    by (rule window_rows [OF assms(1,2)])
  show ?thesis
    unfolding s daily_counts [OF d assms(3)]
    by (subst releases_logged [where Q = qc_host_ok], simp, subst releases_logged [where Q = "\<lambda>c. \<not> qc_host_ok c"], simp_all)
qed

section \<open>The backends\<close>

datatype nix_handle = ExecutableHandler | SourceHandler | DebuginfoHandler

definition nix_routes :: "(string \<times> string \<times> nix_handle) list" where
  "nix_routes =
     [(''/buildid/:buildid/executable'', ''executable'', ExecutableHandler),
      (''/buildid/:buildid/debuginfo'', ''debuginfo'', DebuginfoHandler),
      (''/buildid/:buildid/source/*path'', ''source'', SourceHandler)]"

fun nix_request_of :: "nix_handle \<Rightarrow> (string \<Rightarrow> string) \<Rightarrow> nix_request" where
  "nix_request_of ExecutableHandler ps = Executable (ps ''buildid'')"
| "nix_request_of DebuginfoHandler ps = Debuginfo (ps ''buildid'')"
| "nix_request_of SourceHandler ps = Source (ps ''buildid'') (ps ''path'')"

text \<open>A path of no route is httprouter's own 404.\<close>

definition nix_ServeHTTP :: "router \<Rightarrow> nix_cfg \<Rightarrow> (string \<Rightarrow> string) \<Rightarrow> nix_env \<Rightarrow> menv \<Rightarrow> request \<Rightarrow> string \<Rightarrow> nstore
    \<Rightarrow> (conn \<times> bool \<times> accessLogEntry option) \<times> nstore" where
  "nix_ServeHTTP rt cfg ul env me rq path s =
     (case rt (map fst nix_routes) (rq_method rq) path of
        RouterAnswer ops \<Rightarrow> ((fold conn_op ops new_conn, False, None), s)
      | Unmatched \<Rightarrow> ((fold conn_op (not_found (me_write me)) new_conn, False, None), s)
      | Matched pat ps \<Rightarrow> (case map_of nix_routes pat of
          None \<Rightarrow> ((new_conn, False, None), s)
        | Some (ep, h) \<Rightarrow>
            (case handle cfg ul env (nix_request_of h ps) s of
               (run, s1) \<Rightarrow> (case nix_Middleware me ep (rq\<lparr>rq_build := ps ''buildid''\<rparr>) run new_conn of
                 (w, en, ab) \<Rightarrow> ((lw_conn w, ab, Some en), s1)))))"

datatype deb_handle = DebSource | DebNotImplemented | DebStatus

definition deb_routes :: "(string \<times> deb_handle) list" where
  "deb_routes =
     [(''/buildid/:buildid/source/*path'', DebSource),
      (''/buildid/:buildid/debuginfo'', DebNotImplemented),
      (''/buildid/:buildid/executable'', DebNotImplemented),
      (''/status'', DebStatus)]"

text \<open>\<open>None\<close>: an answer without a body of this service (the status check, the router's own).\<close>

definition deb_ServeHTTP :: "router \<Rightarrow> 'c lru_ops \<Rightarrow> denv \<Rightarrow> string \<Rightarrow> string \<Rightarrow> 'c srv \<Rightarrow> src_answer option \<times> 'c srv" where
  "deb_ServeHTTP rt ops env method path s =
     (case rt (map fst deb_routes) method path of
        Matched pat ps \<Rightarrow> (case map_of deb_routes pat of
            Some DebSource \<Rightarrow> apfst Some (handleSource ops env (ps ''buildid'') (ps ''path'') s)
          | Some DebNotImplemented \<Rightarrow> (Some notImplemented, s)
          | _ \<Rightarrow> (None, s))
      | _ \<Rightarrow> (None, s))"

section \<open>The environment of the Debian service\<close>

text \<open>\<open>os.Getenv\<close> gives the empty string for a variable that is not set; \<open>parse\<close> is
  \<open>time.ParseDuration\<close>. A value that does not parse is as good as none.\<close>

definition envOr :: "(string \<Rightarrow> string) \<Rightarrow> string \<Rightarrow> string \<Rightarrow> string" where
  "envOr env k d = (if env k \<noteq> [] then env k else d)"

definition envInt :: "(string \<Rightarrow> string) \<Rightarrow> string \<Rightarrow> int \<Rightarrow> int" where
  "envInt env k d = (if env k \<noteq> [] then (case parse_int (env k) of Some n \<Rightarrow> n | None \<Rightarrow> d) else d)"

definition envDuration :: "(string \<Rightarrow> duration option) \<Rightarrow> (string \<Rightarrow> string) \<Rightarrow> string \<Rightarrow> duration \<Rightarrow> duration" where
  "envDuration parse env k d = (if env k \<noteq> [] then (case parse (env k) of Some t \<Rightarrow> t | None \<Rightarrow> d) else d)"

text \<open>The address, the two services asked, the budget and the period of the eviction.\<close>

record deb_start =
  dm_addr :: string
  dm_debian :: string
  dm_unpacker :: string
  dm_budget :: int
  dm_interval :: duration

definition deb_main :: "(string \<Rightarrow> duration option) \<Rightarrow> (string \<Rightarrow> string) \<Rightarrow> deb_start" where
  "deb_main parse env = \<lparr>dm_addr = envOr env ''LISTEN_ADDR'' ''127.0.0.1:8036'',
     dm_debian = envOr env ''DEBIAN_DEBUGINFOD'' ''https://debuginfod.debian.net'',
     dm_unpacker = envOr env ''UNPACKER_URL'' ''http://127.0.0.1:8035'',
     dm_budget = envInt env ''CACHE_MAX_BYTES'' (20 * 2 ^ 30),
     dm_interval = envDuration parse env ''EVICT_INTERVAL'' (10 * minute)\<rparr>"

section \<open>Loops\<close>

text \<open>The passes of \<open>EvictLoop\<close>: the first at once, one per tick. A failed pass is followed by the next.\<close>

definition EvictLoop :: "(string \<Rightarrow> bool) \<Rightarrow> ((cfile \<Rightarrow> time) \<Rightarrow> cfile list \<Rightarrow> cfile list) \<Rightarrow> string \<Rightarrow> int
    \<Rightarrow> (time \<times> cwalk list) list \<Rightarrow> (string \<times> bool) list" where
  "EvictLoop rm srt dir maxBytes passes =
     concat (map (\<lambda>(now, walk). snd (cache_evictOnce rm srt now dir maxBytes walk)) passes)"

definition deb_EvictLoop :: "int \<Rightarrow> (dtree list option \<times> ((dtree \<Rightarrow> time \<times> string) \<Rightarrow> dtree list \<Rightarrow> dtree list) \<times> (string \<Rightarrow> bool)) list
    \<Rightarrow> 'c srv \<Rightarrow> 'c srv" where
  "deb_EvictLoop budget passes s =
     (if budget \<le> 0 then s
      else fold (\<lambda>(listed, srt, del) s. snd (deb_evictOnce listed srt del budget s)) passes s)"

definition cacheStat_Worker :: "string \<Rightarrow> (bool \<times> time \<times> dwalk list \<times> (u64 \<times> u64 \<times> u64) option) list \<Rightarrow> cacheUsage list \<Rightarrow> cacheUsage list" where
  "cacheStat_Worker dir ticks rows = fold (\<lambda>(ok, now, walk, st). collect_usage ok now dir walk st) ticks rows"

definition CFIP_Worker :: "(string \<Rightarrow> (addr \<times> nat) option) \<Rightarrow> (time \<times> cfipResponse option) list \<Rightarrow> cfipManager \<Rightarrow> cfipManager" where
  "CFIP_Worker parse ticks m = fold (\<lambda>(now, res) m. snd (cf_refresh parse now res m)) ticks m"

text \<open>A poll whose rows the database refused leaves none.\<close>

definition gh_Worker :: "(string \<Rightarrow> string + gitHubRelease) \<Rightarrow> (int \<Rightarrow> string)
    \<Rightarrow> (bool \<times> time \<times> (string + int \<times> string \<times> string option)) list \<Rightarrow> downloadStats list \<Rightarrow> downloadStats list" where
  "gh_Worker parse number polls table =
     fold (\<lambda>(ok, now, resp) table. case collectAndStore now (fetchGitHubRelease parse number resp) of
         Inl e \<Rightarrow> table
       | Inr rows \<Rightarrow> if ok then table @ rows else table) polls table"

text \<open>Polls at times after the epoch and not after today satisfy what the chart of downloads asks of
  the table's times.\<close>

lemma gh_Worker_times:
  assumes "list_all (\<lambda>(ok, now, resp). 0 < now \<and> day_of now \<le> today) polls"
    "\<forall>r \<in> set table. 0 < ds_time r \<and> day_of (ds_time r) \<le> today"
  shows "\<forall>r \<in> set (gh_Worker parse number polls table). 0 < ds_time r \<and> day_of (ds_time r) \<le> today"
  using assms unfolding gh_Worker_def
proof (induction polls arbitrary: table)
  case (Cons p polls)
  obtain ok now resp where p: "p = (ok, now, resp)" by (cases p)
  have t: "0 < now \<and> day_of now \<le> today" using Cons.prems(1) by (simp add: p)
  let ?t = "case collectAndStore now (fetchGitHubRelease parse number resp) of Inl e \<Rightarrow> table
      | Inr rows \<Rightarrow> if ok then table @ rows else table"
  have "\<forall>r \<in> set ?t. 0 < ds_time r \<and> day_of (ds_time r) \<le> today"
    using Cons.prems(2) t by (auto simp: collectAndStore_rows split: sum.split)
  from Cons.IH [OF _ this] Cons.prems(1) show ?case by (simp add: p)
qed simp

lemma EvictLoop_disabled: "maxBytes \<le> 0 \<Longrightarrow> EvictLoop rm srt dir maxBytes passes = []"
  by (auto simp: EvictLoop_def cache_evictOnce_def)

text \<open>A failed refresh keeps the ranges of the last one that worked.\<close>

lemma CFIP_Worker_keeps:
  "list_all (\<lambda>(now, res). \<not> fst (cf_refresh parse now res m)) ticks \<Longrightarrow> CFIP_Worker parse ticks m = m"
  unfolding CFIP_Worker_def
  by (induction ticks) (auto simp: cf_refresh_def cf_load_def Let_def split: option.splits if_splits)

section \<open>The certificate of the Nix backend\<close>

definition certHosts :: "string \<Rightarrow> string list" where
  "certHosts listenAddr =
     (let hosts = [''localhost'', ''127.0.0.1'', ''::1''] in
      case SplitHostPort listenAddr of
        Some (host, port) \<Rightarrow> if host \<noteq> [] \<and> host \<notin> set hosts then hosts @ [host] else hosts
      | None \<Rightarrow> hosts)"

text \<open>The names of the template: addresses and DNS names.\<close>

definition cert_names :: "(string \<Rightarrow> addr option) \<Rightarrow> string list \<Rightarrow> addr list \<times> string list" where
  "cert_names parseIP hosts = (List.map_filter parseIP hosts, filter (\<lambda>h. parseIP h = None) hosts)"

text \<open>The certificate covers the host the service listens on, and the loopback names.\<close>

theorem certHosts_cover:
  "(\<forall>h \<in> {''localhost'', ''127.0.0.1'', ''::1''}. h \<in> set (certHosts a)) \<and> distinct (certHosts a) \<and>
    (case SplitHostPort a of
       Some (host, port) \<Rightarrow> host \<noteq> [] \<longrightarrow>
         (case parseIP host of Some ip \<Rightarrow> ip \<in> set (fst (cert_names parseIP (certHosts a)))
          | None \<Rightarrow> host \<in> set (snd (cert_names parseIP (certHosts a))))
     | None \<Rightarrow> True)"
proof -
  have m: "ip \<in> set (List.map_filter parseIP hs)" if "h \<in> set hs" "parseIP h = Some ip" for h ip hs
    using that by (induction hs) (auto simp: map_filter_simps split: option.splits)
  have "host \<in> set (certHosts a)" if "SplitHostPort a = Some (host, port)" "host \<noteq> []" for host port
    using that by (auto simp: certHosts_def Let_def)
  then show ?thesis
    by (auto simp: cert_names_def intro: m split: option.splits) (auto simp: certHosts_def Let_def split: option.splits if_splits)
qed

section \<open>The start of the proxy\<close>

record configEnv =
  cfg_domains :: "string list"
  cfg_email :: string
  cfg_listenPort :: int
  cfg_listenIP :: string
  cfg_certCache :: string
  cfg_dsn :: string
  cfg_logLevel :: string
  cfg_cacheEnabled :: bool
  cfg_cachePath :: string
  cfg_cacheMaxBytes :: int
  cfg_cacheStatsInterval :: duration
  cfg_ghEnabled :: bool
  cfg_ghInterval :: duration
  cfg_ghServices :: "string list"
  cfg_statsEnabled :: bool
  cfg_statsDays :: int
  cfg_statsInterval :: duration

text \<open>The values without an environment.\<close>

definition default_config :: configEnv where
  "default_config = \<lparr>cfg_domains = [''debuginfod.pwndbg.re'', ''releases.pwndbg.re''], cfg_email = ''patryk.sondej@gmail.com'',
     cfg_listenPort = 8031, cfg_listenIP = ''127.0.0.1'', cfg_certCache = ''./cert-cache'',
     cfg_dsn = ''clickhouse://127.0.0.1:9000?username=cypis&password=cypis'', cfg_logLevel = ''info'',
     cfg_cacheEnabled = True, cfg_cachePath = ''./cache'', cfg_cacheMaxBytes = 53687091200,
     cfg_cacheStatsInterval = 10 * minute, cfg_ghEnabled = True, cfg_ghInterval = 24 * hour, cfg_ghServices = [''actions''],
     cfg_statsEnabled = True, cfg_statsDays = 360, cfg_statsInterval = hour\<rparr>"

datatype goroutine = RunEvict string int | RunCacheStat string duration | RunGHRanges "string list" duration
  | RunStats "int list" duration

record proxy_server =
  ps_cache :: "(string \<times> int) option"
  ps_workers :: "goroutine list"
  ps_routes :: "(string \<times> proxy_handle) list"
  ps_autocert :: "string list option"
  ps_listen :: "(string \<times> bool) list"

text \<open>\<open>newFileCache\<close>: only its directory can fail. \<open>mkdir\<close> is \<open>os.MkdirAll\<close>.\<close>

definition newFileCache :: "(string \<Rightarrow> string option) \<Rightarrow> string \<Rightarrow> int \<Rightarrow> string + string \<times> int" where
  "newFileCache mkdir dir maxBytes = (case mkdir dir of Some e \<Rightarrow> Inl e | None \<Rightarrow> Inr (dir, maxBytes))"

text \<open>The addresses served, with TLS or without.\<close>

definition proxy_listen :: "configEnv \<Rightarrow> (string \<times> bool) list" where
  "proxy_listen cfg =
     (if cfg_listenPort cfg = 443 then [(cfg_listenIP cfg @ '':80'', False)] else []) @
     [(cfg_listenIP cfg @ '':'' @ int_str (cfg_listenPort cfg), cfg_listenPort cfg = 443)]"

text \<open>\<open>main\<close>: the configuration, the database and its tables (an error each), then what is started.\<close>

definition proxy_main :: "string + configEnv \<Rightarrow> (string \<Rightarrow> string option) \<Rightarrow> string option \<Rightarrow> (string \<Rightarrow> string option) \<Rightarrow> string + proxy_server" where
  "proxy_main config newDB init mkdir = (case config of
     Inl e \<Rightarrow> Inl (''parsing config: '' @ e)
   | Inr cfg \<Rightarrow> (case newDB (cfg_dsn cfg) of
       Some e \<Rightarrow> Inl (''connecting db: '' @ e)
     | None \<Rightarrow> (case init of
         Some e \<Rightarrow> Inl (''initializing db: '' @ e)
       | None \<Rightarrow> (case if cfg_cacheEnabled cfg then map_sum id Some (newFileCache mkdir (cfg_cachePath cfg) (cfg_cacheMaxBytes cfg)) else Inr None of
           Inl e \<Rightarrow> Inl (''initializing file cache: '' @ e)
         | Inr cache \<Rightarrow> Inr \<lparr>ps_cache = cache,
             ps_workers =
               (case cache of None \<Rightarrow> [] | Some (dir, mb) \<Rightarrow> [RunEvict dir mb, RunCacheStat dir (cfg_cacheStatsInterval cfg)]) @
               (if cfg_ghEnabled cfg then [RunGHRanges (cfg_ghServices cfg) (cfg_ghInterval cfg)] else []) @
               (if cfg_statsEnabled cfg then [RunStats (stats_views (cfg_statsDays cfg)) (cfg_statsInterval cfg)] else []),
             ps_routes = InitRouter (cfg_statsEnabled cfg),
             ps_autocert = (if cfg_listenPort cfg = 443 then Some (cfg_domains cfg) else None),
             ps_listen = proxy_listen cfg\<rparr>))))"

text \<open>The page is served exactly when a worker fills it, and what is measured is what is evicted.\<close>

theorem proxy_main_consistent:
  assumes "proxy_main config newDB init mkdir = Inr srv"
  shows "((''/stats'', StatsHandle) \<in> set (ps_routes srv) \<longleftrightarrow> (\<exists>vs t. RunStats vs t \<in> set (ps_workers srv))) \<and>
    (\<forall>dir t. RunCacheStat dir t \<in> set (ps_workers srv) \<longleftrightarrow>
      (\<exists>mb. ps_cache srv = Some (dir, mb) \<and> RunEvict dir mb \<in> set (ps_workers srv)) \<and>
      (\<exists>cfg. config = Inr cfg \<and> t = cfg_cacheStatsInterval cfg))"
  using assms
  by (auto simp: proxy_main_def InitRouter_def newFileCache_def split: sum.splits option.splits if_splits)

theorem default_start:
  "\<exists>srv. proxy_main (Inr default_config) (\<lambda>_. None) None (\<lambda>_. None) = Inr srv \<and> ps_cache srv = Some (''./cache'', 53687091200) \<and>
     length (ps_workers srv) = 4 \<and> ps_listen srv = [(''127.0.0.1:8031'', False)]"
proof -
  have port: "int_str 8031 = ''8031''"
    by (simp add: int_str_def nat_str.simps) (simp add: char_of_def bit_iff_odd)
  have cfg: "cfg_dsn default_config = ''clickhouse://127.0.0.1:9000?username=cypis&password=cypis''"
    "cfg_cacheEnabled default_config" "cfg_cachePath default_config = ''./cache''" "cfg_cacheMaxBytes default_config = 53687091200"
    "cfg_ghEnabled default_config" "cfg_statsEnabled default_config" "cfg_listenPort default_config = 8031"
    "cfg_listenIP default_config = ''127.0.0.1''"
    by (simp_all only: default_config_def configEnv.simps)
  show ?thesis by (simp add: proxy_main_def newFileCache_def proxy_listen_def port cfg)
qed

section \<open>The start of the others\<close>

record rel_config =
  rf_dsn :: string
  rf_logLevel :: string
  rf_statsEnabled :: bool
  rf_statsDays :: int
  rf_statsInterval :: duration

definition rel_default_config :: rel_config where
  "rel_default_config = \<lparr>rf_dsn = ''clickhouse://127.0.0.1:9000?username=cypis&password=cypis'', rf_logLevel = ''info'',
     rf_statsEnabled = True, rf_statsDays = 360, rf_statsInterval = hour\<rparr>"

definition listenAddr :: string where "listenAddr = ''127.0.0.1:8033''"

text \<open>The address, the routes and the period of the page's worker, if there is a page.\<close>

definition rel_main :: "string + rel_config \<Rightarrow> (string \<Rightarrow> string option) \<Rightarrow> string option
    \<Rightarrow> string + string \<times> (string \<times> rel_handle) list \<times> (int list \<times> duration) option" where
  "rel_main config newDB init = (case config of
     Inl e \<Rightarrow> Inl (''parsing config: '' @ e)
   | Inr cfg \<Rightarrow> (case newDB (rf_dsn cfg) of
       Some e \<Rightarrow> Inl (''connecting db: '' @ e)
     | None \<Rightarrow> (case init of
         Some e \<Rightarrow> Inl (''initializing db: '' @ e)
       | None \<Rightarrow> Inr (listenAddr, newRouter (rf_statsEnabled cfg),
           if rf_statsEnabled cfg then Some (stats_views (rf_statsDays cfg), rf_statsInterval cfg) else None))))"

record nix_config =
  xf_listenAddr :: string
  xf_logLevel :: string
  xf_tlsEnabled :: bool
  xf_dsn :: string
  xf_imagePath :: string
  xf_mountRoot :: string
  xf_entryMountPath :: string
  xf_maxFetches :: int

definition nix_default_config :: nix_config where
  "nix_default_config = \<lparr>xf_listenAddr = ''127.0.0.1:8034'', xf_logLevel = ''info'', xf_tlsEnabled = True,
     xf_dsn = ''clickhouse://127.0.0.1:9000?username=cypis&password=cypis'', xf_imagePath = ''/var/lib/cache/nix-images'',
     xf_mountRoot = ''/nix/store'', xf_entryMountPath = ''/var/lib/cache/nix-entry'', xf_maxFetches = 4\<rparr>"

text \<open>The directories of the store, the address, and the names of the certificate unless TLS is off;
  \<open>cert\<close> is what creating the certificate says.\<close>

definition nix_main :: "string + nix_config \<Rightarrow> (string \<Rightarrow> string option) \<Rightarrow> string option \<Rightarrow> (string list \<Rightarrow> string option)
    \<Rightarrow> string + (string \<times> string \<times> string) \<times> string \<times> string list option" where
  "nix_main config newDB init cert = (case config of
     Inl e \<Rightarrow> Inl e
   | Inr cfg \<Rightarrow> (case newDB (xf_dsn cfg) of
       Some e \<Rightarrow> Inl e
     | None \<Rightarrow> (case init of
         Some e \<Rightarrow> Inl e
       | None \<Rightarrow>
           (let store = (xf_imagePath cfg, xf_mountRoot cfg, xf_entryMountPath cfg); hosts = certHosts (xf_listenAddr cfg) in
            if \<not> xf_tlsEnabled cfg then Inr (store, xf_listenAddr cfg, None)
            else (case cert hosts of
                Some e \<Rightarrow> Inl (''Server failed: '' @ e)
              | None \<Rightarrow> Inr (store, xf_listenAddr cfg, Some hosts))))))"

text \<open>\<open>uf\<close> is the field splitter of strings outside ASCII.\<close>

definition unpack_main :: "(string \<Rightarrow> string list) \<Rightarrow> (string \<Rightarrow> string) \<Rightarrow> (string \<Rightarrow> string option) \<Rightarrow> (string \<Rightarrow> string option) \<Rightarrow> string + string \<times> server" where
  "unpack_main uf env lookPath mkdir =
     (let root = envOr env ''UNPACK_PATH'' ''/var/lib/deb-src'' in
      case lookPath ''dpkg-source'' of
        Some e \<Rightarrow> Inl (''dpkg-source not found - this image needs dpkg-dev: '' @ e)
      | None \<Rightarrow> (case mkdir root of
          Some e \<Rightarrow> Inl (''creating unpack root: '' @ e)
        | None \<Rightarrow> Inr (envOr env ''LISTEN_ADDR'' ''127.0.0.1:8035'',
            \<lparr>sv_root = root, sv_mirror = envOr env ''DEBIAN_MIRROR'' ''https://deb.debian.org/debian'', sv_fields = uf\<rparr>)))"

text \<open>The services of the default configurations find each other: the backends listen where the
  proxy's tables and the Debian service's default send their requests.\<close>

theorem default_addresses:
  "(\<exists>s \<in> set finder_servers. srv_name s = ''nix'' \<and> srv_url s = ''https://'' @ xf_listenAddr nix_default_config) \<and>
   (\<exists>s \<in> set finder_delegates. srv_name s = ''debian-src'' \<and> srv_url s = ''http://'' @ dm_addr (deb_main parse (\<lambda>_. []))) \<and>
   (\<exists>sv. unpack_main uf (\<lambda>_. []) (\<lambda>_. None) (\<lambda>_. None) = Inr (''127.0.0.1:8035'', sv) \<and>
     dm_unpacker (deb_main parse (\<lambda>_. [])) = ''http://'' @ ''127.0.0.1:8035'')"
  by (simp add: finder_servers_def finder_delegates_def nix_default_config_def deb_main_def unpack_main_def envOr_def
      up_server_def Let_def)

end
