(* ===== verification/Spec2Isabelle.thy ===== *)
theory Spec2Isabelle
  imports DebTrees VolumeSpec DebServe CacheSafety Finder IPRanges ProxyServe NixSafety NixProbe
    StatsViews StatsPages Releases StatsPageInert ReleasePageInert NixFetchSafety CacheStat Schema Transport NixStart ReleaseCurves Startup
begin

text \<open>
  Verification library for the debuginfod proxy, a set of Go services.

  The program. Clients (gdb, pwndbg) ask \<open>cmd/proxy\<close> for the debug information, the executable or a
  source file of a build ID. The proxy finds out which upstream server knows the build ID
  (\<open>finder.go\<close>), remembers the answer in an LRU and in a database, and streams the file through a
  cache on disk (\<open>filecache.go\<close>); concurrent requests for one file share one download. Two
  upstreams are services of the same repository. \<open>cmd/nix-debuginfod\<close> turns store paths of the Nix
  binary cache into read-only images, mounts them and answers from the mounts. \<open>cmd/deb-debuginfod\<close>
  serves Debian sources: it asks \<open>cmd/deb-unpack\<close> to unpack a source package on a shared volume and
  looks files up in the unpacked tree with \<open>srcindex\<close>. \<open>cmd/releases\<close> redirects to release
  downloads and, like the proxy, renders statistics from the access log.

  Theories, in the order of the code.
  \<^item> Prelude, GoLib, GoFacts: shared vocabulary; \<open>strings\<close>, \<open>path\<close> and \<open>filepath\<close> of Go's library as
    functions on strings (a string is the list of its bytes), and the facts about splitting,
    joining and cleaning that every path argument rests on. Maps of Go are association lists or
    partial maps; iteration order is fixed only where the code does not depend on it.
  \<^item> SrcIndex: \<open>srcindex.New\<close> and \<open>Find\<close>. The walk of a tree is a list of events.
    Find\_best and Find\_contained say which file is answered and that it lies in a tree.
  \<^item> FileSys: directories, files and renames as \<open>os\<close> gives them, a file system being a map from
    component lists to nodes. DebUnpack, DebVolume, VolumeSpec, DebTrees: \<open>cmd/deb-unpack\<close>. An
    unpack is a machine with one system call per step (\<open>unpack_step\<close>); \<open>vol_step\<close> interleaves any number
    of requests with kills, deletions and sweeps. volume\_complete is the invariant,
    volume\_refines\_store the refinement of a map of whole trees, unpack\_ends the termination:
    \<open>run_unpack\<close> takes fuel, and from every volume some fuel, and then any more, gives a result.
  \<^item> DebArchive, DebServe: \<open>cmd/deb-debuginfod\<close>, the archive header parser, \<open>resolve\<close>, \<open>indexFor\<close>,
    \<open>handleSource\<close> and the eviction pass.
  \<^item> Budget: the locale \<open>budget_evictor\<close>, a pass that deletes oldest first until the rest fits; both
    eviction passes (deb-debuginfod's trees, the proxy's files) are interpretations of it.
  \<^item> CacheFiles: keys, paths, publication and eviction of \<open>filecache.go\<close>. Floating point enters the
    eviction target only, as rounding to 53 bits. CacheFlight: \<open>Serve\<close>, \<open>download\<close>, \<open>follow\<close> and
    \<open>entryReader\<close> as machines that share the cache; CacheSafety: what holds under every
    interleaving, above all no\_truncated\_success.
  \<^item> ProxyErr, Finder: the errors of the proxy (joined errors as lists), the server tables, \<open>Probe\<close>,
    \<open>tryAllServers\<close> as a machine over the order in which probes end, the backoff and the state.
  \<^item> IPRanges: the tagged ranges and the trusted addresses of \<open>ghranges.go\<close> and \<open>cfip.go\<close>, with their
    refresh.
  \<^item> RespWriter: the logging response writers of the three services, all interpretations of the
    locale \<open>resp_writer\<close> over \<open>net/http\<close>'s connection, the middlewares and the access-log row.
    ProxyServe: \<open>proxyRequest\<close> over finder, cache and connection; unaborted\_response\_whole composes
    them.
  \<^item> NixStore, NixSafety, NixProbe: \<open>cmd/nix-debuginfod\<close> over a file system with symbolic links, its
    safety properties, and the two services together: what the proxy's probe makes of the
    backend's answer. The code's own bounds are kept: 16 passes of \<open>Open\<close> (maxResolveHops), 256
    steps of a resolution (maxResolveSteps); the kernel follows 40 links as Linux does. What a
    request does to the store is an interpretation of the locale \<open>nix_steps\<close>, or of \<open>nix_mounts\<close>,
    which gives it from the builds and mounts a request is made of.
  \<^item> NixStart: \<open>newStore\<close> after a process that ended with its mounts in place; what a process leaves is a
    third interpretation of \<open>nix_mounts\<close>. restart\_clears\_points composes run, end and start.
  \<^item> NixFetch, NixFetchSafety: \<open>nix/\<close>, which fills the store's images: requests to the binary cache,
    sniffing, decompression, NAR to tar and the pipe to \<open>mkfs.erofs\<close>, whose behaviour is the parameter
    \<open>nar_world\<close>. mounts\_show\_whole\_archives composes it with the store: nothing cut short is served.
  \<^item> Transport: the TLS and deadline decisions of \<open>finder.go\<close>'s two transports, which
    third\_parties\_verified evaluates over the tables, and \<open>useragent\<close>.
  \<^item> GhPoll, Schema: one poll of GitHub's counters; the tables, migrations and inserts of the three
    \<open>db.go\<close>. \<open>migrates\<close> checks a list of statements, and inserts\_find\_columns draws from the check that
    no insert meets a table without its columns.
  \<^item> CacheStat: \<open>cachestat.go\<close> and \<open>fsspace_unix.go\<close>; usage\_matches\_eviction relates what the page shows
    to what the eviction pass adds up.
  \<^item> Stats, StatsViews, StatsPages, Releases: the statistics of both services. A query is the list
    of its rows or an error. slice\_is\_collect says that a shorter view cut out of the long
    snapshot has the numbers a collection over the shorter window has. ReleaseStats collects the
    windows of \<open>cmd/releases\<close>. StatsQueries: the queries of the proxy's page as functions of the logged
    rows (groups, sums and counts as lists; \<open>uniq\<close> and \<open>quantile\<close> are arguments).
    page\_counts\_requests relates the numbers of the page to the log, and log\_db\_windows discharges
    the hypothesis of slice\_is\_collect for every log. ReleaseQueries, ReleaseCurves: the same for
    \<open>cmd/releases\<close>, with the counts of its log (release\_page\_counts), the labels of its bars
    (window\_labels\_closed), the growth of GitHub's counters (daily\_downloads\_growth) and the
    adoption curves against a running maximum (curve\_is\_running\_maximum).
  \<^item> RenderKit, PageAssets, StatsRender, ReleaseRender: both \<open>stats_render.go\<close>, the pages as the text the
    code writes; \<open>None\<close> is the panic of an index out of range, float arithmetic and its formatting are
    the parameter \<open>rfloats\<close>. Html is a tokenizer for what a page is to a browser (tags, attribute
    values, raw text, open elements). RenderFacts, StatsPageSafe, StatsPageTotal, StatsPageInert,
    ReleasePageSafe, ReleasePageInert: every collected snapshot renders, every page is well formed
    (refresh\_pages\_render, release\_pages\_render), and no name in it can become markup
    (stats\_page\_inert, release\_page\_inert: other names, same brackets and quotes).

  \<^item> Services: the proxy's middlewares, router and handlers composed as \<open>main\<close> composes them, from a request on
    the wire to the row of the access log. httprouter's matching is a parameter.
    page\_shows\_answers follows requests from the wire over the row to the numbers of the page.
    Startup: the routers of the other services, the \<open>main\<close> functions as configurations to services (which
    directories, limits, addresses and periods reach which component), the worker loops and the
    names a certificate is made for.

  Conventions. A request, a tick and a shutdown are steps; what the outside decides (answers of
  upstreams, what \<open>dpkg-source\<close> writes, \<open>mkfs.erofs\<close> and \<open>mount\<close>, the clock, the order in which
  goroutines run, when a client disconnects) is an argument of the step, so a theorem holds for
  every choice. Errors are values of a sum. Machine integers whose overflow can matter are words
  (\<open>u64\<close>, \<open>int64\<close> sizes are bounded where the code bounds them). Code that is not under \<open>src\<close> and whose
  result matters is a parameter with its documented contract as a named hypothesis: SHA-256, the
  gzip compressor, JSON and address parsers, float64 operations of the statistics.

  Not modelled, and why. Reading the environment into a configuration and matching a path against routes are
  done by libraries that are not under \<open>src\<close>; the configuration and the matched route are arguments.
  Accepting connections, the times at which tickers fire and the making of a key and a certificate
  are the standard library's; logging has no effect on answers; connecting to the database is the
  driver's, and how it orders the groups of a query is left open.
  The Nix store's requests run one after another: its locks and its singleflight are that order.
\<close>

end
